(* ===== verification/Prelude.thy ===== *)
theory Prelude
  imports Main "HOL-Library.Monad_Syntax"
begin

text \<open>
  Shared vocabulary of the development: the model's basic types, Python's string operations
  on lists of characters, querysets as lists of rows, results of an API view, and the generic
  lemmas and the two loop contracts that the component theories use.
\<close>

section \<open>Basic types\<close>

text \<open>
  An instant is a number of microseconds since the epoch (an aware \<open>datetime\<close>), a primary
  key is a natural number, a text is a list of characters.
\<close>

type_synonym instant = int
type_synonym pk = nat

definition second :: int where "second = 1000000"
definition minute :: int where "minute = 60 * second"
definition hour :: int where "hour = 60 * minute"
definition day :: int where "day = 24 * hour"

lemmas time_units = second_def minute_def hour_def day_def

named_theorems row_simps \<open>equations of the queryset operations\<close>
named_theorems frame \<open>what an operation leaves unchanged\<close>

section \<open>Results of a view\<close>

text \<open>
  A view answers with a status and a body, refuses with a status and a stable error code, or
  refuses the input with the messages of the offending fields (status 400).
\<close>

type_synonym field_errors = "(string \<times> string list) list"

datatype 'a response = Reply nat 'a | Refuse nat string | Invalid field_errors

fun response_status :: "'a response \<Rightarrow> nat" where
  "response_status (Reply n _) = n"
| "response_status (Refuse n _) = n"
| "response_status (Invalid _) = 400"

text \<open>\<open>errors.setdefault(field, []).append(message)\<close> on an insertion-ordered dict.\<close>

fun add_error :: "field_errors \<Rightarrow> string \<Rightarrow> string \<Rightarrow> field_errors" where
  "add_error [] f m = [(f, [m])]"
| "add_error ((g, ms) # es) f m =
     (if g = f then (g, ms @ [m]) # es else (g, ms) # add_error es f m)"

text \<open>\<open>errors[field] = [message]\<close>.\<close>

fun set_error :: "field_errors \<Rightarrow> string \<Rightarrow> string \<Rightarrow> field_errors" where
  "set_error [] f m = [(f, [m])]"
| "set_error ((g, ms) # es) f m =
     (if g = f then (g, [m]) # es else (g, ms) # set_error es f m)"

lemma add_error_not_Nil [simp]: "add_error es f m \<noteq> []"
  by (cases "(es, f, m)" rule: add_error.cases) auto

lemma set_error_not_Nil [simp]: "set_error es f m \<noteq> []"
  by (cases "(es, f, m)" rule: set_error.cases) auto

definition field_messages :: "field_errors \<Rightarrow> string \<Rightarrow> string list" where
  "field_messages es f = (case map_of es f of None \<Rightarrow> [] | Some ms \<Rightarrow> ms)"

section \<open>Python strings\<close>

definition is_space :: "char \<Rightarrow> bool" where
  "is_space c = (let n = of_char c :: nat in
     n = 32 \<or> (9 \<le> n \<and> n \<le> 13) \<or> (28 \<le> n \<and> n \<le> 31) \<or> n = 133 \<or> n = 160)"

definition lstrip :: "string \<Rightarrow> string" where
  "lstrip s = dropWhile is_space s"

definition strip :: "string \<Rightarrow> string" where
  "strip s = rev (dropWhile is_space (rev (dropWhile is_space s)))"

definition lower_char :: "char \<Rightarrow> char" where
  "lower_char c = (let n = of_char c :: nat in
     if 65 \<le> n \<and> n \<le> 90 then char_of (n + 32) else c)"

definition lower :: "string \<Rightarrow> string" where
  "lower s = map lower_char s"

definition upper_char :: "char \<Rightarrow> char" where
  "upper_char c = (let n = of_char c :: nat in
     if 97 \<le> n \<and> n \<le> 122 then char_of (n - 32) else c)"

definition upper :: "string \<Rightarrow> string" where
  "upper s = map upper_char s"

definition starts_with :: "string \<Rightarrow> string \<Rightarrow> bool" where
  "starts_with s p = (take (length p) s = p)"

definition ends_with :: "string \<Rightarrow> string \<Rightarrow> bool" where
  "ends_with s p = (length p \<le> length s \<and> drop (length s - length p) s = p)"

text \<open>\<open>s.rpartition(c)[2]\<close> and \<open>s.rsplit(c, 1)[-1]\<close>: what follows the last \<open>c\<close>.\<close>

definition after_last :: "char \<Rightarrow> string \<Rightarrow> string" where
  "after_last c s = rev (takeWhile (\<lambda>x. x \<noteq> c) (rev s))"

text \<open>What precedes the last \<open>c\<close>; the empty text when there is no \<open>c\<close>.\<close>

definition before_last :: "char \<Rightarrow> string \<Rightarrow> string" where
  "before_last c s = rev (tl (dropWhile (\<lambda>x. x \<noteq> c) (rev s)))"

text \<open>\<open>s.split(c, 1)\<close>: the two sides of the first \<open>c\<close>, when there is one.\<close>

definition split_first :: "char \<Rightarrow> string \<Rightarrow> (string \<times> string) option" where
  "split_first c s = (if c \<in> set s
     then Some (takeWhile (\<lambda>x. x \<noteq> c) s, tl (dropWhile (\<lambda>x. x \<noteq> c) s)) else None)"

text \<open>\<open>" ".join(s.split())\<close>: runs of white space become one space, none at the ends.\<close>

fun words_of :: "string \<Rightarrow> string \<Rightarrow> string list" where
  "words_of acc [] = (if acc = [] then [] else [rev acc])"
| "words_of acc (c # cs) =
     (if is_space c then (if acc = [] then words_of [] cs else rev acc # words_of [] cs)
      else words_of (c # acc) cs)"

fun join :: "string \<Rightarrow> string list \<Rightarrow> string" where
  "join sep [] = []"
| "join sep [x] = x"
| "join sep (x # y # zs) = x @ sep @ join sep (y # zs)"

definition squeeze :: "string \<Rightarrow> string" where
  "squeeze s = join '' '' (words_of [] s)"

text \<open>\<open>s.replace(old, new)\<close>: left to right, on what is left after each match.\<close>

fun replace_aux :: "nat \<Rightarrow> string \<Rightarrow> string \<Rightarrow> string \<Rightarrow> string" where
  "replace_aux 0 old new s = s"
| "replace_aux (Suc k) old new [] = []"
| "replace_aux (Suc k) old new (c # cs) =
     (if starts_with (c # cs) old then new @ replace_aux k old new (drop (length old) (c # cs))
      else c # replace_aux k old new cs)"

definition str_replace :: "string \<Rightarrow> string \<Rightarrow> string \<Rightarrow> string" where
  "str_replace s old new = (if old = [] then s else replace_aux (Suc (length s)) old new s)"

fun contains :: "string \<Rightarrow> string \<Rightarrow> bool" where
  "contains [] p = (p = [])"
| "contains (c # cs) p = (starts_with (c # cs) p \<or> contains cs p)"

text \<open>Decimal rendering, as \<open>str(n)\<close>.\<close>

function decimal :: "nat \<Rightarrow> string" where
  "decimal n = (if n < 10 then [char_of (n + 48)] else decimal (n div 10) @ [char_of (n mod 10 + 48)])"
  by pat_completeness auto
termination by (relation "measure id") auto

declare decimal.simps [simp del]

definition str_int :: "int \<Rightarrow> string" where
  "str_int i = (if i < 0 then CHR ''-'' # decimal (nat (- i)) else decimal (nat i))"

lemma strip_Nil [simp]: "strip [] = []"
  by (simp add: strip_def)

lemma dropWhile_idem [simp]: "dropWhile P (dropWhile P xs) = dropWhile P xs"
  by (induction xs) auto

lemma dropWhile_rev_dropWhile:
  "dropWhile P (rev (dropWhile P (rev (dropWhile P s)))) = rev (dropWhile P (rev (dropWhile P s)))"
proof (cases "dropWhile P s")
  case Nil
  show ?thesis by (simp only: Nil rev.simps dropWhile.simps)
next
  case (Cons a as)
  then have na: "\<not> P a" by (metis dropWhile_eq_Cons_conv)
  then have "dropWhile P (rev as @ [a]) = dropWhile P (rev as) @ [a]"
    by (simp add: dropWhile_append3 dropWhile_append)
  with Cons na show ?thesis by simp
qed

lemma strip_idem [simp]: "strip (strip s) = strip s"
  unfolding strip_def by (simp add: dropWhile_rev_dropWhile)

lemma lower_char_idem [simp]: "lower_char (lower_char c) = lower_char c"
proof (cases "65 \<le> (of_char c :: nat) \<and> (of_char c :: nat) \<le> 90")
  case True
  then have "lower_char c = char_of ((of_char c :: nat) + 32)"
    by (simp add: lower_char_def Let_def)
  moreover have "of_char (char_of ((of_char c :: nat) + 32) :: char) = (of_char c :: nat) + 32"
    using True by (simp add: of_char_of)
  ultimately show ?thesis using True by (simp add: lower_char_def Let_def)
next
  case False
  then show ?thesis by (auto simp: lower_char_def Let_def)
qed

lemma lower_idem [simp]: "lower (lower s) = lower s"
  by (simp add: lower_def)

lemma lower_Nil [simp]: "lower [] = []" and lower_eq_Nil [simp]: "lower s = [] \<longleftrightarrow> s = []"
  by (simp_all add: lower_def)

lemma is_space_lower_char [simp]: "is_space (lower_char c) = is_space c"
proof (cases "65 \<le> (of_char c :: nat) \<and> (of_char c :: nat) \<le> 90")
  case True
  then have "of_char (lower_char c) = (of_char c :: nat) + 32"
    by (simp add: lower_char_def Let_def of_char_of)
  with True show ?thesis by (auto simp: is_space_def Let_def)
next
  case False
  then show ?thesis by (auto simp: lower_char_def Let_def)
qed

lemma dropWhile_lower: "dropWhile is_space (lower s) = lower (dropWhile is_space s)"
  by (induction s) (auto simp: lower_def)

lemma lower_rev: "lower (rev s) = rev (lower s)"
  by (simp add: lower_def rev_map)

lemma strip_lower: "strip (lower s) = lower (strip s)"
  by (simp add: strip_def dropWhile_lower flip: lower_rev)

lemma starts_with_iff: "starts_with s p \<longleftrightarrow> (\<exists>t. s = p @ t)"
  by (metis append_eq_conv_conj append_take_drop_id starts_with_def)

lemma ends_with_iff: "ends_with s p \<longleftrightarrow> (\<exists>t. s = t @ p)"
proof
  assume "ends_with s p"
  then show "\<exists>t. s = t @ p"
    by (metis append_take_drop_id ends_with_def)
qed (auto simp: ends_with_def)

section \<open>Querysets\<close>

text \<open>
  A table is the list of its rows in primary-key order. A filter is the library's
  \<open>filter\<close>; \<open>.first()\<close> after it is \<open>List.find\<close>; \<open>.update(...)\<close> rewrites the matching rows
  in place and returns how many there were; \<open>.delete()\<close> keeps the others.
\<close>

definition update_where :: "('r \<Rightarrow> bool) \<Rightarrow> ('r \<Rightarrow> 'r) \<Rightarrow> 'r list \<Rightarrow> 'r list" where
  "update_where P f rs = map (\<lambda>r. if P r then f r else r) rs"

definition count_where :: "('r \<Rightarrow> bool) \<Rightarrow> 'r list \<Rightarrow> nat" where
  "count_where P rs = length (filter P rs)"

definition exists_where :: "('r \<Rightarrow> bool) \<Rightarrow> 'r list \<Rightarrow> bool" where
  "exists_where P rs = list_ex P rs"

lemma set_update_where [row_simps]:
  "set (update_where P f rs) = {r \<in> set rs. \<not> P r} \<union> f ` {r \<in> set rs. P r}"
  by (auto simp: update_where_def)

lemma length_update_where [row_simps, simp]: "length (update_where P f rs) = length rs"
  by (simp add: update_where_def)

lemma update_where_Nil [row_simps, simp]: "update_where P f [] = []"
  by (simp add: update_where_def)

lemma update_where_Cons [row_simps, simp]:
  "update_where P f (r # rs) = (if P r then f r else r) # update_where P f rs"
  by (simp add: update_where_def)

lemma map_update_where [row_simps]:
  "(\<And>r. k (f r) = k r) \<Longrightarrow> map k (update_where P f rs) = map k rs"
  by (auto simp: update_where_def)

lemma find_update_where_other:
  "(\<And>r. k (f r) = k r) \<Longrightarrow> (\<And>r. k r = i \<Longrightarrow> \<not> P r) \<Longrightarrow>
   List.find (\<lambda>r. k r = i) (update_where P f rs) = List.find (\<lambda>r. k r = i) rs"
  by (induction rs) auto

lemma find_update_where_key:
  "(\<And>r. k (f r) = k r) \<Longrightarrow>
   List.find (\<lambda>r. k r = i) (update_where P f rs) =
   map_option (\<lambda>r. if P r then f r else r) (List.find (\<lambda>r. k r = i) rs)"
  by (induction rs) auto

lemma find_append: "List.find P (xs @ ys) = (case List.find P xs of None \<Rightarrow> List.find P ys | r \<Rightarrow> r)"
  by (induction xs) auto

lemma find_SomeD: "List.find P xs = Some x \<Longrightarrow> x \<in> set xs \<and> P x"
  by (auto simp: find_Some_iff)

lemma find_None_filter: "List.find P xs = None \<longleftrightarrow> filter P xs = []"
  by (induction xs) auto

lemma find_eq_hd_filter:
  "List.find P xs = (case filter P xs of [] \<Rightarrow> None | x # _ \<Rightarrow> Some x)"
  by (induction xs) auto

lemma find_key_unique:
  assumes "distinct (map k rs)" and "r \<in> set rs"
  shows "List.find (\<lambda>x. k x = k r) rs = Some r"
  using assms by (induction rs) (auto simp: image_iff)

text \<open>A loop of single-row conditional updates is one conditional update.\<close>

lemma fold_update_where_key:
  assumes "\<And>r. k (f r) = k r" and "\<And>r. P r \<Longrightarrow> \<not> P (f r)"
  shows "fold (\<lambda>i. update_where (\<lambda>r. k r = i \<and> P r) f) ks rs = update_where (\<lambda>r. k r \<in> set ks \<and> P r) f rs"
proof (induction ks arbitrary: rs)
  case Nil
  then show ?case by (simp add: update_where_def)
next
  case (Cons i ks)
  then show ?case using assms by (auto simp: update_where_def)
qed

section \<open>Loop contracts\<close>

text \<open>
  Most tasks of the program are a loop over rows whose body rewrites the state. A loop keeps
  what its body keeps (\<open>loop_invariant\<close>) and only moves a measure one way when its body does
  (\<open>loop_monotone\<close>).
\<close>

locale loop_invariant =
  fixes body :: "'e \<Rightarrow> 's \<Rightarrow> 's"
    and fits :: "'e \<Rightarrow> bool"
    and good :: "'s \<Rightarrow> bool"
  assumes body_good: "fits e \<Longrightarrow> good s \<Longrightarrow> good (body e s)"
begin

lemma fold_good: "list_all fits es \<Longrightarrow> good s \<Longrightarrow> good (fold body es s)"
  by (induction es arbitrary: s) (auto intro: body_good)

end

locale loop_monotone =
  fixes body :: "'e \<Rightarrow> 's \<Rightarrow> 's"
    and below :: "'s \<Rightarrow> 's \<Rightarrow> bool"
  assumes below_refl: "below s s"
    and below_trans: "below s t \<Longrightarrow> below t u \<Longrightarrow> below s u"
    and body_below: "below s (body e s)"
begin

lemma fold_below: "below s (fold body es s)"
proof (induction es arbitrary: s)
  case Nil
  then show ?case by (simp add: below_refl)
next
  case (Cons e es)
  then show ?case by (auto intro: below_trans body_below)
qed

end

end
