(* ===== verification/Store.thy ===== *)
theory Store
  imports Prelude
begin

text \<open>
  The data model: the enumerations and rows of \<open>accounts/models.py\<close>, \<open>applications/models.py\<close>,
  \<open>applications/models_send_token.py\<close>, \<open>devices/models.py\<close>, \<open>notifications/models.py\<close> and
  \<open>billing/models.py\<close>, the database that holds one list of rows per table, and what the
  program hands to the outside world (tasks submitted to the broker, pushes handed to the
  provider, mails). Audit columns nothing reads (\<open>updated_at\<close>) are left out.
\<close>

section \<open>Enumerations\<close>

datatype delivery_status = D_Pending | D_Sent | D_Failed

datatype notification_status =
  Draft | Scheduled | Queued | Processing | Sent | Failed | Partial | No_Target

datatype inbound_source = Polling | Webhook

datatype ingestion_status = I_Created | I_Existing | I_Rejected | I_Conflict | I_Error

datatype quiet_period_type = Once | Recurring

datatype device_token_status = T_Active | T_Invalid | T_Revoked

datatype device_platform = Android | Ios

datatype unlink_source = Device_Button | Inbox | Takeover | Owner_Eviction

datatype sender_mode = Mode_Owner | Mode_Anyone

section \<open>Rows\<close>

record user =
  user_id :: pk
  user_email :: string
  user_is_active :: bool
  email_confirmed :: bool
  subscription_bypass :: bool
  bypass_note :: string
  bypass_granted_at :: "instant option"
  user_is_staff :: bool
  user_is_superuser :: bool
  user_password :: string
  userkey :: string
  language :: string

text \<open>\<open>user_password\<close> is the encoded hash Django stores; an unusable password is the empty text.\<close>

record magic_link_token =
  ml_id :: pk
  ml_user :: pk
  ml_token_hash :: string
  ml_created_at :: instant
  ml_expires_at :: instant
  ml_used_at :: "instant option"

record bypass_grant_log =
  bgl_actor :: "pk option"
  bgl_actor_label :: string
  bgl_target :: "pk option"
  bgl_target_label :: string
  bgl_granted :: bool
  bgl_note :: string
  bgl_created_at :: instant

record application =
  app_id :: pk
  app_owner :: pk
  app_name :: string
  app_description :: string
  app_token_prefix :: string
  app_token_hash :: string
  enrolment_code :: string
  enrolment_code_rotated_at :: "instant option"
  legacy_send_last_used_at :: "instant option"
  inbound_email_alias :: string
  inbound_email_suffix :: string
  webhook_url :: string
  webhook_secret :: string
  inbound_sender_mode :: sender_mode
  inbound_sender_allowlist :: "string list"
  inbound_sender_blocklist :: "string list"
  inbound_rejection_notify_email :: bool
  inbound_rejection_notify_push :: bool
  inbound_rejection_reply_to_sender :: bool
  app_is_active :: bool
  app_revoked_at :: "instant option"
  app_last_used_at :: "instant option"
  app_icon :: string
  app_logo :: string
  app_created_at :: instant

text \<open>
  A quiet period of an application or of a device: \<open>qp_parent\<close> is the key of the one it
  belongs to. Times of day are microseconds after midnight, week days count from Monday = 0.
\<close>

record quiet_period =
  qp_id :: pk
  qp_parent :: pk
  qp_name :: string
  period_type :: quiet_period_type
  start_at :: "instant option"
  end_at :: "instant option"
  recurrence_days :: "int list"
  start_time :: "int option"
  end_time :: "int option"
  qp_is_active :: bool

record send_token =
  tok_id :: pk
  tok_application :: pk
  tok_name :: string
  tok_prefix :: string
  token_hash :: string
  secret_encrypted :: string
  tok_created_at :: instant
  tok_last_used_at :: "instant option"
  tok_revoked_at :: "instant option"

record token_reveal =
  rev_token :: pk
  rev_actor :: "pk option"
  rev_actor_label :: string
  rev_created_at :: instant

record device =
  dev_id :: pk
  dev_user :: "pk option"
  device_name :: string
  platform :: device_platform
  push_token :: string
  push_token_status :: device_token_status
  last_seen_at :: "instant option"
  dev_created_at :: instant
  dev_is_active :: bool
  invalidated_at :: "instant option"
  invalidation_reason :: string
  failure_count :: nat

record device_link =
  link_id :: pk
  link_device :: pk
  link_application :: pk
  link_is_active :: bool
  linked_at :: instant
  unlinked_at :: "instant option"
  unlink_source :: "unlink_source option"

record notification =
  ntf_id :: pk
  ntf_application :: pk
  title :: string
  message :: string
  image :: string
  ntf_status :: notification_status
  ntf_created_at :: instant
  scheduled_for :: "instant option"
  ntf_sent_at :: "instant option"
  processing_started_at :: "instant option"
  idempotency_key :: string
  request_fingerprint :: string
  is_visible :: bool

record template =
  tpl_id :: pk
  tpl_application :: pk
  tpl_name :: string
  title_template :: string
  message_template :: string

record delivery =
  dlv_id :: pk
  dlv_notification :: pk
  dlv_device :: pk
  dlv_status :: delivery_status
  provider_message_id :: string
  error_message :: string
  dlv_sent_at :: "instant option"
  delivered_at :: "instant option"
  opened_at :: "instant option"
  attempt_count :: nat
  last_attempt_at :: "instant option"
  next_retry_at :: "instant option"

record ingestion_log =
  log_id :: pk
  log_source :: inbound_source
  log_status :: ingestion_status
  log_application :: "pk option"
  log_notification :: "pk option"
  log_sender :: string
  log_recipient :: string
  log_subject :: string
  log_message_id :: string
  mailbox_uid :: string
  log_scheduled_for :: "instant option"
  log_error_message :: string
  processed_at :: instant

text \<open>\<open>quotas\<close> is a JSON object; only integers count as a quota.\<close>

datatype json_value = J_Int int | J_Other

record subscription =
  sub_user :: pk
  stripe_customer_id :: string
  sub_status :: string
  sub_plan :: string
  sub_interval :: string
  current_period_end :: "instant option"
  is_paid :: bool
  quotas :: "(string \<times> json_value) list"
  grace_until :: "instant option"

section \<open>The database and the outside world\<close>

datatype task =
    Send_Notification pk
  | Webhook_Callback pk pk notification_status "instant option"

record mail =
  mail_to :: string
  mail_subject :: string
  mail_body :: string

text \<open>
  \<open>broker\<close> lists the tasks submitted to Celery, \<open>provider_log\<close> the pushes the provider accepted
  (notification, device), \<open>outbox\<close> the mails sent, oldest first. \<open>next_pk\<close> is the sequence
  that numbers new rows: keys are never reused.
\<close>

record db =
  users :: "user list"
  applications :: "application list"
  app_quiet_periods :: "quiet_period list"
  send_tokens :: "send_token list"
  reveals :: "token_reveal list"
  devices :: "device list"
  device_quiet_periods :: "quiet_period list"
  links :: "device_link list"
  notifications :: "notification list"
  templates :: "template list"
  deliveries :: "delivery list"
  inbound_logs :: "ingestion_log list"
  subscriptions :: "subscription list"
  receipts :: "string list"
  magic_links :: "magic_link_token list"
  bypass_logs :: "bypass_grant_log list"
  next_pk :: pk
  broker :: "task list"
  provider_log :: "(pk \<times> pk) list"
  outbox :: "mail list"

definition empty_db :: db where
  "empty_db = \<lparr>users = [], applications = [], app_quiet_periods = [], send_tokens = [],
     reveals = [], devices = [], device_quiet_periods = [], links = [], notifications = [],
     templates = [], deliveries = [], inbound_logs = [], subscriptions = [], receipts = [],
     magic_links = [], bypass_logs = [],
     next_pk = 1, broker = [], provider_log = [], outbox = []\<rparr>"

section \<open>Settings\<close>

text \<open>The settings (\<open>config/settings/base.py\<close>) that the modelled code reads.\<close>

record config =
  billing_base_url :: string
  billing_app_secret :: string
  db_supports_row_locking :: bool
  processing_stuck_minutes :: int
  public_media_base_url :: string
  frontend_base_url :: string
  force_mock_push :: bool
  fcm_service_account_path :: string
  push_delivery_mode :: string
  inbound_email_domain :: string
  inbound_email_alias_suffix :: string
  graph_mailbox_user_id :: string
  exchange_shared_mailbox :: string
  require_dmarc :: bool
  dmarc_accept_bestguesspass :: bool
  dmarc_allow_no_policy :: bool
  dmarc_trust_internal :: bool
  dmarc_notify_owner :: bool
  max_processing_attempts :: int
  auto_reply_interval_seconds :: int
  poll_lock_ttl_seconds :: int
  retention_notification_days :: int
  retention_inbound_email_log_days :: int
  retention_invalid_device_days :: int

text \<open>The defaults of the settings file, with billing and FCM not configured.\<close>

definition default_config :: config where
  "default_config = \<lparr>billing_base_url = [], billing_app_secret = [], db_supports_row_locking = True,
     processing_stuck_minutes = 15, public_media_base_url = [], frontend_base_url = [],
     force_mock_push = False, fcm_service_account_path = [], push_delivery_mode = ''hybrid'',
     inbound_email_domain = ''foxugly.com'', inbound_email_alias_suffix = ''.pushit'',
     graph_mailbox_user_id = [], exchange_shared_mailbox = [], require_dmarc = False,
     dmarc_accept_bestguesspass = True, dmarc_allow_no_policy = False, dmarc_trust_internal = True,
     dmarc_notify_owner = True, max_processing_attempts = 5, auto_reply_interval_seconds = 3600,
     poll_lock_ttl_seconds = 300, retention_notification_days = 365,
     retention_inbound_email_log_days = 90, retention_invalid_device_days = 30\<rparr>"

section \<open>Rows with neutral values\<close>

text \<open>Starting points for concrete states: every optional column empty.\<close>

definition blank_application :: application where
  "blank_application = \<lparr>app_id = 1, app_owner = 1, app_name = ''a'', app_description = [],
     app_token_prefix = [], app_token_hash = [], enrolment_code = [], enrolment_code_rotated_at = None,
     legacy_send_last_used_at = None, inbound_email_alias = [], inbound_email_suffix = [],
     webhook_url = [], webhook_secret = [], inbound_sender_mode = Mode_Owner,
     inbound_sender_allowlist = [], inbound_sender_blocklist = [], inbound_rejection_notify_email = False,
     inbound_rejection_notify_push = False, inbound_rejection_reply_to_sender = False,
     app_is_active = True, app_revoked_at = None, app_last_used_at = None, app_icon = [], app_logo = [],
     app_created_at = 0\<rparr>"

definition blank_user :: user where
  "blank_user = \<lparr>user_id = 1, user_email = ''o@x.io'', user_is_active = True, email_confirmed = True,
     subscription_bypass = False, bypass_note = [], bypass_granted_at = None, user_is_staff = False, user_is_superuser = False,
     user_password = [], userkey = ''usr_000000000001'', language = ''FR''\<rparr>"

definition blank_device :: device where
  "blank_device = \<lparr>dev_id = 1, dev_user = None, device_name = ''d'', platform = Android,
     push_token = ''push-token'', push_token_status = T_Active, last_seen_at = None, dev_created_at = 0,
     dev_is_active = True, invalidated_at = None, invalidation_reason = [], failure_count = 0\<rparr>"

definition blank_link :: device_link where
  "blank_link = \<lparr>link_id = 1, link_device = 1, link_application = 1, link_is_active = True,
     linked_at = 0, unlinked_at = None, unlink_source = None\<rparr>"

definition blank_notification :: notification where
  "blank_notification = \<lparr>ntf_id = 1, ntf_application = 1, title = ''t'', message = ''m'', image = [],
     ntf_status = Queued, ntf_created_at = 0, scheduled_for = None, ntf_sent_at = None,
     processing_started_at = None, idempotency_key = [], request_fingerprint = [], is_visible = True\<rparr>"

definition blank_delivery :: delivery where
  "blank_delivery = \<lparr>dlv_id = 1, dlv_notification = 1, dlv_device = 1, dlv_status = D_Pending,
     provider_message_id = [], error_message = [], dlv_sent_at = None, delivered_at = None,
     opened_at = None, attempt_count = 0, last_attempt_at = None, next_retry_at = None\<rparr>"

lemmas blank_rows = blank_application_def blank_user_def blank_device_def blank_link_def
  blank_notification_def blank_delivery_def

section \<open>Queries by primary key and frequent filters\<close>

definition get_user :: "db \<Rightarrow> pk \<Rightarrow> user option" where
  "get_user s i = List.find (\<lambda>r. user_id r = i) (users s)"

definition get_application :: "db \<Rightarrow> pk \<Rightarrow> application option" where
  "get_application s i = List.find (\<lambda>r. app_id r = i) (applications s)"

definition get_device :: "db \<Rightarrow> pk \<Rightarrow> device option" where
  "get_device s i = List.find (\<lambda>r. dev_id r = i) (devices s)"

definition get_notification :: "db \<Rightarrow> pk \<Rightarrow> notification option" where
  "get_notification s i = List.find (\<lambda>r. ntf_id r = i) (notifications s)"

definition get_delivery :: "db \<Rightarrow> pk \<Rightarrow> delivery option" where
  "get_delivery s i = List.find (\<lambda>r. dlv_id r = i) (deliveries s)"

definition deliveries_of :: "db \<Rightarrow> pk \<Rightarrow> delivery list" where
  "deliveries_of s nid =
     sort_key dlv_device (filter (\<lambda>d. dlv_notification d = nid) (deliveries s))"

definition link_of :: "db \<Rightarrow> pk \<Rightarrow> pk \<Rightarrow> device_link option" where
  "link_of s dev app =
     List.find (\<lambda>l. link_device l = dev \<and> link_application l = app) (links s)"

definition actively_linked :: "db \<Rightarrow> pk \<Rightarrow> pk \<Rightarrow> bool" where
  "actively_linked s dev app \<longleftrightarrow>
     list_ex (\<lambda>l. link_device l = dev \<and> link_application l = app \<and> link_is_active l) (links s)"

definition owns_application :: "db \<Rightarrow> pk \<Rightarrow> pk \<Rightarrow> bool" where
  "owns_application s u app \<longleftrightarrow>
     list_ex (\<lambda>a. app_id a = app \<and> app_owner a = u) (applications s)"

section \<open>Row writes\<close>

definition put_notifications :: "(notification \<Rightarrow> bool) \<Rightarrow> (notification \<Rightarrow> notification) \<Rightarrow> db \<Rightarrow> db" where
  "put_notifications P f s = s\<lparr>notifications := update_where P f (notifications s)\<rparr>"

definition put_deliveries :: "(delivery \<Rightarrow> bool) \<Rightarrow> (delivery \<Rightarrow> delivery) \<Rightarrow> db \<Rightarrow> db" where
  "put_deliveries P f s = s\<lparr>deliveries := update_where P f (deliveries s)\<rparr>"

definition put_devices :: "(device \<Rightarrow> bool) \<Rightarrow> (device \<Rightarrow> device) \<Rightarrow> db \<Rightarrow> db" where
  "put_devices P f s = s\<lparr>devices := update_where P f (devices s)\<rparr>"

definition put_links :: "(device_link \<Rightarrow> bool) \<Rightarrow> (device_link \<Rightarrow> device_link) \<Rightarrow> db \<Rightarrow> db" where
  "put_links P f s = s\<lparr>links := update_where P f (links s)\<rparr>"

definition put_applications :: "(application \<Rightarrow> bool) \<Rightarrow> (application \<Rightarrow> application) \<Rightarrow> db \<Rightarrow> db" where
  "put_applications P f s = s\<lparr>applications := update_where P f (applications s)\<rparr>"

definition put_tokens :: "(send_token \<Rightarrow> bool) \<Rightarrow> (send_token \<Rightarrow> send_token) \<Rightarrow> db \<Rightarrow> db" where
  "put_tokens P f s = s\<lparr>send_tokens := update_where P f (send_tokens s)\<rparr>"

lemmas put_defs = put_notifications_def put_deliveries_def put_devices_def put_links_def
  put_applications_def put_tokens_def

definition submit :: "task \<Rightarrow> db \<Rightarrow> db" where
  "submit t s = s\<lparr>broker := broker s @ [t]\<rparr>"

definition send_mail :: "mail \<Rightarrow> db \<Rightarrow> db" where
  "send_mail m s = s\<lparr>outbox := outbox s @ [m]\<rparr>"

section \<open>The queryset contract\<close>

text \<open>
  What a table promises its users: a write through the queryset is read back, keeps the
  primary keys when the change does, and leaves the rows it does not match alone. Each table
  of the database is an instance.
\<close>

locale table =
  fixes rows :: "'s \<Rightarrow> 'r list"
    and key :: "'r \<Rightarrow> pk"
    and put :: "('r \<Rightarrow> bool) \<Rightarrow> ('r \<Rightarrow> 'r) \<Rightarrow> 's \<Rightarrow> 's"
  assumes rows_put: "rows (put P f s) = update_where P f (rows s)"
begin

lemma keys_put: "(\<And>r. key (f r) = key r) \<Longrightarrow> map key (rows (put P f s)) = map key (rows s)"
  by (simp add: rows_put map_update_where)

lemma lookup_put:
  "(\<And>r. key (f r) = key r) \<Longrightarrow>
   List.find (\<lambda>r. key r = i) (rows (put P f s)) =
   map_option (\<lambda>r. if P r then f r else r) (List.find (\<lambda>r. key r = i) (rows s))"
  by (simp add: rows_put find_update_where_key)

lemma rows_put_all:
  "(\<And>r. r \<in> set (rows s) \<Longrightarrow> Q r) \<Longrightarrow> (\<And>r. r \<in> set (rows s) \<Longrightarrow> Q r \<Longrightarrow> P r \<Longrightarrow> Q (f r)) \<Longrightarrow>
   r \<in> set (rows (put P f s)) \<Longrightarrow> Q r"
  by (auto simp: rows_put set_update_where)

end

interpretation ntf: table notifications ntf_id put_notifications
  by unfold_locales (simp add: put_notifications_def)

interpretation dlv: table deliveries dlv_id put_deliveries
  by unfold_locales (simp add: put_deliveries_def)

interpretation dev: table devices dev_id put_devices
  by unfold_locales (simp add: put_devices_def)

interpretation lnk: table links link_id put_links
  by unfold_locales (simp add: put_links_def)

interpretation app: table applications app_id put_applications
  by unfold_locales (simp add: put_applications_def)

interpretation tok: table send_tokens tok_id put_tokens
  by unfold_locales (simp add: put_tokens_def)

lemma put_other_tables [simp]:
  "deliveries (put_notifications P f s) = deliveries s"
  "devices (put_notifications P f s) = devices s"
  "links (put_notifications P f s) = links s"
  "applications (put_notifications P f s) = applications s"
  "provider_log (put_notifications P f s) = provider_log s"
  "broker (put_notifications P f s) = broker s"
  "users (put_notifications P f s) = users s"
  "subscriptions (put_notifications P f s) = subscriptions s"
  "app_quiet_periods (put_notifications P f s) = app_quiet_periods s"
  "device_quiet_periods (put_notifications P f s) = device_quiet_periods s"
  "next_pk (put_notifications P f s) = next_pk s"
  "notifications (put_deliveries Q g s) = notifications s"
  "devices (put_deliveries Q g s) = devices s"
  "links (put_deliveries Q g s) = links s"
  "applications (put_deliveries Q g s) = applications s"
  "provider_log (put_deliveries Q g s) = provider_log s"
  "broker (put_deliveries Q g s) = broker s"
  "users (put_deliveries Q g s) = users s"
  "subscriptions (put_deliveries Q g s) = subscriptions s"
  "app_quiet_periods (put_deliveries Q g s) = app_quiet_periods s"
  "device_quiet_periods (put_deliveries Q g s) = device_quiet_periods s"
  "next_pk (put_deliveries Q g s) = next_pk s"
  by (simp_all add: put_defs)

lemma put_devices_other [simp]:
  "notifications (put_devices P f s) = notifications s"
  "deliveries (put_devices P f s) = deliveries s"
  "links (put_devices P f s) = links s"
  "applications (put_devices P f s) = applications s"
  "provider_log (put_devices P f s) = provider_log s"
  "broker (put_devices P f s) = broker s"
  "users (put_devices P f s) = users s"
  "subscriptions (put_devices P f s) = subscriptions s"
  "app_quiet_periods (put_devices P f s) = app_quiet_periods s"
  "device_quiet_periods (put_devices P f s) = device_quiet_periods s"
  "next_pk (put_devices P f s) = next_pk s"
  "notifications (put_links Q g s) = notifications s"
  "deliveries (put_links Q g s) = deliveries s"
  "devices (put_links Q g s) = devices s"
  "applications (put_links Q g s) = applications s"
  "provider_log (put_links Q g s) = provider_log s"
  "broker (put_links Q g s) = broker s"
  "users (put_links Q g s) = users s"
  "next_pk (put_links Q g s) = next_pk s"
  by (simp_all add: put_defs)

lemma submit_frame [simp]:
  "notifications (submit t s) = notifications s" "deliveries (submit t s) = deliveries s"
  "devices (submit t s) = devices s" "links (submit t s) = links s"
  "applications (submit t s) = applications s" "provider_log (submit t s) = provider_log s"
  "users (submit t s) = users s" "subscriptions (submit t s) = subscriptions s"
  "next_pk (submit t s) = next_pk s" "broker (submit t s) = broker s @ [t]"
  by (simp_all add: submit_def)

lemma set_deliveries_of: "set (deliveries_of s i) = {d \<in> set (deliveries s). dlv_notification d = i}"
  by (simp add: deliveries_of_def)

lemma sorted_deliveries_of: "sorted (map dlv_device (deliveries_of s i))"
  by (simp add: deliveries_of_def)

end
