(* ===== verification/Scheduling.thy ===== *)
theory Scheduling
  imports Store "HOL-Library.Product_Lexorder" "HOL-Library.Multiset"
begin

text \<open>
  \<open>notifications/scheduling.py\<close>: quiet periods, the shift of a requested send date past them,
  and the filters and the order of listings by effective date. The time zone of the server
  (\<open>TIME_ZONE = "Europe/Brussels"\<close>, whose data are not part of the program) is a parameter: a
  \<open>clock\<close> gives the wall-clock reading of an instant (\<open>timezone.localtime\<close>) and the instant of
  a wall-clock reading (\<open>timezone.make_aware\<close>).
\<close>

section \<open>Local time\<close>

record clock =
  to_local :: "instant \<Rightarrow> int"
  from_local :: "int \<Rightarrow> instant"

text \<open>Day 0 (1970-01-01) is a Thursday; \<open>datetime.weekday()\<close> counts from Monday = 0.\<close>

definition local_date :: "clock \<Rightarrow> instant \<Rightarrow> int" where
  "local_date clk at = to_local clk at div day"

definition weekday :: "int \<Rightarrow> int" where
  "weekday d = (d + 3) mod 7"

definition local_time :: "clock \<Rightarrow> instant \<Rightarrow> int" where
  "local_time clk at = to_local clk at mod day"

definition build_local_datetime :: "clock \<Rightarrow> int \<Rightarrow> int \<Rightarrow> instant" where
  "build_local_datetime clk d t = from_local clk (d * day + t)"

section \<open>Quiet periods\<close>

definition get_quiet_period_end_for_period :: "clock \<Rightarrow> quiet_period \<Rightarrow> instant \<Rightarrow> instant option" where
  "get_quiet_period_end_for_period clk q at =
     (if \<not> qp_is_active q then None
      else if period_type q = Once then
        (case (start_at q, end_at q) of
           (Some s, Some e) \<Rightarrow> if s \<le> at \<and> at < e then Some e else None
         | _ \<Rightarrow> None)
      else if recurrence_days q = [] then None
      else (case (start_time q, end_time q) of
           (Some st, Some en) \<Rightarrow>
             (let d = local_date clk at; wd = weekday d; t = local_time clk at in
              if st < en then
                (if wd \<in> set (recurrence_days q) \<and> st \<le> t \<and> t < en
                 then Some (build_local_datetime clk d en) else None)
              else if wd \<in> set (recurrence_days q) \<and> st \<le> t
                then Some (build_local_datetime clk (d + 1) en)
              else if (wd - 1) mod 7 \<in> set (recurrence_days q) \<and> t < en
                then Some (build_local_datetime clk d en)
              else None)
         | _ \<Rightarrow> None))"

definition get_quiet_period_end_from_iterable ::
    "clock \<Rightarrow> quiet_period list \<Rightarrow> instant \<Rightarrow> instant option" where
  "get_quiet_period_end_from_iterable clk qs at =
     (let ends = List.map_filter (\<lambda>q. get_quiet_period_end_for_period clk q at) qs in
      if ends = [] then None else Some (Max (set ends)))"

definition get_quiet_period_end_for_application :: "clock \<Rightarrow> db \<Rightarrow> pk \<Rightarrow> instant \<Rightarrow> instant option" where
  "get_quiet_period_end_for_application clk s a at =
     get_quiet_period_end_from_iterable clk
       (sort_key qp_id (filter (\<lambda>q. qp_parent q = a \<and> qp_is_active q) (app_quiet_periods s))) at"

definition max_quiet_period_shift_iterations :: nat where
  "max_quiet_period_shift_iterations = 32"

text \<open>The loop of \<open>compute_effective_scheduled_for\<close>: at most so many shifts.\<close>

fun shift_past :: "nat \<Rightarrow> (instant \<Rightarrow> instant option) \<Rightarrow> instant \<Rightarrow> instant" where
  "shift_past 0 quiet_end effective = effective"
| "shift_past (Suc k) quiet_end effective =
     (case quiet_end effective of
        None \<Rightarrow> effective
      | Some e \<Rightarrow> if e \<le> effective then effective else shift_past k quiet_end e)"

text \<open>\<open>prefetched\<close> is the argument \<open>quiet_periods\<close>: the periods already loaded, if any.\<close>

definition compute_effective_scheduled_for ::
    "clock \<Rightarrow> db \<Rightarrow> pk \<Rightarrow> instant option \<Rightarrow> quiet_period list option \<Rightarrow> instant option" where
  "compute_effective_scheduled_for clk s a scheduled prefetched =
     (case scheduled of
        None \<Rightarrow> None
      | Some at \<Rightarrow> Some (shift_past max_quiet_period_shift_iterations
          (case prefetched of
             None \<Rightarrow> get_quiet_period_end_for_application clk s a
           | Some qs \<Rightarrow> get_quiet_period_end_from_iterable clk qs) at))"

section \<open>Listings by effective date\<close>

text \<open>The quiet periods that \<open>prefetch_related("application__quiet_periods")\<close> loads.\<close>

definition prefetched_quiet_periods :: "db \<Rightarrow> pk \<Rightarrow> quiet_period list" where
  "prefetched_quiet_periods s a = sort_key qp_id (filter (\<lambda>q. qp_parent q = a) (app_quiet_periods s))"

definition compute_effective_scheduled_map ::
    "clock \<Rightarrow> db \<Rightarrow> notification list \<Rightarrow> pk \<Rightarrow> instant option" where
  "compute_effective_scheduled_map clk s ns =
     (\<lambda>i. case List.find (\<lambda>n. ntf_id n = i) ns of
        None \<Rightarrow> None
      | Some n \<Rightarrow> compute_effective_scheduled_for clk s (ntf_application n) (scheduled_for n)
          (Some (prefetched_quiet_periods s (ntf_application n))))"

definition filter_notifications_by_effective_range ::
    "(pk \<Rightarrow> instant option) \<Rightarrow> instant option \<Rightarrow> instant option \<Rightarrow> notification list \<Rightarrow> notification list" where
  "filter_notifications_by_effective_range eff lo hi ns =
     filter (\<lambda>n.
       (case lo of None \<Rightarrow> True | Some l \<Rightarrow>
          (case eff (ntf_id n) of None \<Rightarrow> False | Some e \<Rightarrow> \<not> e < l)) \<and>
       (case hi of None \<Rightarrow> True | Some h \<Rightarrow>
          (case eff (ntf_id n) of None \<Rightarrow> False | Some e \<Rightarrow> \<not> e > h))) ns"

definition is_shifted :: "(pk \<Rightarrow> instant option) \<Rightarrow> notification \<Rightarrow> bool" where
  "is_shifted eff n \<longleftrightarrow>
     scheduled_for n \<noteq> None \<and> eff (ntf_id n) \<noteq> None \<and> eff (ntf_id n) \<noteq> scheduled_for n"

definition filter_notifications_by_shift_flag ::
    "(pk \<Rightarrow> instant option) \<Rightarrow> bool \<Rightarrow> notification list \<Rightarrow> notification list" where
  "filter_notifications_by_shift_flag eff flag ns = filter (\<lambda>n. is_shifted eff n = flag) ns"

text \<open>\<open>sorted(..., reverse=True)\<close> keeps equal keys in their order: it reverses, sorts, reverses.\<close>

definition order_notifications_by_effective ::
    "(pk \<Rightarrow> instant option) \<Rightarrow> string \<Rightarrow> notification list \<Rightarrow> notification list" where
  "order_notifications_by_effective eff direction ns =
     (let descending = starts_with direction ''-'';
          with_eff = filter (\<lambda>n. eff (ntf_id n) \<noteq> None) ns;
          without_eff = filter (\<lambda>n. eff (ntf_id n) = None) ns;
          sort_asc = sort_key (\<lambda>n. (the (eff (ntf_id n)), ntf_id n))
      in (if descending then rev (sort_asc (rev with_eff)) else sort_asc with_eff) @ without_eff)"

definition wf_period :: "quiet_period \<Rightarrow> bool" where
  "wf_period q \<longleftrightarrow> (\<forall>t. start_time q = Some t \<longrightarrow> 0 \<le> t \<and> t < day) \<and>
     (\<forall>t. end_time q = Some t \<longrightarrow> 0 \<le> t \<and> t < day)"

definition occurrence_end :: "quiet_period \<Rightarrow> int \<Rightarrow> int" where
  "occurrence_end q d = d * day + the (end_time q) +
     (if the (end_time q) \<le> the (start_time q) then day else 0)"

definition covers :: "clock \<Rightarrow> quiet_period \<Rightarrow> instant \<Rightarrow> int \<Rightarrow> bool" where
  "covers clk q at d \<longleftrightarrow> weekday d \<in> set (recurrence_days q) \<and>
     start_time q \<noteq> None \<and> end_time q \<noteq> None \<and>
     d * day + the (start_time q) \<le> to_local clk at \<and> to_local clk at < occurrence_end q d"

lemma day_pos [simp]: "0 < day" by (simp add: time_units)

lemma local_split: "to_local clk at = local_date clk at * day + local_time clk at"
  by (simp add: local_date_def local_time_def)

lemma local_time_range: "0 \<le> local_time clk at" "local_time clk at < day"
  by (simp_all add: local_time_def)

lemma weekday_pred: "(weekday d - 1) mod 7 = weekday (d - 1)"
  by (simp add: weekday_def mod_simps algebra_simps)

lemma day_mono: "d \<le> e \<Longrightarrow> d * day \<le> e * day" for d e :: int
  by (simp add: mult_right_mono less_imp_le)

lemma occurrence_interval:
  fixes d l st en t :: int
  assumes "0 \<le> st" "st < day" "0 \<le> en" "en < day" "0 \<le> t" "t < day"
  shows "d * day + st \<le> l * day + t \<and> l * day + t < d * day + en + (if en \<le> st then day else 0) \<longleftrightarrow>
     (if st < en then d = l \<and> st \<le> t \<and> t < en else d = l \<and> st \<le> t \<or> d = l - 1 \<and> t < en)"
proof -
  have e1: "(l - 1) * day = l * day - day" "(l - 2) * day = l * day - 2 * day" "(l + 1) * day = l * day + day"
    by (simp_all add: algebra_simps)
  consider "d = l" | "d = l - 1" | "d \<le> l - 2" | "l + 1 \<le> d" by linarith
  then show ?thesis
  proof cases
    case 3
    then have "d * day \<le> l * day - 2 * day" using day_mono[of d "l - 2"] e1 by simp
    with 3 assms show ?thesis by (simp; linarith)
  next
    case 4
    then have "l * day + day \<le> d * day" using day_mono[of "l + 1" d] e1 by simp
    with 4 assms show ?thesis by (simp; linarith)
  qed (use assms e1 in auto)
qed

lemma covers_cases:
  assumes "wf_period q" "start_time q = Some st" "end_time q = Some en"
  shows "covers clk q at d \<longleftrightarrow> weekday d \<in> set (recurrence_days q) \<and>
     (if st < en then d = local_date clk at \<and> st \<le> local_time clk at \<and> local_time clk at < en
      else d = local_date clk at \<and> st \<le> local_time clk at \<or>
           d = local_date clk at - 1 \<and> local_time clk at < en)"
proof -
  let ?l = "local_date clk at" and ?t = "local_time clk at"
  have "d * day + st \<le> ?l * day + ?t \<and> ?l * day + ?t < d * day + en + (if en \<le> st then day else 0) \<longleftrightarrow>
     (if st < en then d = ?l \<and> st \<le> ?t \<and> ?t < en
      else d = ?l \<and> st \<le> ?t \<or> d = ?l - 1 \<and> ?t < en)"
    using assms local_time_range[of clk at] by (intro occurrence_interval) (auto simp: wf_period_def)
  then show ?thesis
    by (auto simp: covers_def occurrence_end_def assms local_split)
qed

lemma recurring_end:
  assumes "wf_period q" "qp_is_active q" "period_type q = Recurring"
  shows "get_quiet_period_end_for_period clk q at = Some e \<longleftrightarrow>
    (\<exists>d. covers clk q at d \<and> (\<forall>d'. covers clk q at d' \<longrightarrow> d' \<le> d) \<and>
         e = from_local clk (occurrence_end q d))"
proof (cases "recurrence_days q \<noteq> [] \<and> start_time q \<noteq> None \<and> end_time q \<noteq> None")
  case False
  then show ?thesis
    using assms by (auto simp: get_quiet_period_end_for_period_def covers_def split: option.splits)
next
  case True
  then obtain st en where se: "start_time q = Some st" "end_time q = Some en" and ne: "recurrence_days q \<noteq> []"
    by auto
  note cov = covers_cases[OF assms(1) se]
  have endd: "(d + 1) * day + en = d * day + en + day" "(d - 1) * day + en + day = d * day + en" for d :: int
    by (simp_all add: algebra_simps)
  show ?thesis
    using assms se ne
    by (auto simp: get_quiet_period_end_for_period_def cov occurrence_end_def
        build_local_datetime_def Let_def weekday_pred endd)
qed

lemma covers_quiet:
  assumes "wf_period q" "qp_is_active q" "period_type q = Recurring"
  shows "get_quiet_period_end_for_period clk q at \<noteq> None \<longleftrightarrow> (\<exists>d. covers clk q at d)"
proof
  assume "get_quiet_period_end_for_period clk q at \<noteq> None"
  then show "\<exists>d. covers clk q at d" using recurring_end[OF assms] by blast
next
  let ?l = "local_date clk at"
  assume "\<exists>d. covers clk q at d"
  then obtain d where d: "covers clk q at d" by blast
  then obtain st en where se: "start_time q = Some st" "end_time q = Some en"
    by (auto simp: covers_def)
  have two: "covers clk q at d' \<Longrightarrow> d' = ?l \<or> d' = ?l - 1" for d'
    using covers_cases[OF assms(1) se, of clk at d'] by (auto split: if_splits)
  have "\<exists>d. covers clk q at d \<and> (\<forall>d'. covers clk q at d' \<longrightarrow> d' \<le> d)"
  proof (cases "covers clk q at ?l")
    case True
    then show ?thesis using two by (metis diff_le_eq less_add_one less_imp_le order_refl)
  next
    case False
    then show ?thesis using d two by (metis order_refl)
  qed
  then show "get_quiet_period_end_for_period clk q at \<noteq> None"
    using recurring_end[OF assms] by blast
qed

text \<open>
  A clock is regular when a later wall-clock reading is the reading of a later instant; it is
  steady when its offset to UTC never changes. A steady clock is regular. A zone with summer
  time is neither in the hour that autumn repeats.
\<close>

definition regular_clock :: "clock \<Rightarrow> bool" where
  "regular_clock clk \<longleftrightarrow> (\<forall>a l. to_local clk a < l \<longrightarrow> a < from_local clk l)"

definition steady_clock :: "clock \<Rightarrow> int \<Rightarrow> bool" where
  "steady_clock clk off \<longleftrightarrow> (\<forall>a. to_local clk a = a + off) \<and> (\<forall>l. from_local clk l = l - off)"

lemma steady_regular: "steady_clock clk off \<Longrightarrow> regular_clock clk"
  by (auto simp: steady_clock_def regular_clock_def)

lemma period_end_after:
  assumes "wf_period q" "regular_clock clk" "get_quiet_period_end_for_period clk q at = Some e"
  shows "at < e"
proof (cases "qp_is_active q \<and> period_type q = Recurring")
  case True
  then obtain d where "covers clk q at d" "e = from_local clk (occurrence_end q d)"
    using assms recurring_end by blast
  then show ?thesis using assms(2) by (auto simp: covers_def regular_clock_def)
next
  case False
  then show ?thesis
    using assms(3) by (cases "period_type q")
      (auto simp: get_quiet_period_end_for_period_def split: option.splits if_splits)
qed

lemma period_stays_quiet:
  assumes "wf_period q" "steady_clock clk off" "get_quiet_period_end_for_period clk q at = Some e"
    and "at \<le> t" "t < e"
  shows "get_quiet_period_end_for_period clk q t \<noteq> None"
proof (cases "qp_is_active q \<and> period_type q = Recurring")
  case True
  then obtain d where "covers clk q at d" "e = from_local clk (occurrence_end q d)"
    using assms recurring_end by blast
  then have "covers clk q t d" using assms by (auto simp: covers_def steady_clock_def)
  then show ?thesis using covers_quiet True assms(1) by blast
next
  case False
  then show ?thesis
    using assms(3,4,5) by (cases "period_type q")
      (auto simp: get_quiet_period_end_for_period_def split: option.splits if_splits)
qed

lemma iterable_Some:
  "get_quiet_period_end_from_iterable clk qs at = Some e \<longleftrightarrow>
   (\<exists>q \<in> set qs. get_quiet_period_end_for_period clk q at = Some e) \<and>
   (\<forall>q \<in> set qs. \<forall>e'. get_quiet_period_end_for_period clk q at = Some e' \<longrightarrow> e' \<le> e)"
  (is "?L = ?R")
proof -
  let ?ends = "List.map_filter (\<lambda>q. get_quiet_period_end_for_period clk q at) qs"
  have ends: "set ?ends = {x. \<exists>q \<in> set qs. get_quiet_period_end_for_period clk q at = Some x}"
    by (force simp: map_filter_def)
  have "?L \<longleftrightarrow> ?ends \<noteq> [] \<and> Max (set ?ends) = e"
    by (auto simp: get_quiet_period_end_from_iterable_def Let_def)
  also have "\<dots> \<longleftrightarrow> e \<in> set ?ends \<and> (\<forall>x \<in> set ?ends. x \<le> e)"
    by (metis List.finite_set Max_eq_iff empty_iff set_empty)
  finally show ?thesis unfolding ends by blast
qed

lemma iterable_None:
  "get_quiet_period_end_from_iterable clk qs at = None \<longleftrightarrow>
   (\<forall>q \<in> set qs. get_quiet_period_end_for_period clk q at = None)"
  by (auto simp: get_quiet_period_end_from_iterable_def Let_def map_filter_def filter_empty_conv)

lemma shift_past_ge: "at \<le> shift_past k f at"
  by (induction k f at rule: shift_past.induct) (auto split: option.splits)

lemma shift_past_all_quiet:
  assumes quiet: "\<And>a e t. f a = Some e \<Longrightarrow> a \<le> t \<Longrightarrow> t < e \<Longrightarrow> f t \<noteq> None"
  shows "at \<le> t \<Longrightarrow> t < shift_past k f at \<Longrightarrow> f t \<noteq> None"
proof (induction k arbitrary: at t)
  case (Suc k)
  then obtain e where e: "f at = Some e" "at < e" by (auto split: option.splits if_splits)
  show ?case
  proof (cases "t < e")
    case True
    then show ?thesis using quiet[OF e(1)] Suc.prems by blast
  next
    case False
    then show ?thesis using Suc.IH[of e t] Suc.prems e by simp
  qed
qed auto

definition open_after :: "quiet_period list \<Rightarrow> instant \<Rightarrow> nat" where
  "open_after qs at = length (filter (\<lambda>q. \<exists>e. end_at q = Some e \<and> at < e) qs)"

lemma open_after_decreases:
  assumes "q \<in> set qs" "end_at q = Some e" "at < e"
  shows "open_after qs e < open_after qs at"
proof -
  have "length (filter (\<lambda>q. \<exists>x. end_at q = Some x \<and> e < x) qs) <
        length (filter (\<lambda>q. \<exists>x. end_at q = Some x \<and> at < x) qs)"
    using assms
  proof (induction qs)
    case (Cons p qs)
    have le: "length (filter (\<lambda>q. \<exists>x. end_at q = Some x \<and> e < x) qs) \<le>
          length (filter (\<lambda>q. \<exists>x. end_at q = Some x \<and> at < x) qs)"
      using Cons.prems(3) by (induction qs) auto
    from Cons le show ?case by (cases "p = q") (auto simp: less_Suc_eq_le)
  qed simp
  then show ?thesis by (simp add: open_after_def)
qed

lemma once_end:
  "period_type q = Once \<Longrightarrow> get_quiet_period_end_for_period clk q at = Some e \<Longrightarrow>
   end_at q = Some e \<and> at < e"
  by (auto simp: get_quiet_period_end_for_period_def split: option.splits if_splits)

lemma shift_past_leaves:
  assumes once: "\<forall>q \<in> set qs. period_type q = Once"
  shows "open_after qs at \<le> k \<Longrightarrow>
    get_quiet_period_end_from_iterable clk qs
      (shift_past k (get_quiet_period_end_from_iterable clk qs) at) = None"
proof (induction k arbitrary: at)
  case 0
  then have none: "\<forall>q \<in> set qs. \<forall>e. end_at q = Some e \<longrightarrow> \<not> at < e"
    by (auto simp: open_after_def filter_empty_conv)
  then have "\<forall>q \<in> set qs. get_quiet_period_end_for_period clk q at = None"
    using once once_end by (metis not_Some_eq)
  then show ?case by (simp add: iterable_None)
next
  case (Suc k)
  show ?case
  proof (cases "get_quiet_period_end_from_iterable clk qs at")
    case (Some e)
    then obtain q where q: "q \<in> set qs" "get_quiet_period_end_for_period clk q at = Some e"
      by (auto simp: iterable_Some)
    then have e: "end_at q = Some e" "at < e" using once once_end by blast+
    then have "open_after qs e \<le> k" using open_after_decreases[OF q(1) e] Suc.prems by simp
    from Suc.IH[OF this] Some e(2) show ?thesis by simp
  qed simp
qed

lemma open_after_le: "open_after qs at \<le> length qs"
  by (simp add: open_after_def)

section \<open>Properties\<close>

definition utc :: clock where
  "utc = \<lparr>to_local = (\<lambda>a. a), from_local = (\<lambda>l. l)\<rparr>"

lemma steady_utc: "steady_clock utc 0"
  by (simp add: utc_def steady_clock_def)

definition blank_period :: quiet_period where
  "blank_period = \<lparr>qp_id = 1, qp_parent = 1, qp_name = [], period_type = Once, start_at = None,
     end_at = None, recurrence_days = [], start_time = None, end_time = None, qp_is_active = True\<rparr>"

definition night :: quiet_period where
  "night = blank_period\<lparr>period_type := Recurring, recurrence_days := [4],
     start_time := Some (22 * hour), end_time := Some (7 * hour)\<rparr>"

text \<open>
  C19. At any instant, an active recurring quiet period reports the end of the last of its
  occurrences (the one of the local day, or the one of the day before that runs past
  midnight) that contain the instant, and reports none exactly when no occurrence contains it.
\<close>

theorem quiet_end_is_last_covering_occurrence:
  assumes "wf_period q" "qp_is_active q" "period_type q = Recurring"
  shows "get_quiet_period_end_for_period clk q at = Some e \<longleftrightarrow>
    (\<exists>d. covers clk q at d \<and> (\<forall>d'. covers clk q at d' \<longrightarrow> d' \<le> d) \<and>
         e = from_local clk (occurrence_end q d))"
  using assms by (rule recurring_end)

lemma quiet_end_is_last_covering_occurrence_witness:
  "covers utc night (day + 23 * hour) 1 \<and>
   get_quiet_period_end_for_period utc night (day + 23 * hour) = Some (2 * day + 7 * hour)"
proof -
  have n: "wf_period night" "qp_is_active night" "period_type night = Recurring"
    by (simp_all add: night_def blank_period_def wf_period_def time_units)
  have c: "get_quiet_period_end_for_period utc night (day + 23 * hour) = Some (2 * day + 7 * hour)"
    by code_simp
  then obtain d where "covers utc night (day + 23 * hour) d"
    "2 * day + 7 * hour = from_local utc (occurrence_end night d)"
    using quiet_end_is_last_covering_occurrence [OF n] by blast
  moreover from this(2) have "d = 1"
    by (simp add: utc_def occurrence_end_def night_def blank_period_def time_units)
  ultimately show ?thesis using c by simp
qed

text \<open>
  C20. With at most 32 quiet periods, all one-time ones, the effective date is the first instant
  from the requested one on that no quiet period contains.
\<close>

theorem effective_date_is_first_free:
  assumes "\<forall>q \<in> set qs. period_type q = Once" "length qs \<le> 32"
  shows "\<exists>r. compute_effective_scheduled_for clk s a (Some at) (Some qs) = Some r \<and> at \<le> r \<and>
    get_quiet_period_end_from_iterable clk qs r = None \<and>
    (\<forall>t. at \<le> t \<and> t < r \<longrightarrow> get_quiet_period_end_from_iterable clk qs t \<noteq> None)"
proof -
  let ?f = "get_quiet_period_end_from_iterable clk qs"
  have stays: "?f t \<noteq> None" if h: "?f b = Some e" "b \<le> t" "t < e" for b e t
  proof -
    from h obtain q where q: "q \<in> set qs" "get_quiet_period_end_for_period clk q b = Some e"
      by (auto simp: iterable_Some)
    then have "get_quiet_period_end_for_period clk q t \<noteq> None"
      using h assms(1) by (auto simp: get_quiet_period_end_for_period_def split: option.splits if_splits)
    then show ?thesis using q by (auto simp: iterable_None)
  qed
  have "open_after qs at \<le> 32" using open_after_le assms(2) by (rule le_trans)
  then show ?thesis
    using shift_past_leaves[OF assms(1)] shift_past_all_quiet[of ?f, OF stays] shift_past_ge
    by (auto simp: compute_effective_scheduled_for_def max_quiet_period_shift_iterations_def)
qed

lemma effective_date_is_first_free_witness:
  "\<exists>r. compute_effective_scheduled_for utc empty_db 1 (Some 5)
        (Some [blank_period\<lparr>start_at := Some 3, end_at := Some 9\<rparr>,
               blank_period\<lparr>start_at := Some 8, end_at := Some 20\<rparr>]) = Some r \<and> r = 20"
proof -
  let ?qs = "[blank_period\<lparr>start_at := Some 3, end_at := Some 9\<rparr>,
               blank_period\<lparr>start_at := Some 8, end_at := Some 20\<rparr>]"
  have "\<forall>q \<in> set ?qs. period_type q = Once" "length ?qs \<le> 32" by (simp_all add: blank_period_def)
  from effective_date_is_first_free [OF this, of utc empty_db 1 5]
  obtain r where r: "compute_effective_scheduled_for utc empty_db 1 (Some 5) (Some ?qs) = Some r" by blast
  moreover have "compute_effective_scheduled_for utc empty_db 1 (Some 5) (Some ?qs) = Some 20" by code_simp
  ultimately show ?thesis by simp
qed

text \<open>
  Whatever the quiet periods (one-time and recurring), while the offset of the zone does not
  change, the effective date is at or after the requested one and every instant between the two
  is quiet: a notification is never delayed longer than its quiet periods ask.
\<close>

theorem shift_stays_inside_quiet_periods:
  assumes "steady_clock clk off" "\<forall>q \<in> set qs. wf_period q"
  shows "\<exists>r. compute_effective_scheduled_for clk s a (Some at) (Some qs) = Some r \<and> at \<le> r \<and>
    (\<forall>t. at \<le> t \<and> t < r \<longrightarrow> get_quiet_period_end_from_iterable clk qs t \<noteq> None)"
proof -
  let ?f = "get_quiet_period_end_from_iterable clk qs"
  have stays: "?f t \<noteq> None" if h: "?f b = Some e" "b \<le> t" "t < e" for b e t
  proof -
    from h obtain q where q: "q \<in> set qs" "get_quiet_period_end_for_period clk q b = Some e"
      by (auto simp: iterable_Some)
    then have "get_quiet_period_end_for_period clk q t \<noteq> None"
      using period_stays_quiet assms h(2,3) by blast
    then show ?thesis using q by (auto simp: iterable_None)
  qed
  then show ?thesis
    using shift_past_all_quiet[of ?f, OF stays] shift_past_ge
    by (auto simp: compute_effective_scheduled_for_def)
qed

lemma shift_stays_inside_quiet_periods_witness:
  "\<exists>r. compute_effective_scheduled_for utc empty_db 1 (Some (day + 23 * hour)) (Some [night]) = Some r \<and>
     r = 2 * day + 7 * hour"
proof -
  have "\<forall>q \<in> set [night]. wf_period q"
    by (simp add: night_def blank_period_def wf_period_def time_units)
  from shift_stays_inside_quiet_periods [OF steady_utc this, of empty_db 1 "day + 23 * hour"]
  obtain r where "compute_effective_scheduled_for utc empty_db 1 (Some (day + 23 * hour)) (Some [night]) = Some r"
    by blast
  moreover have "compute_effective_scheduled_for utc empty_db 1 (Some (day + 23 * hour)) (Some [night]) =
      Some (2 * day + 7 * hour)" by code_simp
  ultimately show ?thesis by simp
qed

text \<open>Two recurring periods that together cover every day.\<close>

definition half_days :: "quiet_period list" where
  "half_days =
    [blank_period\<lparr>qp_id := 1, period_type := Recurring, recurrence_days := [0, 1, 2, 3, 4, 5, 6],
        start_time := Some 0, end_time := Some (12 * hour)\<rparr>,
     blank_period\<lparr>qp_id := 2, period_type := Recurring, recurrence_days := [0, 1, 2, 3, 4, 5, 6],
        start_time := Some (12 * hour), end_time := Some 0\<rparr>]"

text \<open>
  The search gives up after 32 shifts: with two recurring periods that together cover the
  whole week, the effective date is sixteen days later, and still quiet.
\<close>

theorem effective_date_gives_up_after_32_shifts:
  "compute_effective_scheduled_for utc s a (Some 0) (Some half_days) = Some (16 * day) \<and>
   get_quiet_period_end_from_iterable utc half_days (16 * day) = Some (16 * day + 12 * hour)"
  by code_simp

text \<open>
  The listing by effective date is a permutation of the notifications: those with an
  effective date come first, in ascending (with a leading minus: descending) order of effective
  date and key, and those without one follow in their original order.
\<close>

theorem listing_ordered_by_effective_date:
  "\<exists>ys zs. order_notifications_by_effective eff dir ns = ys @ zs \<and>
     mset (ys @ zs) = mset ns \<and>
     sorted_wrt (\<lambda>m n. if starts_with dir ''-''
         then (the (eff (ntf_id n)), ntf_id n) \<le> (the (eff (ntf_id m)), ntf_id m)
         else (the (eff (ntf_id m)), ntf_id m) \<le> (the (eff (ntf_id n)), ntf_id n)) ys \<and>
     set ys = {n \<in> set ns. eff (ntf_id n) \<noteq> None} \<and>
     zs = filter (\<lambda>n. eff (ntf_id n) = None) ns"
proof -
  let ?w = "filter (\<lambda>n. eff (ntf_id n) \<noteq> None) ns" and ?k = "\<lambda>n. (the (eff (ntf_id n)), ntf_id n)"
  let ?zs = "filter (\<lambda>n. eff (ntf_id n) = None) ns"
  let ?ys = "if starts_with dir ''-'' then rev (sort_key ?k (rev ?w)) else sort_key ?k ?w"
  have "mset ?w + mset ?zs = mset ns" by (induction ns) auto
  moreover have "mset ?ys = mset ?w" by simp
  ultimately have m: "mset (?ys @ ?zs) = mset ns" by (simp only: mset_append)
  have st: "sorted_wrt (\<lambda>m n. ?k m \<le> ?k n) (sort_key ?k xs)" for xs
    using sorted_sort_key[of ?k xs] by (simp add: sorted_map)
  have "sorted_wrt (\<lambda>m n. if starts_with dir ''-'' then ?k n \<le> ?k m else ?k m \<le> ?k n) ?ys"
    using st[of ?w] st[of "rev ?w"] by (auto simp: sorted_wrt_rev)
  moreover have "set ?ys = {n \<in> set ns. eff (ntf_id n) \<noteq> None}" by auto
  ultimately show ?thesis
    using m by (intro exI[of _ ?ys] exI[of _ ?zs])
      (auto simp: order_notifications_by_effective_def Let_def)
qed

end
