(* ===== verification/Billing.thy ===== *)
theory Billing
  imports Store
begin

text \<open>
  The local gate of \<open>billing/service.py\<close> on the cached rights of \<open>billing/models.py\<close>, the signed
  exchanges of \<open>billing/client.py\<close> with the central billing service, and the endpoints of
  \<open>billing/api_views.py\<close>: the push of a right, the billing page and the relayed calls.
\<close>

section \<open>The gate on the local cache of rights\<close>

definition unlimited :: int where "unlimited = 10000"

definition quota_key :: string where "quota_key = ''applications''"

definition billing_configured :: "config \<Rightarrow> bool" where
  "billing_configured cfg \<longleftrightarrow> billing_base_url cfg \<noteq> [] \<and> billing_app_secret cfg \<noteq> []"

definition get_subscription :: "db \<Rightarrow> pk \<Rightarrow> subscription option" where
  "get_subscription s u = List.find (\<lambda>x. sub_user x = u) (subscriptions s)"

definition active_subscription :: "db \<Rightarrow> instant \<Rightarrow> user \<Rightarrow> subscription option" where
  "active_subscription s now u =
     (case get_subscription s (user_id u) of
        None \<Rightarrow> None
      | Some sub \<Rightarrow>
          if \<not> is_paid sub then None
          else case current_period_end sub of
            None \<Rightarrow> Some sub
          | Some e \<Rightarrow>
              if e < now then
                (case grace_until sub of
                   None \<Rightarrow> None
                 | Some g \<Rightarrow> if g < now then None else Some sub)
              else Some sub)"

definition user_is_paid :: "config \<Rightarrow> db \<Rightarrow> instant \<Rightarrow> user \<Rightarrow> bool" where
  "user_is_paid cfg s now u =
     (if \<not> billing_configured cfg then True
      else if subscription_bypass u then True
      else active_subscription s now u \<noteq> None)"

definition application_quota :: "config \<Rightarrow> db \<Rightarrow> instant \<Rightarrow> user \<Rightarrow> int" where
  "application_quota cfg s now u =
     (if \<not> billing_configured cfg then unlimited
      else if subscription_bypass u then unlimited
      else case active_subscription s now u of
        None \<Rightarrow> 0
      | Some sub \<Rightarrow>
          (case map_of (quotas sub) quota_key of Some (J_Int n) \<Rightarrow> n | _ \<Rightarrow> 0))"

definition applications_used :: "db \<Rightarrow> user \<Rightarrow> int" where
  "applications_used s u = int (count_where (\<lambda>a. app_owner a = user_id u) (applications s))"

definition subscription_required_code :: string where
  "subscription_required_code = ''subscription_required''"

definition subscription_required :: "config \<Rightarrow> db \<Rightarrow> instant \<Rightarrow> user \<Rightarrow> 'a response option" where
  "subscription_required cfg s now u =
     (if user_is_paid cfg s now u then None else Some (Refuse 402 subscription_required_code))"

definition quota_required :: "config \<Rightarrow> db \<Rightarrow> instant \<Rightarrow> user \<Rightarrow> 'a response option" where
  "quota_required cfg s now u =
     (if \<not> billing_configured cfg then None
      else if \<not> user_is_paid cfg s now u then Some (Refuse 402 ''subscription_required'')
      else if application_quota cfg s now u \<le> applications_used s u
        then Some (Refuse 402 ''quota_exceeded'')
      else None)"

section \<open>Signed exchanges with the central service\<close>

text \<open>\<open>hmac_hex key text\<close> is the hexadecimal HMAC-SHA256, a primitive the code only calls.\<close>

type_synonym hmac = "string \<Rightarrow> string \<Rightarrow> string"

definition signed_text :: "string \<Rightarrow> string \<Rightarrow> string \<Rightarrow> int \<Rightarrow> string" where
  "signed_text meth path body timestamp =
     str_int timestamp @ ''.'' @ upper meth @ ''.'' @ path @ ''.'' @ body"

definition sign :: "hmac \<Rightarrow> config \<Rightarrow> string \<Rightarrow> string \<Rightarrow> string \<Rightarrow> int \<Rightarrow> string" where
  "sign hmac_hex cfg meth path body timestamp =
     ''sha256='' @ hmac_hex (billing_app_secret cfg) (signed_text meth path body timestamp)"

text \<open>
  \<open>timestamp\<close> is the header as \<open>int()\<close> reads it, if it does; \<open>now_seconds\<close> is
  \<open>int(time.time())\<close>.
\<close>

definition verify_inbound ::
    "hmac \<Rightarrow> config \<Rightarrow> int \<Rightarrow> string \<Rightarrow> string \<Rightarrow> string \<Rightarrow> int option \<Rightarrow> string \<Rightarrow> bool" where
  "verify_inbound hmac_hex cfg now_seconds meth path body timestamp signature =
     (if signature = [] \<or> \<not> starts_with signature ''sha256='' then False
      else case timestamp of
        None \<Rightarrow> False
      | Some ts \<Rightarrow>
          if \<bar>now_seconds - ts\<bar> > 300 then False
          else sign hmac_hex cfg meth path body ts = signature)"

text \<open>
  What the HTTP library gives back: nothing (an exception), or a status and a body, which
  \<open>response.json()\<close> may fail to read. \<open>Crashed\<close> is an exception that is neither
  \<open>BillingUnavailable\<close> nor \<open>BillingRefused\<close>.
\<close>

datatype 'j http_outcome = Unreachable | Answer nat "'j option"

datatype 'j billing_result =
  Billing_Ok 'j | Billing_Unavailable | Billing_Refused nat string | Crashed

text \<open>\<open>refusal_code\<close> reads \<open>code\<close> of a refusal's JSON body.\<close>

definition raise_for_status ::
    "('j \<Rightarrow> string option) \<Rightarrow> nat \<Rightarrow> 'j option \<Rightarrow> 'k billing_result option" where
  "raise_for_status refusal_code st body =
     (if st < 400 then None
      else if 500 \<le> st then Some Billing_Unavailable
      else Some (Billing_Refused st
        (case Option.bind body refusal_code of
           None \<Rightarrow> ''billing_refused'' | Some c \<Rightarrow> if c = [] then ''billing_refused'' else c)))"

definition billing_call :: "('j \<Rightarrow> string option) \<Rightarrow> 'j http_outcome \<Rightarrow> 'j billing_result" where
  "billing_call refusal_code outcome =
     (case outcome of
        Unreachable \<Rightarrow> Billing_Unavailable
      | Answer st body \<Rightarrow>
          (case raise_for_status refusal_code st body of
             Some r \<Rightarrow> r
           | None \<Rightarrow> (case body of None \<Rightarrow> Crashed | Some j \<Rightarrow> Billing_Ok j)))"

definition erase_user :: "'j http_outcome \<Rightarrow> unit billing_result" where
  "erase_user outcome =
     (case outcome of
        Unreachable \<Rightarrow> Billing_Unavailable
      | Answer st body \<Rightarrow> if st = 200 \<or> st = 204 then Billing_Ok () else Billing_Unavailable)"

section \<open>Rights pushed by the central service\<close>

text \<open>
  The JSON body of a push. A falsy text field (missing, null or empty) is the empty text, as
  \<open>or ""\<close> makes it; \<open>pl_current_period_end\<close> and \<open>pl_grace_until\<close> are the raw texts.
\<close>

record entitlement =
  pl_ping :: bool
  pl_delivery_id :: string
  pl_external_user_id :: pk
  pl_is_paid :: bool
  pl_status :: string
  pl_plan :: string
  pl_interval :: string
  pl_quotas :: "(string \<times> json_value) list"
  pl_current_period_end :: string
  pl_grace_until :: string
  pl_customer_id :: string

text \<open>
  \<open>parse_datetime\<close> of Django returns nothing for a text that is not formatted as a date and
  raises \<open>ValueError\<close> (\<open>Inl\<close>) for one that is but names no date.
\<close>

type_synonym date_parser = "string \<Rightarrow> unit + instant option"

definition parse_optional :: "date_parser \<Rightarrow> string \<Rightarrow> unit + instant option" where
  "parse_optional parse t = (if t = [] then Inr None else parse t)"

definition new_subscription :: "pk \<Rightarrow> subscription" where
  "new_subscription u = \<lparr>sub_user = u, stripe_customer_id = [], sub_status = [], sub_plan = [],
     sub_interval = [], current_period_end = None, is_paid = False, quotas = [], grace_until = None\<rparr>"

definition get_or_create_subscription :: "db \<Rightarrow> pk \<Rightarrow> db" where
  "get_or_create_subscription s u =
     (case get_subscription s u of
        Some _ \<Rightarrow> s
      | None \<Rightarrow> s\<lparr>subscriptions := subscriptions s @ [new_subscription u]\<rparr>)"

definition write_entitlement ::
    "entitlement \<Rightarrow> instant option \<Rightarrow> instant option \<Rightarrow> subscription \<Rightarrow> subscription" where
  "write_entitlement p period_end grace sub = sub\<lparr>
     is_paid := pl_is_paid p, sub_status := pl_status p, sub_plan := pl_plan p,
     sub_interval := pl_interval p, quotas := pl_quotas p,
     current_period_end := period_end, grace_until := grace,
     stripe_customer_id :=
       (if pl_customer_id p \<noteq> [] then pl_customer_id p else stripe_customer_id sub)\<rparr>"

text \<open>
  \<open>apply_entitlement\<close>: the row exists from the first line on; a date that raises leaves its
  old content. The flag says whether the call returned.
\<close>

definition apply_entitlement :: "date_parser \<Rightarrow> pk \<Rightarrow> entitlement \<Rightarrow> db \<Rightarrow> db \<times> bool" where
  "apply_entitlement parse u p s =
     (let s1 = get_or_create_subscription s u in
      case (parse_optional parse (pl_current_period_end p), parse_optional parse (pl_grace_until p)) of
        (Inr period_end, Inr grace) \<Rightarrow>
          (s1\<lparr>subscriptions := update_where (\<lambda>x. sub_user x = u)
                (write_entitlement p period_end grace) (subscriptions s1)\<rparr>, True)
      | _ \<Rightarrow> (s1, False))"

text \<open>
  \<open>EntitlementView.post\<close>. \<open>signature_ok\<close> is the verdict of \<open>verify_inbound\<close> on the request,
  \<open>is_uuid\<close> what the key of \<open>DeliveryReceipt\<close> accepts. An exception nobody catches is the
  500 of the exception handler; the writes made before it stay, each in a transaction of its own.
\<close>

definition entitlement_post ::
    "config \<Rightarrow> date_parser \<Rightarrow> (string \<Rightarrow> bool) \<Rightarrow> bool \<Rightarrow> entitlement \<Rightarrow> db \<Rightarrow> db \<times> string response" where
  "entitlement_post cfg parse is_uuid signature_ok p s =
     (if \<not> billing_configured cfg then (s, Refuse 503 [])
      else if \<not> signature_ok then (s, Refuse 401 [])
      else if pl_ping p then (s, Reply 200 ''pong'')
      else if pl_delivery_id p = [] then (s, Refuse 400 ''missing_delivery_id'')
      else if \<not> is_uuid (pl_delivery_id p) then (s, Refuse 500 ''internal_error'')
      else if pl_delivery_id p \<in> set (receipts s) then (s, Refuse 409 [])
      else
        let s1 = s\<lparr>receipts := receipts s @ [pl_delivery_id p]\<rparr> in
        case get_user s1 (pl_external_user_id p) of
          None \<Rightarrow> (s1, Reply 200 [])
        | Some u \<Rightarrow>
            (case apply_entitlement parse (user_id u) p s1 of
               (s2, True) \<Rightarrow> (s2, Reply 200 [])
             | (s2, False) \<Rightarrow> (s2, Refuse 500 ''internal_error'')))"

text \<open>The body of the console's billing page, from the local cache.\<close>

record subscription_view =
  sv_billing_enabled :: bool
  sv_is_paid :: bool
  sv_bypass :: bool
  sv_status :: string
  sv_plan :: string
  sv_interval :: string
  sv_quota :: int
  sv_applications_used :: int
  sv_current_period_end :: "instant option"
  sv_can_manage :: bool

text \<open>\<open>_pull\<close>: a refusal or a failure of the central service leaves the cache as it is.\<close>

definition pull :: "date_parser \<Rightarrow> pk \<Rightarrow> entitlement billing_result \<Rightarrow> db \<Rightarrow> db \<times> bool" where
  "pull parse u r s =
     (case r of
        Billing_Unavailable \<Rightarrow> (s, True)
      | Billing_Refused _ _ \<Rightarrow> (s, True)
      | Crashed \<Rightarrow> (s, False)
      | Billing_Ok p \<Rightarrow> apply_entitlement parse u p s)"

definition subscription_get ::
    "config \<Rightarrow> date_parser \<Rightarrow> instant \<Rightarrow> bool \<Rightarrow> entitlement billing_result \<Rightarrow> user \<Rightarrow> db \<Rightarrow>
     db \<times> subscription_view response" where
  "subscription_get cfg parse now refresh central u s =
     (let (s1, ok) = (if refresh \<and> billing_configured cfg then pull parse (user_id u) central s
                      else (s, True));
          sub = get_subscription s1 (user_id u);
          text = (\<lambda>f. case sub of None \<Rightarrow> [] | Some x \<Rightarrow> f x)
      in if \<not> ok then (s1, Refuse 500 ''internal_error'')
         else (s1, Reply 200 \<lparr>sv_billing_enabled = billing_configured cfg,
           sv_is_paid = user_is_paid cfg s1 now u,
           sv_bypass = subscription_bypass u,
           sv_status = text sub_status, sv_plan = text sub_plan, sv_interval = text sub_interval,
           sv_quota = application_quota cfg s1 now u,
           sv_applications_used = applications_used s1 u,
           sv_current_period_end = Option.bind sub current_period_end,
           sv_can_manage = (case sub of None \<Rightarrow> False | Some x \<Rightarrow> stripe_customer_id x \<noteq> [])\<rparr>))"

text \<open>\<open>PlansView\<close>, \<open>CheckoutView\<close>, \<open>PortalView\<close> and the quantity views relay one call.\<close>

definition relay :: "config \<Rightarrow> 'a response \<Rightarrow> ('j \<Rightarrow> 'a) \<Rightarrow> 'j billing_result \<Rightarrow> 'a response" where
  "relay cfg unconfigured body r =
     (if \<not> billing_configured cfg then unconfigured
      else case r of
        Billing_Refused st c \<Rightarrow> Refuse st c
      | Billing_Unavailable \<Rightarrow> Refuse 503 ''billing_unavailable''
      | Crashed \<Rightarrow> Refuse 500 ''internal_error''
      | Billing_Ok j \<Rightarrow> Reply 200 (body j))"

definition plans_get :: "config \<Rightarrow> 'j \<Rightarrow> 'j billing_result \<Rightarrow> 'j response" where
  "plans_get cfg empty_list r = relay cfg (Reply 200 empty_list) id r"

definition checkout_post :: "config \<Rightarrow> ('j \<Rightarrow> string) \<Rightarrow> 'j billing_result \<Rightarrow> string response" where
  "checkout_post cfg url_of r = relay cfg (Refuse 503 ''billing_unconfigured'') url_of r"

definition portal_post :: "config \<Rightarrow> ('j \<Rightarrow> string) \<Rightarrow> 'j billing_result \<Rightarrow> string response" where
  "portal_post cfg url_of r = relay cfg (Refuse 503 ''billing_unconfigured'') url_of r"

definition quantity_preview_post :: "config \<Rightarrow> 'j billing_result \<Rightarrow> 'j response" where
  "quantity_preview_post cfg r = relay cfg (Refuse 503 ''billing_unconfigured'') id r"

definition quantity_post :: "config \<Rightarrow> 'j billing_result \<Rightarrow> 'j response" where
  "quantity_post cfg r = relay cfg (Refuse 503 ''billing_unconfigured'') id r"

section \<open>Properties\<close>

lemma get_or_create_has: "\<exists>sub. get_subscription (get_or_create_subscription s u) u = Some sub"
proof (cases "get_subscription s u")
  case None
  then show ?thesis
    by (simp add: get_or_create_subscription_def get_subscription_def find_append new_subscription_def)
qed (simp add: get_or_create_subscription_def)

lemma apply_entitlement_ok:
  assumes "parse_optional parse (pl_current_period_end p) = Inr e"
    and "parse_optional parse (pl_grace_until p) = Inr g"
    and "apply_entitlement parse u p s = (s', ok)"
  shows "ok \<and> (\<exists>sub. get_subscription s' u = Some sub \<and> is_paid sub = pl_is_paid p \<and>
     current_period_end sub = e \<and> grace_until sub = g \<and> quotas sub = pl_quotas p)"
proof -
  obtain sub where "get_subscription (get_or_create_subscription s u) u = Some sub"
    using get_or_create_has by blast
  then have "List.find (\<lambda>x. sub_user x = u) (subscriptions (get_or_create_subscription s u)) = Some sub"
    by (simp add: get_subscription_def)
  moreover from this have "sub_user sub = u" by (auto dest: find_SomeD)
  ultimately show ?thesis using assms
    by (auto simp: apply_entitlement_def Let_def get_subscription_def write_entitlement_def
        find_update_where_key)
qed

text \<open>
  After a push of the central service has been applied, the local gate says what the push
  said: with billing configured and no staff bypass the user is paid exactly when the push is
  paid and its period has not ended, or is still within its grace time.
\<close>

theorem gate_follows_entitlement:
  assumes "billing_configured cfg" "\<not> subscription_bypass u"
    and "parse_optional parse (pl_current_period_end p) = Inr e"
    and "parse_optional parse (pl_grace_until p) = Inr g"
    and "apply_entitlement parse (user_id u) p s = (s', ok)"
  shows "user_is_paid cfg s' now u \<longleftrightarrow>
    pl_is_paid p \<and> (case e of None \<Rightarrow> True | Some t \<Rightarrow> now \<le> t \<or> (\<exists>t'. g = Some t' \<and> now \<le> t'))"
proof -
  obtain sub where "get_subscription s' (user_id u) = Some sub" "is_paid sub = pl_is_paid p"
     "current_period_end sub = e" "grace_until sub = g"
    using apply_entitlement_ok[OF assms(3,4,5)] by blast
  then show ?thesis using assms(1,2)
    by (auto simp: user_is_paid_def active_subscription_def split: option.splits)
qed

definition demo_config :: config where
  "demo_config = default_config\<lparr>billing_base_url := ''b'', billing_app_secret := ''k''\<rparr>"

definition demo_user :: user where
  "demo_user = blank_user"

definition demo_push :: entitlement where
  "demo_push = \<lparr>pl_ping = False, pl_delivery_id = ''d1'', pl_external_user_id = 1, pl_is_paid = True,
     pl_status = ''active'', pl_plan = ''app'', pl_interval = ''month'',
     pl_quotas = [(''applications'', J_Int 2)], pl_current_period_end = ''t'', pl_grace_until = [],
     pl_customer_id = []\<rparr>"

definition demo_parse :: date_parser where
  "demo_parse t = (if t = ''t'' then Inr (Some 100) else if t = ''bad'' then Inl () else Inr None)"

lemma gate_follows_entitlement_witness:
  "user_is_paid demo_config (fst (apply_entitlement demo_parse 1 demo_push empty_db)) 50 demo_user \<and>
   \<not> user_is_paid demo_config (fst (apply_entitlement demo_parse 1 demo_push empty_db)) 150 demo_user"
proof -
  have h: "billing_configured demo_config" "\<not> subscription_bypass demo_user"
    "parse_optional demo_parse (pl_current_period_end demo_push) = Inr (Some 100)"
    "parse_optional demo_parse (pl_grace_until demo_push) = Inr None"
    "apply_entitlement demo_parse (user_id demo_user) demo_push empty_db =
      (fst (apply_entitlement demo_parse 1 demo_push empty_db), True)"
    by code_simp+
  show ?thesis
    using gate_follows_entitlement [OF h, of 50] gate_follows_entitlement [OF h, of 150]
    by (simp add: demo_push_def)
qed

text \<open>
  Creating one more application is let through exactly when billing is not configured, or
  the user is paid and owns fewer applications than the quota; the two refusals carry distinct
  codes, the subscription one first.
\<close>

theorem quota_gate:
  "(quota_required cfg s now u = (None :: 'a response option) \<longleftrightarrow>
     (if billing_configured cfg
      then user_is_paid cfg s now u \<and> applications_used s u < application_quota cfg s now u else True)) \<and>
   (quota_required cfg s now u = Some (Refuse 402 ''quota_exceeded'' :: 'a response) \<longleftrightarrow>
     billing_configured cfg \<and> user_is_paid cfg s now u \<and>
     application_quota cfg s now u \<le> applications_used s u)"
  by (auto simp: quota_required_def)

text \<open>
  Pushes are applied at most once: after a push has been answered, any later push with the
  same delivery id is answered 409 and leaves the database as it is, whatever it carries.
\<close>

theorem entitlement_replay_is_inert:
  assumes "billing_configured cfg" "\<not> pl_ping p" "pl_delivery_id p \<noteq> []" "is_uuid (pl_delivery_id p)"
    and "entitlement_post cfg parse is_uuid True p s = (s', r)"
    and "pl_delivery_id q = pl_delivery_id p" "\<not> pl_ping q"
  shows "entitlement_post cfg parse is_uuid True q s' = (s', Refuse 409 [])"
proof -
  have keep: "apply_entitlement parse u p t = (t', ok) \<Longrightarrow> receipts t' = receipts t" for u t t' ok
    by (auto simp: apply_entitlement_def Let_def get_or_create_subscription_def split: sum.splits option.splits)
  have "pl_delivery_id p \<in> set (receipts s')"
    using assms(1-5)
    by (auto simp: entitlement_post_def Let_def split: if_splits option.splits prod.splits bool.splits dest!: keep)
  then show ?thesis using assms by (simp add: entitlement_post_def)
qed

lemma entitlement_replay_is_inert_witness:
  "entitlement_post demo_config demo_parse (\<lambda>_. True) True (demo_push\<lparr>pl_is_paid := False\<rparr>)
     (fst (entitlement_post demo_config demo_parse (\<lambda>_. True) True demo_push (empty_db\<lparr>users := [demo_user]\<rparr>))) =
   (fst (entitlement_post demo_config demo_parse (\<lambda>_. True) True demo_push (empty_db\<lparr>users := [demo_user]\<rparr>)),
    Refuse 409 [])"
  by (rule entitlement_replay_is_inert
      [where p = demo_push and s = "empty_db\<lparr>users := [demo_user]\<rparr>" and r = "Reply 200 []"])
    (simp_all, code_simp+)



section \<open>The signature covers the request\<close>

lemma decimal_chars: "c \<in> set (decimal n) \<Longrightarrow> 48 \<le> (of_char c :: nat) \<and> (of_char c :: nat) \<le> 57"
proof (induction n rule: decimal.induct)
  case (1 n)
  show ?case
  proof (cases "n < 10")
    case True
    with 1 show ?thesis by (auto simp: decimal.simps[of n] of_char_of)
  next
    case False
    then have "decimal n = decimal (n div 10) @ [char_of (n mod 10 + 48)]" by (simp add: decimal.simps[of n])
    with 1 False show ?thesis by (auto simp: of_char_of)
  qed
qed

definition decimal_value :: "string \<Rightarrow> nat" where
  "decimal_value s = fold (\<lambda>c v. 10 * v + (of_char c - 48)) s 0"

lemma decimal_value_decimal: "decimal_value (decimal n) = n"
proof (induction n rule: decimal.induct)
  case (1 n)
  then show ?case
    by (cases "n < 10") (simp_all add: decimal.simps[of n] decimal_value_def of_char_of)
qed

lemma decimal_inj: "decimal m = decimal n \<longleftrightarrow> m = n"
  by (metis decimal_value_decimal)

lemma decimal_not_dot: "CHR ''.'' \<notin> set (decimal n)" and decimal_not_minus: "CHR ''-'' \<notin> set (decimal n)"
  using decimal_chars[of "CHR ''.''" n] decimal_chars[of "CHR ''-''" n] by auto

lemma str_int_not_dot: "CHR ''.'' \<notin> set (str_int i)"
  by (auto simp: str_int_def decimal_not_dot)

lemma str_int_inj: "str_int i = str_int j \<longleftrightarrow> i = j"
proof -
  have "CHR ''-'' # xs \<noteq> decimal n" for xs n
    using decimal_not_minus[of n] by (metis list.set_intros(1))
  then show ?thesis
    by (auto simp: str_int_def decimal_inj) (metis)+
qed

lemma split_at_separator:
  "c \<notin> set a \<Longrightarrow> c \<notin> set a' \<Longrightarrow> a @ c # b = a' @ c # b' \<longleftrightarrow> a = a' \<and> b = b'"
proof (induction a arbitrary: a')
  case Nil
  then show ?case by (cases a') auto
next
  case (Cons x a)
  then show ?case by (cases a') auto
qed

text \<open>
  The text under a signature determines the time stamp, the method, the path and the body,
  for methods and paths without a dot (the routes of both services): a signature captured for
  one route opens no other.
\<close>

theorem signature_covers_request:
  assumes "CHR ''.'' \<notin> set (upper m)" "CHR ''.'' \<notin> set (upper m')"
    and "CHR ''.'' \<notin> set path" "CHR ''.'' \<notin> set path'"
  shows "signed_text m path body ts = signed_text m' path' body' ts' \<longleftrightarrow>
    ts = ts' \<and> upper m = upper m' \<and> path = path' \<and> body = body'"
  using assms by (auto simp: signed_text_def str_int_not_dot str_int_inj split_at_separator)

lemma signature_covers_request_witness:
  "signed_text ''post'' ''/a'' ''b'' 1 \<noteq> signed_text ''post'' ''/c'' ''b'' 1"
  using signature_covers_request [of "''post''" "''post''" "''/a''" "''/c''" "''b''" 1 "''b''" 1]
  by (simp add: upper_def upper_char_def char_of_def)

text \<open>
  An inbound push is accepted exactly when its signature is the one the shared secret gives
  for the request, with a readable time stamp at most five minutes away.
\<close>

theorem inbound_signature_accepted:
  "verify_inbound hmac_hex cfg now_seconds m path body ts sg \<longleftrightarrow>
     (\<exists>t. ts = Some t \<and> \<bar>now_seconds - t\<bar> \<le> 300 \<and> sg = sign hmac_hex cfg m path body t)"
  by (auto simp: verify_inbound_def sign_def starts_with_def split: option.splits)

end
