(* ===== verification/Push.thy ===== *)
theory Push
  imports Store
begin

text \<open>
  \<open>notifications/push.py\<close>: the choice of the provider, the message handed to FCM and the
  translation of its exceptions.
\<close>

section \<open>The provider\<close>

text \<open>
  A message to FCM, and what its library answers: the message id, or one of the exceptions the
  code tells apart. \<open>init_error\<close> is the exception of loading the credentials, if any.
\<close>

record fcm_message =
  fcm_token :: string
  fcm_notification :: "(string \<times> string) option"
  fcm_data :: "(string \<times> string) list"
  fcm_priority :: string

datatype fcm_outcome =
    Fcm_Ok string
  | Fcm_Unregistered string
  | Fcm_Invalid_Argument string
  | Fcm_Unavailable string
  | Fcm_Firebase_Error string
  | Fcm_Other_Error string

record provider =
  init_error :: "string option"
  fcm_send :: "fcm_message \<Rightarrow> fcm_outcome"

text \<open>The message id, or the exception that leaves \<open>send_push_to_device\<close>.\<close>

datatype push_outcome =
    Push_Ok string
  | Invalid_Push_Token string
  | Temporary_Push_Provider_Error string
  | Push_Provider_Error string

definition is_fcm_configured :: "config \<Rightarrow> bool" where
  "is_fcm_configured cfg =
     (if force_mock_push cfg then False
      else let path = strip (fcm_service_account_path cfg) in
        path \<noteq> [] \<and> lower path \<notin> {''mock'', ''none''})"

text \<open>Whether a message carries a \<open>notification\<close> block (\<open>PUSH_DELIVERY_MODE\<close>).\<close>

definition include_notification :: "config \<Rightarrow> device_platform option \<Rightarrow> bool \<Rightarrow> bool" where
  "include_notification cfg plat android_data_only =
     (let mode = lower (strip (if push_delivery_mode cfg = [] then ''hybrid'' else push_delivery_mode cfg));
          is_ios = (plat = Some Ios)
      in is_ios \<or> (mode \<noteq> ''data-only'' \<and> \<not> android_data_only))"

definition build_fcm_message ::
    "config \<Rightarrow> string \<Rightarrow> string \<Rightarrow> string \<Rightarrow> (string \<times> string) list \<Rightarrow> device_platform option \<Rightarrow> bool \<Rightarrow> fcm_message" where
  "build_fcm_message cfg tok ttl msg data plat android_data_only =
     \<lparr>fcm_token = tok,
      fcm_notification =
        (if include_notification cfg plat android_data_only then Some (ttl, msg) else None),
      fcm_data = data, fcm_priority = ''high''\<rparr>"

definition send_fcm ::
    "config \<Rightarrow> provider \<Rightarrow> string \<Rightarrow> string \<Rightarrow> string \<Rightarrow> (string \<times> string) list \<Rightarrow>
     device_platform option \<Rightarrow> bool \<Rightarrow> fcm_outcome" where
  "send_fcm cfg prov tok ttl msg data plat android_data_only =
     (case init_error prov of
        Some e \<Rightarrow> Fcm_Other_Error e
      | None \<Rightarrow> fcm_send prov (build_fcm_message cfg tok ttl msg data plat android_data_only))"

text \<open>The exceptions \<open>_send_fcm\<close> raises, and the catch-all of \<open>send_push_to_device\<close>.\<close>

fun translate_fcm :: "fcm_outcome \<Rightarrow> push_outcome" where
  "translate_fcm (Fcm_Ok i) = Push_Ok i"
| "translate_fcm (Fcm_Unregistered e) = Invalid_Push_Token e"
| "translate_fcm (Fcm_Invalid_Argument e) = Invalid_Push_Token e"
| "translate_fcm (Fcm_Unavailable e) = Temporary_Push_Provider_Error e"
| "translate_fcm (Fcm_Firebase_Error e) = Push_Provider_Error e"
| "translate_fcm (Fcm_Other_Error e) = Push_Provider_Error e"

definition send_mock :: "string \<Rightarrow> string" where
  "send_mock tok = ''mock-msg-'' @ drop (length tok - 6) tok"

definition send_push_to_device ::
    "config \<Rightarrow> provider \<Rightarrow> string \<Rightarrow> string \<Rightarrow> string \<Rightarrow> (string \<times> string) list \<Rightarrow>
     device_platform option \<Rightarrow> bool \<Rightarrow> push_outcome" where
  "send_push_to_device cfg prov tok ttl msg data plat android_data_only =
     (if is_fcm_configured cfg
      then translate_fcm (send_fcm cfg prov tok ttl msg data plat android_data_only)
      else Push_Ok (send_mock tok))"

lemma include_notification_ios: "include_notification cfg (Some Ios) b"
  by (simp add: include_notification_def Let_def)

end
