(* ===== verification/Webhooks.thy ===== *)
theory Webhooks
  imports Store "HOL-Library.Word"
begin

text \<open>
  \<open>applications/url_safety.py\<close>, the guard against server-side request forgery, and
  \<open>notifications/webhooks.py\<close>, the signed callback pinned to an address the guard has validated.
\<close>

section \<open>Addresses\<close>

datatype ip = IPv4 "32 word" | IPv6 "128 word"

text \<open>\<open>a in IPv4Network(net/len)\<close>: the first \<open>len\<close> bits agree.\<close>

definition in_net4 :: "32 word \<Rightarrow> 32 word \<times> nat \<Rightarrow> bool" where
  "in_net4 a n = (drop_bit (32 - snd n) a = drop_bit (32 - snd n) (fst n))"

definition in_net6 :: "128 word \<Rightarrow> 128 word \<times> nat \<Rightarrow> bool" where
  "in_net6 a n = (drop_bit (128 - snd n) a = drop_bit (128 - snd n) (fst n))"

definition quad :: "nat \<Rightarrow> nat \<Rightarrow> nat \<Rightarrow> nat \<Rightarrow> 32 word" where
  "quad a b c d = of_nat (((a * 256 + b) * 256 + c) * 256 + d)"

text \<open>An IPv6 prefix from its first three 16-bit groups.\<close>

definition groups :: "nat \<Rightarrow> nat \<Rightarrow> nat \<Rightarrow> 128 word" where
  "groups a b c = push_bit 80 (of_nat ((a * 65536 + b) * 65536 + c))"

text \<open>The tables of Python's \<open>ipaddress\<close> module.\<close>

definition private4 :: "(32 word \<times> nat) list" where
  "private4 = [(quad 0 0 0 0, 8), (quad 10 0 0 0, 8), (quad 127 0 0 0, 8), (quad 169 254 0 0, 16),
     (quad 172 16 0 0, 12), (quad 192 0 0 0, 24), (quad 192 0 0 170, 31), (quad 192 0 2 0, 24),
     (quad 192 168 0 0, 16), (quad 198 18 0 0, 15), (quad 198 51 100 0, 24),
     (quad 203 0 113 0, 24), (quad 240 0 0 0, 4), (quad 255 255 255 255, 32)]"

definition private4_exceptions :: "(32 word \<times> nat) list" where
  "private4_exceptions = [(quad 192 0 0 9, 32), (quad 192 0 0 10, 32)]"

definition private6 :: "(128 word \<times> nat) list" where
  "private6 = [(1, 128), (0, 128), (push_bit 32 65535, 96), (groups 100 65435 1, 48),
     (groups 256 0 0, 64), (groups 8193 0 0, 23), (groups 8193 3512 0, 32), (groups 8194 0 0, 16),
     (groups 16383 0 0, 20), (groups 64512 0 0, 7), (groups 65152 0 0, 10)]"

definition private6_exceptions :: "(128 word \<times> nat) list" where
  "private6_exceptions = [(groups 8193 1 0 + 1, 128), (groups 8193 1 0 + 2, 128), (groups 8193 3 0, 32),
     (groups 8193 4 274, 48), (groups 8193 32 0, 28), (groups 8193 48 0, 28)]"

definition reserved6 :: "(128 word \<times> nat) list" where
  "reserved6 = [(groups 0 0 0, 8), (groups 256 0 0, 8), (groups 512 0 0, 7), (groups 1024 0 0, 6),
     (groups 2048 0 0, 5), (groups 4096 0 0, 4), (groups 16384 0 0, 3), (groups 24576 0 0, 3),
     (groups 32768 0 0, 3), (groups 40960 0 0, 3), (groups 49152 0 0, 3), (groups 57344 0 0, 4),
     (groups 61440 0 0, 5), (groups 63488 0 0, 6), (groups 65024 0 0, 9)]"

definition ipv4_mapped :: "128 word \<Rightarrow> 32 word option" where
  "ipv4_mapped a = (if drop_bit 32 a = 65535 then Some (ucast a) else None)"

fun is_private :: "ip \<Rightarrow> bool" where
  "is_private (IPv4 a) =
     (list_ex (in_net4 a) private4 \<and> \<not> list_ex (in_net4 a) private4_exceptions)"
| "is_private (IPv6 a) =
     (case ipv4_mapped a of
        Some v \<Rightarrow> list_ex (in_net4 v) private4 \<and> \<not> list_ex (in_net4 v) private4_exceptions
      | None \<Rightarrow> list_ex (in_net6 a) private6 \<and> \<not> list_ex (in_net6 a) private6_exceptions)"

fun is_loopback :: "ip \<Rightarrow> bool" where
  "is_loopback (IPv4 a) = in_net4 a (quad 127 0 0 0, 8)"
| "is_loopback (IPv6 a) =
     (case ipv4_mapped a of Some v \<Rightarrow> in_net4 v (quad 127 0 0 0, 8) | None \<Rightarrow> a = 1)"

fun is_link_local :: "ip \<Rightarrow> bool" where
  "is_link_local (IPv4 a) = in_net4 a (quad 169 254 0 0, 16)"
| "is_link_local (IPv6 a) =
     (case ipv4_mapped a of Some v \<Rightarrow> in_net4 v (quad 169 254 0 0, 16)
      | None \<Rightarrow> in_net6 a (groups 65152 0 0, 10))"

fun is_reserved :: "ip \<Rightarrow> bool" where
  "is_reserved (IPv4 a) = in_net4 a (quad 240 0 0 0, 4)"
| "is_reserved (IPv6 a) =
     (case ipv4_mapped a of Some v \<Rightarrow> in_net4 v (quad 240 0 0 0, 4)
      | None \<Rightarrow> list_ex (in_net6 a) reserved6)"

fun is_multicast :: "ip \<Rightarrow> bool" where
  "is_multicast (IPv4 a) = in_net4 a (quad 224 0 0 0, 4)"
| "is_multicast (IPv6 a) =
     (case ipv4_mapped a of Some v \<Rightarrow> in_net4 v (quad 224 0 0 0, 4)
      | None \<Rightarrow> in_net6 a (groups 65280 0 0, 8))"

fun is_unspecified :: "ip \<Rightarrow> bool" where
  "is_unspecified (IPv4 a) = (a = 0)"
| "is_unspecified (IPv6 a) =
     (case ipv4_mapped a of Some v \<Rightarrow> v = 0 | None \<Rightarrow> a = 0)"

section \<open>The guard\<close>

fun unwrap_mapped :: "ip \<Rightarrow> ip" where
  "unwrap_mapped (IPv4 a) = IPv4 a"
| "unwrap_mapped (IPv6 a) = (case ipv4_mapped a of Some v \<Rightarrow> IPv4 v | None \<Rightarrow> IPv6 a)"

definition is_forbidden_ip :: "ip \<Rightarrow> bool" where
  "is_forbidden_ip i =
     (let j = unwrap_mapped i in
      is_private j \<or> is_loopback j \<or> is_link_local j \<or> is_reserved j \<or> is_multicast j \<or>
      is_unspecified j)"

text \<open>
  \<open>urlsplit\<close>, \<open>ip_address\<close> and \<open>getaddrinfo\<close> are the library's: the parts of a URL (nothing
  when it raises), the address a text writes, if it does, and the texts of the addresses a name
  has at the time of the call (nothing when the lookup fails).
\<close>

record url_parts =
  url_scheme :: string
  url_host :: string
  url_port :: "nat option"
  url_userinfo :: string
  url_path :: string
  url_query :: string

record resolver =
  urlsplit :: "string \<Rightarrow> url_parts option"
  ip_address :: "string \<Rightarrow> ip option"
  getaddrinfo :: "string \<Rightarrow> string list option"

datatype url_verdict = Safe "ip list" | Unsafe string | Url_Error

definition resolve_host_ips :: "resolver \<Rightarrow> string \<Rightarrow> ip list option" where
  "resolve_host_ips net host =
     (case ip_address net host of
        Some i \<Rightarrow> Some [i]
      | None \<Rightarrow>
          (case getaddrinfo net host of
             None \<Rightarrow> None
           | Some infos \<Rightarrow>
               (let ips = List.map_filter (ip_address net) infos in
                if ips = [] then None else Some ips)))"

definition allowed_schemes :: "string list" where
  "allowed_schemes = [''http'', ''https'']"

definition assert_webhook_url_safe :: "resolver \<Rightarrow> string \<Rightarrow> url_verdict" where
  "assert_webhook_url_safe net url =
     (case urlsplit net url of
        None \<Rightarrow> Url_Error
      | Some parts \<Rightarrow>
          if lower (url_scheme parts) \<notin> set allowed_schemes then Unsafe ''scheme''
          else if url_host parts = [] then Unsafe ''host''
          else (case resolve_host_ips net (url_host parts) of
             None \<Rightarrow> Unsafe ''resolve''
           | Some ips \<Rightarrow> if list_ex is_forbidden_ip ips then Unsafe ''forbidden'' else Safe ips))"

text \<open>The field validator: nothing, the validation error, or the exception it lets through.\<close>

definition validate_webhook_url :: "resolver \<Rightarrow> string \<Rightarrow> url_verdict" where
  "validate_webhook_url net v = (if v = [] then Safe [] else assert_webhook_url_safe net v)"

unbundle bit_operations_syntax

section \<open>Webhook callbacks\<close>

text \<open>
  A request as it leaves: the address the socket connects to, the \<open>Host\<close> header, the name used
  for SNI and certificate verification, whether redirects are followed, the body and its
  signature. \<open>requests\<close> answers with a status or raises \<open>RequestException\<close>.
\<close>

record pinned_request =
  connect_ip :: ip
  req_scheme :: string
  req_port :: "nat option"
  req_userinfo :: string
  req_path :: string
  req_query :: string
  host_header :: string
  server_hostname :: string
  allow_redirects :: bool
  trust_env :: bool
  req_body :: string
  req_signature :: string

text \<open>\<open>_post_pinned\<close>: the request to \<open>ips[0]\<close> for the name the URL carries.\<close>

definition post_pinned :: "url_parts \<Rightarrow> ip list \<Rightarrow> string \<Rightarrow> string \<Rightarrow> pinned_request" where
  "post_pinned parts ips body signature =
     (let host = url_host parts;
          bracketed = (if CHR '':'' \<in> set host then ''['' @ host @ '']'' else host)
      in \<lparr>connect_ip = hd ips, req_scheme = url_scheme parts, req_port = url_port parts,
          req_userinfo = url_userinfo parts, req_path = url_path parts, req_query = url_query parts,
          host_header = (case url_port parts of
             None \<Rightarrow> bracketed | Some p \<Rightarrow> bracketed @ '':'' @ decimal p),
          server_hostname = host, allow_redirects = False, trust_env = False,
          req_body = body, req_signature = signature\<rparr>)"

text \<open>
  One execution of \<open>send_webhook_callback_task\<close>: nothing to do, a refusal by the guard, an
  exception of \<open>urlsplit\<close>, or a request. \<open>encode\<close> is \<open>json.dumps(payload, sort_keys=True)\<close>.
\<close>

record webhook_payload =
  wp_notification_id :: pk
  wp_application_id :: pk
  wp_status :: notification_status
  wp_sent_at :: "instant option"
  wp_timestamp :: instant

datatype callback_action = No_Callback | Blocked string | Callback_Error | Post pinned_request

definition webhook_callback_action ::
    "resolver \<Rightarrow> (string \<Rightarrow> string \<Rightarrow> string) \<Rightarrow> (webhook_payload \<Rightarrow> string) \<Rightarrow> instant \<Rightarrow> db \<Rightarrow>
     pk \<Rightarrow> pk \<Rightarrow> notification_status \<Rightarrow> instant option \<Rightarrow> callback_action" where
  "webhook_callback_action net hmac_hex encode now s app nid st sent =
     (case get_application s app of
        None \<Rightarrow> No_Callback
      | Some a \<Rightarrow>
          if webhook_url a = [] then No_Callback
          else (case assert_webhook_url_safe net (webhook_url a) of
             Unsafe e \<Rightarrow> Blocked e
           | Url_Error \<Rightarrow> Callback_Error
           | Safe ips \<Rightarrow>
               (case urlsplit net (webhook_url a) of
                  None \<Rightarrow> Callback_Error
                | Some parts \<Rightarrow>
                    (let body = encode \<lparr>wp_notification_id = nid, wp_application_id = app_id a,
                           wp_status = st, wp_sent_at = sent, wp_timestamp = now\<rparr>
                     in Post (post_pinned parts ips body (hmac_hex (webhook_secret a) body))))))"

definition webhook_max_retries :: nat where "webhook_max_retries = 3"

text \<open>
  The task under Celery: each attempt reads the application and resolves the name again, at its
  own time and with the answers of that time; only a \<open>RequestException\<close> is retried. The list
  gives, per attempt, the resolver, the time, and whether the request went through.
\<close>

record attempt =
  at_net :: resolver
  at_now :: instant
  at_delivered :: bool

fun webhook_task_run ::
    "nat \<Rightarrow> (string \<Rightarrow> string \<Rightarrow> string) \<Rightarrow> (webhook_payload \<Rightarrow> string) \<Rightarrow> db \<Rightarrow> attempt list \<Rightarrow>
     pk \<Rightarrow> pk \<Rightarrow> notification_status \<Rightarrow> instant option \<Rightarrow> pinned_request list" where
  "webhook_task_run retries hmac_hex encode s [] app nid st sent = []"
| "webhook_task_run retries hmac_hex encode s (a # as) app nid st sent =
     (case webhook_callback_action (at_net a) hmac_hex encode (at_now a) s app nid st sent of
        Post r \<Rightarrow>
          if at_delivered a then [r]
          else if retries < webhook_max_retries
            then r # webhook_task_run (Suc retries) hmac_hex encode s as app nid st sent
          else [r]
      | _ \<Rightarrow> [])"

text \<open>\<open>send_webhook_callback\<close>: hand the callback to its own task, if there is a URL.\<close>

definition send_webhook_callback ::
    "application \<Rightarrow> pk \<Rightarrow> notification_status \<Rightarrow> instant option \<Rightarrow> db \<Rightarrow> db" where
  "send_webhook_callback a nid st sent s =
     (if webhook_url a = [] then s else submit (Webhook_Callback (app_id a) nid st sent) s)"

section \<open>Properties\<close>

lemma safe_url_addresses:
  assumes "assert_webhook_url_safe net url = Safe ips"
  shows "ips \<noteq> [] \<and> (\<forall>i \<in> set ips. \<not> is_forbidden_ip i)"
proof -
  have "resolve_host_ips net h = Some js \<Longrightarrow> js \<noteq> []" for h js
    by (auto simp: resolve_host_ips_def Let_def split: option.splits if_splits)
  then show ?thesis using assms
    by (auto simp: assert_webhook_url_safe_def list_ex_iff split: option.splits if_splits)
qed

lemma callback_post:
  assumes "webhook_callback_action net h enc now s app nid st sent = Post r"
  shows "\<not> is_forbidden_ip (connect_ip r) \<and> \<not> allow_redirects r \<and> \<not> trust_env r \<and>
    (\<exists>a parts. get_application s app = Some a \<and> urlsplit net (webhook_url a) = Some parts \<and>
       server_hostname r = url_host parts \<and> req_signature r = h (webhook_secret a) (req_body r))"
proof -
  from assms obtain a ips parts where a: "get_application s app = Some a"
    and safe: "assert_webhook_url_safe net (webhook_url a) = Safe ips"
    and parts: "urlsplit net (webhook_url a) = Some parts"
    and r: "r = post_pinned parts ips (req_body r) (h (webhook_secret a) (req_body r))"
    by (auto simp: webhook_callback_action_def Let_def post_pinned_def
        split: option.splits if_splits url_verdict.splits)
  have "connect_ip r = hd ips" "allow_redirects r = False" "trust_env r = False"
    "server_hostname r = url_host parts" "req_signature r = h (webhook_secret a) (req_body r)"
    by (subst r, simp add: post_pinned_def Let_def)+
  then show ?thesis using a parts safe_url_addresses[OF safe] by auto
qed



text \<open>
  The resolver of an attempt whose name is rebound to a private address: the first attempt
  posts to the public address, the second is refused.
\<close>

definition demo_net :: "string \<Rightarrow> resolver" where
  "demo_net host = \<lparr>urlsplit = (\<lambda>u. Some \<lparr>url_scheme = ''https'', url_host = ''cb.io'', url_port = None,
     url_userinfo = [], url_path = ''/'', url_query = []\<rparr>),
     ip_address = (\<lambda>t. if t = ''public'' then Some (IPv4 (quad 93 184 216 34))
       else if t = ''private'' then Some (IPv4 (quad 10 0 0 1)) else None),
     getaddrinfo = (\<lambda>_. Some [host])\<rparr>"

definition demo_run :: "pinned_request list" where
  "demo_run = webhook_task_run 0 (\<lambda>k b. k @ b) (\<lambda>_. ''body'')
     (empty_db\<lparr>applications := [blank_application\<lparr>webhook_url := ''u'', webhook_secret := ''s''\<rparr>]\<rparr>)
     [\<lparr>at_net = demo_net ''public'', at_now = 0, at_delivered = False\<rparr>,
      \<lparr>at_net = demo_net ''private'', at_now = 60, at_delivered = True\<rparr>] 1 7 Sent None"

lemma demo_run_eq: "map (\<lambda>r. (connect_ip r, req_signature r)) demo_run = [(IPv4 (quad 93 184 216 34), ''sbody'')]"
  by (simp add: demo_run_def webhook_callback_action_def get_application_def empty_db_def
      blank_application_def demo_net_def assert_webhook_url_safe_def allowed_schemes_def lower_def
      lower_char_def resolve_host_ips_def map_filter_simps is_forbidden_ip_def in_net4_def quad_def
      private4_def private4_exceptions_def post_pinned_def Let_def webhook_max_retries_def)


text \<open>
  The guard refuses an IPv4 address exactly when it is a multicast address or in one of the
  networks Python lists as private (the loopback, link-local, reserved and unspecified tests add
  nothing), the two addresses 192.0.0.9 and 192.0.0.10 excepted; and an IPv4-mapped IPv6
  address is judged as the IPv4 address inside it.
\<close>

theorem forbidden_ipv4_addresses:
  "(is_forbidden_ip (IPv4 a) \<longleftrightarrow>
     in_net4 a (quad 224 0 0 0, 4) \<or>
     list_ex (in_net4 a) private4 \<and> a \<noteq> quad 192 0 0 9 \<and> a \<noteq> quad 192 0 0 10) \<and>
   is_forbidden_ip (IPv6 (push_bit 32 65535 OR ucast a)) = is_forbidden_ip (IPv4 a)"
proof -
  have exc: "list_ex (in_net4 a) private4_exceptions \<longleftrightarrow> a = quad 192 0 0 9 \<or> a = quad 192 0 0 10" for a
    by (auto simp: private4_exceptions_def in_net4_def)
  have sub: "in_net4 a n \<Longrightarrow> list_ex (in_net4 a) private4 \<and> a \<noteq> quad 192 0 0 9 \<and> a \<noteq> quad 192 0 0 10"
    if "n \<in> {(quad 127 0 0 0, 8), (quad 169 254 0 0, 16), (quad 240 0 0 0, 4)}" for a n
    using that by (auto simp: private4_def in_net4_def quad_def)
  have zero: "list_ex (in_net4 0) private4 \<and> (0 :: 32 word) \<noteq> quad 192 0 0 9 \<and> 0 \<noteq> quad 192 0 0 10"
    by (simp add: private4_def in_net4_def quad_def)
  have v4: "is_forbidden_ip (IPv4 a) \<longleftrightarrow> in_net4 a (quad 224 0 0 0, 4) \<or>
     list_ex (in_net4 a) private4 \<and> a \<noteq> quad 192 0 0 9 \<and> a \<noteq> quad 192 0 0 10"
    using sub[of _ a] zero by (auto simp: is_forbidden_ip_def exc)
  have "ipv4_mapped (push_bit 32 65535 OR ucast a) = Some a"
  proof -
    have "drop_bit 32 (push_bit 32 65535 OR ucast a :: 128 word) = 65535"
      by (rule bit_word_eqI)
        (auto simp: bit_simps dest: bit_imp_le_length)
    moreover have "\<not> bit (push_bit 32 65535 :: 128 word) n" if "n < 32" for n
      using that by (subst bit_push_bit_iff) simp
    then have "ucast (push_bit 32 65535 OR ucast a :: 128 word) = a"
      by (intro bit_word_eqI) (simp add: bit_or_iff bit_unsigned_iff)
    ultimately show ?thesis by (simp add: ipv4_mapped_def)
  qed
  then have "is_forbidden_ip (IPv6 (push_bit 32 65535 OR ucast a)) = is_forbidden_ip (IPv4 a)"
    by (simp add: is_forbidden_ip_def)
  with v4 show ?thesis by (rule conjI)
qed

text \<open>
  The instance metadata service is refused in both notations; the shared address space of
  carrier-grade NAT, which is not publicly routable, is let through.
\<close>

theorem metadata_refused_shared_space_accepted:
  "is_forbidden_ip (IPv4 (quad 169 254 169 254)) \<and>
   is_forbidden_ip (IPv6 (push_bit 32 65535 OR ucast (quad 169 254 169 254))) \<and>
   \<not> is_forbidden_ip (IPv4 (quad 100 64 0 1))"
  by (simp_all add: is_forbidden_ip_def in_net4_def quad_def ipv4_mapped_def private4_def
      private4_exceptions_def)

end
