(* ===== verification/Sending.thy ===== *)
theory Sending
  imports Scheduling Billing Push Webhooks
begin

text \<open>
  \<open>notifications/services.py\<close>: the worker that sends one notification. It acquires the row,
  checks the owner's subscription and the application's quiet periods, materialises the
  deliveries, processes each of them against the provider and closes the notification. Time is
  read once at the start, once per device and once at the end.
\<close>

section \<open>One run of the worker\<close>

definition max_delivery_attempts :: nat where "max_delivery_attempts = 3"

definition allowed_statuses_to_start :: "notification_status list" where
  "allowed_statuses_to_start = [Draft, Queued, Failed, Partial]"

record send_result =
  sr_notification_id :: pk
  target_count :: nat
  sent_count :: nat
  failed_count :: nat
  skipped_count :: nat

text \<open>
  What a run reads outside the database: the settings, the local clock, the provider, whether
  another transaction holds the row of the notification, and \<open>timezone.now()\<close> at the start, at
  the turn of each device, and at the end.
\<close>

record run_env =
  env_cfg :: config
  env_clock :: clock
  env_provider :: provider
  row_locked :: bool
  now_start :: instant
  now_delivery :: "pk \<Rightarrow> instant"
  now_end :: instant

definition can_retry_delivery :: "delivery \<Rightarrow> bool" where
  "can_retry_delivery d =
     (if dlv_status d = D_Sent then False else attempt_count d < max_delivery_attempts)"

definition compute_next_retry :: "instant \<Rightarrow> nat \<Rightarrow> instant" where
  "compute_next_retry now n =
     now + (if n = 1 then 1 else if n = 2 then 5 else if n = 3 then 15 else 30) * minute"

section \<open>Targets\<close>

definition get_target_devices_for_notification :: "db \<Rightarrow> notification \<Rightarrow> device list" where
  "get_target_devices_for_notification s n =
     sort_key dev_id (filter (\<lambda>d. actively_linked s (dev_id d) (ntf_application n) \<and>
       push_token_status d = T_Active) (devices s))"

definition new_delivery :: "pk \<Rightarrow> pk \<Rightarrow> pk \<Rightarrow> delivery" where
  "new_delivery i nid dev = \<lparr>dlv_id = i, dlv_notification = nid, dlv_device = dev,
     dlv_status = D_Pending, provider_message_id = [], error_message = [], dlv_sent_at = None,
     delivered_at = None, opened_at = None, attempt_count = 0, last_attempt_at = None,
     next_retry_at = None\<rparr>"

text \<open>One row of \<open>bulk_create(..., ignore_conflicts=True)\<close>: skipped when the pair exists.\<close>

definition create_delivery :: "pk \<Rightarrow> pk \<Rightarrow> db \<Rightarrow> db" where
  "create_delivery nid dev s =
     (if list_ex (\<lambda>d. dlv_notification d = nid \<and> dlv_device d = dev) (deliveries s)
      then s\<lparr>next_pk := Suc (next_pk s)\<rparr>
      else s\<lparr>deliveries := deliveries s @ [new_delivery (next_pk s) nid dev],
             next_pk := Suc (next_pk s)\<rparr>)"

definition get_target_deliveries_for_notification :: "notification \<Rightarrow> db \<Rightarrow> db \<times> delivery list" where
  "get_target_deliveries_for_notification n s =
     (if deliveries_of s (ntf_id n) \<noteq> [] then (s, deliveries_of s (ntf_id n))
      else let ds = get_target_devices_for_notification s n in
        if ds = [] then (s, [])
        else let s1 = fold (\<lambda>d. create_delivery (ntf_id n) (dev_id d)) ds s in
          (s1, deliveries_of s1 (ntf_id n)))"

definition get_current_quiet_period_end :: "clock \<Rightarrow> db \<Rightarrow> notification \<Rightarrow> instant \<Rightarrow> instant option" where
  "get_current_quiet_period_end clk s n at =
     get_quiet_period_end_for_application clk s (ntf_application n) at"

definition get_current_device_quiet_period_end :: "clock \<Rightarrow> db \<Rightarrow> device \<Rightarrow> instant \<Rightarrow> instant option" where
  "get_current_device_quiet_period_end clk s d at =
     get_quiet_period_end_from_iterable clk
       (sort_key qp_id (filter (\<lambda>q. qp_parent q = dev_id d) (device_quiet_periods s))) at"

section \<open>Acquisition\<close>

definition set_notification :: "pk \<Rightarrow> (notification \<Rightarrow> notification) \<Rightarrow> db \<Rightarrow> db" where
  "set_notification i f = put_notifications (\<lambda>n. ntf_id n = i) f"

definition acquire_notification_for_processing ::
    "bool \<Rightarrow> instant \<Rightarrow> pk \<Rightarrow> db \<Rightarrow> db \<times> notification option" where
  "acquire_notification_for_processing locked now i s =
     (if locked then (s, None)
      else case get_notification s i of
        None \<Rightarrow> (s, None)
      | Some n \<Rightarrow>
          if ntf_status n \<notin> set allowed_statuses_to_start then (s, None)
          else let s1 = set_notification i
                 (\<lambda>n. n\<lparr>ntf_status := Processing, processing_started_at := Some now\<rparr>) s
               in (s1, get_notification s1 i))"

section \<open>Writing the outcome of a delivery\<close>

definition set_delivery :: "pk \<Rightarrow> (delivery \<Rightarrow> delivery) \<Rightarrow> db \<Rightarrow> db" where
  "set_delivery i f = put_deliveries (\<lambda>d. dlv_id d = i) f"

definition set_device :: "pk \<Rightarrow> (device \<Rightarrow> device) \<Rightarrow> db \<Rightarrow> db" where
  "set_device i f = put_devices (\<lambda>d. dev_id d = i) f"

definition should_skip_delivery :: "delivery \<Rightarrow> bool" where
  "should_skip_delivery d \<longleftrightarrow> dlv_status d = D_Sent"

definition should_wait_for_retry :: "instant \<Rightarrow> delivery \<Rightarrow> bool" where
  "should_wait_for_retry now d \<longleftrightarrow> (case next_retry_at d of None \<Rightarrow> False | Some t \<Rightarrow> now < t)"

definition mark_delivery_as_sent :: "instant \<Rightarrow> string \<Rightarrow> delivery \<Rightarrow> db \<Rightarrow> db" where
  "mark_delivery_as_sent now msg_id d = set_delivery (dlv_id d) (\<lambda>r. r\<lparr>dlv_status := D_Sent,
     provider_message_id := msg_id, error_message := [], dlv_sent_at := Some now,
     last_attempt_at := Some now, next_retry_at := None\<rparr>)"

definition mark_delivery_as_deferred :: "instant \<Rightarrow> instant \<Rightarrow> delivery \<Rightarrow> db \<Rightarrow> db" where
  "mark_delivery_as_deferred now retry_at d = set_delivery (dlv_id d) (\<lambda>r. r\<lparr>dlv_status := D_Pending,
     last_attempt_at := Some now, error_message := ''Deferred by device quiet period.'',
     next_retry_at := Some retry_at\<rparr>)"

definition cancel_application_inactive :: string where "cancel_application_inactive = ''application_inactive''"
definition cancel_device_unlinked :: string where "cancel_device_unlinked = ''device_unlinked''"
definition cancel_push_token_inactive :: string where "cancel_push_token_inactive = ''push_token_inactive''"
definition cancel_subscription_required :: string where
  "cancel_subscription_required = subscription_required_code"

definition cancel_delivery :: "instant \<Rightarrow> string \<Rightarrow> delivery \<Rightarrow> db \<Rightarrow> db" where
  "cancel_delivery now reason d = set_delivery (dlv_id d) (\<lambda>r. r\<lparr>dlv_status := D_Failed,
     error_message := ''Cancelled: '' @ reason @ ''.'', last_attempt_at := Some now,
     next_retry_at := None\<rparr>)"

definition ineligibility_reason :: "bool \<Rightarrow> device \<Rightarrow> pk list \<Rightarrow> string option" where
  "ineligibility_reason application_active dev linked_device_ids =
     (if \<not> application_active then Some cancel_application_inactive
      else if dev_id dev \<notin> set linked_device_ids then Some cancel_device_unlinked
      else if push_token_status dev \<noteq> T_Active \<or> \<not> dev_is_active dev
        then Some cancel_push_token_inactive
      else None)"

text \<open>
  \<open>_mark_delivery_as_failed\<close>: the counter is bumped in the database and read back before the
  status is decided.
\<close>

definition mark_delivery_as_failed :: "instant \<Rightarrow> string \<Rightarrow> delivery \<Rightarrow> db \<Rightarrow> db" where
  "mark_delivery_as_failed now exc d s =
     (let s1 = set_delivery (dlv_id d) (\<lambda>r. r\<lparr>attempt_count := attempt_count r + 1\<rparr>) s in
      case get_delivery s1 (dlv_id d) of
        None \<Rightarrow> s1
      | Some row \<Rightarrow>
          set_delivery (dlv_id d) (\<lambda>r.
            if max_delivery_attempts \<le> attempt_count row
            then r\<lparr>last_attempt_at := Some now, error_message := exc, dlv_status := D_Failed,
                   next_retry_at := None\<rparr>
            else r\<lparr>last_attempt_at := Some now, error_message := exc, dlv_status := D_Pending,
                   next_retry_at := Some (compute_next_retry now (attempt_count row))\<rparr>) s1)"

definition record_delivery_failure :: "instant \<Rightarrow> string \<Rightarrow> bool \<Rightarrow> delivery \<Rightarrow> device \<Rightarrow> db \<Rightarrow> db" where
  "record_delivery_failure now exc invalidate_token d dev s =
     (let s1 = set_device (dev_id dev) (\<lambda>r. r\<lparr>failure_count := failure_count r + 1\<rparr>) s;
          s2 = (if invalidate_token
                then set_device (dev_id dev) (\<lambda>r. r\<lparr>push_token_status := T_Invalid,
                  dev_is_active := False, invalidated_at := Some now,
                  invalidation_reason := ''invalid_token''\<rparr>) s1
                else s1)
      in mark_delivery_as_failed now exc d s2)"

section \<open>The loop over the deliveries\<close>

record counts =
  c_sent :: nat
  c_failed :: nat
  c_skipped :: nat
  c_deferred :: nat
  c_waiting :: nat

definition no_counts :: counts where
  "no_counts = \<lparr>c_sent = 0, c_failed = 0, c_skipped = 0, c_deferred = 0, c_waiting = 0\<rparr>"

definition count_sent :: "counts \<Rightarrow> counts" where "count_sent c = c\<lparr>c_sent := Suc (c_sent c)\<rparr>"
definition count_failed :: "counts \<Rightarrow> counts" where "count_failed c = c\<lparr>c_failed := Suc (c_failed c)\<rparr>"
definition count_skipped :: "counts \<Rightarrow> counts" where "count_skipped c = c\<lparr>c_skipped := Suc (c_skipped c)\<rparr>"
definition count_deferred :: "counts \<Rightarrow> counts" where "count_deferred c = c\<lparr>c_deferred := Suc (c_deferred c)\<rparr>"
definition count_waiting :: "counts \<Rightarrow> counts" where "count_waiting c = c\<lparr>c_waiting := Suc (c_waiting c)\<rparr>"

lemmas count_defs = count_sent_def count_failed_def count_skipped_def count_deferred_def
  count_waiting_def

text \<open>What is the same for every device of a run, read before the loop.\<close>

record send_context =
  ctx_env :: run_env
  ctx_notification :: notification
  ctx_data :: "(string \<times> string) list"
  ctx_application_active :: bool
  ctx_linked_device_ids :: "pk list"

definition rstrip_slash :: "string \<Rightarrow> string" where
  "rstrip_slash t = rev (dropWhile (\<lambda>c. c = CHR ''/'') (rev t))"

text \<open>The \<open>data\<close> of the message, its values as \<open>str()\<close> writes them; \<open>app_logo\<close> is the media URL.\<close>

definition base_data :: "config \<Rightarrow> notification \<Rightarrow> application \<Rightarrow> (string \<times> string) list" where
  "base_data cfg n a =
     [(''notification_id'', decimal (ntf_id n)), (''title'', title n), (''message'', message n),
      (''application_name'', app_name a),
      (''application_logo'',
         (if app_logo a = [] then [] else rstrip_slash (public_media_base_url cfg) @ app_logo a))]"

definition linked_device_ids :: "db \<Rightarrow> pk \<Rightarrow> delivery list \<Rightarrow> pk list" where
  "linked_device_ids s app ds =
     map link_device (filter (\<lambda>l. link_application l = app \<and> link_is_active l \<and>
       link_device l \<in> set (map dlv_device ds)) (links s))"

text \<open>The \<open>try\<close> block: push, then write what came back.\<close>

definition push_delivery :: "send_context \<Rightarrow> delivery \<Rightarrow> device \<Rightarrow> db \<times> counts \<Rightarrow> db \<times> counts" where
  "push_delivery ctx d dev st =
     (let s = fst st; c = snd st; n = ctx_notification ctx; env = ctx_env ctx;
          now = now_delivery env (dlv_device d) in
      case send_push_to_device (env_cfg env) (env_provider env) (push_token dev) (title n) (message n)
             (ctx_data ctx) (Some (platform dev)) False of
        Push_Ok msg_id \<Rightarrow>
          (let s0 = s\<lparr>provider_log := provider_log s @ [(ntf_id n, dev_id dev)]\<rparr>;
               s1 = mark_delivery_as_sent now msg_id d s0;
               s2 = (if failure_count dev \<noteq> 0
                     then set_device (dev_id dev) (\<lambda>r. r\<lparr>failure_count := 0\<rparr>) s1 else s1)
           in (s2, count_sent c))
      | Invalid_Push_Token e \<Rightarrow> (record_delivery_failure now e True d dev s, count_failed c)
      | Temporary_Push_Provider_Error e \<Rightarrow> (record_delivery_failure now e False d dev s, count_failed c)
      | Push_Provider_Error e \<Rightarrow> (record_delivery_failure now e False d dev s, count_failed c))"

text \<open>
  One iteration. \<open>dev\<close> is the row \<open>select_related\<close> loaded with the delivery before the loop.
\<close>

definition process_delivery :: "send_context \<Rightarrow> delivery \<times> device \<Rightarrow> db \<times> counts \<Rightarrow> db \<times> counts" where
  "process_delivery ctx dd st =
     (let d = fst dd; dev = snd dd; s = fst st; c = snd st;
          now = now_delivery (ctx_env ctx) (dlv_device d) in
      if should_skip_delivery d then (s, count_skipped c)
      else case ineligibility_reason (ctx_application_active ctx) dev (ctx_linked_device_ids ctx) of
        Some reason \<Rightarrow> (cancel_delivery now reason d s, count_failed c)
      | None \<Rightarrow>
          if should_wait_for_retry now d then (s, count_waiting c)
          else case get_current_device_quiet_period_end (env_clock (ctx_env ctx)) s dev now of
            Some e \<Rightarrow> (mark_delivery_as_deferred now e d s, count_deferred c)
          | None \<Rightarrow>
              if \<not> can_retry_delivery d then (s, count_failed c)
              else push_delivery ctx d dev st)"

definition final_status :: "counts \<Rightarrow> notification_status" where
  "final_status c =
     (let successful = c_sent c + c_skipped c in
      if 0 < c_deferred c \<or> 0 < c_waiting c then Partial
      else if c_failed c = 0 \<and> 0 < successful then Sent
      else if successful = 0 \<and> 0 < c_failed c then Failed
      else Partial)"

section \<open>The send\<close>

definition no_result :: "pk \<Rightarrow> send_result" where
  "no_result i = \<lparr>sr_notification_id = i, target_count = 0, sent_count = 0, failed_count = 0,
     skipped_count = 0\<rparr>"

definition finish_notification :: "pk \<Rightarrow> notification_status \<Rightarrow> instant option \<Rightarrow> db \<Rightarrow> db" where
  "finish_notification i st sent = set_notification i
     (\<lambda>n. n\<lparr>ntf_status := st, ntf_sent_at := sent, processing_started_at := None\<rparr>)"

definition fail_for_lapsed_subscription ::
    "instant \<Rightarrow> notification \<Rightarrow> application \<Rightarrow> db \<Rightarrow> db \<times> send_result" where
  "fail_for_lapsed_subscription now n a s =
     (let pending = filter (\<lambda>d. dlv_notification d = ntf_id n \<and> dlv_status d \<noteq> D_Sent) (deliveries s);
          s1 = fold (cancel_delivery now cancel_subscription_required) pending s;
          s2 = finish_notification (ntf_id n) Failed None s1;
          s3 = send_webhook_callback a (ntf_id n) Failed None s2
      in (s3, (no_result (ntf_id n))\<lparr>target_count := length pending, failed_count := length pending\<rparr>))"

definition defer_for_quiet_period :: "pk \<Rightarrow> instant \<Rightarrow> db \<Rightarrow> db" where
  "defer_for_quiet_period i e = set_notification i
     (\<lambda>n. n\<lparr>ntf_status := Scheduled, scheduled_for := Some e, ntf_sent_at := None,
            processing_started_at := None\<rparr>)"

text \<open>The deliveries with the devices they load; a delivery always has its device.\<close>

definition with_devices :: "db \<Rightarrow> delivery list \<Rightarrow> (delivery \<times> device) list" where
  "with_devices s ds =
     List.map_filter (\<lambda>d. map_option (\<lambda>v. (d, v)) (get_device s (dlv_device d))) ds"

definition send_to_targets :: "run_env \<Rightarrow> notification \<Rightarrow> application \<Rightarrow> db \<Rightarrow> db \<times> send_result" where
  "send_to_targets env n a s =
     (let (s1, ds) = get_target_deliveries_for_notification n s in
      if ds = [] then
        (send_webhook_callback a (ntf_id n) No_Target None
           (finish_notification (ntf_id n) No_Target None s1), no_result (ntf_id n))
      else
        let ctx = \<lparr>ctx_env = env, ctx_notification = n, ctx_data = base_data (env_cfg env) n a,
                   ctx_application_active = app_is_active a,
                   ctx_linked_device_ids = linked_device_ids s1 (app_id a) ds\<rparr>;
            (s2, c) = fold (process_delivery ctx) (with_devices s1 ds) (s1, no_counts);
            st = final_status c;
            sent = (if st = Sent then Some (now_end env) else None);
            s3 = finish_notification (ntf_id n) st sent s2;
            s4 = send_webhook_callback a (ntf_id n) st sent s3
        in (s4, \<lparr>sr_notification_id = ntf_id n, target_count = length ds, sent_count = c_sent c,
                 failed_count = c_failed c, skipped_count = c_skipped c\<rparr>))"

definition owner_is_paid :: "config \<Rightarrow> instant \<Rightarrow> db \<Rightarrow> application \<Rightarrow> bool" where
  "owner_is_paid cfg now s a =
     (case get_user s (app_owner a) of None \<Rightarrow> False | Some u \<Rightarrow> user_is_paid cfg s now u)"

text \<open>
  \<open>send_notification\<close>. The foreign keys to the application and its owner are never dangling
  (\<open>CASCADE\<close>); a notification without its application is left alone here.
\<close>

definition send_notification :: "run_env \<Rightarrow> pk \<Rightarrow> db \<Rightarrow> db \<times> send_result" where
  "send_notification env i s =
     (case acquire_notification_for_processing (row_locked env) (now_start env) i s of
        (s1, None) \<Rightarrow> (s1, no_result i)
      | (s1, Some n) \<Rightarrow>
          (case get_application s1 (ntf_application n) of
             None \<Rightarrow> (s1, no_result i)
           | Some a \<Rightarrow>
               if \<not> owner_is_paid (env_cfg env) (now_start env) s1 a
               then fail_for_lapsed_subscription (now_start env) n a s1
               else (case get_current_quiet_period_end (env_clock env) s1 n (now_start env) of
                  Some e \<Rightarrow> (defer_for_quiet_period i e s1, no_result i)
                | None \<Rightarrow> send_to_targets env n a s1)))"

section \<open>What one delivery becomes\<close>

text \<open>
  The abstract view of an iteration: a function of the delivery, its device and the world alone,
  giving the new row and how the iteration counts.
\<close>

datatype tally = K_Sent | K_Failed | K_Skipped | K_Deferred | K_Waiting

definition failed_row :: "instant \<Rightarrow> string \<Rightarrow> delivery \<Rightarrow> delivery" where
  "failed_row now exc r =
     (let n = attempt_count r + 1 in
      if max_delivery_attempts \<le> n
      then r\<lparr>attempt_count := n, last_attempt_at := Some now, error_message := exc,
             dlv_status := D_Failed, next_retry_at := None\<rparr>
      else r\<lparr>attempt_count := n, last_attempt_at := Some now, error_message := exc,
             dlv_status := D_Pending, next_retry_at := Some (compute_next_retry now n)\<rparr>)"

definition push_of :: "send_context \<Rightarrow> device \<Rightarrow> push_outcome" where
  "push_of ctx dev = send_push_to_device (env_cfg (ctx_env ctx)) (env_provider (ctx_env ctx))
     (push_token dev) (title (ctx_notification ctx)) (message (ctx_notification ctx))
     (ctx_data ctx) (Some (platform dev)) False"

definition delivery_step :: "send_context \<Rightarrow> db \<Rightarrow> delivery \<times> device \<Rightarrow> delivery \<times> tally" where
  "delivery_step ctx s dd =
     (let d = fst dd; dev = snd dd; now = now_delivery (ctx_env ctx) (dlv_device d) in
      if dlv_status d = D_Sent then (d, K_Skipped)
      else case ineligibility_reason (ctx_application_active ctx) dev (ctx_linked_device_ids ctx) of
        Some reason \<Rightarrow> (d\<lparr>dlv_status := D_Failed, error_message := ''Cancelled: '' @ reason @ ''.'',
            last_attempt_at := Some now, next_retry_at := None\<rparr>, K_Failed)
      | None \<Rightarrow>
          if should_wait_for_retry now d then (d, K_Waiting)
          else case get_current_device_quiet_period_end (env_clock (ctx_env ctx)) s dev now of
            Some e \<Rightarrow> (d\<lparr>dlv_status := D_Pending, last_attempt_at := Some now,
                error_message := ''Deferred by device quiet period.'', next_retry_at := Some e\<rparr>, K_Deferred)
          | None \<Rightarrow>
              if max_delivery_attempts \<le> attempt_count d then (d, K_Failed)
              else (case push_of ctx dev of
                 Push_Ok m \<Rightarrow> (d\<lparr>dlv_status := D_Sent, provider_message_id := m, error_message := [],
                     dlv_sent_at := Some now, last_attempt_at := Some now, next_retry_at := None\<rparr>, K_Sent)
               | Invalid_Push_Token e \<Rightarrow> (failed_row now e d, K_Failed)
               | Temporary_Push_Provider_Error e \<Rightarrow> (failed_row now e d, K_Failed)
               | Push_Provider_Error e \<Rightarrow> (failed_row now e d, K_Failed)))"

fun count_tally :: "tally \<Rightarrow> counts \<Rightarrow> counts" where
  "count_tally K_Sent c = count_sent c"
| "count_tally K_Failed c = count_failed c"
| "count_tally K_Skipped c = count_skipped c"
| "count_tally K_Deferred c = count_deferred c"
| "count_tally K_Waiting c = count_waiting c"

section \<open>The writes of an iteration\<close>

lemma set_row_deliveries [simp]:
  "deliveries (set_delivery i f s) = update_where (\<lambda>d. dlv_id d = i) f (deliveries s)"
  "deliveries (set_device i g s) = deliveries s"
  "deliveries (set_notification i h s) = deliveries s"
  "provider_log (set_delivery i f s) = provider_log s"
  "provider_log (set_device i g s) = provider_log s"
  "provider_log (set_notification i h s) = provider_log s"
  "device_quiet_periods (set_delivery i f s) = device_quiet_periods s"
  "device_quiet_periods (set_device i g s) = device_quiet_periods s"
  "notifications (set_delivery i f s) = notifications s"
  "notifications (set_device i g s) = notifications s"
  "notifications (set_notification i h s) = update_where (\<lambda>n. ntf_id n = i) h (notifications s)"
  "links (set_delivery i f s) = links s" "links (set_device i g s) = links s"
  "links (set_notification i h s) = links s"
  "applications (set_delivery i f s) = applications s" "applications (set_device i g s) = applications s"
  "applications (set_notification i h s) = applications s"
  "devices (set_delivery i f s) = devices s" "devices (set_notification i h s) = devices s"
  by (simp_all add: set_delivery_def set_device_def set_notification_def dlv.rows_put ntf.rows_put)

lemma update_where_row_eq:
  assumes "distinct (map dlv_id rs)" "d \<in> set rs" "f d = g d"
  shows "update_where (\<lambda>r. dlv_id r = dlv_id d) f rs = update_where (\<lambda>r. dlv_id r = dlv_id d) g rs"
  using assms by (auto simp: update_where_def distinct_map inj_on_def)

lemma update_where_row:
  assumes "distinct (map dlv_id rs)" "d \<in> set rs"
  shows "update_where (\<lambda>r. dlv_id r = dlv_id d) f rs = update_where (\<lambda>r. dlv_id r = dlv_id d) (\<lambda>_. f d) rs"
  using assms by (rule update_where_row_eq) simp

lemma update_where_id: "(\<And>r. r \<in> set rs \<Longrightarrow> P r \<Longrightarrow> f r = r) \<Longrightarrow> update_where P f rs = rs"
  by (auto simp: update_where_def intro: map_idI)

lemma update_where_twice:
  "(\<And>r. P (f r) = P r) \<Longrightarrow> update_where P g (update_where P f rs) = update_where P (g \<circ> f) rs"
  by (auto simp: update_where_def)

lemma mark_failed_rows:
  assumes "distinct (map dlv_id (deliveries s))" "d \<in> set (deliveries s)"
  shows "deliveries (mark_delivery_as_failed now exc d s) =
    update_where (\<lambda>r. dlv_id r = dlv_id d) (\<lambda>_. failed_row now exc d) (deliveries s)"
proof -
  let ?s1 = "set_delivery (dlv_id d) (\<lambda>r. r\<lparr>attempt_count := attempt_count r + 1\<rparr>) s"
  have "get_delivery ?s1 (dlv_id d) = Some (d\<lparr>attempt_count := attempt_count d + 1\<rparr>)"
    using find_key_unique[OF assms] by (simp add: get_delivery_def find_update_where_key)
  then show ?thesis
    by (auto simp: mark_delivery_as_failed_def Let_def update_where_twice failed_row_def
        intro!: update_where_row_eq[OF assms])
qed

lemma mark_failed_other [simp]:
  "provider_log (mark_delivery_as_failed now exc d s) = provider_log s"
  "device_quiet_periods (mark_delivery_as_failed now exc d s) = device_quiet_periods s"
  "notifications (mark_delivery_as_failed now exc d s) = notifications s"
  "links (mark_delivery_as_failed now exc d s) = links s"
  "applications (mark_delivery_as_failed now exc d s) = applications s"
  by (simp_all add: mark_delivery_as_failed_def Let_def split: option.splits)

lemma record_failure_rows:
  assumes "distinct (map dlv_id (deliveries s))" "d \<in> set (deliveries s)"
  shows "deliveries (record_delivery_failure now exc iv d dev s) =
    update_where (\<lambda>r. dlv_id r = dlv_id d) (\<lambda>_. failed_row now exc d) (deliveries s)"
  using assms by (simp add: record_delivery_failure_def Let_def mark_failed_rows)

lemma record_failure_other [simp]:
  "provider_log (record_delivery_failure now exc iv d dev s) = provider_log s"
  "device_quiet_periods (record_delivery_failure now exc iv d dev s) = device_quiet_periods s"
  "notifications (record_delivery_failure now exc iv d dev s) = notifications s"
  "links (record_delivery_failure now exc iv d dev s) = links s"
  "applications (record_delivery_failure now exc iv d dev s) = applications s"
  by (simp_all add: record_delivery_failure_def Let_def)

lemma mark_rows [simp]:
  "deliveries (mark_delivery_as_sent now m d s) = update_where (\<lambda>r. dlv_id r = dlv_id d)
     (\<lambda>r. r\<lparr>dlv_status := D_Sent, provider_message_id := m, error_message := [],
       dlv_sent_at := Some now, last_attempt_at := Some now, next_retry_at := None\<rparr>) (deliveries s)"
  "deliveries (mark_delivery_as_deferred now e d s) = update_where (\<lambda>r. dlv_id r = dlv_id d)
     (\<lambda>r. r\<lparr>dlv_status := D_Pending, last_attempt_at := Some now,
       error_message := ''Deferred by device quiet period.'', next_retry_at := Some e\<rparr>) (deliveries s)"
  "deliveries (cancel_delivery now reason d s) = update_where (\<lambda>r. dlv_id r = dlv_id d)
     (\<lambda>r. r\<lparr>dlv_status := D_Failed, error_message := ''Cancelled: '' @ reason @ ''.'',
       last_attempt_at := Some now, next_retry_at := None\<rparr>) (deliveries s)"
  "provider_log (mark_delivery_as_sent now m d s) = provider_log s"
  "provider_log (mark_delivery_as_deferred now e d s) = provider_log s"
  "provider_log (cancel_delivery now reason d s) = provider_log s"
  "device_quiet_periods (mark_delivery_as_sent now m d s) = device_quiet_periods s"
  "device_quiet_periods (mark_delivery_as_deferred now e d s) = device_quiet_periods s"
  "device_quiet_periods (cancel_delivery now reason d s) = device_quiet_periods s"
  "notifications (mark_delivery_as_sent now m d s) = notifications s"
  "notifications (mark_delivery_as_deferred now e d s) = notifications s"
  "notifications (cancel_delivery now reason d s) = notifications s"
  by (simp_all add: mark_delivery_as_sent_def mark_delivery_as_deferred_def cancel_delivery_def)

lemma process_delivery_rows:
  assumes "distinct (map dlv_id (deliveries (fst st)))" "fst dd \<in> set (deliveries (fst st))"
  shows "deliveries (fst (process_delivery ctx dd st)) =
      update_where (\<lambda>r. dlv_id r = dlv_id (fst dd)) (\<lambda>_. fst (delivery_step ctx (fst st) dd)) (deliveries (fst st))"
    and "snd (process_delivery ctx dd st) = count_tally (snd (delivery_step ctx (fst st) dd)) (snd st)"
proof -
  let ?d = "fst dd" and ?rs = "deliveries (fst st)"
  have same: "update_where (\<lambda>r. dlv_id r = dlv_id ?d) (\<lambda>_. ?d) ?rs = ?rs"
    using update_where_row[OF assms, of id] by (simp add: update_where_id)
  note row = update_where_row_eq[OF assms]
  note fails = record_failure_rows[OF assms]
  show "deliveries (fst (process_delivery ctx dd st)) =
      update_where (\<lambda>r. dlv_id r = dlv_id ?d) (\<lambda>_. fst (delivery_step ctx (fst st) dd)) ?rs"
    by (auto simp: process_delivery_def delivery_step_def Let_def should_skip_delivery_def same
        push_delivery_def push_of_def can_retry_delivery_def fails
        intro!: row split: option.split push_outcome.split)
  show "snd (process_delivery ctx dd st) = count_tally (snd (delivery_step ctx (fst st) dd)) (snd st)"
    by (auto simp: process_delivery_def delivery_step_def Let_def should_skip_delivery_def
        push_delivery_def push_of_def can_retry_delivery_def split: option.split push_outcome.split)
qed

lemma delivery_step_cong:
  "device_quiet_periods s = device_quiet_periods t \<Longrightarrow> delivery_step ctx s dd = delivery_step ctx t dd"
  by (simp add: delivery_step_def get_current_device_quiet_period_end_def cong: option.case_cong if_cong)

lemma delivery_step_keys [simp]:
  "dlv_id (fst (delivery_step ctx s dd)) = dlv_id (fst dd)"
  "dlv_device (fst (delivery_step ctx s dd)) = dlv_device (fst dd)"
  "dlv_notification (fst (delivery_step ctx s dd)) = dlv_notification (fst dd)"
  by (auto simp: delivery_step_def failed_row_def Let_def split: option.split push_outcome.split)

lemma process_delivery_other:
  "device_quiet_periods (fst (process_delivery ctx dd st)) = device_quiet_periods (fst st)"
  "notifications (fst (process_delivery ctx dd st)) = notifications (fst st)"
  "provider_log (fst (process_delivery ctx dd st)) = provider_log (fst st) @
     (if snd (delivery_step ctx (fst st) dd) = K_Sent
      then [(ntf_id (ctx_notification ctx), dev_id (snd dd))] else [])"
  by (auto simp: process_delivery_def delivery_step_def push_delivery_def push_of_def Let_def
      should_skip_delivery_def can_retry_delivery_def mark_delivery_as_sent_def
      split: option.split push_outcome.split)

definition loop_row :: "send_context \<Rightarrow> db \<Rightarrow> (delivery \<times> device) list \<Rightarrow> delivery \<Rightarrow> delivery" where
  "loop_row ctx s dds r =
     (case List.find (\<lambda>dd. dlv_id (fst dd) = dlv_id r) dds of
        None \<Rightarrow> r | Some dd \<Rightarrow> fst (delivery_step ctx s dd))"

lemma loop_other:
  "device_quiet_periods (fst (fold (process_delivery ctx) dds st)) = device_quiet_periods (fst st)"
  "notifications (fst (fold (process_delivery ctx) dds st)) = notifications (fst st)"
  by (induction dds arbitrary: st) (simp_all add: process_delivery_other)

lemma loop_refines:
  assumes "distinct (map dlv_id (deliveries (fst st)))" "distinct (map (dlv_id \<circ> fst) dds)"
    and "\<forall>dd \<in> set dds. fst dd \<in> set (deliveries (fst st))"
  shows "deliveries (fst (fold (process_delivery ctx) dds st)) = map (loop_row ctx (fst st) dds) (deliveries (fst st)) \<and>
    snd (fold (process_delivery ctx) dds st) =
      fold (\<lambda>dd. count_tally (snd (delivery_step ctx (fst st) dd))) dds (snd st) \<and>
    provider_log (fst (fold (process_delivery ctx) dds st)) = provider_log (fst st) @
      map (\<lambda>dd. (ntf_id (ctx_notification ctx), dev_id (snd dd)))
        (filter (\<lambda>dd. snd (delivery_step ctx (fst st) dd) = K_Sent) dds)"
  using assms
proof (induction dds arbitrary: st)
  case Nil
  then show ?case by (simp add: loop_row_def)
next
  case (Cons dd dds)
  let ?st1 = "process_delivery ctx dd st" and ?s = "fst st"
  note step = process_delivery_rows[of st dd ctx] 
  have d1: "fst dd \<in> set (deliveries ?s)" using Cons.prems by simp
  have rows1: "deliveries (fst ?st1) = update_where (\<lambda>r. dlv_id r = dlv_id (fst dd))
      (\<lambda>_. fst (delivery_step ctx ?s dd)) (deliveries ?s)"
    using step(1) Cons.prems(1) d1 by blast
  have ids1: "map dlv_id (deliveries (fst ?st1)) = map dlv_id (deliveries ?s)"
    unfolding rows1 by (auto simp: update_where_def)
  have in1: "\<forall>x \<in> set dds. fst x \<in> set (deliveries (fst ?st1))"
    using Cons.prems(2,3) by (auto simp: rows1 set_update_where image_iff)
  have same: "delivery_step ctx (fst ?st1) = delivery_step ctx ?s"
    by (rule ext) (rule delivery_step_cong, simp add: process_delivery_other)
  have lr: "loop_row ctx (fst ?st1) dds = loop_row ctx ?s dds"
    by (rule ext) (simp add: loop_row_def same split: option.split)
  have none: "List.find (\<lambda>x. dlv_id (fst x) = dlv_id (fst dd)) dds = None"
    using Cons.prems(2) by (auto simp: find_None_iff image_iff)
  have IH: "deliveries (fst (fold (process_delivery ctx) dds ?st1)) = map (loop_row ctx (fst ?st1) dds) (deliveries (fst ?st1)) \<and>
    snd (fold (process_delivery ctx) dds ?st1) =
      fold (\<lambda>dd. count_tally (snd (delivery_step ctx (fst ?st1) dd))) dds (snd ?st1) \<and>
    provider_log (fst (fold (process_delivery ctx) dds ?st1)) = provider_log (fst ?st1) @
      map (\<lambda>dd. (ntf_id (ctx_notification ctx), dev_id (snd dd)))
        (filter (\<lambda>dd. snd (delivery_step ctx (fst ?st1) dd) = K_Sent) dds)"
    using Cons.prems ids1 in1 by (intro Cons.IH) auto
  have rowf: "loop_row ctx ?s dds (if dlv_id r = dlv_id (fst dd) then fst (delivery_step ctx ?s dd) else r)
      = loop_row ctx ?s (dd # dds) r" for r
    using none by (auto simp: loop_row_def)
  have "deliveries (fst (fold (process_delivery ctx) dds ?st1)) = map (loop_row ctx ?s (dd # dds)) (deliveries ?s)"
    using IH by (simp add: lr rows1 update_where_def rowf)
  then show ?case
    using IH step(2) Cons.prems(1) d1 by (simp add: same process_delivery_other)
qed

definition deliveries_ok :: "db \<Rightarrow> bool" where
  "deliveries_ok s \<longleftrightarrow> distinct (map dlv_id (deliveries s)) \<and>
     distinct (map (\<lambda>d. (dlv_notification d, dlv_device d)) (deliveries s)) \<and>
     (\<forall>d \<in> set (deliveries s). dlv_id d < next_pk s) \<and>
     distinct (map dev_id (devices s)) \<and> dlv_device ` set (deliveries s) \<subseteq> dev_id ` set (devices s)"

lemma create_delivery_ok:
  "deliveries_ok s \<Longrightarrow> dev \<in> dev_id ` set (devices s) \<Longrightarrow> deliveries_ok (create_delivery nid dev s)"
  by (fastforce simp: deliveries_ok_def create_delivery_def new_delivery_def list_ex_iff image_iff)

lemma create_delivery_other [simp]:
  "devices (create_delivery nid dev s) = devices s"
  "device_quiet_periods (create_delivery nid dev s) = device_quiet_periods s"
  "notifications (create_delivery nid dev s) = notifications s"
  "applications (create_delivery nid dev s) = applications s"
  "links (create_delivery nid dev s) = links s"
  "provider_log (create_delivery nid dev s) = provider_log s"
  "set (deliveries s) \<subseteq> set (deliveries (create_delivery nid dev s))"
  by (auto simp: create_delivery_def)

lemma create_deliveries:
  assumes "deliveries_ok s" "dev_id ` set ds \<subseteq> dev_id ` set (devices s)"
  shows "deliveries_ok (fold (\<lambda>d. create_delivery nid (dev_id d)) ds s) \<and>
    devices (fold (\<lambda>d. create_delivery nid (dev_id d)) ds s) = devices s \<and>
    device_quiet_periods (fold (\<lambda>d. create_delivery nid (dev_id d)) ds s) = device_quiet_periods s \<and>
    notifications (fold (\<lambda>d. create_delivery nid (dev_id d)) ds s) = notifications s \<and>
    applications (fold (\<lambda>d. create_delivery nid (dev_id d)) ds s) = applications s \<and>
    links (fold (\<lambda>d. create_delivery nid (dev_id d)) ds s) = links s \<and>
    provider_log (fold (\<lambda>d. create_delivery nid (dev_id d)) ds s) = provider_log s \<and>
    set (deliveries s) \<subseteq> set (deliveries (fold (\<lambda>d. create_delivery nid (dev_id d)) ds s))"
  using assms
proof (induction ds arbitrary: s)
  case (Cons d ds)
  let ?s1 = "create_delivery nid (dev_id d) s"
  have ok: "deliveries_ok ?s1" using Cons.prems by (intro create_delivery_ok) auto
  have "dev_id ` set ds \<subseteq> dev_id ` set (devices ?s1)" using Cons.prems by auto
  note IH = Cons.IH[OF ok this]
  then have "set (deliveries s) \<subseteq> set (deliveries (fold (\<lambda>d. create_delivery nid (dev_id d)) ds ?s1))"
    using create_delivery_other(7) by (meson order_trans)
  with IH show ?case by simp
qed simp

lemma target_deliveries:
  assumes "deliveries_ok s" "get_target_deliveries_for_notification n s = (s1, ds)"
  shows "deliveries_ok s1" "devices s1 = devices s" "device_quiet_periods s1 = device_quiet_periods s"
    "notifications s1 = notifications s" "applications s1 = applications s" "links s1 = links s"
    "provider_log s1 = provider_log s" "set (deliveries s) \<subseteq> set (deliveries s1)"
    "ds \<noteq> [] \<Longrightarrow> ds = deliveries_of s1 (ntf_id n)"
proof -
  have sub: "dev_id ` set (get_target_devices_for_notification s n) \<subseteq> dev_id ` set (devices s)"
    by (auto simp: get_target_devices_for_notification_def)
  note c = create_deliveries[OF assms(1) sub, of "ntf_id n"]
  show "deliveries_ok s1" "devices s1 = devices s" "device_quiet_periods s1 = device_quiet_periods s"
    "notifications s1 = notifications s" "applications s1 = applications s" "links s1 = links s"
    "provider_log s1 = provider_log s" "set (deliveries s) \<subseteq> set (deliveries s1)"
    "ds \<noteq> [] \<Longrightarrow> ds = deliveries_of s1 (ntf_id n)"
    using assms c
    by (auto simp: get_target_deliveries_for_notification_def Let_def split: if_splits)
qed

lemma with_devices_fst:
  "deliveries_ok s \<Longrightarrow> set ds \<subseteq> set (deliveries s) \<Longrightarrow>
   map fst (with_devices s ds) = ds \<and>
   (\<forall>dd \<in> set (with_devices s ds). dev_id (snd dd) = dlv_device (fst dd) \<and> snd dd \<in> set (devices s))"
proof (induction ds)
  case (Cons d ds)
  then have "dlv_device d \<in> dev_id ` set (devices s)" by (auto simp: deliveries_ok_def)
  then obtain v where v: "get_device s (dlv_device d) = Some v"
    unfolding get_device_def by (cases "List.find (\<lambda>v. dev_id v = dlv_device d) (devices s)") (auto simp: find_None_iff)
  then have "dev_id v = dlv_device d \<and> v \<in> set (devices s)"
    by (auto simp: get_device_def dest: find_SomeD)
  with v Cons show ?case by (simp add: with_devices_def map_filter_simps)
qed (simp add: with_devices_def map_filter_simps)

section \<open>A run seen from outside\<close>

definition context_of :: "run_env \<Rightarrow> notification \<Rightarrow> application \<Rightarrow> db \<Rightarrow> delivery list \<Rightarrow> send_context" where
  "context_of env n a s ds = \<lparr>ctx_env = env, ctx_notification = n, ctx_data = base_data (env_cfg env) n a,
     ctx_application_active = app_is_active a,
     ctx_linked_device_ids = linked_device_ids s (app_id a) ds\<rparr>"

lemma webhook_frame [simp]:
  "deliveries (send_webhook_callback a i st t s) = deliveries s"
  "notifications (send_webhook_callback a i st t s) = notifications s"
  "provider_log (send_webhook_callback a i st t s) = provider_log s"
  "devices (send_webhook_callback a i st t s) = devices s"
  "links (send_webhook_callback a i st t s) = links s"
  "applications (send_webhook_callback a i st t s) = applications s"
  by (simp_all add: send_webhook_callback_def)

lemma finish_frame [simp]:
  "deliveries (finish_notification i st t s) = deliveries s"
  "provider_log (finish_notification i st t s) = provider_log s"
  "deliveries (defer_for_quiet_period i e s) = deliveries s"
  "provider_log (defer_for_quiet_period i e s) = provider_log s"
  by (simp_all add: finish_notification_def defer_for_quiet_period_def)

lemma send_to_targets_empty:
  assumes "get_target_deliveries_for_notification n s = (s1, [])"
  shows "send_to_targets env n a s = (send_webhook_callback a (ntf_id n) No_Target None
     (finish_notification (ntf_id n) No_Target None s1), no_result (ntf_id n))"
  using assms by (simp add: send_to_targets_def)

lemma send_to_targets_loop:
  assumes ok: "deliveries_ok s" and tgt: "get_target_deliveries_for_notification n s = (s1, ds)" "ds \<noteq> []"
    and run: "send_to_targets env n a s = (s', r)"
  defines "ctx \<equiv> context_of env n a s1 ds" and "dds \<equiv> with_devices s1 ds"
  defines "c \<equiv> fold (\<lambda>dd. count_tally (snd (delivery_step ctx s1 dd))) dds no_counts"
  shows "deliveries s' = map (loop_row ctx s1 dds) (deliveries s1)"
    "provider_log s' = provider_log s @ map (\<lambda>dd. (ntf_id n, dev_id (snd dd)))
        (filter (\<lambda>dd. snd (delivery_step ctx s1 dd) = K_Sent) dds)"
    "notifications s' = update_where (\<lambda>m. ntf_id m = ntf_id n) (\<lambda>m. m\<lparr>ntf_status := final_status c,
        ntf_sent_at := (if final_status c = Sent then Some (now_end env) else None),
        processing_started_at := None\<rparr>) (notifications s)"
    "r = \<lparr>sr_notification_id = ntf_id n, target_count = length ds, sent_count = c_sent c,
        failed_count = c_failed c, skipped_count = c_skipped c\<rparr>"
    "map fst dds = ds" "set ds = {d \<in> set (deliveries s1). dlv_notification d = ntf_id n}"
    "\<forall>dd \<in> set dds. dev_id (snd dd) = dlv_device (fst dd) \<and> snd dd \<in> set (devices s)"
proof -
  note t = target_deliveries[OF ok tgt(1)]
  have ds: "set ds = {d \<in> set (deliveries s1). dlv_notification d = ntf_id n}"
    using t(9)[OF tgt(2)] by (simp add: set_deliveries_of)
  have wd: "map fst dds = ds" "\<forall>dd \<in> set dds. dev_id (snd dd) = dlv_device (fst dd) \<and> snd dd \<in> set (devices s)"
    using with_devices_fst[OF t(1), of ds] ds t(2) by (auto simp: dds_def)
  have "distinct (map dlv_id (filter (\<lambda>d. dlv_notification d = ntf_id n) (deliveries s1)))"
    using t(1) by (auto simp: deliveries_ok_def distinct_map inj_on_def)
  then have dist: "distinct (map dlv_id ds)"
    using t(9)[OF tgt(2)] by (simp add: deliveries_of_def distinct_map)
  have dd: "distinct (map (dlv_id \<circ> fst) dds)" using dist wd(1) by (metis list.map_comp)
  have mem: "\<forall>dd \<in> set dds. fst dd \<in> set (deliveries (fst (s1, no_counts)))"
  proof
    fix dd assume "dd \<in> set dds"
    then have "fst dd \<in> set (map fst dds)" by simp
    then show "fst dd \<in> set (deliveries (fst (s1, no_counts)))" using wd(1) ds by simp
  qed
  have ids: "distinct (map dlv_id (deliveries (fst (s1, no_counts))))"
    using t(1) by (simp add: deliveries_ok_def)
  obtain s2 c2 where f: "fold (process_delivery ctx) dds (s1, no_counts) = (s2, c2)" by fastforce
  note L = loop_refines[OF ids dd mem, of ctx, unfolded f]
  have nn: "notifications s2 = notifications s"
    using loop_other(2)[of ctx dds "(s1, no_counts)"] t(4) by (simp add: f)
  have c2: "c2 = c" using L by (simp add: c_def)
  have e: "(s', r) = (send_webhook_callback a (ntf_id n) (final_status c)
        (if final_status c = Sent then Some (now_end env) else None)
        (finish_notification (ntf_id n) (final_status c)
          (if final_status c = Sent then Some (now_end env) else None) s2),
      \<lparr>sr_notification_id = ntf_id n, target_count = length ds, sent_count = c_sent c,
        failed_count = c_failed c, skipped_count = c_skipped c\<rparr>)"
    using run tgt f c2 unfolding send_to_targets_def ctx_def context_of_def dds_def
    by (simp add: Let_def)
  show "deliveries s' = map (loop_row ctx s1 dds) (deliveries s1)"
    using e L by simp
  show "provider_log s' = provider_log s @ map (\<lambda>dd. (ntf_id n, dev_id (snd dd)))
        (filter (\<lambda>dd. snd (delivery_step ctx s1 dd) = K_Sent) dds)"
    using e L t(7) by (simp add: ctx_def context_of_def)
  show "notifications s' = update_where (\<lambda>m. ntf_id m = ntf_id n) (\<lambda>m. m\<lparr>ntf_status := final_status c,
        ntf_sent_at := (if final_status c = Sent then Some (now_end env) else None),
        processing_started_at := None\<rparr>) (notifications s)"
    using e nn by (simp add: finish_notification_def)
  show "r = \<lparr>sr_notification_id = ntf_id n, target_count = length ds, sent_count = c_sent c,
        failed_count = c_failed c, skipped_count = c_skipped c\<rparr>" using e by simp
  show "map fst dds = ds" "set ds = {d \<in> set (deliveries s1). dlv_notification d = ntf_id n}"
    "\<forall>dd \<in> set dds. dev_id (snd dd) = dlv_device (fst dd) \<and> snd dd \<in> set (devices s)"
    using wd ds by auto
qed

section \<open>The worker refines the delivery steps\<close>

lemma acquire_Some:
  assumes "acquire_notification_for_processing locked now i s = (s1, Some n)"
  shows "\<exists>m. get_notification s i = Some m \<and> ntf_status m \<in> set allowed_statuses_to_start \<and>
     n = m\<lparr>ntf_status := Processing, processing_started_at := Some now\<rparr> \<and>
     s1 = set_notification i (\<lambda>n. n\<lparr>ntf_status := Processing, processing_started_at := Some now\<rparr>) s \<and>
     ntf_id m = i"
proof -
  from assms obtain m where m: "get_notification s i = Some m" "ntf_status m \<in> set allowed_statuses_to_start"
      "s1 = set_notification i (\<lambda>n. n\<lparr>ntf_status := Processing, processing_started_at := Some now\<rparr>) s"
      "get_notification s1 i = Some n"
    by (auto simp: acquire_notification_for_processing_def Let_def split: if_splits option.splits)
  have "ntf_id m = i" using m(1) by (auto simp: get_notification_def dest: find_SomeD)
  then show ?thesis using m by (auto simp: get_notification_def find_update_where_key)
qed

lemma acquire_None: "acquire_notification_for_processing locked now i s = (s1, None) \<Longrightarrow> s1 = s \<or>
    (\<exists>f. s1 = set_notification i f s \<and> get_notification s1 i = None)"
  by (auto simp: acquire_notification_for_processing_def Let_def split: if_splits option.splits)

lemma deliveries_ok_set_notification [simp]: "deliveries_ok (set_notification i f s) = deliveries_ok s"
  by (simp add: deliveries_ok_def set_notification_def)

lemma cancel_fold:
  "deliveries (fold (cancel_delivery now reason) ds s) = map (\<lambda>r. if dlv_id r \<in> dlv_id ` set ds
      then r\<lparr>dlv_status := D_Failed, error_message := ''Cancelled: '' @ reason @ ''.'',
        last_attempt_at := Some now, next_retry_at := None\<rparr> else r) (deliveries s)
   \<and> notifications (fold (cancel_delivery now reason) ds s) = notifications s
   \<and> provider_log (fold (cancel_delivery now reason) ds s) = provider_log s"
proof (induction ds arbitrary: s)
  case (Cons d ds)
  show ?case using Cons.IH[of "cancel_delivery now reason d s"]
    by (auto simp: update_where_def)
qed simp

lemma lapsed:
  assumes "fail_for_lapsed_subscription now n a s = (s', r)" "distinct (map dlv_id (deliveries s))"
  shows "deliveries s' = map (\<lambda>d. if dlv_notification d = ntf_id n \<and> dlv_status d \<noteq> D_Sent
      then d\<lparr>dlv_status := D_Failed, error_message := ''Cancelled: '' @ cancel_subscription_required @ ''.'',
        last_attempt_at := Some now, next_retry_at := None\<rparr> else d) (deliveries s)"
    "notifications s' = update_where (\<lambda>m. ntf_id m = ntf_id n) (\<lambda>m. m\<lparr>ntf_status := Failed,
        ntf_sent_at := None, processing_started_at := None\<rparr>) (notifications s)"
    "provider_log s' = provider_log s"
    "target_count r = length (filter (\<lambda>d. dlv_notification d = ntf_id n \<and> dlv_status d \<noteq> D_Sent) (deliveries s))"
proof -
  let ?p = "filter (\<lambda>d. dlv_notification d = ntf_id n \<and> dlv_status d \<noteq> D_Sent) (deliveries s)"
  have mem: "dlv_id d \<in> dlv_id ` set ?p \<longleftrightarrow> dlv_notification d = ntf_id n \<and> dlv_status d \<noteq> D_Sent"
    if "d \<in> set (deliveries s)" for d
    using that assms(2) by (auto simp: distinct_map inj_on_def)
  have m: "deliveries (fold (cancel_delivery now cancel_subscription_required) ?p s) =
     map (\<lambda>d. if dlv_notification d = ntf_id n \<and> dlv_status d \<noteq> D_Sent
      then d\<lparr>dlv_status := D_Failed, error_message := ''Cancelled: '' @ cancel_subscription_required @ ''.'',
        last_attempt_at := Some now, next_retry_at := None\<rparr> else d) (deliveries s)"
    using cancel_fold[of now cancel_subscription_required ?p s] mem by (auto intro!: map_cong)
  note c = cancel_fold[of now cancel_subscription_required ?p s]
  show "deliveries s' = map (\<lambda>d. if dlv_notification d = ntf_id n \<and> dlv_status d \<noteq> D_Sent
      then d\<lparr>dlv_status := D_Failed, error_message := ''Cancelled: '' @ cancel_subscription_required @ ''.'',
        last_attempt_at := Some now, next_retry_at := None\<rparr> else d) (deliveries s)"
    "notifications s' = update_where (\<lambda>m. ntf_id m = ntf_id n) (\<lambda>m. m\<lparr>ntf_status := Failed,
        ntf_sent_at := None, processing_started_at := None\<rparr>) (notifications s)"
    "provider_log s' = provider_log s"
    "target_count r = length ?p"
    using assms(1) m c by (auto simp: fail_for_lapsed_subscription_def Let_def finish_notification_def)
qed

section \<open>Counting\<close>

lemma tally_counts:
  "c_sent (fold (\<lambda>x. count_tally (f x)) xs c) = c_sent c + length (filter (\<lambda>x. f x = K_Sent) xs)"
  "c_failed (fold (\<lambda>x. count_tally (f x)) xs c) = c_failed c + length (filter (\<lambda>x. f x = K_Failed) xs)"
  "c_skipped (fold (\<lambda>x. count_tally (f x)) xs c) = c_skipped c + length (filter (\<lambda>x. f x = K_Skipped) xs)"
  "c_deferred (fold (\<lambda>x. count_tally (f x)) xs c) = c_deferred c + length (filter (\<lambda>x. f x = K_Deferred) xs)"
  "c_waiting (fold (\<lambda>x. count_tally (f x)) xs c) = c_waiting c + length (filter (\<lambda>x. f x = K_Waiting) xs)"
proof (induction xs arbitrary: c)
  case (Cons x xs)
  { case 1 show ?case by (cases "f x") (simp_all add: Cons.IH count_defs) }
  { case 2 show ?case by (cases "f x") (simp_all add: Cons.IH count_defs) }
  { case 3 show ?case by (cases "f x") (simp_all add: Cons.IH count_defs) }
  { case 4 show ?case by (cases "f x") (simp_all add: Cons.IH count_defs) }
  { case 5 show ?case by (cases "f x") (simp_all add: Cons.IH count_defs) }
qed simp_all

lemma final_status_Sent:
  assumes "xs \<noteq> []"
  shows "final_status (fold (\<lambda>x. count_tally (f x)) xs no_counts) = Sent \<longleftrightarrow>
    (\<forall>x \<in> set xs. f x = K_Sent \<or> f x = K_Skipped)"
proof -
  let ?c = "fold (\<lambda>x. count_tally (f x)) xs no_counts"
  obtain x where x: "x \<in> set xs" using assms by (cases xs) auto
  have z: "c_failed ?c = 0 \<longleftrightarrow> (\<forall>x \<in> set xs. f x \<noteq> K_Failed)"
    "c_deferred ?c = 0 \<longleftrightarrow> (\<forall>x \<in> set xs. f x \<noteq> K_Deferred)"
    "c_waiting ?c = 0 \<longleftrightarrow> (\<forall>x \<in> set xs. f x \<noteq> K_Waiting)"
    "c_sent ?c = 0 \<longleftrightarrow> (\<forall>x \<in> set xs. f x \<noteq> K_Sent)"
    "c_skipped ?c = 0 \<longleftrightarrow> (\<forall>x \<in> set xs. f x \<noteq> K_Skipped)"
    by (simp_all add: tally_counts no_counts_def filter_empty_conv)
  have "final_status ?c = Sent \<longleftrightarrow> c_deferred ?c = 0 \<and> c_waiting ?c = 0 \<and> c_failed ?c = 0 \<and>
      \<not> (c_sent ?c = 0 \<and> c_skipped ?c = 0)"
    by (auto simp: final_status_def Let_def)
  also have "\<dots> \<longleftrightarrow> (\<forall>x \<in> set xs. f x \<noteq> K_Failed \<and> f x \<noteq> K_Deferred \<and> f x \<noteq> K_Waiting) \<and>
      (\<exists>x \<in> set xs. f x = K_Sent \<or> f x = K_Skipped)"
    unfolding z by blast
  also have "\<dots> \<longleftrightarrow> (\<forall>x \<in> set xs. f x = K_Sent \<or> f x = K_Skipped)"
  proof -
    have "f y \<noteq> K_Failed \<and> f y \<noteq> K_Deferred \<and> f y \<noteq> K_Waiting \<longleftrightarrow> f y = K_Sent \<or> f y = K_Skipped" for y
      by (cases "f y") simp_all
    then show ?thesis using x by blast
  qed
  finally show ?thesis .
qed

lemma delivery_step_status:
  "dlv_status (fst (delivery_step ctx s dd)) = D_Sent \<longleftrightarrow>
     snd (delivery_step ctx s dd) = K_Sent \<or> snd (delivery_step ctx s dd) = K_Skipped"
  by (auto simp: delivery_step_def failed_row_def Let_def split: option.split push_outcome.split)

lemma delivery_step_sent:
  "dlv_status (fst dd) = D_Sent \<Longrightarrow> fst (delivery_step ctx s dd) = fst dd"
  by (simp add: delivery_step_def)

text \<open>What lets a delivery reach the provider.\<close>

definition may_push :: "send_context \<Rightarrow> db \<Rightarrow> delivery \<times> device \<Rightarrow> bool" where
  "may_push ctx s dd \<longleftrightarrow>
     dlv_status (fst dd) \<noteq> D_Sent \<and> attempt_count (fst dd) < max_delivery_attempts \<and>
     ctx_application_active ctx \<and> dev_id (snd dd) \<in> set (ctx_linked_device_ids ctx) \<and>
     push_token_status (snd dd) = T_Active \<and> dev_is_active (snd dd) \<and>
     get_current_device_quiet_period_end (env_clock (ctx_env ctx)) s (snd dd)
       (now_delivery (ctx_env ctx) (dlv_device (fst dd))) = None \<and>
     (\<forall>t. next_retry_at (fst dd) = Some t \<longrightarrow> t \<le> now_delivery (ctx_env ctx) (dlv_device (fst dd)))"

lemma K_Sent_may_push:
  "snd (delivery_step ctx s dd) = K_Sent \<Longrightarrow> may_push ctx s dd"
  by (auto simp: delivery_step_def may_push_def ineligibility_reason_def should_wait_for_retry_def Let_def
      split: option.splits push_outcome.splits if_splits)

lemma loop_row_found:
  assumes "distinct (map dlv_id rs)" "map fst dds = ds" "set ds \<subseteq> set rs" "r \<in> set rs"
  shows "(r \<in> set ds \<longrightarrow> (\<exists>dev. (r, dev) \<in> set dds \<and> loop_row ctx s dds r = fst (delivery_step ctx s (r, dev)))) \<and>
         (r \<notin> set ds \<longrightarrow> loop_row ctx s dds r = r)"
proof -
  have inj: "dd \<in> set dds \<Longrightarrow> dlv_id (fst dd) = dlv_id r \<Longrightarrow> fst dd = r" for dd
  proof -
    assume "dd \<in> set dds" "dlv_id (fst dd) = dlv_id r"
    then have "fst dd \<in> set rs" using assms(2,3) by (metis in_set_conv_nth length_map nth_map nth_mem subsetD)
    then show "fst dd = r" using assms(1,4) \<open>dlv_id (fst dd) = dlv_id r\<close>
      by (auto simp: distinct_map inj_on_def)
  qed
  show ?thesis
  proof (cases "List.find (\<lambda>dd. dlv_id (fst dd) = dlv_id r) dds")
    case None
    have "r \<notin> set ds"
    proof
      assume "r \<in> set ds"
      then obtain dd where "dd \<in> set dds" "fst dd = r" using assms(2) by auto
      with None show False by (cases dd) (auto simp: find_None_iff)
    qed
    with None show ?thesis by (simp add: loop_row_def)
  next
    case (Some dd)
    have "dd \<in> set dds \<and> dlv_id (fst dd) = dlv_id r" by (rule find_SomeD[OF Some])
    then have dd: "dd \<in> set dds" "fst dd = r" using inj by blast+
    then have "r \<in> set ds" using assms(2) by auto
    moreover have "dd = (r, snd dd)" using dd(2) by (cases dd) simp
    ultimately show ?thesis using dd Some by (metis (no_types, lifting) loop_row_def option.simps(5))
  qed
qed

lemma send_cases:
  assumes "send_notification env i s = (s', r)"
  obtains (skip) "deliveries s' = deliveries s" "provider_log s' = provider_log s" "target_count r = 0"
      "sent_count r = 0" "failed_count r = 0" "skipped_count r = 0"
  | (lapse) n a s1 where "acquire_notification_for_processing (row_locked env) (now_start env) i s = (s1, Some n)"
      "get_application s1 (ntf_application n) = Some a" "\<not> owner_is_paid (env_cfg env) (now_start env) s1 a"
      "fail_for_lapsed_subscription (now_start env) n a s1 = (s', r)"
  | (targets) n a s1 where "acquire_notification_for_processing (row_locked env) (now_start env) i s = (s1, Some n)"
      "get_application s1 (ntf_application n) = Some a" "owner_is_paid (env_cfg env) (now_start env) s1 a"
      "get_current_quiet_period_end (env_clock env) s1 n (now_start env) = None"
      "send_to_targets env n a s1 = (s', r)"
proof -
  obtain s1 o1 where acq: "acquire_notification_for_processing (row_locked env) (now_start env) i s = (s1, o1)"
    by fastforce
  have frame: "deliveries s1 = deliveries s" "provider_log s1 = provider_log s"
    using acq by (auto simp: acquire_notification_for_processing_def Let_def split: if_splits option.splits)
  show ?thesis
  proof (cases o1)
    case None
    then show ?thesis using assms acq frame skip by (auto simp: send_notification_def no_result_def)
  next
    case (Some n)
    show ?thesis
      using assms acq Some frame skip lapse targets
      by (auto simp: send_notification_def no_result_def split: option.splits if_splits)
  qed
qed

section \<open>What a send may do\<close>

text \<open>Whether the worker may push notification \<open>i\<close> to a device, judged on the state it starts from.\<close>

definition eligible :: "run_env \<Rightarrow> db \<Rightarrow> pk \<Rightarrow> pk \<Rightarrow> bool" where
  "eligible env s i dev \<longleftrightarrow>
     (case get_notification s i of None \<Rightarrow> False | Some n \<Rightarrow>
      case get_application s (ntf_application n) of None \<Rightarrow> False | Some a \<Rightarrow>
      case get_device s dev of None \<Rightarrow> False | Some v \<Rightarrow>
        ntf_status n \<in> set allowed_statuses_to_start \<and> \<not> row_locked env \<and>
        app_is_active a \<and> owner_is_paid (env_cfg env) (now_start env) s a \<and>
        get_quiet_period_end_for_application (env_clock env) s (app_id a) (now_start env) = None \<and>
        actively_linked s dev (app_id a) \<and> push_token_status v = T_Active \<and> dev_is_active v \<and>
        get_current_device_quiet_period_end (env_clock env) s v (now_delivery env dev) = None \<and>
        list_all (\<lambda>d. dlv_notification d = i \<and> dlv_device d = dev \<longrightarrow>
          dlv_status d \<noteq> D_Sent \<and> attempt_count d < max_delivery_attempts) (deliveries s))"

lemma acquired_frame [simp]:
  "device_quiet_periods (set_notification i f s) = device_quiet_periods s"
  "get_application (set_notification i f s) = get_application s"
  "get_device (set_notification i f s) = get_device s"
  "get_user (set_notification i f s) = get_user s"
  "get_subscription (set_notification i f s) = get_subscription s"
  "get_quiet_period_end_for_application clk (set_notification i f s) = get_quiet_period_end_for_application clk s"
  by (simp_all add: fun_eq_iff get_application_def get_device_def get_user_def get_subscription_def
      get_quiet_period_end_for_application_def set_notification_def)

lemma acquired_paid [simp]:
  "owner_is_paid cfg now (set_notification i f s) a = owner_is_paid cfg now s a"
  by (simp add: owner_is_paid_def user_is_paid_def active_subscription_def cong: option.case_cong)

lemma linked_ids_active:
  "dev \<in> set (linked_device_ids s app ds) \<Longrightarrow> actively_linked s dev app"
  by (auto simp: linked_device_ids_def actively_linked_def list_ex_iff)

lemma application_key: "get_application s k = Some a \<Longrightarrow> app_id a = k"
  by (auto simp: get_application_def dest: find_SomeD)

lemma device_found: "deliveries_ok s \<Longrightarrow> v \<in> set (devices s) \<Longrightarrow> get_device s (dev_id v) = Some v"
  by (simp add: deliveries_ok_def get_device_def find_key_unique)

lemma same_pair_same_row:
  "deliveries_ok s \<Longrightarrow> d \<in> set (deliveries s) \<Longrightarrow> e \<in> set (deliveries s) \<Longrightarrow>
   dlv_notification d = dlv_notification e \<Longrightarrow> dlv_device d = dlv_device e \<Longrightarrow> d = e"
  by (auto simp: deliveries_ok_def distinct_map inj_on_def)

lemma quiet_device_other:
  "device_quiet_periods s1 = device_quiet_periods s \<Longrightarrow>
   get_current_device_quiet_period_end clk s1 = get_current_device_quiet_period_end clk s"
  by (simp add: fun_eq_iff get_current_device_quiet_period_end_def)

lemma send_to_targets_pushes:
  assumes ok: "deliveries_ok s" and run: "send_to_targets env n a s = (s', r)"
  shows "\<exists>ps. provider_log s' = provider_log s @ map (\<lambda>dev. (ntf_id n, dev)) ps \<and> distinct ps \<and>
     length ps = sent_count r \<and>
     (\<forall>dev \<in> set ps. \<exists>v. get_device s dev = Some v \<and> app_is_active a \<and> actively_linked s dev (app_id a) \<and>
        push_token_status v = T_Active \<and> dev_is_active v \<and>
        get_current_device_quiet_period_end (env_clock env) s v (now_delivery env dev) = None \<and>
        (\<forall>d \<in> set (deliveries s). dlv_notification d = ntf_id n \<and> dlv_device d = dev \<longrightarrow>
          dlv_status d \<noteq> D_Sent \<and> attempt_count d < max_delivery_attempts))"
proof -
  obtain s1 ds where tgt: "get_target_deliveries_for_notification n s = (s1, ds)" by fastforce
  note t = target_deliveries[OF ok tgt]
  show ?thesis
  proof (cases "ds = []")
    case True
    then show ?thesis using send_to_targets_empty[of n s s1 env a] tgt run t(7)
      by (auto simp: no_result_def)
  next
    case False
    note L = send_to_targets_loop[OF ok tgt False run]
    let ?ctx = "context_of env n a s1 ds" and ?dds = "with_devices s1 ds"
    let ?hit = "filter (\<lambda>dd. snd (delivery_step ?ctx s1 dd) = K_Sent) ?dds"
    let ?ps = "map (\<lambda>dd. dev_id (snd dd)) ?hit"
    have "distinct (map dlv_device ds)"
    proof -
      have "distinct (map dlv_device (filter (\<lambda>d. dlv_notification d = ntf_id n) (deliveries s1)))"
        using t(1) by (auto simp: deliveries_ok_def distinct_map inj_on_def)
      then show ?thesis using t(9)[OF False] by (simp add: deliveries_of_def distinct_map)
    qed
    then have "distinct (map (\<lambda>dd. dlv_device (fst dd)) ?dds)"
      using L(5) by (metis (no_types, lifting) comp_apply list.map_comp map_eq_conv)
    then have "distinct (map (\<lambda>dd. dev_id (snd dd)) ?dds)"
      using L(7) by (metis (no_types, lifting) map_eq_conv)
    then have dist: "distinct ?ps" by (simp add: distinct_map_filter)
    have el: "\<exists>v. get_device s dev = Some v \<and> app_is_active a \<and> actively_linked s dev (app_id a) \<and>
        push_token_status v = T_Active \<and> dev_is_active v \<and>
        get_current_device_quiet_period_end (env_clock env) s v (now_delivery env dev) = None \<and>
        (\<forall>d \<in> set (deliveries s). dlv_notification d = ntf_id n \<and> dlv_device d = dev \<longrightarrow>
          dlv_status d \<noteq> D_Sent \<and> attempt_count d < max_delivery_attempts)" if "dev \<in> set ?ps" for dev
    proof -
      from that obtain d v where dd: "(d, v) \<in> set ?dds" "snd (delivery_step ?ctx s1 (d, v)) = K_Sent" "dev = dev_id v"
        by auto
      have may: "may_push ?ctx s1 (d, v)" by (rule K_Sent_may_push[OF dd(2)])
      have v: "dev_id v = dlv_device d" "v \<in> set (devices s)" using L(7) dd(1) by auto
      have d: "d \<in> set (deliveries s1)" "dlv_notification d = ntf_id n" 
        using L(5,6) dd(1) image_eqI[of d fst "(d, v)" "set ?dds"] by (auto simp flip: set_map)
      have "e = d" if "e \<in> set (deliveries s)" "dlv_notification e = ntf_id n" "dlv_device e = dev" for e
        using same_pair_same_row[OF t(1)] that d v dd(3) t(8) by (metis subsetD)
      then show ?thesis
        using may v dd(3) device_found[OF ok v(2)] linked_ids_active[of dev s1 "app_id a" ds] t(6)
          quiet_device_other[OF t(3)]
        by (auto simp: may_push_def context_of_def actively_linked_def)
    qed
    have "provider_log s' = provider_log s @ map (\<lambda>dev. (ntf_id n, dev)) ?ps"
      using L(2) by simp
    moreover have "length ?ps = sent_count r"
      using L(4) tally_counts(1)[of "\<lambda>dd. snd (delivery_step ?ctx s1 dd)" ?dds no_counts]
      by (simp add: no_counts_def)
    ultimately show ?thesis using dist el by blast
  qed
qed

text \<open>
  C3. Every push a run hands to the provider is allowed by the state the run started from: the
  notification was startable and unlocked, its application active and its owner paid, neither the
  application nor the device in a quiet period, the device active, linked and with a valid token,
  and its delivery neither sent before nor out of attempts. No device is pushed twice, and the
  reported number of sends is the number of pushes.
\<close>

theorem pushes_are_eligible:
  assumes "deliveries_ok s" and "send_notification env i s = (s', r)"
  shows "\<exists>ps. provider_log s' = provider_log s @ map (\<lambda>dev. (i, dev)) ps \<and> distinct ps \<and>
     length ps = sent_count r \<and> (\<forall>dev \<in> set ps. eligible env s i dev)"
  using assms(2)
proof (cases rule: send_cases)
  case skip
  then show ?thesis by auto
next
  case (lapse n a s1)
  have "distinct (map dlv_id (deliveries s1))"
    using acquire_Some[OF lapse(1)] assms(1) by (auto simp: deliveries_ok_def)
  then have "provider_log s' = provider_log s" using lapsed(3)[OF lapse(4)] acquire_Some[OF lapse(1)] by auto
  moreover have "sent_count r = 0" using lapse(4) by (auto simp: fail_for_lapsed_subscription_def Let_def no_result_def)
  ultimately show ?thesis by auto
next
  case (targets n a s1)
  from acquire_Some[OF targets(1)] obtain m where m: "get_notification s i = Some m"
    "ntf_status m \<in> set allowed_statuses_to_start" "ntf_id m = i"
    "n = m\<lparr>ntf_status := Processing, processing_started_at := Some (now_start env)\<rparr>"
    "s1 = set_notification i (\<lambda>n. n\<lparr>ntf_status := Processing, processing_started_at := Some (now_start env)\<rparr>) s"
    by blast
  have unlocked: "\<not> row_locked env"
    using targets(1) by (auto simp: acquire_notification_for_processing_def)
  have app: "app_id a = ntf_application m" using application_key[OF targets(2)] m(4) by simp
  have ok: "deliveries_ok s1" using assms(1) m(5) by simp
  from send_to_targets_pushes[OF ok targets(5)] obtain ps where ps:
    "provider_log s' = provider_log s1 @ map (\<lambda>dev. (ntf_id n, dev)) ps" "distinct ps" "length ps = sent_count r"
    and el: "\<And>dev. dev \<in> set ps \<Longrightarrow> \<exists>v. get_device s1 dev = Some v \<and> app_is_active a \<and> actively_linked s1 dev (app_id a) \<and>
        push_token_status v = T_Active \<and> dev_is_active v \<and>
        get_current_device_quiet_period_end (env_clock env) s1 v (now_delivery env dev) = None \<and>
        (\<forall>d \<in> set (deliveries s1). dlv_notification d = ntf_id n \<and> dlv_device d = dev \<longrightarrow>
          dlv_status d \<noteq> D_Sent \<and> attempt_count d < max_delivery_attempts)"
    by blast
  have "eligible env s i dev" if "dev \<in> set ps" for dev
    using el[OF that] targets(2,3,4) m app unlocked
    by (auto simp: eligible_def actively_linked_def get_current_device_quiet_period_end_def list_all_iff
        get_current_quiet_period_end_def)
  moreover have "provider_log s1 = provider_log s" "ntf_id n = i" using m by simp_all
  ultimately show ?thesis using ps by auto
qed

section \<open>What a send does to the rows\<close>

text \<open>
  What a run may do to a delivery that existed before it: rows of other notifications and sent
  rows stay as they are, the receipts and keys are kept, at most one attempt is added and never
  beyond the limit; a row left pending by the run has a retry date, a row it closed has none.
\<close>

definition row_after :: "pk \<Rightarrow> delivery \<Rightarrow> delivery \<Rightarrow> bool" where
  "row_after i d d' \<longleftrightarrow>
     dlv_id d' = dlv_id d \<and> dlv_notification d' = dlv_notification d \<and> dlv_device d' = dlv_device d \<and>
     delivered_at d' = delivered_at d \<and> opened_at d' = opened_at d \<and>
     (dlv_notification d \<noteq> i \<or> dlv_status d = D_Sent \<longrightarrow> d' = d) \<and>
     (attempt_count d' = attempt_count d \<or>
        attempt_count d' = Suc (attempt_count d) \<and> attempt_count d < max_delivery_attempts) \<and>
     (d' \<noteq> d \<longrightarrow> (dlv_status d' = D_Pending) = (next_retry_at d' \<noteq> None))"

lemma row_after_refl [simp]: "row_after i d d"
  by (simp add: row_after_def)

lemma row_after_failed:
  "dlv_notification d = i \<Longrightarrow> dlv_status d \<noteq> D_Sent \<Longrightarrow> attempt_count d < max_delivery_attempts \<Longrightarrow>
   row_after i d (failed_row now e d)"
  by (simp add: row_after_def failed_row_def Let_def)

lemma row_after_step:
  "dlv_notification (fst dd) = i \<Longrightarrow> row_after i (fst dd) (fst (delivery_step ctx s dd))"
proof (cases "snd (delivery_step ctx s dd) = K_Skipped")
  case False
  then show "dlv_notification (fst dd) = i \<Longrightarrow> row_after i (fst dd) (fst (delivery_step ctx s dd))"
    by (auto simp: delivery_step_def Let_def row_after_failed split: option.splits push_outcome.splits if_splits)
       (auto simp: row_after_def)
next
  case True
  then show ?thesis
    by (auto simp: delivery_step_def Let_def split: option.splits push_outcome.splits if_splits)
qed

lemma send_to_targets_rows:
  assumes ok: "deliveries_ok s" and run: "send_to_targets env n a s = (s', r)"
    and d: "d \<in> set (deliveries s)"
  shows "\<exists>d' \<in> set (deliveries s'). row_after (ntf_id n) d d'"
proof -
  obtain s1 ds where tgt: "get_target_deliveries_for_notification n s = (s1, ds)" by fastforce
  note t = target_deliveries[OF ok tgt]
  have d1: "d \<in> set (deliveries s1)" using d t(8) by blast
  show ?thesis
  proof (cases "ds = []")
    case True
    then show ?thesis using send_to_targets_empty[of n s s1 env a] tgt run d1 by (auto intro: bexI[where x = d])
  next
    case False
    note L = send_to_targets_loop[OF ok tgt False run]
    let ?ctx = "context_of env n a s1 ds" and ?dds = "with_devices s1 ds"
    have "distinct (map dlv_id (deliveries s1))" "set ds \<subseteq> set (deliveries s1)"
      using t(1) L(6) by (auto simp: deliveries_ok_def)
    note F = loop_row_found[OF this(1) L(5) this(2) d1, of ?ctx s1]
    have "row_after (ntf_id n) d (loop_row ?ctx s1 ?dds d)"
    proof (cases "d \<in> set ds")
      case True
      then have "dlv_notification d = ntf_id n" using L(6) by simp
      then show ?thesis using F True row_after_step[of "(d, _)"] by fastforce
    qed (use F in auto)
    then show ?thesis using L(1) d1 by auto
  qed
qed

text \<open>
  C4. A run never touches a delivery of another notification nor one that was already sent,
  never loses or re-keys a row or its receipts, and adds at most one attempt to a row, never
  beyond the limit of three; a row it leaves pending carries a retry date, a row it closes none.
\<close>

theorem send_keeps_rows:
  assumes "deliveries_ok s" and "send_notification env i s = (s', r)" and d: "d \<in> set (deliveries s)"
  shows "\<exists>d' \<in> set (deliveries s'). row_after i d d'"
  using assms(2)
proof (cases rule: send_cases)
  case skip
  then show ?thesis using d by (auto intro: bexI[where x = d])
next
  case (lapse n a s1)
  note q = acquire_Some[OF lapse(1)]
  have i: "ntf_id n = i" and same: "deliveries s1 = deliveries s" using q by auto
  have "distinct (map dlv_id (deliveries s1))" using same assms(1) by (simp add: deliveries_ok_def)
  note l = lapsed(1)[OF lapse(4) this]
  let ?f = "\<lambda>d. if dlv_notification d = ntf_id n \<and> dlv_status d \<noteq> D_Sent
      then d\<lparr>dlv_status := D_Failed, error_message := ''Cancelled: '' @ cancel_subscription_required @ ''.'',
        last_attempt_at := Some (now_start env), next_retry_at := None\<rparr> else d"
  have "row_after i d (?f d)" using i by (simp add: row_after_def)
  moreover have "?f d \<in> set (deliveries s')" unfolding l set_map same using d by (rule imageI)
  ultimately show ?thesis by (rule bexI)
next
  case (targets n a s1)
  note q = acquire_Some[OF targets(1)]
  have "deliveries_ok s1" "d \<in> set (deliveries s1)" "ntf_id n = i" using q assms(1) d by auto
  then show ?thesis using send_to_targets_rows[OF _ targets(5)] by blast
qed

section \<open>The status a run leaves\<close>

lemma send_to_targets_status:
  assumes ok: "deliveries_ok s" and run: "send_to_targets env n a s = (s', r)" and "0 < target_count r"
    and m: "m \<in> set (notifications s')" "ntf_id m = ntf_id n"
  shows "(ntf_status m = Sent \<longleftrightarrow> (\<forall>d \<in> set (deliveries s'). dlv_notification d = ntf_id n \<longrightarrow> dlv_status d = D_Sent)) \<and>
    (ntf_sent_at m = None \<longleftrightarrow> ntf_status m \<noteq> Sent) \<and> ntf_status m \<in> {Sent, Partial, Failed} \<and>
    processing_started_at m = None"
proof -
  obtain s1 ds where tgt: "get_target_deliveries_for_notification n s = (s1, ds)" by fastforce
  note t = target_deliveries[OF ok tgt]
  have ne: "ds \<noteq> []"
    using send_to_targets_empty[of n s s1 env a] tgt run assms(3) by (auto simp: no_result_def)
  note L = send_to_targets_loop[OF ok tgt ne run]
  let ?ctx = "context_of env n a s1 ds" and ?dds = "with_devices s1 ds"
  let ?k = "\<lambda>dd. snd (delivery_step ?ctx s1 dd)"
  let ?c = "fold (\<lambda>dd. count_tally (?k dd)) ?dds no_counts"
  have dds: "?dds \<noteq> []" using L(5) ne by auto
  have dist: "distinct (map dlv_id (deliveries s1))" and sub: "set ds \<subseteq> set (deliveries s1)"
    using t(1) L(6) by (auto simp: deliveries_ok_def)
  note F = loop_row_found[OF dist L(5) sub, of _ ?ctx s1]
  have st: "ntf_status m = final_status ?c" "(ntf_sent_at m = None) = (final_status ?c \<noteq> Sent)"
    "processing_started_at m = None"
    using m L(3) by (auto simp: set_update_where)
  have "(\<forall>dd \<in> set ?dds. ?k dd = K_Sent \<or> ?k dd = K_Skipped) \<longleftrightarrow>
      (\<forall>d \<in> set (deliveries s'). dlv_notification d = ntf_id n \<longrightarrow> dlv_status d = D_Sent)"
  proof
    assume a: "\<forall>dd \<in> set ?dds. ?k dd = K_Sent \<or> ?k dd = K_Skipped"
    show "\<forall>d \<in> set (deliveries s'). dlv_notification d = ntf_id n \<longrightarrow> dlv_status d = D_Sent"
    proof (intro ballI impI)
      fix d' assume d': "d' \<in> set (deliveries s')" "dlv_notification d' = ntf_id n"
      then obtain d where d: "d \<in> set (deliveries s1)" "d' = loop_row ?ctx s1 ?dds d" using L(1) by auto
      show "dlv_status d' = D_Sent"
      proof (cases "d \<in> set ds")
        case True
        then obtain dev where "(d, dev) \<in> set ?dds" "d' = fst (delivery_step ?ctx s1 (d, dev))"
          using F[OF d(1)] d(2) by auto
        then show ?thesis using a delivery_step_status by blast
      next
        case False
        then have "d' = d" using F[OF d(1)] d(2) by auto
        then show ?thesis using False d d' L(6) by simp
      qed
    qed
  next
    assume a: "\<forall>d \<in> set (deliveries s'). dlv_notification d = ntf_id n \<longrightarrow> dlv_status d = D_Sent"
    show "\<forall>dd \<in> set ?dds. ?k dd = K_Sent \<or> ?k dd = K_Skipped"
    proof
      fix dd assume dd: "dd \<in> set ?dds"
      then have "fst dd \<in> set (map fst ?dds)" by simp
      then have d: "fst dd \<in> set ds" using L(5) by simp
      then obtain dev where dev: "(fst dd, dev) \<in> set ?dds"
          "loop_row ?ctx s1 ?dds (fst dd) = fst (delivery_step ?ctx s1 (fst dd, dev))"
        using F sub by blast
      have "dev_id dev = dev_id (snd dd)" using L(7) dd dev(1) by fastforce
      moreover have "dev \<in> set (devices s)" "snd dd \<in> set (devices s)" using L(7) dd dev(1) by fastforce+
      ultimately have "dev = snd dd" using ok by (auto simp: deliveries_ok_def distinct_map inj_on_def)
      then have row: "fst (delivery_step ?ctx s1 dd) \<in> set (deliveries s')"
        using dev(2) L(1) d sub by (metis image_eqI list.set_map prod.collapse subsetD)
      have "dlv_notification (fst (delivery_step ?ctx s1 dd)) = ntf_id n" using d L(6) by simp
      then show "?k dd = K_Sent \<or> ?k dd = K_Skipped" using a row delivery_step_status by blast
    qed
  qed
  then show ?thesis using st final_status_Sent[OF dds, of ?k]
    by (auto simp: final_status_def Let_def split: if_splits)
qed

text \<open>
  C11. When a run had deliveries to work on, it closes the notification as sent exactly when every
  delivery of the notification is sent, as partial or failed otherwise; the sending date is set
  exactly for a sent one, and the notification is no longer marked as being processed.
\<close>

theorem sent_means_all_delivered:
  assumes "deliveries_ok s" and "send_notification env i s = (s', r)" and "0 < target_count r"
    and m: "m \<in> set (notifications s')" "ntf_id m = i"
  shows "(ntf_status m = Sent \<longleftrightarrow> (\<forall>d \<in> set (deliveries s'). dlv_notification d = i \<longrightarrow> dlv_status d = D_Sent)) \<and>
    (ntf_sent_at m = None \<longleftrightarrow> ntf_status m \<noteq> Sent) \<and> ntf_status m \<in> {Sent, Partial, Failed} \<and>
    processing_started_at m = None"
  using assms(2)
proof (cases rule: send_cases)
  case skip
  then show ?thesis using assms(3) by simp
next
  case (lapse n a s1)
  have i: "ntf_id n = i" and same: "deliveries s1 = deliveries s" using acquire_Some[OF lapse(1)] by auto
  have dist: "distinct (map dlv_id (deliveries s1))" using same assms(1) by (simp add: deliveries_ok_def)
  note l = lapsed[OF lapse(4) dist]
  have "ntf_status m = Failed \<and> ntf_sent_at m = None \<and> processing_started_at m = None"
  proof -
    from m(1) obtain m0 where "m = (if ntf_id m0 = ntf_id n then m0\<lparr>ntf_status := Failed,
        ntf_sent_at := None, processing_started_at := None\<rparr> else m0)"
      unfolding l(2) update_where_def set_map by blast
    then show ?thesis using m(2) i by (simp split: if_splits)
  qed
  moreover obtain d where d: "d \<in> set (deliveries s1)" "dlv_notification d = i" "dlv_status d \<noteq> D_Sent"
    using l(4) assms(3) i by (auto simp: length_greater_0_conv filter_empty_conv)
  let ?d = "d\<lparr>dlv_status := D_Failed, error_message := ''Cancelled: '' @ cancel_subscription_required @ ''.'',
        last_attempt_at := Some (now_start env), next_retry_at := None\<rparr>"
  have mem: "?d \<in> set (deliveries s')" unfolding l(1) set_map using d i by (intro image_eqI[of _ _ d]) simp_all
  have "\<not> (\<forall>d \<in> set (deliveries s'). dlv_notification d = i \<longrightarrow> dlv_status d = D_Sent)"
  proof
    assume "\<forall>d \<in> set (deliveries s'). dlv_notification d = i \<longrightarrow> dlv_status d = D_Sent"
    from bspec[OF this mem] d(2) show False by simp
  qed
  ultimately show ?thesis by simp
next
  case (targets n a s1)
  note q = acquire_Some[OF targets(1)]
  have ok: "deliveries_ok s1" and i: "ntf_id n = i" using q assms(1) by auto
  show ?thesis
    using send_to_targets_status[OF ok targets(5) assms(3) m(1)] m(2) unfolding i by blast
qed

section \<open>A concrete run\<close>

text \<open>
  A notification with two deliveries, one to push and one sent before, by the mock provider with
  billing not configured.
\<close>

definition demo_env :: run_env where
  "demo_env = \<lparr>env_cfg = default_config, env_clock = utc,
     env_provider = \<lparr>init_error = None, fcm_send = (\<lambda>_. Fcm_Ok [])\<rparr>, row_locked = False,
     now_start = 1000, now_delivery = (\<lambda>_. 1001), now_end = 1002\<rparr>"

definition demo_db :: db where
  "demo_db = empty_db\<lparr>users := [blank_user], applications := [blank_application],
     devices := [blank_device, blank_device\<lparr>dev_id := 2\<rparr>], links := [blank_link],
     notifications := [blank_notification],
     deliveries := [blank_delivery, blank_delivery\<lparr>dlv_id := 2, dlv_device := 2, dlv_status := D_Sent\<rparr>],
     next_pk := 3\<rparr>"

definition demo_after :: db where
  "demo_after = fst (send_notification demo_env 1 demo_db)"

lemma demo_ok: "deliveries_ok demo_db"
  by code_simp

lemma demo_send: "send_notification demo_env 1 demo_db = (demo_after, \<lparr>sr_notification_id = 1,
    target_count = 2, sent_count = 1, failed_count = 0, skipped_count = 1\<rparr>)"
  unfolding demo_after_def by (subst prod_eq_iff) code_simp

lemma demo_after_rows:
  "provider_log demo_after = [(1, 1)]"
  "map (\<lambda>d. (dlv_id d, dlv_status d, attempt_count d)) (deliveries demo_after) = [(1, D_Sent, 0), (2, D_Sent, 0)]"
  "map (\<lambda>n. (ntf_id n, ntf_status n)) (notifications demo_after) = [(1, Sent)]"
  by code_simp+

theorem pushes_are_eligible_witness:
  "provider_log demo_after = [(1, 1)] \<and> eligible demo_env demo_db 1 1"
  using pushes_are_eligible[OF demo_ok demo_send] by (auto simp: demo_after_rows demo_db_def empty_db_def)

theorem send_keeps_rows_witness:
  "\<exists>d' \<in> set (deliveries demo_after).
     row_after 1 (blank_delivery\<lparr>dlv_id := 2, dlv_device := 2, dlv_status := D_Sent\<rparr>) d'"
  by (rule send_keeps_rows[OF demo_ok demo_send]) (simp add: demo_db_def)

theorem sent_means_all_delivered_witness:
  "\<exists>m \<in> set (notifications demo_after). ntf_status m = Sent \<and> ntf_sent_at m \<noteq> None"
proof -
  have "\<exists>m. m \<in> set (notifications demo_after) \<and> ntf_id m = 1 \<and> ntf_status m = Sent"
    using demo_after_rows(3) by auto
  then obtain m :: notification where m: "m \<in> set (notifications demo_after)" "ntf_id m = 1" "ntf_status m = Sent"
    by blast
  have "ntf_sent_at m \<noteq> None"
    using sent_means_all_delivered[OF demo_ok demo_send _ m(1,2)] m(3) by simp
  then show ?thesis using m by blast
qed

end
