(* ===== verification/Tasks.thy ===== *)
theory Tasks
  imports Sending
begin

text \<open>
  \<open>notifications/tasks.py\<close> and \<open>notifications/retention.py\<close>: the beat tasks (retry, dispatch of
  scheduled notifications, watchdog, mailbox poll under a lock, retention purge), the workers that
  run concurrently with them, and a delivery the retry sweep never gets rid of.
\<close>

section \<open>The periodic tasks\<close>

text \<open>
  The notifications with a pending delivery whose retry date has passed, each once (in the
  database's order; here that of the last matching row).
\<close>

definition due_for_retry :: "instant \<Rightarrow> delivery \<Rightarrow> bool" where
  "due_for_retry now d \<longleftrightarrow> dlv_status d = D_Pending \<and>
     (case next_retry_at d of None \<Rightarrow> False | Some t \<Rightarrow> t \<le> now)"

definition retry_pending_deliveries_task :: "instant \<Rightarrow> db \<Rightarrow> db" where
  "retry_pending_deliveries_task now s =
     fold (\<lambda>i. submit (Send_Notification i))
       (remdups (map dlv_notification (filter (due_for_retry now) (deliveries s)))) s"

definition due_for_dispatch :: "instant \<Rightarrow> notification \<Rightarrow> bool" where
  "due_for_dispatch now n \<longleftrightarrow> ntf_status n = Scheduled \<and>
     (case scheduled_for n of None \<Rightarrow> False | Some t \<Rightarrow> t \<le> now)"

text \<open>
  One turn of the dispatch loop: the row is locked (\<open>skip_locked\<close> hides a locked one), checked
  again with a new reading of the clock, queued, and submitted after the transaction.
\<close>

definition dispatch_one :: "(pk \<Rightarrow> bool) \<Rightarrow> (pk \<Rightarrow> instant) \<Rightarrow> pk \<Rightarrow> db \<times> nat \<Rightarrow> db \<times> nat" where
  "dispatch_one locked now i st =
     (let s = fst st in
      if locked i then st
      else case get_notification s i of
        None \<Rightarrow> st
      | Some n \<Rightarrow>
          if ntf_status n \<noteq> Scheduled then st
          else if (case scheduled_for n of None \<Rightarrow> True | Some t \<Rightarrow> now i < t) then st
          else (submit (Send_Notification i) (set_notification i (\<lambda>n. n\<lparr>ntf_status := Queued\<rparr>) s),
                Suc (snd st)))"

definition dispatch_scheduled_notifications_task ::
    "(pk \<Rightarrow> bool) \<Rightarrow> instant \<Rightarrow> (pk \<Rightarrow> instant) \<Rightarrow> db \<Rightarrow> db \<times> nat" where
  "dispatch_scheduled_notifications_task locked start now s =
     fold (dispatch_one locked now)
       (sort (map ntf_id (filter (due_for_dispatch start) (notifications s)))) (s, 0)"

definition stuck :: "instant \<Rightarrow> notification \<Rightarrow> bool" where
  "stuck cutoff n \<longleftrightarrow> ntf_status n = Processing \<and>
     (case processing_started_at n of None \<Rightarrow> False | Some t \<Rightarrow> t < cutoff)"

text \<open>One turn of the watchdog: the conditional update, and the submission when it hit a row.\<close>

definition requeue_one :: "instant \<Rightarrow> pk \<Rightarrow> db \<times> nat \<Rightarrow> db \<times> nat" where
  "requeue_one cutoff i st =
     (let s = fst st;
          hit = (\<lambda>n. ntf_id n = i \<and> stuck cutoff n);
          s1 = put_notifications hit (\<lambda>n. n\<lparr>ntf_status := Queued, processing_started_at := None\<rparr>) s
      in if count_where hit (notifications s) \<noteq> 0
         then (submit (Send_Notification i) s1, Suc (snd st)) else (s1, snd st))"

definition processing_cutoff :: "config \<Rightarrow> instant \<Rightarrow> instant" where
  "processing_cutoff cfg now = now - processing_stuck_minutes cfg * minute"

definition requeue_stuck_processing_notifications_task :: "config \<Rightarrow> instant \<Rightarrow> db \<Rightarrow> db \<times> nat" where
  "requeue_stuck_processing_notifications_task cfg now s =
     fold (requeue_one (processing_cutoff cfg now))
       (sort (map ntf_id (filter (stuck (processing_cutoff cfg now)) (notifications s)))) (s, 0)"

section \<open>The lock of the mailbox poll\<close>

text \<open>
  The shared cache holds the token of a poll and when it expires. \<open>add\<close> fails while an entry is
  alive; an expired entry is as good as none.
\<close>

type_synonym poll_lock = "(string \<times> instant) option"

definition lock_value :: "instant \<Rightarrow> poll_lock \<Rightarrow> string option" where
  "lock_value now l = (case l of None \<Rightarrow> None | Some (tok, e) \<Rightarrow> if now < e then Some tok else None)"

definition lock_add :: "config \<Rightarrow> instant \<Rightarrow> string \<Rightarrow> poll_lock \<Rightarrow> poll_lock \<times> bool" where
  "lock_add cfg now tok l =
     (if lock_value now l = None then (Some (tok, now + poll_lock_ttl_seconds cfg * second), True)
      else (l, False))"

text \<open>The release reads the entry, and deletes whatever entry there is when the token matched.\<close>

definition lock_mine :: "instant \<Rightarrow> string \<Rightarrow> poll_lock \<Rightarrow> bool" where
  "lock_mine now tok l \<longleftrightarrow> lock_value now l = Some tok"

definition lock_delete :: "poll_lock \<Rightarrow> poll_lock" where
  "lock_delete l = None"

datatype 'a poll_outcome = Skipped_Locked | Polled 'a

text \<open>
  \<open>poll_inbound_mailbox_task\<close>: \<open>poll\<close> is the mailbox poll, on the database, with the lock as
  other runs left it meanwhile (\<open>meanwhile\<close>); \<open>t0\<close>, \<open>t1\<close> are the times of the two accesses.
\<close>

definition poll_inbound_mailbox_task ::
    "config \<Rightarrow> string \<Rightarrow> instant \<Rightarrow> instant \<Rightarrow> (db \<Rightarrow> db \<times> 'a) \<Rightarrow> (poll_lock \<Rightarrow> poll_lock) \<Rightarrow>
     db \<times> poll_lock \<Rightarrow> (db \<times> poll_lock) \<times> 'a poll_outcome" where
  "poll_inbound_mailbox_task cfg tok t0 t1 poll meanwhile st =
     (case lock_add cfg t0 tok (snd st) of
        (l, False) \<Rightarrow> ((fst st, l), Skipped_Locked)
      | (l, True) \<Rightarrow>
          (let (s1, r) = poll (fst st); l1 = meanwhile l in
           ((s1, if lock_mine t1 tok l1 then lock_delete l1 else l1), Polled r)))"

section \<open>Retention\<close>

record purge_result =
  notifications_deleted :: nat
  inbound_email_logs_deleted :: nat
  devices_deleted :: nat

text \<open>\<open>Notification.delete()\<close>: the deliveries go with it, the journal keeps its row without it.\<close>

definition delete_notifications :: "(notification \<Rightarrow> bool) \<Rightarrow> db \<Rightarrow> db" where
  "delete_notifications P s =
     (let gone = map ntf_id (filter P (notifications s)) in
      s\<lparr>notifications := filter (\<lambda>n. \<not> P n) (notifications s),
        deliveries := filter (\<lambda>d. dlv_notification d \<notin> set gone) (deliveries s),
        inbound_logs := update_where
          (\<lambda>l. case log_notification l of None \<Rightarrow> False | Some i \<Rightarrow> i \<in> set gone)
          (\<lambda>l. l\<lparr>log_notification := None\<rparr>) (inbound_logs s)\<rparr>)"

text \<open>\<open>Device.delete()\<close>: its deliveries, links and quiet periods go with it.\<close>

definition delete_devices :: "(device \<Rightarrow> bool) \<Rightarrow> db \<Rightarrow> db" where
  "delete_devices P s =
     (let gone = map dev_id (filter P (devices s)) in
      s\<lparr>devices := filter (\<lambda>d. \<not> P d) (devices s),
        deliveries := filter (\<lambda>d. dlv_device d \<notin> set gone) (deliveries s),
        links := filter (\<lambda>l. link_device l \<notin> set gone) (links s),
        device_quiet_periods := filter (\<lambda>q. qp_parent q \<notin> set gone) (device_quiet_periods s)\<rparr>)"

definition expired_notification :: "config \<Rightarrow> instant \<Rightarrow> notification \<Rightarrow> bool" where
  "expired_notification cfg now n \<longleftrightarrow>
     ntf_created_at n < now - retention_notification_days cfg * day \<and>
     ntf_status n \<notin> set [Scheduled, Queued, Processing]"

definition expired_log :: "config \<Rightarrow> instant \<Rightarrow> ingestion_log \<Rightarrow> bool" where
  "expired_log cfg now l \<longleftrightarrow> processed_at l < now - retention_inbound_email_log_days cfg * day"

definition expired_device :: "config \<Rightarrow> instant \<Rightarrow> device \<Rightarrow> bool" where
  "expired_device cfg now d \<longleftrightarrow>
     (let cutoff = now - retention_invalid_device_days cfg * day in
      push_token_status d \<in> set [T_Invalid, T_Revoked] \<and>
      (case invalidated_at d of Some t \<Rightarrow> t < cutoff | None \<Rightarrow> dev_created_at d < cutoff))"

text \<open>The third component lists the image files removed from storage after the commit.\<close>

definition purge_expired_personal_data :: "config \<Rightarrow> instant \<Rightarrow> db \<Rightarrow> db \<times> purge_result \<times> string list" where
  "purge_expired_personal_data cfg now s =
     (let images = map image (filter (\<lambda>n. expired_notification cfg now n \<and> image n \<noteq> []) (notifications s));
          s1 = delete_notifications (expired_notification cfg now) s;
          s2 = s1\<lparr>inbound_logs := filter (\<lambda>l. \<not> expired_log cfg now l) (inbound_logs s1)\<rparr>;
          s3 = delete_devices (expired_device cfg now) s2
      in (s3, \<lparr>notifications_deleted = count_where (expired_notification cfg now) (notifications s),
               inbound_email_logs_deleted = count_where (expired_log cfg now) (inbound_logs s1),
               devices_deleted = count_where (expired_device cfg now) (devices s2)\<rparr>, images))"

section \<open>What the tasks do\<close>

lemma fold_submit:
  "fold (\<lambda>i. submit (f i)) ks s = s\<lparr>broker := broker s @ map f ks\<rparr>"
  by (induction ks arbitrary: s) (simp_all add: submit_def)

lemma retry_submits:
  "\<exists>ks. retry_pending_deliveries_task now s = s\<lparr>broker := broker s @ map Send_Notification ks\<rparr> \<and>
     distinct ks \<and> set ks = dlv_notification ` {d \<in> set (deliveries s). due_for_retry now d}"
  by (auto simp: retry_pending_deliveries_task_def fold_submit)

lemma requeue_one_rows:
  "distinct (map ntf_id (notifications (fst st))) \<Longrightarrow>
   notifications (fst (requeue_one cutoff i st)) =
     update_where (\<lambda>n. ntf_id n = i \<and> stuck cutoff n)
       (\<lambda>n. n\<lparr>ntf_status := Queued, processing_started_at := None\<rparr>) (notifications (fst st)) \<and>
   deliveries (fst (requeue_one cutoff i st)) = deliveries (fst st) \<and>
   broker (fst (requeue_one cutoff i st)) = broker (fst st) @
     (if list_ex (\<lambda>n. ntf_id n = i \<and> stuck cutoff n) (notifications (fst st)) then [Send_Notification i] else []) \<and>
   snd (requeue_one cutoff i st) = snd st +
     (if list_ex (\<lambda>n. ntf_id n = i \<and> stuck cutoff n) (notifications (fst st)) then 1 else 0)"
  by (simp add: requeue_one_def Let_def count_where_def filter_empty_conv list_ex_iff ntf.rows_put)

text \<open>
  The contract the two sweeps share: a turn is a conditional update of the notification with the
  given key, submitted when it hit, and the change makes the condition false.
\<close>

locale sweep =
  fixes body :: "pk \<Rightarrow> db \<times> nat \<Rightarrow> db \<times> nat"
    and cond :: "notification \<Rightarrow> bool"
    and change :: "notification \<Rightarrow> notification"
  assumes turn: "distinct (map ntf_id (notifications (fst st))) \<Longrightarrow>
      notifications (fst (body i st)) = update_where (\<lambda>n. ntf_id n = i \<and> cond n) change (notifications (fst st)) \<and>
      deliveries (fst (body i st)) = deliveries (fst st) \<and>
      broker (fst (body i st)) = broker (fst st) @
        (if list_ex (\<lambda>n. ntf_id n = i \<and> cond n) (notifications (fst st)) then [Send_Notification i] else []) \<and>
      snd (body i st) = snd st + (if list_ex (\<lambda>n. ntf_id n = i \<and> cond n) (notifications (fst st)) then 1 else 0)"
    and change_key: "ntf_id (change n) = ntf_id n"
    and change_once: "cond n \<Longrightarrow> \<not> cond (change n)"
begin

lemma turns:
  "distinct (map ntf_id (notifications (fst st))) \<Longrightarrow> distinct ks \<Longrightarrow>
    notifications (fst (fold body ks st)) = update_where (\<lambda>n. ntf_id n \<in> set ks \<and> cond n) change (notifications (fst st)) \<and>
    deliveries (fst (fold body ks st)) = deliveries (fst st) \<and>
    broker (fst (fold body ks st)) = broker (fst st) @ map Send_Notification
      (filter (\<lambda>i. list_ex (\<lambda>n. ntf_id n = i \<and> cond n) (notifications (fst st))) ks) \<and>
    snd (fold body ks st) = snd st + length
      (filter (\<lambda>i. list_ex (\<lambda>n. ntf_id n = i \<and> cond n) (notifications (fst st))) ks)"
proof (induction ks arbitrary: st)
  case Nil
  then show ?case by (simp add: update_where_def)
next
  case (Cons i ks)
  let ?st = "body i st"
  note r = turn[OF Cons.prems(1), of i]
  have "map ntf_id (notifications (fst ?st)) = map ntf_id (notifications (fst st))"
    using r change_key by (simp add: map_update_where)
  then have d: "distinct (map ntf_id (notifications (fst ?st)))" using Cons.prems(1) by simp
  have other: "list_ex (\<lambda>n. ntf_id n = j \<and> cond n) (notifications (fst ?st)) =
      list_ex (\<lambda>n. ntf_id n = j \<and> cond n) (notifications (fst st))" if "j \<in> set ks" for j
    using that r change_key Cons.prems(2) by (auto simp: list_ex_iff set_update_where)
  have f: "filter (\<lambda>j. list_ex (\<lambda>n. ntf_id n = j \<and> cond n) (notifications (fst ?st))) ks =
      filter (\<lambda>j. list_ex (\<lambda>n. ntf_id n = j \<and> cond n) (notifications (fst st))) ks"
    using other by (intro filter_cong) auto
  have "notifications (fst (fold body (i # ks) st)) =
      update_where (\<lambda>n. ntf_id n \<in> set ks \<and> cond n) change
        (update_where (\<lambda>n. ntf_id n = i \<and> cond n) change (notifications (fst st)))"
    using Cons.IH[OF d] Cons.prems(2) r by simp
  also have "\<dots> = update_where (\<lambda>n. ntf_id n \<in> set (i # ks) \<and> cond n) change (notifications (fst st))"
    using change_key change_once by (auto simp: update_where_def)
  finally show ?case using Cons.IH[OF d] Cons.prems(2) r f by simp
qed

text \<open>A sweep over the rows that match when it starts.\<close>

lemma sweep_all:
  assumes dist: "distinct (map ntf_id (notifications s))"
    and run: "fold body (sort (map ntf_id (filter seen (notifications s)))) (s, 0) = (s', k)"
  shows "notifications s' = update_where (\<lambda>n. seen n \<and> cond n) change (notifications s) \<and>
    deliveries s' = deliveries s \<and>
    (\<exists>ks. broker s' = broker s @ map Send_Notification ks \<and> sorted ks \<and> distinct ks \<and> length ks = k \<and>
      set ks = ntf_id ` {n \<in> set (notifications s). seen n \<and> cond n})"
proof -
  let ?ks = "sort (map ntf_id (filter seen (notifications s)))"
  let ?hits = "filter (\<lambda>i. list_ex (\<lambda>n. ntf_id n = i \<and> cond n) (notifications s)) ?ks"
  have d: "distinct ?ks" using dist by (simp add: distinct_map_filter)
  have in_ks: "n \<in> set (notifications s) \<Longrightarrow> ntf_id n \<in> set ?ks \<longleftrightarrow> seen n" for n
    using dist by (auto simp: distinct_map inj_on_def)
  note t = turns[of "(s, 0)" ?ks, unfolded fst_conv snd_conv, OF dist d, unfolded run]
  have "update_where (\<lambda>n. ntf_id n \<in> set ?ks \<and> cond n) change (notifications s) =
      update_where (\<lambda>n. seen n \<and> cond n) change (notifications s)"
    unfolding update_where_def using in_ks by (intro map_cong) auto
  moreover have "set ?hits = ntf_id ` {n \<in> set (notifications s). seen n \<and> cond n}"
  proof -
    have "set ?hits = {i \<in> set ?ks. \<exists>n \<in> set (notifications s). ntf_id n = i \<and> cond n}"
      by (auto simp: list_ex_iff)
    also have "\<dots> = ntf_id ` {n \<in> set (notifications s). ntf_id n \<in> set ?ks \<and> cond n}" by blast
    finally show ?thesis using in_ks by blast
  qed
  moreover have "sorted ?hits" "distinct ?hits" using d sorted_sort sorted_wrt_filter by (blast, simp)
  ultimately show ?thesis using t by (intro conjI exI[of _ ?hits]) simp_all
qed

end

interpretation watchdog: sweep "requeue_one cutoff" "stuck cutoff"
    "\<lambda>n. n\<lparr>ntf_status := Queued, processing_started_at := None\<rparr>" for cutoff
  by unfold_locales (use requeue_one_rows in \<open>auto simp: stuck_def split: option.split\<close>)

text \<open>When the turn of a notification finds it unlocked and still due.\<close>

definition dispatchable :: "(pk \<Rightarrow> bool) \<Rightarrow> (pk \<Rightarrow> instant) \<Rightarrow> notification \<Rightarrow> bool" where
  "dispatchable locked now n \<longleftrightarrow> \<not> locked (ntf_id n) \<and> due_for_dispatch (now (ntf_id n)) n"

lemma set_notification_broker [simp]: "broker (set_notification i f s) = broker s"
  by (simp add: set_notification_def)

lemma dispatch_one_rows:
  assumes "distinct (map ntf_id (notifications (fst st)))"
  shows "notifications (fst (dispatch_one locked now i st)) =
     update_where (\<lambda>n. ntf_id n = i \<and> dispatchable locked now n) (\<lambda>n. n\<lparr>ntf_status := Queued\<rparr>) (notifications (fst st)) \<and>
   deliveries (fst (dispatch_one locked now i st)) = deliveries (fst st) \<and>
   broker (fst (dispatch_one locked now i st)) = broker (fst st) @
     (if list_ex (\<lambda>n. ntf_id n = i \<and> dispatchable locked now n) (notifications (fst st)) then [Send_Notification i] else []) \<and>
   snd (dispatch_one locked now i st) = snd st +
     (if list_ex (\<lambda>n. ntf_id n = i \<and> dispatchable locked now n) (notifications (fst st)) then 1 else 0)"
proof (cases "get_notification (fst st) i")
  case None
  then have "ntf_id n \<noteq> i" if "n \<in> set (notifications (fst st))" for n
    using that by (auto simp: get_notification_def find_None_iff)
  then show ?thesis using None
    by (auto simp: dispatch_one_def Let_def list_ex_iff update_where_def intro!: map_idI[symmetric])
next
  case (Some m)
  then have m: "m \<in> set (notifications (fst st))" "ntf_id m = i"
    by (auto simp: get_notification_def dest: find_SomeD)
  have one: "n \<in> set (notifications (fst st)) \<Longrightarrow> ntf_id n = i \<longleftrightarrow> n = m" for n
    using m assms by (auto simp: distinct_map inj_on_def)
  have ex: "list_ex (\<lambda>n. ntf_id n = i \<and> dispatchable locked now n) (notifications (fst st)) = dispatchable locked now m"
    using one m by (auto simp: list_ex_iff)
  show ?thesis
  proof (cases "dispatchable locked now m")
    case True
    have up: "update_where (\<lambda>n. ntf_id n = i) (\<lambda>n. n\<lparr>ntf_status := Queued\<rparr>) (notifications (fst st)) =
      update_where (\<lambda>n. ntf_id n = i \<and> dispatchable locked now n) (\<lambda>n. n\<lparr>ntf_status := Queued\<rparr>) (notifications (fst st))"
      using one True by (auto simp: update_where_def)
    show ?thesis using True Some m ex up
      by (auto simp: dispatch_one_def Let_def dispatchable_def due_for_dispatch_def submit_def split: option.splits)
  next
    case False
    have up: "update_where (\<lambda>n. ntf_id n = i \<and> dispatchable locked now n) (\<lambda>n. n\<lparr>ntf_status := Queued\<rparr>)
        (notifications (fst st)) = notifications (fst st)"
      using one False by (intro update_where_id) auto
    show ?thesis unfolding ex up using False Some m
      by (auto simp: dispatch_one_def Let_def dispatchable_def due_for_dispatch_def split: option.splits)
  qed
qed

interpretation dispatch: sweep "dispatch_one locked now" "dispatchable locked now"
    "\<lambda>n. n\<lparr>ntf_status := Queued\<rparr>" for locked now
  by unfold_locales (use dispatch_one_rows in \<open>auto simp: dispatchable_def due_for_dispatch_def\<close>)

text \<open>
  C23. The watchdog puts back in the queue exactly the notifications that have been processed for
  longer than the threshold, and submits each of them once, in key order; every other
  notification, and every delivery, is left as it is.
\<close>

theorem watchdog_requeues_exactly_the_stuck:
  assumes "distinct (map ntf_id (notifications s))"
    and "requeue_stuck_processing_notifications_task cfg now s = (s', k)"
  shows "notifications s' = map (\<lambda>n. if stuck (processing_cutoff cfg now) n
      then n\<lparr>ntf_status := Queued, processing_started_at := None\<rparr> else n) (notifications s) \<and>
    deliveries s' = deliveries s \<and>
    (\<exists>ks. broker s' = broker s @ map Send_Notification ks \<and> sorted ks \<and> distinct ks \<and> length ks = k \<and>
      set ks = ntf_id ` {n \<in> set (notifications s). stuck (processing_cutoff cfg now) n})"
  using watchdog.sweep_all[OF assms(1) assms(2)[unfolded requeue_stuck_processing_notifications_task_def]]
  by (auto simp: update_where_def)

text \<open>
  C24. The dispatcher queues exactly the notifications that were scheduled and due when it scanned
  them and whose row no other transaction holds, however long the clock runs between the scan and
  their turn; each is submitted once, in key order, and nothing else changes.
\<close>

theorem dispatcher_queues_exactly_the_due:
  assumes "distinct (map ntf_id (notifications s))" and "\<And>i. start \<le> now i"
    and "dispatch_scheduled_notifications_task locked start now s = (s', k)"
  shows "notifications s' = map (\<lambda>n. if due_for_dispatch start n \<and> \<not> locked (ntf_id n)
      then n\<lparr>ntf_status := Queued\<rparr> else n) (notifications s) \<and>
    deliveries s' = deliveries s \<and>
    (\<exists>ks. broker s' = broker s @ map Send_Notification ks \<and> sorted ks \<and> distinct ks \<and> length ks = k \<and>
      set ks = ntf_id ` {n \<in> set (notifications s). due_for_dispatch start n \<and> \<not> locked (ntf_id n)})"
proof -
  have "due_for_dispatch start n \<Longrightarrow> due_for_dispatch (now (ntf_id n)) n" for n
    using assms(2)[of "ntf_id n"] by (auto simp: due_for_dispatch_def split: option.splits)
  then have e: "due_for_dispatch start n \<and> dispatchable locked now n \<longleftrightarrow>
      due_for_dispatch start n \<and> \<not> locked (ntf_id n)" for n
    by (auto simp: dispatchable_def)
  show ?thesis
    using dispatch.sweep_all[OF assms(1) assms(3)[unfolded dispatch_scheduled_notifications_task_def]]
    unfolding e by (simp add: update_where_def)
qed

section \<open>Concurrent workers\<close>

text \<open>What a run does after it has acquired its notification.\<close>

definition work :: "run_env \<Rightarrow> notification \<Rightarrow> db \<Rightarrow> db \<times> send_result" where
  "work env n s =
     (case get_application s (ntf_application n) of
        None \<Rightarrow> (s, no_result (ntf_id n))
      | Some a \<Rightarrow>
          if \<not> owner_is_paid (env_cfg env) (now_start env) s a
          then fail_for_lapsed_subscription (now_start env) n a s
          else (case get_current_quiet_period_end (env_clock env) s n (now_start env) of
             Some e \<Rightarrow> (defer_for_quiet_period (ntf_id n) e s, no_result (ntf_id n))
           | None \<Rightarrow> send_to_targets env n a s))"

lemma send_notification_work:
  "send_notification env i s =
     (case acquire_notification_for_processing (row_locked env) (now_start env) i s of
        (s1, None) \<Rightarrow> (s1, no_result i) | (s1, Some n) \<Rightarrow> work env n s1)"
proof (cases "acquire_notification_for_processing (row_locked env) (now_start env) i s")
  case (Pair s1 r)
  show ?thesis
  proof (cases r)
    case (Some n)
    then have "ntf_id n = i" using acquire_Some[of "row_locked env" "now_start env" i s s1 n] Pair by auto
    then show ?thesis using Pair Some by (auto simp: send_notification_def work_def split: option.split)
  qed (simp add: Pair send_notification_def)
qed

lemma work_notifications:
  "\<exists>f. (\<forall>m. ntf_id (f m) = ntf_id m) \<and>
     notifications (fst (work env n s)) = update_where (\<lambda>m. ntf_id m = ntf_id n) f (notifications s)"
proof -
  have id: "update_where P (\<lambda>m. m) rs = (rs :: notification list)" for P rs by (simp add: update_where_def)
  have tgt: "notifications (fst (get_target_deliveries_for_notification n s)) = notifications s"
  proof -
    have "notifications (fold (\<lambda>d. create_delivery (ntf_id n) (dev_id d)) ds (t :: db)) = notifications t" for ds :: "device list" and t
      by (induction ds arbitrary: t) simp_all
    then show ?thesis by (simp add: get_target_deliveries_for_notification_def Let_def)
  qed
  have targets: "\<exists>f. (\<forall>m. ntf_id (f m) = ntf_id m) \<and>
     notifications (fst (send_to_targets env n a s)) = update_where (\<lambda>m. ntf_id m = ntf_id n) f (notifications s)" for a
  proof -
    obtain s1 ds where t: "get_target_deliveries_for_notification n s = (s1, ds)" by fastforce
    then have same: "notifications s1 = notifications s" using tgt by simp
    have close: "notifications (send_webhook_callback a (ntf_id n) st sent (finish_notification (ntf_id n) st sent s2)) =
        update_where (\<lambda>m. ntf_id m = ntf_id n) (\<lambda>m. m\<lparr>ntf_status := st, ntf_sent_at := sent,
          processing_started_at := None\<rparr>) (notifications s2)" for st sent s2
      by (simp add: finish_notification_def)
    show ?thesis
    proof (cases "ds = []")
      case True
      then have "send_to_targets env n a s = (send_webhook_callback a (ntf_id n) No_Target None
          (finish_notification (ntf_id n) No_Target None s1), no_result (ntf_id n))"
        using send_to_targets_empty t by simp
      then show ?thesis using close[of No_Target None s1] same
        by (intro exI[of _ "\<lambda>m. m\<lparr>ntf_status := No_Target, ntf_sent_at := None, processing_started_at := None\<rparr>"]) simp
    next
      case False
      obtain s2 c where l: "fold (process_delivery (context_of env n a s1 ds)) (with_devices s1 ds) (s1, no_counts) = (s2, c)"
        by fastforce
      let ?st = "final_status c" and ?sent = "if final_status c = Sent then Some (now_end env) else None"
      have "notifications s2 = notifications s"
        using loop_other(2)[of "context_of env n a s1 ds" "with_devices s1 ds" "(s1, no_counts)"] l same by simp
      moreover have "fst (send_to_targets env n a s) =
          send_webhook_callback a (ntf_id n) ?st ?sent (finish_notification (ntf_id n) ?st ?sent s2)"
        using t False l by (simp add: send_to_targets_def context_of_def Let_def)
      ultimately show ?thesis using close[of ?st ?sent s2]
        by (intro exI[of _ "\<lambda>m. m\<lparr>ntf_status := ?st, ntf_sent_at := ?sent, processing_started_at := None\<rparr>"]) simp
    qed
  qed
  show ?thesis
  proof (cases "get_application s (ntf_application n)")
    case None
    then show ?thesis using id by (intro exI[of _ "\<lambda>m. m"]) (simp add: work_def)
  next
    case (Some a)
    let ?ok = "\<lambda>t. \<exists>f. (\<forall>m. ntf_id (f m) = ntf_id m) \<and>
      notifications t = update_where (\<lambda>m. ntf_id m = ntf_id n) f (notifications s)"
    have "?ok (fst (fail_for_lapsed_subscription t n a s))" for t
      using cancel_fold
      by (intro exI[of _ "\<lambda>m. m\<lparr>ntf_status := Failed, ntf_sent_at := None, processing_started_at := None\<rparr>"])
         (simp add: fail_for_lapsed_subscription_def Let_def finish_notification_def)
    moreover have "?ok (defer_for_quiet_period (ntf_id n) e s)" for e
      by (intro exI[of _ "\<lambda>m. m\<lparr>ntf_status := Scheduled, scheduled_for := Some e,
            ntf_sent_at := None, processing_started_at := None\<rparr>"]) (simp add: defer_for_quiet_period_def)
    moreover have "?ok (fst (send_to_targets env n a s))" by (rule targets)
    ultimately have "?ok (fst (work env n s))"
      using Some by (simp add: work_def split: option.split del: split_paired_Ex)
    then show ?thesis .
  qed
qed

text \<open>
  The system as the workers see it: the time, the database, and the notifications that running
  workers have acquired.
\<close>

record system =
  sys_now :: instant
  sys_db :: db
  running :: "notification list"

text \<open>
  The steps: time goes on, no run lasting longer than the watchdog's threshold; a worker acquires
  a notification, finishes its work, or dies without a trace; the beat tasks run; and any other
  request may change the database as long as it leaves the notifications being processed alone.
\<close>

inductive system_step :: "config \<Rightarrow> system \<Rightarrow> system \<Rightarrow> bool" for cfg where
  tick: "sys_now c \<le> t \<Longrightarrow>
    (\<And>n. n \<in> set (running c) \<Longrightarrow> t \<le> the (processing_started_at n) + processing_stuck_minutes cfg * minute) \<Longrightarrow>
    system_step cfg c (c\<lparr>sys_now := t\<rparr>)"
| acquire: "acquire_notification_for_processing locked (sys_now c) i (sys_db c) = (s1, Some n) \<Longrightarrow>
    system_step cfg c (c\<lparr>sys_db := s1, running := n # running c\<rparr>)"
| finish: "n \<in> set (running c) \<Longrightarrow>
    system_step cfg c (c\<lparr>sys_db := fst (work env n (sys_db c)), running := remove1 n (running c)\<rparr>)"
| die: "n \<in> set (running c) \<Longrightarrow> system_step cfg c (c\<lparr>running := remove1 n (running c)\<rparr>)"
| beat_dispatch: "dispatch_scheduled_notifications_task row_taken (sys_now c) (\<lambda>_. sys_now c) (sys_db c) = (s1, k) \<Longrightarrow>
    system_step cfg c (c\<lparr>sys_db := s1\<rparr>)"
| beat_retry: "system_step cfg c (c\<lparr>sys_db := retry_pending_deliveries_task (sys_now c) (sys_db c)\<rparr>)"
| beat_watchdog: "requeue_stuck_processing_notifications_task cfg (sys_now c) (sys_db c) = (s1, k) \<Longrightarrow>
    system_step cfg c (c\<lparr>sys_db := s1\<rparr>)"
| beat_purge: "purge_expired_personal_data cfg (sys_now c) (sys_db c) = (s1, r, files) \<Longrightarrow>
    system_step cfg c (c\<lparr>sys_db := s1\<rparr>)"
| request: "distinct (map ntf_id (notifications s1)) \<Longrightarrow>
    (\<And>n. n \<in> set (notifications (sys_db c)) \<Longrightarrow> ntf_status n = Processing \<Longrightarrow> n \<in> set (notifications s1)) \<Longrightarrow>
    system_step cfg c (c\<lparr>sys_db := s1\<rparr>)"

inductive_cases system_stepE: "system_step cfg c c'"

text \<open>Each running worker has a notification of its own, marked with its own start.\<close>

definition exclusive :: "config \<Rightarrow> system \<Rightarrow> bool" where
  "exclusive cfg c \<longleftrightarrow> distinct (map ntf_id (notifications (sys_db c))) \<and> distinct (map ntf_id (running c)) \<and>
     (\<forall>n \<in> set (running c). n \<in> set (notifications (sys_db c)) \<and> ntf_status n = Processing \<and>
        (\<exists>t. processing_started_at n = Some t \<and> sys_now c \<le> t + processing_stuck_minutes cfg * minute))"

lemma exclusive_other_rows:
  assumes "exclusive cfg c" "map ntf_id (notifications s1) = map ntf_id (notifications (sys_db c))"
    and "\<And>n. n \<in> set (notifications (sys_db c)) \<Longrightarrow> n \<in> set (running c) \<Longrightarrow> n \<in> set (notifications s1)"
  shows "exclusive cfg (c\<lparr>sys_db := s1\<rparr>)"
  using assms by (auto simp: exclusive_def)

lemma map_ntf_id_update [simp]:
  "(\<And>m. ntf_id (f m) = ntf_id m) \<Longrightarrow> map ntf_id (update_where P f rs) = map ntf_id rs"
  by (rule map_update_where)

lemma exclusive_acquire:
  assumes x: "exclusive cfg c" and stuck: "0 \<le> processing_stuck_minutes cfg"
    and a: "acquire_notification_for_processing locked (sys_now c) i (sys_db c) = (s1, Some n)"
  shows "exclusive cfg (c\<lparr>sys_db := s1, running := n # running c\<rparr>)"
proof -
  from acquire_Some[OF a] obtain m where m: "get_notification (sys_db c) i = Some m"
    "ntf_status m \<in> set allowed_statuses_to_start"
    "n = m\<lparr>ntf_status := Processing, processing_started_at := Some (sys_now c)\<rparr>"
    "s1 = set_notification i (\<lambda>n. n\<lparr>ntf_status := Processing, processing_started_at := Some (sys_now c)\<rparr>) (sys_db c)"
    "ntf_id m = i"
    by blast
  have row: "m \<in> set (notifications (sys_db c))" using m(1) by (auto simp: get_notification_def dest: find_SomeD)
  have rows: "notifications s1 = update_where (\<lambda>n. ntf_id n = i)
      (\<lambda>n. n\<lparr>ntf_status := Processing, processing_started_at := Some (sys_now c)\<rparr>) (notifications (sys_db c))"
    using m(4) by simp
  have mine: "n \<in> set (notifications s1)" unfolding rows set_update_where using row m(3,5) by blast
  have other: "r \<in> set (running c) \<Longrightarrow> ntf_id r \<noteq> i \<and> r \<in> set (notifications s1)" for r
  proof -
    assume r: "r \<in> set (running c)"
    then have rr: "r \<in> set (notifications (sys_db c))" "ntf_status r = Processing" using x by (auto simp: exclusive_def)
    have "ntf_id r \<noteq> i"
    proof
      assume "ntf_id r = i"
      then have "r = m" using x row rr(1) m(5) by (auto simp: exclusive_def distinct_map inj_on_def)
      then show False using rr(2) m(2) by (simp add: allowed_statuses_to_start_def)
    qed
    then show "ntf_id r \<noteq> i \<and> r \<in> set (notifications s1)" unfolding rows set_update_where using rr(1) by blast
  qed
  have "0 \<le> processing_stuck_minutes cfg * minute" using stuck by (simp add: time_units)
  moreover have "ntf_id n = i" using m(3,5) by simp
  moreover have "distinct (map ntf_id (notifications s1))" using x by (simp add: rows exclusive_def)
  moreover have "\<forall>r \<in> set (running c). ntf_id r \<noteq> i" "\<forall>r \<in> set (running c). r \<in> set (notifications s1)"
    using other by blast+
  ultimately show ?thesis using x mine m(3) by (auto simp: exclusive_def)
qed

lemma exclusive_finish:
  assumes x: "exclusive cfg c" and n: "n \<in> set (running c)"
  shows "exclusive cfg (c\<lparr>sys_db := fst (work env n (sys_db c)), running := remove1 n (running c)\<rparr>)"
proof -
  from work_notifications obtain f where f: "\<And>m. ntf_id (f m) = ntf_id m"
    "notifications (fst (work env n (sys_db c))) = update_where (\<lambda>m. ntf_id m = ntf_id n) f (notifications (sys_db c))"
    by blast
  have "distinct (running c)" using x by (auto simp: exclusive_def distinct_map)
  then have rem: "set (remove1 n (running c)) = set (running c) - {n}" by (rule set_remove1_eq)
  have other: "ntf_id r \<noteq> ntf_id n" if "r \<in> set (running c) - {n}" for r
    using that x n by (auto simp: exclusive_def distinct_map inj_on_def)
  have "distinct (map ntf_id (remove1 n (running c)))"
    using x by (auto simp: exclusive_def distinct_map inj_on_def rem distinct_remove1)
  then show ?thesis using x f other by (auto simp: exclusive_def rem set_update_where)
qed

lemma exclusive_step: "system_step cfg c c' \<Longrightarrow> 0 \<le> processing_stuck_minutes cfg \<Longrightarrow> exclusive cfg c \<Longrightarrow> exclusive cfg c'"
proof (induction rule: system_step.induct)
  case (tick c t)
  then show ?case by (fastforce simp: exclusive_def)
next
  case (acquire locked c i s1 n)
  then show ?case using exclusive_acquire by blast
next
  case (finish n c env)
  then show ?case using exclusive_finish by blast
next
  case (die n c)
  then have "distinct (running c)" by (auto simp: exclusive_def distinct_map)
  then have "set (remove1 n (running c)) = set (running c) - {n}" by (rule set_remove1_eq)
  with die show ?case by (auto simp: exclusive_def distinct_map distinct_remove1 inj_on_def)
next
  case (beat_dispatch row_taken c s1 k)
  then have rows: "notifications s1 = map (\<lambda>n. if due_for_dispatch (sys_now c) n \<and> \<not> row_taken (ntf_id n)
      then n\<lparr>ntf_status := Queued\<rparr> else n) (notifications (sys_db c))"
    using dispatch.sweep_all[OF _ beat_dispatch.hyps[unfolded dispatch_scheduled_notifications_task_def]]
    by (auto simp: exclusive_def update_where_def dispatchable_def)
  have "n \<in> set (notifications s1)" if "n \<in> set (running c)" for n
    using that beat_dispatch.prems(2) by (force simp: rows exclusive_def due_for_dispatch_def)
  then show ?case using beat_dispatch.prems(2) by (intro exclusive_other_rows) (auto simp: rows)
next
  case (beat_retry c)
  then show ?case by (simp add: exclusive_def retry_pending_deliveries_task_def fold_submit)
next
  case (beat_watchdog c s1 k)
  then have rows: "notifications s1 = map (\<lambda>n. if stuck (processing_cutoff cfg (sys_now c)) n
      then n\<lparr>ntf_status := Queued, processing_started_at := None\<rparr> else n) (notifications (sys_db c))"
    using watchdog.sweep_all[OF _ beat_watchdog.hyps[unfolded requeue_stuck_processing_notifications_task_def]]
    by (auto simp: exclusive_def update_where_def)
  have "n \<in> set (notifications s1)" if "n \<in> set (running c)" for n
    using that beat_watchdog.prems(2) by (force simp: rows exclusive_def stuck_def processing_cutoff_def)
  then show ?case using beat_watchdog.prems(2) by (intro exclusive_other_rows) (auto simp: rows)
next
  case (beat_purge c s1 r files)
  have rows: "notifications s1 = filter (\<lambda>n. \<not> expired_notification cfg (sys_now c) n) (notifications (sys_db c))"
    using beat_purge.hyps by (auto simp: purge_expired_personal_data_def Let_def delete_notifications_def delete_devices_def)
  have "n \<in> set (notifications s1)" if "n \<in> set (running c)" for n
    using that beat_purge.prems(2) by (auto simp: rows exclusive_def expired_notification_def)
  then show ?case using beat_purge.prems(2) by (auto simp: exclusive_def rows distinct_map_filter)
next
  case (request s1 c)
  then show ?case by (auto simp: exclusive_def)
qed

text \<open>
  While no run lasts longer than the watchdog's threshold, two workers never process the same
  notification at once, whatever the beat tasks and the requests do in between and however often
  workers die: each running worker holds a notification of its own, still marked as being
  processed since its own start.
\<close>

theorem workers_exclude_each_other:
  assumes "(system_step cfg)\<^sup>*\<^sup>* c c'" and "0 \<le> processing_stuck_minutes cfg"
    and "distinct (map ntf_id (notifications (sys_db c)))" and "running c = []"
  shows "distinct (map ntf_id (running c')) \<and>
    (\<forall>n \<in> set (running c'). n \<in> set (notifications (sys_db c')) \<and> ntf_status n = Processing)"
proof -
  have "exclusive cfg c" using assms by (simp add: exclusive_def)
  with assms(1) have "exclusive cfg c'"
    by (induction rule: rtranclp_induct) (auto intro: exclusive_step assms(2))
  then show ?thesis by (auto simp: exclusive_def)
qed

section \<open>A delivery that never closes\<close>

lemma exhausted_step:
  assumes "dlv_status d = D_Pending" "next_retry_at d = Some t" "t \<le> now_delivery (ctx_env ctx) (dlv_device d)"
    "max_delivery_attempts \<le> attempt_count d"
    "ineligibility_reason (ctx_application_active ctx) v (ctx_linked_device_ids ctx) = None"
    "get_current_device_quiet_period_end (env_clock (ctx_env ctx)) s v (now_delivery (ctx_env ctx) (dlv_device d)) = None"
  shows "delivery_step ctx s (d, v) = (d, K_Failed)"
  using assms by (simp add: delivery_step_def should_wait_for_retry_def Let_def)

text \<open>The conditions under which the worker would push, the number of attempts aside.\<close>

definition ready :: "run_env \<Rightarrow> db \<Rightarrow> application \<Rightarrow> device \<Rightarrow> bool" where
  "ready env s a v \<longleftrightarrow>
     owner_is_paid (env_cfg env) (now_start env) s a \<and> app_is_active a \<and>
     get_quiet_period_end_for_application (env_clock env) s (app_id a) (now_start env) = None \<and>
     actively_linked s (dev_id v) (app_id a) \<and> push_token_status v = T_Active \<and> dev_is_active v \<and>
     get_current_device_quiet_period_end (env_clock env) s v (now_delivery env (dev_id v)) = None"

lemma exhausted_targets:
  assumes ok: "deliveries_ok s" and d: "d \<in> set (deliveries s)" "dlv_notification d = ntf_id n" "dlv_device d = dev_id v"
    and v: "get_device s (dev_id v) = Some v"
    and row: "dlv_status d = D_Pending" "next_retry_at d = Some t" "t \<le> now_delivery env (dlv_device d)"
      "max_delivery_attempts \<le> attempt_count d"
    and ready: "ready env s a v" and run: "send_to_targets env n a s = (s', r)"
  shows "d \<in> set (deliveries s')"
proof -
  obtain s1 ds where tgt: "get_target_deliveries_for_notification n s = (s1, ds)" by fastforce
  have have_rows: "deliveries_of s (ntf_id n) \<noteq> []"
    using d(1,2) set_deliveries_of[of s "ntf_id n"] by force
  then have s1: "s1 = s" "ds = deliveries_of s (ntf_id n)"
    using tgt by (auto simp: get_target_deliveries_for_notification_def)
  have ne: "ds \<noteq> []" using s1 have_rows by simp
  note L = send_to_targets_loop[OF ok tgt ne run, unfolded s1(1)]
  let ?ctx = "context_of env n a s ds" and ?dds = "with_devices s ds"
  have mem: "d \<in> set ds" using L(6) d by simp
  have "distinct (map dlv_id (deliveries s))" "set ds \<subseteq> set (deliveries s)"
    using ok L(6) by (auto simp: deliveries_ok_def)
  from loop_row_found[OF this(1) L(5) this(2) d(1), of ?ctx s] mem obtain w where w:
    "(d, w) \<in> set ?dds" "loop_row ?ctx s ?dds d = fst (delivery_step ?ctx s (d, w))" by auto
  have "w = v" using L(7) w(1) d(3) v device_found[OF ok, of w] by fastforce
  moreover have "dev_id v \<in> set (linked_device_ids s (app_id a) ds)"
    using ready mem d(3) by (force simp: ready_def actively_linked_def linked_device_ids_def list_ex_iff)
  ultimately have "delivery_step ?ctx s (d, w) = (d, K_Failed)"
    using row ready d(3) by (intro exhausted_step[where t = t])
      (auto simp: context_of_def ready_def ineligibility_reason_def)
  then have "loop_row ?ctx s ?dds d = d" using w(2) by simp
  then show ?thesis using L(1) d(1) by (metis image_eqI list.set_map)
qed

lemma ready_set_notification [simp]: "ready env (set_notification i f s) a v = ready env s a v"
  by (simp add: ready_def actively_linked_def get_current_device_quiet_period_end_def)


text \<open>
  How such a delivery comes about: three failures close it, its device enters a quiet period, and
  the owner sends the notification again.
\<close>

definition outage_env :: "instant \<Rightarrow> run_env" where
  "outage_env t = demo_env\<lparr>env_cfg := default_config\<lparr>fcm_service_account_path := ''key.json''\<rparr>,
     env_provider := \<lparr>init_error = None, fcm_send = (\<lambda>_. Fcm_Unavailable ''down'')\<rparr>,
     now_start := t, now_delivery := (\<lambda>_. t), now_end := t\<rparr>"

definition outage_db :: db where
  "outage_db = fold (\<lambda>t s. fst (send_notification (outage_env t) 1 s)) [0, 2 * minute, 10 * minute]
     (empty_db\<lparr>users := [blank_user], applications := [blank_application], devices := [blank_device],
        links := [blank_link], notifications := [blank_notification], next_pk := 2\<rparr>)"

definition deferred_db :: db where
  "deferred_db = fst (send_notification (outage_env (hour + 30 * minute)) 1
     (outage_db\<lparr>device_quiet_periods := [blank_period\<lparr>qp_id := 1, qp_parent := 1, period_type := Once,
        start_at := Some hour, end_at := Some (2 * hour)\<rparr>]\<rparr>))"

lemma outage_rows:
  "map (\<lambda>d. (dlv_status d, attempt_count d, next_retry_at d)) (deliveries outage_db) = [(D_Failed, 3, None)]"
  "map ntf_status (notifications outage_db) = [Failed]"
  by code_simp+

definition deferred_delivery :: delivery where
  "deferred_delivery = hd (deliveries deferred_db)"

lemma deferred_rows:
  "deliveries deferred_db = [deferred_delivery]" "get_device deferred_db 1 = Some (hd (devices deferred_db))"
  "get_notification deferred_db 1 = Some (hd (notifications deferred_db))"
  "get_application deferred_db 1 = Some blank_application"
  "dlv_notification deferred_delivery = 1 \<and> dlv_device deferred_delivery = 1 \<and>
   dlv_status deferred_delivery = D_Pending \<and> attempt_count deferred_delivery = 3 \<and>
   next_retry_at deferred_delivery = Some (2 * hour)"
  "ntf_application (hd (notifications deferred_db)) = 1" "deliveries_ok deferred_db"
  "ready (outage_env (2 * hour)) deferred_db blank_application (hd (devices deferred_db))"
  by code_simp+


section \<open>What every sweep keeps\<close>

text \<open>
  Keys are distinct; a notification is marked with a start exactly while it is processed, has a
  date while it is scheduled, and a sending date only once it is sent.
\<close>

definition notification_ok :: "notification \<Rightarrow> bool" where
  "notification_ok n \<longleftrightarrow> (ntf_status n = Processing) = (processing_started_at n \<noteq> None) \<and>
     (ntf_status n = Scheduled \<longrightarrow> scheduled_for n \<noteq> None) \<and> (ntf_sent_at n \<noteq> None \<longrightarrow> ntf_status n = Sent)"

definition notifications_ok :: "db \<Rightarrow> bool" where
  "notifications_ok s \<longleftrightarrow> distinct (map ntf_id (notifications s)) \<and> (\<forall>n \<in> set (notifications s). notification_ok n)"

lemma notifications_ok_update:
  "notifications_ok s \<Longrightarrow> notifications t = update_where P f (notifications s) \<Longrightarrow> (\<And>n. ntf_id (f n) = ntf_id n) \<Longrightarrow>
   (\<And>n. n \<in> set (notifications s) \<Longrightarrow> P n \<Longrightarrow> notification_ok n \<Longrightarrow> notification_ok (f n)) \<Longrightarrow> notifications_ok t"
  by (auto simp: notifications_ok_def set_update_where)

interpretation watchdog_keeps: loop_invariant "requeue_one cutoff" "\<lambda>_. True" "\<lambda>st. notifications_ok (fst st)" for cutoff
proof
  fix i and st :: "db \<times> nat"
  assume ok: "notifications_ok (fst st)"
  then have "distinct (map ntf_id (notifications (fst st)))" by (simp add: notifications_ok_def)
  note rows = conjunct1[OF requeue_one_rows[OF this]]
  show "notifications_ok (fst (requeue_one cutoff i st))"
    by (rule notifications_ok_update[OF ok rows]) (auto simp: notification_ok_def stuck_def)
qed

interpretation dispatch_keeps: loop_invariant "dispatch_one locked now" "\<lambda>_. True" "\<lambda>st. notifications_ok (fst st)"
  for locked now
proof
  fix i and st :: "db \<times> nat"
  assume ok: "notifications_ok (fst st)"
  then have "distinct (map ntf_id (notifications (fst st)))" by (simp add: notifications_ok_def)
  note rows = conjunct1[OF dispatch_one_rows[OF this]]
  show "notifications_ok (fst (dispatch_one locked now i st))"
    by (rule notifications_ok_update[OF ok rows]) (auto simp: notification_ok_def dispatchable_def due_for_dispatch_def)
qed

text \<open>Sweeps only add to the broker.\<close>

definition submits_more :: "db \<times> nat \<Rightarrow> db \<times> nat \<Rightarrow> bool" where
  "submits_more s t \<longleftrightarrow> (\<exists>ts. broker (fst t) = broker (fst s) @ ts) \<and> snd s \<le> snd t"

interpretation watchdog_submits: loop_monotone "requeue_one cutoff" submits_more for cutoff
  by unfold_locales (auto simp: submits_more_def requeue_one_def Let_def)

interpretation dispatch_submits: loop_monotone "dispatch_one locked now" submits_more for locked now
  by unfold_locales (auto simp: submits_more_def dispatch_one_def Let_def split: option.split)

lemma sweeps_keep_notifications_ok:
  "notifications_ok s \<Longrightarrow> notifications_ok (fst (requeue_stuck_processing_notifications_task cfg now s))"
  "notifications_ok s \<Longrightarrow> notifications_ok (fst (dispatch_scheduled_notifications_task locked start later s))"
  using watchdog_keeps.fold_good[where s = "(s, 0)"] dispatch_keeps.fold_good[where s = "(s, 0)"]
  by (simp_all add: requeue_stuck_processing_notifications_task_def dispatch_scheduled_notifications_task_def list_all_iff)

section \<open>Retention\<close>

text \<open>Every reference of a row leads to a row.\<close>

definition references_ok :: "db \<Rightarrow> bool" where
  "references_ok s \<longleftrightarrow>
     (\<forall>d \<in> set (deliveries s). dlv_notification d \<in> ntf_id ` set (notifications s) \<and> dlv_device d \<in> dev_id ` set (devices s)) \<and>
     (\<forall>l \<in> set (links s). link_device l \<in> dev_id ` set (devices s) \<and> link_application l \<in> app_id ` set (applications s)) \<and>
     (\<forall>q \<in> set (device_quiet_periods s). qp_parent q \<in> dev_id ` set (devices s)) \<and>
     (\<forall>l \<in> set (inbound_logs s). \<forall>i. log_notification l = Some i \<longrightarrow> i \<in> ntf_id ` set (notifications s)) \<and>
     (\<forall>n \<in> set (notifications s). ntf_application n \<in> app_id ` set (applications s))"

lemma references_delete_notifications:
  "references_ok s \<Longrightarrow> references_ok (delete_notifications P s)"
  unfolding references_ok_def delete_notifications_def Let_def
  by (fastforce simp: set_update_where image_iff split: option.splits)

lemma references_delete_devices: "references_ok s \<Longrightarrow> references_ok (delete_devices P s)"
  unfolding references_ok_def delete_devices_def Let_def by (fastforce simp: image_iff)

lemma references_drop_logs: "references_ok s \<Longrightarrow> references_ok (s\<lparr>inbound_logs := filter P (inbound_logs s)\<rparr>)"
  by (auto simp: references_ok_def)

lemma kept_key:
  assumes "distinct (map k rs)" "i \<in> k ` set rs"
  shows "i \<notin> k ` {r \<in> set rs. P r} \<longleftrightarrow> (\<exists>r \<in> set (filter (\<lambda>r. \<not> P r) rs). k r = i)"
proof -
  have u: "x \<in> set rs \<Longrightarrow> y \<in> set rs \<Longrightarrow> k x = k y \<Longrightarrow> x = y" for x y
    using assms(1) by (simp add: distinct_map inj_on_def)
  show ?thesis
  proof
    assume "i \<notin> k ` {r \<in> set rs. P r}"
    then show "\<exists>r \<in> set (filter (\<lambda>r. \<not> P r) rs). k r = i" using assms(2) by auto
  next
    assume "\<exists>r \<in> set (filter (\<lambda>r. \<not> P r) rs). k r = i"
    then obtain r where r: "r \<in> set rs" "\<not> P r" "k r = i" by auto
    show "i \<notin> k ` {r \<in> set rs. P r}"
    proof
      assume "i \<in> k ` {r \<in> set rs. P r}"
      then obtain x where "x \<in> set rs" "P x" "k x = i" by auto
      with u[of x r] r show False by simp
    qed
  qed
qed


section \<open>The poll lock\<close>

text \<open>
  A second poll is turned away for as long as a poll holds the lock and its time to live has
  not run out: nothing is polled. A poll that no longer finds its own token when it ends leaves
  the lock to whoever holds it.
\<close>

theorem poll_lock_excludes:
  assumes "lock_add cfg t0 tok l = (l1, True)" and "t0 \<le> t1" and "t1 < t0 + poll_lock_ttl_seconds cfg * second"
  shows "poll_inbound_mailbox_task cfg tok2 t1 t2 poll meanwhile (s, l1) = ((s, l1), Skipped_Locked) \<and>
    (lock_value t2 (meanwhile l1) \<noteq> Some tok \<longrightarrow>
       snd (fst (poll_inbound_mailbox_task cfg tok t0 t2 poll meanwhile (s, l))) = meanwhile l1)"
  using assms
  by (auto simp: poll_inbound_mailbox_task_def lock_add_def lock_value_def lock_mine_def lock_delete_def Let_def
      split: if_splits prod.splits option.splits)

theorem poll_lock_excludes_witness:
  "poll_inbound_mailbox_task default_config ''b'' (10 * second) (20 * second) (\<lambda>s. (s, ())) (\<lambda>l. l)
     (empty_db, Some (''a'', 300 * second)) = ((empty_db, Some (''a'', 300 * second)), Skipped_Locked)"
  by (rule poll_lock_excludes[where ?t0.0 = 0 and tok = "''a''" and l = None, THEN conjunct1])
     (simp_all add: lock_add_def lock_value_def default_config_def second_def)

section \<open>The sweeps at work\<close>

definition sweep_db :: db where
  "sweep_db = demo_db\<lparr>notifications := [
     blank_notification\<lparr>ntf_status := Processing, processing_started_at := Some 0\<rparr>,
     blank_notification\<lparr>ntf_id := 2, ntf_status := Processing, processing_started_at := Some (15 * minute)\<rparr>,
     blank_notification\<lparr>ntf_id := 3, ntf_status := Scheduled, scheduled_for := Some minute\<rparr>,
     blank_notification\<lparr>ntf_id := 4, ntf_status := Scheduled, scheduled_for := Some hour\<rparr>,
     blank_notification\<lparr>ntf_id := 5, ntf_status := Sent, ntf_sent_at := Some 0, image := ''i.png''\<rparr>],
   devices := [blank_device, blank_device\<lparr>dev_id := 2, push_token_status := T_Invalid\<rparr>]\<rparr>"

lemma sweep_db_ok: "distinct (map ntf_id (notifications sweep_db))" "distinct (map dev_id (devices sweep_db))"
  by code_simp+

theorem watchdog_requeues_exactly_the_stuck_witness:
  "map ntf_status (notifications (fst (requeue_stuck_processing_notifications_task default_config (20 * minute) sweep_db))) =
     [Queued, Processing, Scheduled, Scheduled, Sent]"
proof -
  have "map (\<lambda>n. ntf_status (if stuck (processing_cutoff default_config (20 * minute)) n
      then n\<lparr>ntf_status := Queued, processing_started_at := None\<rparr> else n)) (notifications sweep_db) =
     [Queued, Processing, Scheduled, Scheduled, Sent]"
    by code_simp
  then show ?thesis
    using watchdog_requeues_exactly_the_stuck[OF sweep_db_ok(1) surjective_pairing, of default_config "20 * minute"]
    by (simp add: comp_def)
qed

theorem dispatcher_queues_exactly_the_due_witness:
  "map ntf_status (notifications (fst (dispatch_scheduled_notifications_task (\<lambda>_. False) (20 * minute) (\<lambda>_. 21 * minute) sweep_db))) =
     [Processing, Processing, Queued, Scheduled, Sent]"
proof -
  have "map (\<lambda>n. ntf_status (if due_for_dispatch (20 * minute) n \<and> \<not> False
      then n\<lparr>ntf_status := Queued\<rparr> else n)) (notifications sweep_db) =
     [Processing, Processing, Queued, Scheduled, Sent]"
    by code_simp
  then show ?thesis
    using dispatcher_queues_exactly_the_due[OF sweep_db_ok(1) _ surjective_pairing, of "20 * minute" "\<lambda>_. 21 * minute" "\<lambda>_. False"]
    by (simp add: comp_def time_units)
qed


text \<open>One worker starts on a queued notification.\<close>

definition quiet_system :: system where
  "quiet_system = \<lparr>sys_now = 0, sys_db = demo_db, running = []\<rparr>"

theorem workers_exclude_each_other_witness:
  "\<exists>c. (system_step default_config)\<^sup>*\<^sup>* quiet_system c \<and> length (running c) = 1 \<and>
     (\<forall>n \<in> set (running c). n \<in> set (notifications (sys_db c)) \<and> ntf_status n = Processing)"
proof -
  let ?a = "acquire_notification_for_processing False 0 1 demo_db"
  have a: "?a = (fst ?a, Some (the (snd ?a)))" by code_simp
  let ?c = "quiet_system\<lparr>sys_db := fst ?a, running := the (snd ?a) # running quiet_system\<rparr>"
  have "system_step default_config quiet_system ?c"
    by (rule system_step.acquire) (use a in \<open>simp add: quiet_system_def\<close>)
  then have r: "(system_step default_config)\<^sup>*\<^sup>* quiet_system ?c" by (rule r_into_rtranclp)
  have "distinct (map ntf_id (notifications (sys_db quiet_system)))" "running quiet_system = []"
    by (simp_all add: quiet_system_def demo_db_def empty_db_def)
  from workers_exclude_each_other[OF r _ this] have
    "\<forall>n \<in> set (running ?c). n \<in> set (notifications (sys_db ?c)) \<and> ntf_status n = Processing"
    by (simp add: default_config_def)
  moreover have "length (running ?c) = 1" by (simp add: quiet_system_def)
  ultimately show ?thesis using r by blast
qed

end
