(* ===== verification/Creation.thy ===== *)
theory Creation
  imports Tasks
begin

text \<open>
  \<open>notifications/creation.py\<close> (creation under an idempotency key, on both backends), the message
  templates of \<open>notifications/models.py\<close> and \<open>notifications/api_views_templates.py\<close>, and the
  serializers of \<open>notifications/serializers.py\<close> that validate and write notifications; the pages of
  the listings (\<open>config/pagination.py\<close>).
\<close>

section \<open>Idempotent creation\<close>

record creation_outcome =
  out_notification :: notification
  out_created :: bool
  out_conflict :: bool

text \<open>
  The database during a creation: which backend it is, and the message of the operational error
  each successive write raises, if any (a locked SQLite file, a lost connection).
\<close>

record write_env =
  sqlite :: bool
  write_error :: "nat \<Rightarrow> string option"

definition build_notification_status :: "instant option \<Rightarrow> notification_status" where
  "build_notification_status sched = (if sched \<noteq> None then Scheduled else Draft)"

definition new_notification ::
    "pk \<Rightarrow> pk \<Rightarrow> string \<Rightarrow> string \<Rightarrow> instant option \<Rightarrow> string \<Rightarrow> string \<Rightarrow> instant \<Rightarrow> notification" where
  "new_notification i app ttl msg sched key fp now = \<lparr>ntf_id = i, ntf_application = app, title = ttl,
     message = msg, image = [], ntf_status = build_notification_status sched, ntf_created_at = now,
     scheduled_for = sched, ntf_sent_at = None, processing_started_at = None, idempotency_key = key,
     request_fingerprint = fp, is_visible = True\<rparr>"

definition same_key :: "pk \<Rightarrow> string \<Rightarrow> notification \<Rightarrow> bool" where
  "same_key app key n \<longleftrightarrow> ntf_application n = app \<and> idempotency_key n = key"

text \<open>
  \<open>Notification.objects.create\<close>: nothing when the unique constraint on the application and a
  non-empty key refuses the row; the sequence moves on all the same.
\<close>

definition insert_notification ::
    "pk \<Rightarrow> string \<Rightarrow> string \<Rightarrow> instant option \<Rightarrow> string \<Rightarrow> string \<Rightarrow> instant \<Rightarrow> db \<Rightarrow> db \<times> notification option" where
  "insert_notification app ttl msg sched key fp now s =
     (if key \<noteq> [] \<and> list_ex (same_key app key) (notifications s)
      then (s\<lparr>next_pk := Suc (next_pk s)\<rparr>, None)
      else let n = new_notification (next_pk s) app ttl msg sched key fp now in
        (s\<lparr>notifications := notifications s @ [n], next_pk := Suc (next_pk s)\<rparr>, Some n))"

definition existing_outcome :: "string \<Rightarrow> notification \<Rightarrow> creation_outcome" where
  "existing_outcome fp n =
     \<lparr>out_notification = n, out_created = False, out_conflict = (request_fingerprint n \<noteq> fp)\<rparr>"

definition fresh_outcome :: "notification \<Rightarrow> creation_outcome" where
  "fresh_outcome n = \<lparr>out_notification = n, out_created = True, out_conflict = False\<rparr>"

text \<open>An exception that leaves the function: its message.\<close>

type_synonym 'a raising = "string + 'a"

definition mentions_locked :: "string \<Rightarrow> bool" where
  "mentions_locked e = contains (lower e) ''locked''"

text \<open>
  The SQLite loop: \<open>get_or_create\<close> up to three times; \<open>None\<close> is falling out of the loop.
\<close>

fun sqlite_attempts ::
    "nat list \<Rightarrow> write_env \<Rightarrow> pk \<Rightarrow> string \<Rightarrow> string \<Rightarrow> instant option \<Rightarrow> string \<Rightarrow> string \<Rightarrow> instant \<Rightarrow> db \<Rightarrow>
     (db \<times> creation_outcome raising) option" where
  "sqlite_attempts [] env app ttl msg sched key fp now s = None"
| "sqlite_attempts (k # ks) env app ttl msg sched key fp now s =
     (case write_error env k of
        Some e \<Rightarrow> if \<not> mentions_locked e \<or> k = 2 then Some (s, Inl e)
                  else sqlite_attempts ks env app ttl msg sched key fp now s
      | None \<Rightarrow>
          (case List.find (same_key app key) (notifications s) of
             Some n \<Rightarrow> Some (s, Inr (existing_outcome fp n))
           | None \<Rightarrow>
               (case insert_notification app ttl msg sched key fp now s of
                  (s1, Some n) \<Rightarrow> Some (s1, Inr (fresh_outcome n))
                | (s1, None) \<Rightarrow> Some (s1, Inl ''IntegrityError''))))"

text \<open>The row with the key, as the final \<open>get\<close> reads it.\<close>

definition read_back :: "pk \<Rightarrow> string \<Rightarrow> string \<Rightarrow> db \<Rightarrow> db \<times> creation_outcome raising" where
  "read_back app key fp s =
     (case filter (same_key app key) (notifications s) of
        [n] \<Rightarrow> (s, Inr (existing_outcome fp n))
      | [] \<Rightarrow> (s, Inl ''DoesNotExist'')
      | _ \<Rightarrow> (s, Inl ''MultipleObjectsReturned''))"

definition create_with_savepoint ::
    "write_env \<Rightarrow> pk \<Rightarrow> string \<Rightarrow> string \<Rightarrow> instant option \<Rightarrow> string \<Rightarrow> string \<Rightarrow> instant \<Rightarrow> db \<Rightarrow>
     db \<times> creation_outcome raising" where
  "create_with_savepoint env app ttl msg sched key fp now s =
     (case write_error env 3 of
        Some e \<Rightarrow>
          if \<not> sqlite env then (s, Inl e)
          else (case write_error env 4 of
            Some e2 \<Rightarrow> (s, Inl e2)
          | None \<Rightarrow>
              (case insert_notification app ttl msg sched key fp now s of
                 (s1, Some n) \<Rightarrow> (s1, Inr (fresh_outcome n))
               | (s1, None) \<Rightarrow> read_back app key fp s1))
      | None \<Rightarrow>
          (case insert_notification app ttl msg sched key fp now s of
             (s1, Some n) \<Rightarrow> (s1, Inr (fresh_outcome n))
           | (s1, None) \<Rightarrow> read_back app key fp s1))"

definition create_notification_with_optional_idempotency ::
    "write_env \<Rightarrow> pk \<Rightarrow> string \<Rightarrow> string \<Rightarrow> instant option \<Rightarrow> string \<Rightarrow> string \<Rightarrow> instant \<Rightarrow> db \<Rightarrow>
     db \<times> creation_outcome raising" where
  "create_notification_with_optional_idempotency env app ttl msg sched key fp now s =
     (if key = [] then
        (case write_error env 0 of
           Some e \<Rightarrow> (s, Inl e)
         | None \<Rightarrow>
             (case insert_notification app ttl msg sched key fp now s of
                (s1, Some n) \<Rightarrow> (s1, Inr (fresh_outcome n))
              | (s1, None) \<Rightarrow> (s1, Inl ''IntegrityError'')))
      else if sqlite env then
        (case sqlite_attempts [0, 1, 2] env app ttl msg sched key fp now s of
           Some r \<Rightarrow> r
         | None \<Rightarrow> create_with_savepoint env app ttl msg sched key fp now s)
      else create_with_savepoint env app ttl msg sched key fp now s)"

section \<open>Templates\<close>

text \<open>\<open>NotificationTemplate.render\<close>: each variable in turn replaces its placeholder.\<close>

definition placeholder :: "string \<Rightarrow> string" where
  "placeholder key = ''{{'' @ key @ ''}}''"

definition render :: "template \<Rightarrow> (string \<times> string) list \<Rightarrow> string \<times> string" where
  "render t variables =
     fold (\<lambda>kv tm. (str_replace (fst tm) (placeholder (fst kv)) (snd kv),
                     str_replace (snd tm) (placeholder (fst kv)) (snd kv)))
       variables (title_template t, message_template t)"

section \<open>Validation of what is written\<close>

text \<open>
  A \<open>CharField(trim_whitespace=True)\<close> of the framework: stripped, not blank, not too long; then
  the serializer's own validator of the field.
\<close>

definition char_field :: "nat option \<Rightarrow> string \<Rightarrow> string + string" where
  "char_field max_len v =
     (let t = strip v in
      if t = [] then Inl ''This field may not be blank.''
      else case max_len of
        None \<Rightarrow> Inr t
      | Some m \<Rightarrow> if m < length t then Inl (''Ensure this field has no more than '' @ decimal m @ '' characters.'') else Inr t)"

definition notification_title_max_length :: nat where "notification_title_max_length = 255"
definition notification_message_max_length :: nat where "notification_message_max_length = 5000"

definition validate_title :: "string \<Rightarrow> string + string" where
  "validate_title v = (if strip v = [] then Inl ''Title cannot be empty.'' else Inr v)"

definition validate_message :: "string \<Rightarrow> string + string" where
  "validate_message v =
     (if strip v = [] then Inl ''Message cannot be empty.''
      else if notification_message_max_length < length (strip v) then Inl ''Message is too long.''
      else Inr v)"

definition validate_scheduled_for :: "instant \<Rightarrow> instant option \<Rightarrow> string + instant option" where
  "validate_scheduled_for now v =
     (case v of
        None \<Rightarrow> Inr None
      | Some t \<Rightarrow> if t \<le> now then Inl ''Scheduled date must be in the future.'' else Inr (Some t))"

text \<open>
  What a client may write, each field absent or present (\<open>scheduled_for\<close> may be null); the same
  record holds the validated attributes.
\<close>

record attrs =
  at_title :: "string option"
  at_message :: "string option"
  at_template_id :: "pk option"
  at_variables :: "(string \<times> string) list"
  at_scheduled_for :: "instant option option"

text \<open>A field absent stays absent; a present one is validated, its message recorded on failure.\<close>

definition run_field :: "string \<Rightarrow> ('a \<Rightarrow> string + 'a) \<Rightarrow> 'a option \<Rightarrow> field_errors \<Rightarrow> field_errors \<times> 'a option" where
  "run_field name check v errs =
     (case v of
        None \<Rightarrow> (errs, None)
      | Some x \<Rightarrow> (case check x of Inl m \<Rightarrow> (add_error errs name m, None) | Inr y \<Rightarrow> (errs, Some y)))"

definition then_check :: "('a \<Rightarrow> string + 'b) \<Rightarrow> ('b \<Rightarrow> string + 'c) \<Rightarrow> 'a \<Rightarrow> string + 'c" where
  "then_check f g x = (case f x of Inl m \<Rightarrow> Inl m | Inr y \<Rightarrow> g y)"

definition base_fields :: "instant \<Rightarrow> attrs \<Rightarrow> field_errors + attrs" where
  "base_fields now a =
     (let (e1, t) = run_field ''title''
            (then_check (char_field (Some notification_title_max_length)) validate_title) (at_title a) [];
          (e2, m) = run_field ''message'' (then_check (char_field None) validate_message) (at_message a) e1;
          (e3, d) = run_field ''scheduled_for'' (validate_scheduled_for now) (at_scheduled_for a) e2
      in if e3 = [] then Inr (a\<lparr>at_title := t, at_message := m, at_scheduled_for := d\<rparr>) else Inl e3)"

definition given :: "string option \<Rightarrow> bool" where
  "given v = (case v of None \<Rightarrow> False | Some x \<Rightarrow> x \<noteq> [])"

text \<open>
  \<open>_resolve_template\<close>: the title and the message come either from the request or from a template
  of the application, whose rendering is checked against the same bounds.
\<close>

definition rendered_errors :: "string \<Rightarrow> string \<Rightarrow> field_errors" where
  "rendered_errors t m =
     (let e1 = (if strip t = [] then set_error [] ''title'' ''Rendered title cannot be empty.''
                else if notification_title_max_length < length t
                  then set_error [] ''title'' ''Rendered title exceeds 255 characters.''
                else [])
      in if strip m = [] then set_error e1 ''message'' ''Rendered message cannot be empty.''
         else if notification_message_max_length < length (strip m)
           then set_error e1 ''message'' ''Rendered message exceeds 5000 characters.''
         else e1)"

definition resolve_template :: "db \<Rightarrow> pk option \<Rightarrow> attrs \<Rightarrow> field_errors + attrs" where
  "resolve_template s app a =
     (let rest = a\<lparr>at_template_id := None, at_variables := []\<rparr> in
      case at_template_id a of
        Some tid \<Rightarrow>
          if given (at_title a) \<or> given (at_message a)
          then Inl [(''template_id'', [''Cannot use template_id together with title/message.''])]
          else (case app of
             None \<Rightarrow> Inl [(''template_id'', [''Application context required.''])]
           | Some k \<Rightarrow>
               (case List.find (\<lambda>t. tpl_id t = tid \<and> tpl_application t = k) (templates s) of
                  None \<Rightarrow> Inl [(''template_id'', [''Template not found.''])]
                | Some t \<Rightarrow>
                    (let (ttl, msg) = render t (at_variables a); errs = rendered_errors ttl msg in
                     if errs \<noteq> [] then Inl errs
                     else Inr (rest\<lparr>at_title := Some ttl, at_message := Some msg\<rparr>))))
      | None \<Rightarrow>
          if \<not> given (at_title a)
          then Inl [(''title'', [''This field is required when template_id is not provided.''])]
          else if \<not> given (at_message a)
          then Inl [(''message'', [''This field is required when template_id is not provided.''])]
          else Inr rest)"

section \<open>The write serializers\<close>

text \<open>\<open>NotificationCreateSerializer\<close>: the base fields, an application and a list of devices.\<close>

record create_request =
  cr_application_id :: "pk option"
  cr_device_ids :: "pk list option"
  cr_attrs :: attrs

record create_validated =
  cv_application :: application
  cv_device_ids :: "pk list"
  cv_title :: string
  cv_message :: string
  cv_scheduled_for :: "instant option"

text \<open>\<open>list(dict.fromkeys(xs))\<close>: the first occurrence of each.\<close>

definition unique_in_order :: "'a list \<Rightarrow> 'a list" where
  "unique_in_order xs = rev (remdups (rev xs))"

definition target_device :: "db \<Rightarrow> pk \<Rightarrow> pk \<Rightarrow> bool" where
  "target_device s app i \<longleftrightarrow> list_ex (\<lambda>d. dev_id d = i \<and> actively_linked s i app \<and>
     push_token_status d = T_Active \<and> dev_is_active d) (devices s)"

definition create_fields :: "instant \<Rightarrow> create_request \<Rightarrow> field_errors + attrs" where
  "create_fields now r =
     (let e1 = (case base_fields now (cr_attrs r) of Inl e \<Rightarrow> e | Inr _ \<Rightarrow> []);
          e2 = (if cr_application_id r = None then add_error e1 ''application_id'' ''This field is required.'' else e1);
          e3 = (case cr_device_ids r of
             None \<Rightarrow> add_error e2 ''device_ids'' ''This field is required.''
           | Some ids \<Rightarrow>
               if ids = [] then add_error e2 ''device_ids'' ''This list may not be empty.''
               else if 0 \<in> set ids then add_error e2 ''device_ids'' ''Ensure this value is greater than or equal to 1.''
               else e2)
      in if e3 = [] then base_fields now (cr_attrs r) else Inl e3)"

definition validate_create :: "db \<Rightarrow> pk \<Rightarrow> instant \<Rightarrow> create_request \<Rightarrow> field_errors + create_validated" where
  "validate_create s u now r =
     (case create_fields now r of
        Inl e \<Rightarrow> Inl e
      | Inr a \<Rightarrow>
          (case List.find (\<lambda>p. app_id p = the (cr_application_id r) \<and> app_owner p = u) (applications s) of
             None \<Rightarrow> Inl [(''application_id'', [''Application not found.''])]
           | Some p \<Rightarrow>
               if \<not> app_is_active p then Inl [(''application_id'', [''Application is inactive.''])]
               else (case resolve_template s (Some (app_id p)) a of
                  Inl e \<Rightarrow> Inl e
                | Inr b \<Rightarrow>
                    (let ids = unique_in_order (the (cr_device_ids r)) in
                     if list_ex (\<lambda>i. \<not> target_device s (app_id p) i) ids
                     then Inl [(''device_ids'',
                       [''All devices must be active and linked to the selected application.''])]
                     else Inr \<lparr>cv_application = p, cv_device_ids = ids, cv_title = the (at_title b),
                            cv_message = the (at_message b),
                            cv_scheduled_for = (case at_scheduled_for b of None \<Rightarrow> None | Some d \<Rightarrow> d)\<rparr>))))"

text \<open>\<open>create\<close>: the notification and one pending delivery per device, in one transaction.\<close>

definition create_notification :: "instant \<Rightarrow> create_validated \<Rightarrow> db \<Rightarrow> db \<times> notification" where
  "create_notification now v s =
     (let n = new_notification (next_pk s) (app_id (cv_application v)) (cv_title v) (cv_message v)
            (cv_scheduled_for v) [] [] now;
          s1 = s\<lparr>notifications := notifications s @ [n], next_pk := Suc (next_pk s)\<rparr>;
          s2 = fold (\<lambda>i t. t\<lparr>deliveries := deliveries t @ [new_delivery (next_pk t) (ntf_id n) i],
                             next_pk := Suc (next_pk t)\<rparr>) (cv_device_ids v) s1
      in (s2, n))"

text \<open>\<open>NotificationCreateWithAppTokenSerializer\<close>: the application is the authenticated one.\<close>

definition validate_create_with_app_token ::
    "db \<Rightarrow> pk \<Rightarrow> instant \<Rightarrow> attrs \<Rightarrow> field_errors + attrs" where
  "validate_create_with_app_token s app now a =
     (case base_fields now a of Inl e \<Rightarrow> Inl e | Inr b \<Rightarrow> resolve_template s (Some app) b)"

text \<open>\<open>NotificationFutureUpdateSerializer.update\<close>, on a partial request that has been validated.\<close>

definition update_future :: "attrs \<Rightarrow> notification \<Rightarrow> field_errors + notification" where
  "update_future a n =
     (let n1 = (case at_title a of None \<Rightarrow> n | Some t \<Rightarrow> n\<lparr>title := t\<rparr>);
          n2 = (case at_message a of None \<Rightarrow> n1 | Some m \<Rightarrow> n1\<lparr>message := m\<rparr>);
          n3 = (case at_scheduled_for a of None \<Rightarrow> n2 | Some d \<Rightarrow> n2\<lparr>scheduled_for := d\<rparr>)
      in if scheduled_for n3 = None
         then Inl [(''scheduled_for'', [''A scheduled notification must keep a future send date.''])]
         else Inr (n3\<lparr>ntf_status := build_notification_status (scheduled_for n3)\<rparr>))"

text \<open>\<open>instance.save(update_fields=[...])\<close>: these columns of the row, whatever it has become.\<close>

definition save_future :: "notification \<Rightarrow> db \<Rightarrow> db" where
  "save_future n = put_notifications (\<lambda>r. ntf_id r = ntf_id n)
     (\<lambda>r. r\<lparr>title := title n, message := message n, scheduled_for := scheduled_for n, ntf_status := ntf_status n\<rparr>)"

text \<open>\<open>NotificationTemplateWriteSerializer\<close>: each field absent (in a partial update) or present.\<close>

record template_request =
  tr_name :: "string option"
  tr_title :: "string option"
  tr_message :: "string option"

definition required :: "bool \<Rightarrow> string \<Rightarrow> 'a option \<Rightarrow> field_errors \<Rightarrow> field_errors" where
  "required partial_update name v errs =
     (if v = None \<and> \<not> partial_update then add_error errs name ''This field is required.'' else errs)"

definition not_empty :: "string \<Rightarrow> string \<Rightarrow> string + string" where
  "not_empty msg v = (if strip v = [] then Inl msg else Inr v)"

definition validate_template :: "db \<Rightarrow> pk \<Rightarrow> template option \<Rightarrow> template_request \<Rightarrow> field_errors + template_request" where
  "validate_template s app instance_row r =
     (let upd = (instance_row \<noteq> None);
          (e1, n) = run_field ''name'' (then_check (char_field (Some 120)) (not_empty ''Name cannot be empty.''))
            (tr_name r) (required upd ''name'' (tr_name r) []);
          (e2, t) = run_field ''title_template'' (then_check (char_field (Some 255)) (not_empty ''Title template cannot be empty.''))
            (tr_title r) (required upd ''title_template'' (tr_title r) e1);
          (e3, m) = run_field ''message_template'' (then_check (char_field None) (not_empty ''Message template cannot be empty.''))
            (tr_message r) (required upd ''message_template'' (tr_message r) e2)
      in if e3 \<noteq> [] then Inl e3
         else if (case n of None \<Rightarrow> False | Some nm \<Rightarrow>
             list_ex (\<lambda>x. tpl_application x = app \<and> tpl_name x = nm \<and>
               (case instance_row of None \<Rightarrow> True | Some i \<Rightarrow> tpl_id x \<noteq> tpl_id i)) (templates s))
         then Inl [(''name'', [''A template with this name already exists for this application.''])]
         else Inr \<lparr>tr_name = n, tr_title = t, tr_message = m\<rparr>)"

definition create_template :: "pk \<Rightarrow> template_request \<Rightarrow> db \<Rightarrow> db \<times> template" where
  "create_template app r s =
     (let t = \<lparr>tpl_id = next_pk s, tpl_application = app, tpl_name = the (tr_name r),
               title_template = the (tr_title r), message_template = the (tr_message r)\<rparr>
      in (s\<lparr>templates := templates s @ [t], next_pk := Suc (next_pk s)\<rparr>, t))"

definition update_template :: "template \<Rightarrow> template_request \<Rightarrow> db \<Rightarrow> db \<times> template" where
  "update_template t r s =
     (let u = t\<lparr>tpl_name := (case tr_name r of None \<Rightarrow> tpl_name t | Some x \<Rightarrow> x),
                title_template := (case tr_title r of None \<Rightarrow> title_template t | Some x \<Rightarrow> x),
                message_template := (case tr_message r of None \<Rightarrow> message_template t | Some x \<Rightarrow> x)\<rparr>
      in (s\<lparr>templates := update_where (\<lambda>x. tpl_id x = tpl_id t) (\<lambda>_. u) (templates s)\<rparr>, u))"

section \<open>Pages\<close>

text \<open>
  The framework's \<open>PageNumberPagination\<close>: pages numbered from one, the first one possibly empty,
  or the last one by name; and \<open>OptionalPageNumberPagination\<close>, the whole list unless the query asks
  for a page, then pages of the requested size (at most 200). The default size is the settings'.
\<close>

datatype page_ref = Page_Number nat | Last_Page

record page_query =
  q_page :: "page_ref option"
  q_page_size :: "nat option"

datatype 'a listing = Whole "'a list" | Page nat "'a list"

definition page_size :: nat where "page_size = 50"
definition max_page_size :: nat where "max_page_size = 200"

definition page_count :: "nat \<Rightarrow> nat \<Rightarrow> nat" where
  "page_count sz n = max 1 ((n + sz - 1) div sz)"

definition page_of :: "nat \<Rightarrow> page_ref option \<Rightarrow> 'a list \<Rightarrow> 'a listing response" where
  "page_of sz r xs =
     (let last_page = page_count sz (length xs);
          p = (case r of None \<Rightarrow> 1 | Some (Page_Number k) \<Rightarrow> k | Some Last_Page \<Rightarrow> last_page)
      in if p = 0 \<or> last_page < p then Refuse 404 ''not_found''
         else Reply 200 (Page (length xs) (take sz (drop ((p - 1) * sz) xs))))"

definition page_size_of :: "page_query \<Rightarrow> nat" where
  "page_size_of q = (case q_page_size q of None \<Rightarrow> page_size | Some k \<Rightarrow> if k = 0 then page_size else min k max_page_size)"

definition paginate_queryset :: "page_query \<Rightarrow> 'a list \<Rightarrow> 'a listing response" where
  "paginate_queryset q xs =
     (if q_page q = None \<and> q_page_size q = None then Reply 200 (Whole xs)
      else page_of (page_size_of q) (q_page q) xs)"

section \<open>The template views\<close>

text \<open>\<open>get_application\<close> of the views: an application of the caller.\<close>

definition own_application :: "db \<Rightarrow> pk \<Rightarrow> pk \<Rightarrow> application option" where
  "own_application s u app = List.find (\<lambda>a. app_id a = app \<and> app_owner a = u) (applications s)"

definition templates_of :: "db \<Rightarrow> pk \<Rightarrow> template list" where
  "templates_of s app = sort_key tpl_id (filter (\<lambda>t. tpl_application t = app) (templates s))"

definition template_list :: "pk \<Rightarrow> pk \<Rightarrow> page_ref option \<Rightarrow> db \<Rightarrow> template listing response" where
  "template_list u app p s =
     (case own_application s u app of
        None \<Rightarrow> Refuse 404 ''application_not_found''
      | Some a \<Rightarrow> page_of page_size p (templates_of s app))"

definition template_create :: "pk \<Rightarrow> pk \<Rightarrow> template_request \<Rightarrow> db \<Rightarrow> db \<times> template response" where
  "template_create u app r s =
     (case own_application s u app of
        None \<Rightarrow> (s, Refuse 404 ''application_not_found'')
      | Some a \<Rightarrow>
          (case validate_template s app None r of
             Inl e \<Rightarrow> (s, Invalid e)
           | Inr v \<Rightarrow> (let (s1, t) = create_template app v s in (s1, Reply 201 t))))"

definition template_get_object :: "pk \<Rightarrow> pk \<Rightarrow> pk \<Rightarrow> db \<Rightarrow> template response" where
  "template_get_object u app tid s =
     (case own_application s u app of
        None \<Rightarrow> Refuse 404 ''application_not_found''
      | Some a \<Rightarrow>
          (case List.find (\<lambda>t. tpl_id t = tid) (templates_of s app) of
             None \<Rightarrow> Refuse 404 ''template_not_found''
           | Some t \<Rightarrow> Reply 200 t))"

definition template_update :: "pk \<Rightarrow> pk \<Rightarrow> pk \<Rightarrow> template_request \<Rightarrow> db \<Rightarrow> db \<times> template response" where
  "template_update u app tid r s =
     (case template_get_object u app tid s of
        Reply _ t \<Rightarrow>
          (case validate_template s app (Some t) r of
             Inl e \<Rightarrow> (s, Invalid e)
           | Inr v \<Rightarrow> (let (s1, t1) = update_template t v s in (s1, Reply 200 t1)))
      | e \<Rightarrow> (s, e))"

definition template_delete :: "pk \<Rightarrow> pk \<Rightarrow> pk \<Rightarrow> db \<Rightarrow> db \<times> unit response" where
  "template_delete u app tid s =
     (case template_get_object u app tid s of
        Reply _ t \<Rightarrow> (s\<lparr>templates := filter (\<lambda>x. tpl_id x \<noteq> tid) (templates s)\<rparr>, Reply 204 ())
      | Refuse n c \<Rightarrow> (s, Refuse n c)
      | Invalid e \<Rightarrow> (s, Invalid e))"

section \<open>Idempotency\<close>

text \<open>The unique constraint: a non-empty key occurs once per application; keys of rows are fresh.\<close>

definition keys_ok :: "db \<Rightarrow> bool" where
  "keys_ok s \<longleftrightarrow> distinct (map (\<lambda>n. (ntf_application n, idempotency_key n))
       (filter (\<lambda>n. idempotency_key n \<noteq> []) (notifications s))) \<and>
     distinct (map ntf_id (notifications s)) \<and> (\<forall>n \<in> set (notifications s). ntf_id n < next_pk s)"

lemma keys_ok_insert:
  assumes "keys_ok s" "insert_notification app ttl msg sched key fp now s = (s1, r)"
  shows "keys_ok s1"
proof -
  have lt: "\<forall>n \<in> set (notifications s). ntf_id n < Suc (next_pk s)" "next_pk s \<notin> ntf_id ` set (notifications s)"
    using assms(1) by (auto simp: keys_ok_def less_SucI)
  show ?thesis
  proof (cases "key \<noteq> [] \<and> list_ex (same_key app key) (notifications s)")
    case True
    then show ?thesis using assms lt by (auto simp: keys_ok_def insert_notification_def)
  next
    case False
    then have s1: "s1 = s\<lparr>notifications := notifications s @ [new_notification (next_pk s) app ttl msg sched key fp now],
        next_pk := Suc (next_pk s)\<rparr>"
      using assms(2) by (auto simp: insert_notification_def Let_def)
    have "key \<noteq> [] \<Longrightarrow> (app, key) \<notin> (\<lambda>n. (ntf_application n, idempotency_key n)) ` set (notifications s)"
      using False by (auto simp: list_ex_iff same_key_def)
    then show ?thesis using assms(1) lt unfolding s1 by (auto simp: keys_ok_def new_notification_def)
  qed
qed

lemma same_key_single:
  assumes "keys_ok s" "key \<noteq> []" "n \<in> set (notifications s)" "same_key app key n"
  shows "filter (same_key app key) (notifications s) = [n]"
proof -
  let ?f = "\<lambda>n. (ntf_application n, idempotency_key n)" and ?k = "filter (\<lambda>n. idempotency_key n \<noteq> []) (notifications s)"
  have "filter (same_key app key) (notifications s) = filter (same_key app key) ?k"
    using assms(2) by (auto simp: same_key_def intro!: filter_cong)
  also have "\<dots> = filter (\<lambda>m. ?f m = (app, key)) ?k" by (simp add: same_key_def)
  also have "\<dots> = [n]"
  proof -
    have "distinct (map ?f rs) \<Longrightarrow> n \<in> set rs \<Longrightarrow> ?f n = c \<Longrightarrow> filter (\<lambda>m. ?f m = c) rs = [n]" for rs and c
      by (induction rs) (auto simp: filter_empty_conv image_iff)
    from this[of ?k "(app, key)"] show ?thesis using assms by (simp add: keys_ok_def same_key_def)
  qed
  finally show ?thesis .
qed

lemma read_back_found:
  assumes "keys_ok s" "key \<noteq> []" "n \<in> set (notifications s)" "same_key app key n"
  shows "read_back app key fp s = (s, Inr (existing_outcome fp n))"
  using same_key_single[OF assms] by (simp add: read_back_def)

text \<open>What the creation does when the database answers: one of two cases.\<close>

definition quiet_db :: "write_env \<Rightarrow> bool" where
  "quiet_db env \<longleftrightarrow> (\<forall>k. write_error env k = None)"

lemma create_existing:
  assumes "quiet_db env" "keys_ok s" "key \<noteq> []" "n \<in> set (notifications s)" "same_key app key n"
  shows "\<exists>s1. create_notification_with_optional_idempotency env app ttl msg sched key fp now s =
      (s1, Inr (existing_outcome fp n)) \<and> notifications s1 = notifications s \<and> keys_ok s1"
proof -
  have ex: "list_ex (same_key app key) (notifications s)" using assms(4,5) by (auto simp: list_ex_iff)
  have f: "List.find (same_key app key) (notifications s) = Some n"
    using same_key_single[OF assms(2-5)] by (simp add: find_eq_hd_filter)
  let ?s1 = "s\<lparr>next_pk := Suc (next_pk s)\<rparr>"
  have "read_back app key fp ?s1 = (?s1, Inr (existing_outcome fp n))"
    using same_key_single[OF assms(2-5)] by (simp add: read_back_def)
  moreover have "keys_ok ?s1" using assms(2) by (auto simp: keys_ok_def less_SucI)
  ultimately show ?thesis using assms(1,2,3) ex f
    by (auto simp: create_notification_with_optional_idempotency_def create_with_savepoint_def
        insert_notification_def quiet_db_def)
qed

lemma create_fresh:
  assumes "quiet_db env" "key \<noteq> []" "\<not> list_ex (same_key app key) (notifications s)"
  shows "create_notification_with_optional_idempotency env app ttl msg sched key fp now s =
      (s\<lparr>notifications := notifications s @ [new_notification (next_pk s) app ttl msg sched key fp now],
         next_pk := Suc (next_pk s)\<rparr>, Inr (fresh_outcome (new_notification (next_pk s) app ttl msg sched key fp now)))"
proof -
  have "List.find (same_key app key) (notifications s) = None"
    using assms(3) by (auto simp: find_None_iff list_ex_iff)
  then show ?thesis using assms
    by (simp add: create_notification_with_optional_idempotency_def create_with_savepoint_def
        insert_notification_def quiet_db_def Let_def)
qed

text \<open>
  C5. A creation with an idempotency key happens once: repeating it later, on either backend,
  whatever the new title, message and date, creates nothing and answers with the notification the
  first call answered with, flagged as a conflict exactly when the payload's fingerprint differs.
\<close>

theorem creation_is_idempotent:
  assumes "quiet_db env" and "quiet_db env'" and "keys_ok s" and "key \<noteq> []"
    and "create_notification_with_optional_idempotency env app ttl msg sched key fp now s = (s1, Inr out)"
    and "create_notification_with_optional_idempotency env' app ttl' msg' sched' key fp' now' s1 = (s2, r)"
  shows "notifications s2 = notifications s1 \<and>
    (\<exists>n \<in> set (notifications s1). out_notification out = n \<and> same_key app key n \<and>
      r = Inr \<lparr>out_notification = n, out_created = False, out_conflict = (request_fingerprint n \<noteq> fp')\<rparr>) \<and>
    (if out_created out then length (notifications s1) = Suc (length (notifications s)) \<and> \<not> out_conflict out
     else notifications s1 = notifications s)"
proof (cases "list_ex (same_key app key) (notifications s)")
  case True
  then obtain n where n: "n \<in> set (notifications s)" "same_key app key n" by (auto simp: list_ex_iff)
  from create_existing[OF assms(1,3,4) n, of ttl msg sched fp now] assms(5) have
    s1: "notifications s1 = notifications s" "out = existing_outcome fp n" "keys_ok s1" by auto
  have "n \<in> set (notifications s1)" using n s1(1) by simp
  from create_existing[OF assms(2) s1(3) assms(4) this n(2), of ttl' msg' sched' fp' now'] assms(6)
  have "r = Inr (existing_outcome fp' n) \<and> notifications s2 = notifications s1" by auto
  then show ?thesis using s1 n by (auto simp: existing_outcome_def)
next
  case False
  let ?n = "new_notification (next_pk s) app ttl msg sched key fp now"
  note c = create_fresh[OF assms(1,4) False, of ttl msg sched fp now]
  have s1: "s1 = s\<lparr>notifications := notifications s @ [?n], next_pk := Suc (next_pk s)\<rparr>" "out = fresh_outcome ?n"
    using c assms(5) by auto
  have ok: "keys_ok s1"
    using keys_ok_insert[OF assms(3), of app ttl msg sched key fp now s1 "Some ?n"] False assms(4) s1
    by (simp add: insert_notification_def Let_def)
  have n: "?n \<in> set (notifications s1)" "same_key app key ?n"
    using s1 by (auto simp: same_key_def new_notification_def)
  from create_existing[OF assms(2) ok assms(4) n, of ttl' msg' sched' fp' now'] assms(6) have
    "notifications s2 = notifications s1 \<and> r = Inr (existing_outcome fp' ?n)" by auto
  then show ?thesis using s1 n by (auto simp: existing_outcome_def fresh_outcome_def)
qed

text \<open>
  C30. The two backends agree: while the database answers, SQLite and PostgreSQL return the same
  outcome and leave the same notifications; and whatever goes wrong on SQLite, the code after its
  retry loop is never reached.
\<close>

theorem backends_agree:
  assumes "keys_ok s"
  shows "rel_prod (\<lambda>t u. notifications t = notifications u) (=)
      (create_notification_with_optional_idempotency \<lparr>sqlite = True, write_error = (\<lambda>_. None)\<rparr> app ttl msg sched key fp now s)
      (create_notification_with_optional_idempotency \<lparr>sqlite = False, write_error = (\<lambda>_. None)\<rparr> app ttl msg sched key fp now s) \<and>
    sqlite_attempts [0, 1, 2] env app ttl msg sched key fp now s \<noteq> None"
proof -
  have reach: "sqlite_attempts [0, 1, 2] env app ttl msg sched key fp now s \<noteq> None"
    by (auto split: option.split prod.split)
  let ?a = "\<lparr>sqlite = True, write_error = (\<lambda>_. None)\<rparr>" and ?b = "\<lparr>sqlite = False, write_error = (\<lambda>_. None)\<rparr>"
  have q: "quiet_db ?a" "quiet_db ?b" by (simp_all add: quiet_db_def)
  have "rel_prod (\<lambda>t u. notifications t = notifications u) (=)
      (create_notification_with_optional_idempotency ?a app ttl msg sched key fp now s)
      (create_notification_with_optional_idempotency ?b app ttl msg sched key fp now s)"
  proof (cases "key = []")
    case True
    then show ?thesis
      by (auto simp: create_notification_with_optional_idempotency_def insert_notification_def Let_def)
  next
    case ne: False
    show ?thesis
    proof (cases "list_ex (same_key app key) (notifications s)")
      case True
      then obtain n where n: "n \<in> set (notifications s)" "same_key app key n" by (auto simp: list_ex_iff)
      from create_existing[OF q(1) assms ne n, of ttl msg sched fp now]
        create_existing[OF q(2) assms ne n, of ttl msg sched fp now]
      show ?thesis by auto
    next
      case False
      show ?thesis by (simp add: create_fresh[OF q(1) ne False] create_fresh[OF q(2) ne False])
    qed
  qed
  with reach show ?thesis by blast
qed

section \<open>What validation guarantees\<close>

lemma run_field_keeps: "fst (run_field nm chk v errs) = [] \<Longrightarrow> errs = []"
  by (auto simp: run_field_def split: option.splits sum.splits)

lemma run_field_ok:
  "run_field nm chk v errs = ([], r) \<Longrightarrow> (v = None \<and> r = None) \<or> (\<exists>x y. v = Some x \<and> r = Some y \<and> chk x = Inr y)"
  by (auto simp: run_field_def split: option.splits sum.splits)

lemma checked_title:
  "then_check (char_field (Some notification_title_max_length)) validate_title x = Inr y \<Longrightarrow>
   strip y = y \<and> y \<noteq> [] \<and> length y \<le> 255"
  by (auto simp: then_check_def char_field_def validate_title_def Let_def notification_title_max_length_def
      split: sum.splits if_splits)

lemma checked_message:
  "then_check (char_field None) validate_message x = Inr y \<Longrightarrow> strip y = y \<and> y \<noteq> [] \<and> length y \<le> 5000"
  by (auto simp: then_check_def char_field_def validate_message_def Let_def notification_message_max_length_def
      split: sum.splits if_splits)

lemma checked_date: "validate_scheduled_for now x = Inr (Some d) \<Longrightarrow> now < d"
  by (auto simp: validate_scheduled_for_def split: option.splits if_splits)

lemma base_fields_ok:
  assumes "base_fields now a = Inr b"
  shows "(\<forall>t. at_title b = Some t \<longrightarrow> strip t = t \<and> t \<noteq> [] \<and> length t \<le> 255) \<and>
    (\<forall>m. at_message b = Some m \<longrightarrow> strip m = m \<and> m \<noteq> [] \<and> length m \<le> 5000) \<and>
    (\<forall>d. at_scheduled_for b = Some (Some d) \<longrightarrow> now < d) \<and>
    at_template_id b = at_template_id a \<and> at_variables b = at_variables a \<and>
    (at_title b = None) = (at_title a = None) \<and> (at_message b = None) = (at_message a = None) \<and>
    (at_scheduled_for b = None) = (at_scheduled_for a = None)"
proof -
  obtain e1 t where f1: "run_field ''title'' (then_check (char_field (Some notification_title_max_length)) validate_title) (at_title a) [] = (e1, t)"
    by fastforce
  obtain e2 m where f2: "run_field ''message'' (then_check (char_field None) validate_message) (at_message a) e1 = (e2, m)"
    by fastforce
  obtain e3 d where f3: "run_field ''scheduled_for'' (validate_scheduled_for now) (at_scheduled_for a) e2 = (e3, d)"
    by fastforce
  have e: "e3 = []" "b = a\<lparr>at_title := t, at_message := m, at_scheduled_for := d\<rparr>"
    using assms f1 f2 f3 by (auto simp: base_fields_def split: if_splits)
  then have "e2 = []" "e1 = []" using run_field_keeps f2 f3 by (metis fst_conv)+
  then have r: "(at_title a = None \<and> t = None) \<or> (\<exists>x y. at_title a = Some x \<and> t = Some y \<and>
        then_check (char_field (Some notification_title_max_length)) validate_title x = Inr y)"
      "(at_message a = None \<and> m = None) \<or> (\<exists>x y. at_message a = Some x \<and> m = Some y \<and>
        then_check (char_field None) validate_message x = Inr y)"
      "(at_scheduled_for a = None \<and> d = None) \<or> (\<exists>x y. at_scheduled_for a = Some x \<and> d = Some y \<and>
        validate_scheduled_for now x = Inr y)"
    using run_field_ok f1 f2 f3 e(1) by blast+
  have "(\<forall>x. t = Some x \<longrightarrow> strip x = x \<and> x \<noteq> [] \<and> length x \<le> 255) \<and> (t = None) = (at_title a = None)"
    using r(1) checked_title by fastforce
  moreover have "(\<forall>x. m = Some x \<longrightarrow> strip x = x \<and> x \<noteq> [] \<and> length x \<le> 5000) \<and> (m = None) = (at_message a = None)"
    using r(2) checked_message by fastforce
  moreover have "(\<forall>x. d = Some (Some x) \<longrightarrow> now < x) \<and> (d = None) = (at_scheduled_for a = None)"
    using r(3) checked_date by fastforce
  ultimately show ?thesis unfolding e(2) by simp
qed

lemma resolve_template_ok:
  assumes "resolve_template s app b = Inr c"
    and "\<forall>t. at_title b = Some t \<longrightarrow> strip t = t \<and> t \<noteq> [] \<and> length t \<le> 255"
    and "\<forall>m. at_message b = Some m \<longrightarrow> strip m = m \<and> m \<noteq> [] \<and> length m \<le> 5000"
  shows "\<exists>t m. at_title c = Some t \<and> at_message c = Some m \<and> strip t \<noteq> [] \<and> length t \<le> 255 \<and>
    strip m \<noteq> [] \<and> length (strip m) \<le> 5000 \<and> at_scheduled_for c = at_scheduled_for b"
proof (cases "at_template_id b")
  case None
  then show ?thesis using assms by (auto simp: resolve_template_def given_def Let_def split: if_splits option.splits)
next
  case (Some tid)
  then obtain t where t: "rendered_errors (fst (render t (at_variables b))) (snd (render t (at_variables b))) = []"
      "c = b\<lparr>at_template_id := None, at_variables := [], at_title := Some (fst (render t (at_variables b))),
         at_message := Some (snd (render t (at_variables b)))\<rparr>"
    using assms(1) by (auto simp: resolve_template_def Let_def case_prod_beta split: if_splits option.splits)
  then show ?thesis
    by (auto simp: rendered_errors_def Let_def notification_title_max_length_def notification_message_max_length_def
        split: if_splits)
qed

lemma create_deliveries_fold:
  "fold (\<lambda>i t. t\<lparr>deliveries := deliveries t @ [new_delivery (next_pk t) nid i], next_pk := Suc (next_pk t)\<rparr>) is s =
   s\<lparr>deliveries := deliveries s @ map (\<lambda>(k, i). new_delivery k nid i) (enumerate (next_pk s) is),
     next_pk := next_pk s + length is\<rparr>"
  by (induction "is" arbitrary: s) simp_all

lemma unique_in_order [simp]: "distinct (unique_in_order xs)" "set (unique_in_order xs) = set xs"
  by (simp_all add: unique_in_order_def)

lemma validate_create_ok:
  assumes "validate_create s u now r = Inr v"
  shows "get_application s (app_id (cv_application v)) \<noteq> None \<and> app_owner (cv_application v) = u \<and>
    app_is_active (cv_application v) \<and> strip (cv_title v) \<noteq> [] \<and> length (cv_title v) \<le> 255 \<and>
    strip (cv_message v) \<noteq> [] \<and> length (strip (cv_message v)) \<le> 5000 \<and>
    (\<forall>d. cv_scheduled_for v = Some d \<longrightarrow> now < d) \<and> distinct (cv_device_ids v) \<and> cv_device_ids v \<noteq> [] \<and>
    cr_device_ids r \<noteq> None \<and> set (cv_device_ids v) = set (the (cr_device_ids r)) \<and>
    (\<forall>i \<in> set (cv_device_ids v). target_device s (app_id (cv_application v)) i)"
proof -
  from assms obtain a p b where a: "create_fields now r = Inr a"
    and p: "List.find (\<lambda>p. app_id p = the (cr_application_id r) \<and> app_owner p = u) (applications s) = Some p" "app_is_active p"
    and b: "resolve_template s (Some (app_id p)) a = Inr b"
    and v: "\<not> list_ex (\<lambda>i. \<not> target_device s (app_id p) i) (unique_in_order (the (cr_device_ids r)))"
      "v = \<lparr>cv_application = p, cv_device_ids = unique_in_order (the (cr_device_ids r)), cv_title = the (at_title b),
         cv_message = the (at_message b), cv_scheduled_for = (case at_scheduled_for b of None \<Rightarrow> None | Some d \<Rightarrow> d)\<rparr>"
    by (auto simp: validate_create_def Let_def split: sum.splits option.splits if_splits)
  have base: "base_fields now (cr_attrs r) = Inr a" "cr_device_ids r \<noteq> None" "the (cr_device_ids r) \<noteq> []"
    using a by (auto simp: create_fields_def Let_def split: if_splits option.splits)
  note bf = base_fields_ok[OF base(1)]
  from resolve_template_ok[OF b] bf obtain t m where tm: "at_title b = Some t" "at_message b = Some m" "strip t \<noteq> []"
    "length t \<le> 255" "strip m \<noteq> []" "length (strip m) \<le> 5000" "at_scheduled_for b = at_scheduled_for a" by blast
  have pid: "p \<in> set (applications s)" "app_owner p = u" using p(1) by (auto dest: find_SomeD)
  then have "get_application s (app_id p) \<noteq> None" by (auto simp: get_application_def find_None_iff)
  moreover have "unique_in_order (the (cr_device_ids r)) \<noteq> []"
    using base(3) by (metis set_empty unique_in_order(2))
  ultimately show ?thesis using v p(2) pid tm bf base by (auto simp: list_ex_iff split: option.splits)
qed

text \<open>
  A notification created through the API is well formed: its application is an active one of
  the caller, its texts are not blank and within their bounds, it is a draft without a date or is
  scheduled in the future, and exactly the requested devices, each once, each active with a valid
  token and linked to the application, get one fresh pending delivery; the database stays
  consistent.
\<close>

theorem created_notification_is_wellformed:
  assumes "validate_create s u now r = Inr v" and "create_notification now v s = (s', n)"
    and "deliveries_ok s" and "keys_ok s" and "references_ok s"
  shows "app_owner (cv_application v) = u \<and> app_is_active (cv_application v) \<and>
    strip (title n) \<noteq> [] \<and> length (title n) \<le> 255 \<and> strip (message n) \<noteq> [] \<and> length (strip (message n)) \<le> 5000 \<and>
    (case scheduled_for n of None \<Rightarrow> ntf_status n = Draft | Some d \<Rightarrow> ntf_status n = Scheduled \<and> now < d) \<and>
    notifications s' = notifications s @ [n] \<and>
    (\<exists>rows. deliveries s' = deliveries s @ rows \<and> distinct (map dlv_device rows) \<and>
      set (map dlv_device rows) = set (the (cr_device_ids r)) \<and>
      list_all (\<lambda>d. dlv_notification d = ntf_id n \<and> dlv_status d = D_Pending \<and> attempt_count d = 0 \<and>
        target_device s (ntf_application n) (dlv_device d)) rows) \<and>
    deliveries_ok s' \<and> keys_ok s' \<and> references_ok s'"
proof -
  note v = validate_create_ok[OF assms(1)]
  let ?nid = "next_pk s" and ?ids = "cv_device_ids v"
  define rows where "rows = map (\<lambda>(k, i). new_delivery k ?nid i) (enumerate (Suc ?nid) ?ids)"
  have n: "n = new_notification ?nid (app_id (cv_application v)) (cv_title v) (cv_message v) (cv_scheduled_for v) [] [] now"
    and s': "s' = s\<lparr>notifications := notifications s @ [n], deliveries := deliveries s @ rows,
      next_pk := Suc ?nid + length ?ids\<rparr>"
    using assms(2) by (auto simp: create_notification_def Let_def create_deliveries_fold new_notification_def rows_def)
  have dev: "map dlv_device rows = ?ids"
    by (simp add: rows_def comp_def case_prod_beta new_delivery_def)
  have ids: "map dlv_id rows = [Suc ?nid..<Suc ?nid + length ?ids]"
    by (simp add: rows_def comp_def case_prod_beta new_delivery_def)
  have rid: "Suc ?nid \<le> dlv_id d \<and> dlv_id d < Suc ?nid + length ?ids" if "d \<in> set rows" for d
  proof -
    have "dlv_id d \<in> set (map dlv_id rows)" using that unfolding set_map by (rule imageI)
    then show ?thesis unfolding ids set_upt by simp
  qed
  have rdev: "dlv_device d \<in> set ?ids" if "d \<in> set rows" for d
  proof -
    have "dlv_device d \<in> set (map dlv_device rows)" using that unfolding set_map by (rule imageI)
    then show ?thesis unfolding dev .
  qed
  have row: "d \<in> set rows \<Longrightarrow> dlv_notification d = ?nid \<and> dlv_status d = D_Pending \<and> attempt_count d = 0 \<and> dlv_device d \<in> set ?ids" for d
    using rdev[of d] by (auto simp: rows_def new_delivery_def)
  have devs: "set ?ids \<subseteq> dev_id ` set (devices s)"
  proof
    fix i assume "i \<in> set ?ids"
    then have "target_device s (app_id (cv_application v)) i" using v by blast
    then show "i \<in> dev_id ` set (devices s)" by (auto simp: target_device_def list_ex_iff)
  qed
  have old: "d \<in> set (deliveries s) \<Longrightarrow> dlv_notification d < ?nid" for d
    using assms(4,5) by (fastforce simp: keys_ok_def references_ok_def)
  have "deliveries_ok s'"
  proof -
    have "dlv_id ` set (deliveries s) \<inter> dlv_id ` set rows = {}"
    proof -
      have "dlv_id d \<noteq> dlv_id e" if "d \<in> set (deliveries s)" "e \<in> set rows" for d e
        using assms(3) rid[OF that(2)] that(1) by (fastforce simp: deliveries_ok_def)
      then show ?thesis by blast
    qed
    moreover have "distinct (map dlv_id rows)" unfolding ids by simp
    moreover have "distinct (map (\<lambda>d. (dlv_notification d, dlv_device d)) rows)"
    proof -
      have "distinct (map snd (map (\<lambda>d. (dlv_notification d, dlv_device d)) rows))" using v dev by (simp add: comp_def)
      then show ?thesis unfolding distinct_map[of snd] by (rule conjunct1)
    qed
    moreover have "(\<lambda>d. (dlv_notification d, dlv_device d)) ` set (deliveries s) \<inter> (\<lambda>d. (dlv_notification d, dlv_device d)) ` set rows = {}"
    proof -
      have "dlv_notification d \<noteq> dlv_notification e" if "d \<in> set (deliveries s)" "e \<in> set rows" for d e
        using old[OF that(1)] row[OF that(2)] by simp
      then show ?thesis by blast
    qed
    moreover have "\<forall>d \<in> set rows. dlv_id d < Suc ?nid + length ?ids" using rid by blast
    moreover have "\<forall>d \<in> set (deliveries s). dlv_id d < Suc ?nid + length ?ids"
      using assms(3) by (fastforce simp: deliveries_ok_def)
    moreover have "dlv_device ` set rows \<subseteq> dev_id ` set (devices s)" using rdev devs by blast
    ultimately show ?thesis using assms(3) unfolding deliveries_ok_def s' by (simp add: ball_Un image_Un)
  qed
  moreover have "keys_ok s'" using assms(4) by (auto simp: s' n keys_ok_def new_notification_def)
  moreover have "references_ok s'"
  proof -
    have app: "app_id (cv_application v) \<in> app_id ` set (applications s)"
      using v by (auto simp: get_application_def find_Some_iff) (metis imageI nth_mem)
    show ?thesis using assms(5) app devs row unfolding references_ok_def s' by (auto simp: n new_notification_def)
  qed
  moreover have "\<exists>rows. deliveries s' = deliveries s @ rows \<and> distinct (map dlv_device rows) \<and>
      set (map dlv_device rows) = set (the (cr_device_ids r)) \<and>
      list_all (\<lambda>d. dlv_notification d = ntf_id n \<and> dlv_status d = D_Pending \<and> attempt_count d = 0 \<and>
        target_device s (ntf_application n) (dlv_device d)) rows"
    using v dev row by (intro exI[of _ rows]) (auto simp: s' n new_notification_def list_all_iff)
  moreover have "strip (title n) \<noteq> [] \<and> length (title n) \<le> 255 \<and> strip (message n) \<noteq> [] \<and> length (strip (message n)) \<le> 5000 \<and>
    (case scheduled_for n of None \<Rightarrow> ntf_status n = Draft | Some d \<Rightarrow> ntf_status n = Scheduled \<and> now < d)"
    using v by (auto simp: n new_notification_def build_notification_status_def split: option.split)
  moreover have "notifications s' = notifications s @ [n]" by (simp add: s')
  ultimately show ?thesis using v by blast
qed

section \<open>Concrete creations\<close>

definition demo_attrs :: attrs where
  "demo_attrs = \<lparr>at_title = Some '' hello '', at_message = Some ''world'', at_template_id = None,
     at_variables = [], at_scheduled_for = Some (Some 60)\<rparr>"

definition demo_request :: create_request where
  "demo_request = \<lparr>cr_application_id = Some 1, cr_device_ids = Some [1, 1], cr_attrs = demo_attrs\<rparr>"

definition demo_validated :: create_validated where
  "demo_validated = \<lparr>cv_application = blank_application, cv_device_ids = [1], cv_title = ''hello'',
     cv_message = ''world'', cv_scheduled_for = Some 60\<rparr>"

lemma demo_validate: "validate_create demo_db 1 0 demo_request = Inr demo_validated"
  by code_simp

lemma demo_consistent: "keys_ok demo_db" "references_ok demo_db"
  by (simp_all add: keys_ok_def references_ok_def demo_db_def empty_db_def blank_rows)

theorem created_notification_is_wellformed_witness:
  "title (snd (create_notification 0 demo_validated demo_db)) = ''hello'' \<and>
   ntf_status (snd (create_notification 0 demo_validated demo_db)) = Scheduled \<and>
   references_ok (fst (create_notification 0 demo_validated demo_db))"
  using created_notification_is_wellformed[OF demo_validate surjective_pairing demo_ok demo_consistent]
  by (simp add: create_notification_def Let_def new_notification_def demo_validated_def build_notification_status_def)

definition demo_create :: "bool \<Rightarrow> string \<Rightarrow> db \<Rightarrow> db \<times> creation_outcome raising" where
  "demo_create lite fp = create_notification_with_optional_idempotency
     \<lparr>sqlite = lite, write_error = (\<lambda>_. None)\<rparr> 1 ''t'' ''m'' None ''key'' fp 0"

theorem creation_is_idempotent_witness:
  "map_sum (\<lambda>e. e) (\<lambda>out. (ntf_id (out_notification out), out_created out, out_conflict out))
     (snd (demo_create True ''fp2'' (fst (demo_create False ''fp1'' demo_db)))) = Inr (3, False, True)"
proof -
  have q: "quiet_db \<lparr>sqlite = b, write_error = (\<lambda>_. None)\<rparr>" for b by (simp add: quiet_db_def)
  let ?n = "new_notification 3 1 ''t'' ''m'' None ''key'' ''fp1'' 0"
  have first: "demo_create False ''fp1'' demo_db = (fst (demo_create False ''fp1'' demo_db), Inr (fresh_outcome ?n))"
    by code_simp
  have row: "filter (same_key 1 ''key'') (notifications (fst (demo_create False ''fp1'' demo_db))) = [?n]" by code_simp
  obtain n where "n \<in> set (notifications (fst (demo_create False ''fp1'' demo_db)))" "same_key 1 ''key'' n"
    "snd (demo_create True ''fp2'' (fst (demo_create False ''fp1'' demo_db))) =
      Inr \<lparr>out_notification = n, out_created = False, out_conflict = (request_fingerprint n \<noteq> ''fp2'')\<rparr>"
    using creation_is_idempotent[OF q q demo_consistent(1) _ first[unfolded demo_create_def] surjective_pairing]
    by (auto simp: demo_create_def)
  moreover from this(1,2) have "n \<in> set (filter (same_key 1 ''key'') (notifications (fst (demo_create False ''fp1'' demo_db))))"
    by simp
  then have "n = ?n" unfolding row by simp
  ultimately show ?thesis by (simp add: new_notification_def)
qed

theorem backends_agree_witness:
  "notifications (fst (demo_create True ''f'' demo_db)) = notifications (fst (demo_create False ''f'' demo_db)) \<and>
   snd (demo_create True ''f'' demo_db) = snd (demo_create False ''f'' demo_db)"
proof -
  obtain a b c d where e: "demo_create True ''f'' demo_db = (a, b)" "demo_create False ''f'' demo_db = (c, d)" by fastforce
  show ?thesis
    using backends_agree[OF demo_consistent(1), of 1 "''t''" "''m''" None "''key''" "''f''" 0 "\<lparr>sqlite = True, write_error = (\<lambda>_. None)\<rparr>"] e
    by (simp add: demo_create_def)
qed

end
