(* ===== verification/Reading.thy ===== *)
theory Reading
  imports Creation
begin

text \<open>
  What the API shows of notifications: the read serializers, the filters and orderings of
  \<open>notifications/utils.py\<close>, and the views of \<open>notifications/api_views.py\<close> that list, show, hide, edit and acknowledge notifications.
\<close>

section \<open>What a reader sees\<close>

text \<open>\<open>NotificationReadSerializer\<close>.\<close>

record read_notification =
  rn_id :: pk
  rn_application_id :: pk
  rn_application_name :: string
  rn_application_logo :: string
  rn_device_ids :: "pk list"
  rn_title :: string
  rn_message :: string
  rn_status :: notification_status
  rn_created_at :: instant
  rn_scheduled_for :: "instant option"
  rn_effective_scheduled_for :: "instant option"
  rn_sent_at :: "instant option"

text \<open>\<open>prefetched\<close>: the queryset has loaded the quiet periods of the application.\<close>

definition effective_of :: "clock \<Rightarrow> db \<Rightarrow> bool \<Rightarrow> notification \<Rightarrow> instant option" where
  "effective_of clk s prefetched n = compute_effective_scheduled_for clk s (ntf_application n) (scheduled_for n)
     (if prefetched then Some (prefetched_quiet_periods s (ntf_application n)) else None)"

definition read_fields :: "clock \<Rightarrow> db \<Rightarrow> bool \<Rightarrow> delivery list \<Rightarrow> notification \<Rightarrow> read_notification" where
  "read_fields clk s prefetched ds n =
     \<lparr>rn_id = ntf_id n, rn_application_id = ntf_application n,
      rn_application_name = (case get_application s (ntf_application n) of None \<Rightarrow> [] | Some a \<Rightarrow> app_name a),
      rn_application_logo = (case get_application s (ntf_application n) of None \<Rightarrow> [] | Some a \<Rightarrow> app_logo a),
      rn_device_ids = sort (map dlv_device ds), rn_title = title n, rn_message = message n,
      rn_status = ntf_status n, rn_created_at = ntf_created_at n, rn_scheduled_for = scheduled_for n,
      rn_effective_scheduled_for = effective_of clk s prefetched n, rn_sent_at = ntf_sent_at n\<rparr>"

definition read_notification_of :: "clock \<Rightarrow> db \<Rightarrow> bool \<Rightarrow> notification \<Rightarrow> read_notification" where
  "read_notification_of clk s prefetched n = read_fields clk s prefetched (deliveries_of s (ntf_id n)) n"

section \<open>Filters\<close>

text \<open>
  \<open>NotificationListFilterSerializer\<close>: the parameters that are present. \<open>f_shift\<close> is the flag when
  the query carries it; \<open>f_ordering\<close> one of the two orderings.
\<close>

record list_filter =
  f_application_id :: "pk option"
  f_device_id :: "pk option"
  f_status :: "notification_status option"
  f_from :: "instant option"
  f_to :: "instant option"
  f_shift :: "bool option"
  f_ordering :: "string option"

definition validate_filter :: "list_filter \<Rightarrow> field_errors + list_filter" where
  "validate_filter f =
     (case (f_from f, f_to f) of
        (Some lo, Some hi) \<Rightarrow>
          if hi < lo then Inl [(''effective_scheduled_to'', [''End bound must be after or equal to the start bound.''])]
          else Inr f
      | _ \<Rightarrow> Inr f)"

definition notification_filter_needs_effective :: "list_filter \<Rightarrow> bool" where
  "notification_filter_needs_effective f \<longleftrightarrow>
     f_from f \<noteq> None \<or> f_to f \<noteq> None \<or> f_shift f \<noteq> None \<or> f_ordering f \<noteq> None"

definition apply_effective_schedule_filters :: "clock \<Rightarrow> db \<Rightarrow> list_filter \<Rightarrow> notification list \<Rightarrow> notification list" where
  "apply_effective_schedule_filters clk s f ns =
     (let eff = (if notification_filter_needs_effective f then compute_effective_scheduled_map clk s ns else (\<lambda>_. None));
          ns1 = (if f_from f \<noteq> None \<or> f_to f \<noteq> None
                 then filter_notifications_by_effective_range eff (f_from f) (f_to f) ns else ns);
          ns2 = (case f_shift f of None \<Rightarrow> ns1 | Some b \<Rightarrow> filter_notifications_by_shift_flag eff b ns1)
      in case f_ordering f of None \<Rightarrow> ns2 | Some ord \<Rightarrow> order_notifications_by_effective eff ord ns2)"

section \<open>Listings\<close>

definition owns :: "db \<Rightarrow> pk \<Rightarrow> notification \<Rightarrow> bool" where
  "owns s u n \<longleftrightarrow> owns_application s u (ntf_application n)"

definition newest_first :: "notification list \<Rightarrow> notification list" where
  "newest_first ns = rev (sort_key ntf_id ns)"

definition listing_response :: "clock \<Rightarrow> db \<Rightarrow> page_query \<Rightarrow> notification list \<Rightarrow> read_notification listing response" where
  "listing_response clk s q ns = paginate_queryset q (map (read_notification_of clk s True) ns)"

definition list_queryset :: "db \<Rightarrow> pk \<Rightarrow> list_filter \<Rightarrow> notification list" where
  "list_queryset s u f =
     newest_first (filter (\<lambda>n. is_visible n \<and> owns s u n \<and>
       (case f_application_id f of None \<Rightarrow> True | Some a \<Rightarrow> ntf_application n = a) \<and>
       (case f_device_id f of None \<Rightarrow> True | Some d \<Rightarrow>
          list_ex (\<lambda>e. dlv_notification e = ntf_id n \<and> dlv_device e = d) (deliveries s)) \<and>
       (case f_status f of None \<Rightarrow> True | Some st \<Rightarrow> ntf_status n = st)) (notifications s))"

definition filtered :: "clock \<Rightarrow> db \<Rightarrow> list_filter \<Rightarrow> notification list \<Rightarrow> notification list" where
  "filtered clk s f ns =
     (if notification_filter_needs_effective f then apply_effective_schedule_filters clk s f ns else ns)"

definition notification_list :: "clock \<Rightarrow> db \<Rightarrow> pk \<Rightarrow> list_filter \<Rightarrow> page_query \<Rightarrow> read_notification listing response" where
  "notification_list clk s u f q =
     (case validate_filter f of
        Inl e \<Rightarrow> Invalid e
      | Inr g \<Rightarrow> listing_response clk s q (filtered clk s g (list_queryset s u g)))"

text \<open>With an application token: the notifications of that application, filtered by status and date.\<close>

definition notification_list_with_app_token ::
    "clock \<Rightarrow> db \<Rightarrow> pk \<Rightarrow> list_filter \<Rightarrow> page_ref option \<Rightarrow> read_notification listing response" where
  "notification_list_with_app_token clk s app f p =
     (case validate_filter f of
        Inl e \<Rightarrow> Invalid e
      | Inr g \<Rightarrow> page_of page_size p (map (read_notification_of clk s True)
          (filtered clk s g (newest_first (filter (\<lambda>n. is_visible n \<and> ntf_application n = app \<and>
             (case f_status g of None \<Rightarrow> True | Some st \<Rightarrow> ntf_status n = st)) (notifications s))))))"

definition future_of :: "db \<Rightarrow> pk \<Rightarrow> instant \<Rightarrow> notification \<Rightarrow> bool" where
  "future_of s u now n \<longleftrightarrow> owns s u n \<and> ntf_status n = Scheduled \<and>
     (case scheduled_for n of None \<Rightarrow> False | Some t \<Rightarrow> now < t)"

definition notification_future_list ::
    "clock \<Rightarrow> db \<Rightarrow> pk \<Rightarrow> instant \<Rightarrow> list_filter \<Rightarrow> page_query \<Rightarrow> read_notification listing response" where
  "notification_future_list clk s u now f q =
     (case validate_filter f of
        Inl e \<Rightarrow> Invalid e
      | Inr g \<Rightarrow> listing_response clk s q (filtered clk s g
          (sort_key (\<lambda>n. the (scheduled_for n)) (sort_key ntf_id (filter (future_of s u now) (notifications s))))))"

definition notification_stats :: "db \<Rightarrow> pk \<Rightarrow> pk option \<Rightarrow> notification_status \<Rightarrow> nat" where
  "notification_stats s u app st = count_where (\<lambda>n. owns s u n \<and> ntf_status n = st \<and>
     (case app of None \<Rightarrow> True | Some a \<Rightarrow> ntf_application n = a)) (notifications s)"

section \<open>One notification\<close>

record delivery_view =
  dw_device_id :: pk
  dw_device_name :: string
  dw_status :: delivery_status
  dw_sent_at :: "instant option"
  dw_delivered_at :: "instant option"
  dw_opened_at :: "instant option"
  dw_attempt_count :: nat

definition delivery_view_of :: "db \<Rightarrow> delivery \<Rightarrow> delivery_view" where
  "delivery_view_of s d = \<lparr>dw_device_id = dlv_device d,
     dw_device_name = (case get_device s (dlv_device d) of None \<Rightarrow> [] | Some v \<Rightarrow> device_name v),
     dw_status = dlv_status d, dw_sent_at = dlv_sent_at d, dw_delivered_at = delivered_at d,
     dw_opened_at = opened_at d, dw_attempt_count = attempt_count d\<rparr>"

definition device_of_user :: "db \<Rightarrow> pk \<Rightarrow> pk \<Rightarrow> bool" where
  "device_of_user s u dev \<longleftrightarrow> list_ex (\<lambda>v. dev_id v = dev \<and> dev_user v = Some u) (devices s)"

text \<open>
  \<open>get_object\<close>: the owner's queryset first, with every delivery; then the recipient's, with the
  deliveries to the caller's own devices.
\<close>

definition detail_object :: "db \<Rightarrow> pk \<Rightarrow> pk \<Rightarrow> (notification \<times> delivery list) option" where
  "detail_object s u i =
     (case List.find (\<lambda>n. ntf_id n = i \<and> is_visible n \<and> owns s u n) (notifications s) of
        Some n \<Rightarrow> Some (n, deliveries_of s i)
      | None \<Rightarrow>
          (let own = filter (\<lambda>d. device_of_user s u (dlv_device d)) (deliveries_of s i) in
           case List.find (\<lambda>n. ntf_id n = i \<and> is_visible n \<and> own \<noteq> []) (notifications s) of
             Some n \<Rightarrow> Some (n, own)
           | None \<Rightarrow> None))"

definition notification_detail :: "clock \<Rightarrow> db \<Rightarrow> pk \<Rightarrow> pk \<Rightarrow> (read_notification \<times> delivery_view list) response" where
  "notification_detail clk s u i =
     (case detail_object s u i of
        None \<Rightarrow> Refuse 404 ''notification_not_found''
      | Some (n, ds) \<Rightarrow> Reply 200 (read_fields clk s True ds n, map (delivery_view_of s) (sort_key dlv_device ds)))"

definition pending_statuses :: "notification_status list" where
  "pending_statuses = [Scheduled, Queued, Processing]"

text \<open>\<open>destroy\<close>: one conditional update hides the row.\<close>

definition notification_destroy :: "pk \<Rightarrow> pk \<Rightarrow> db \<Rightarrow> db \<times> unit response" where
  "notification_destroy u i s =
     (let mine = (\<lambda>n. ntf_id n = i \<and> is_visible n \<and> owns s u n);
          hit = (\<lambda>n. mine n \<and> ntf_status n \<notin> set pending_statuses)
      in if count_where hit (notifications s) \<noteq> 0
         then (put_notifications hit (\<lambda>n. n\<lparr>is_visible := False\<rparr>) s, Reply 204 ())
         else if exists_where mine (notifications s) then (s, Refuse 409 ''notification_pending'')
         else (s, Refuse 404 ''notification_not_found''))"

section \<open>Future notifications\<close>

definition future_object :: "db \<Rightarrow> pk \<Rightarrow> instant \<Rightarrow> pk \<Rightarrow> notification option" where
  "future_object s u now i = List.find (\<lambda>n. ntf_id n = i \<and> future_of s u now n) (notifications s)"

definition future_update :: "clock \<Rightarrow> instant \<Rightarrow> pk \<Rightarrow> pk \<Rightarrow> attrs \<Rightarrow> db \<Rightarrow> db \<times> read_notification response" where
  "future_update clk now u i a s =
     (case future_object s u now i of
        None \<Rightarrow> (s, Refuse 404 ''notification_future_not_found'')
      | Some n \<Rightarrow>
          (case base_fields now a of
             Inl e \<Rightarrow> (s, Invalid e)
           | Inr b \<Rightarrow>
               (case update_future b n of
                  Inl e \<Rightarrow> (s, Invalid e)
                | Inr m \<Rightarrow>
                    (let s1 = save_future m s in
                     case get_notification s1 i of
                       None \<Rightarrow> (s1, Refuse 500 ''internal_error'')
                     | Some r \<Rightarrow> (s1, Reply 200 (read_notification_of clk s1 True r))))))"

definition future_delete :: "instant \<Rightarrow> pk \<Rightarrow> pk \<Rightarrow> db \<Rightarrow> db \<times> unit response" where
  "future_delete now u i s =
     (case future_object s u now i of
        None \<Rightarrow> (s, Refuse 404 ''notification_future_not_found'')
      | Some n \<Rightarrow> (delete_notifications (\<lambda>m. ntf_id m = i) s, Reply 204 ()))"

section \<open>The recipient's inbox\<close>

definition max_inbox_rows :: nat where "max_inbox_rows = 200"

text \<open>\<open>sent_since\<close>: absent or blank, unreadable, or an instant.\<close>

datatype since = No_Bound | Bad_Bound | Since instant

definition device_with_token :: "db \<Rightarrow> pk \<Rightarrow> string \<Rightarrow> device option" where
  "device_with_token s u tok = List.find (\<lambda>v. dev_user v = Some u \<and> push_token v = tok) (rev (sort_key dev_id (devices s)))"

definition notifications_for_device :: "clock \<Rightarrow> db \<Rightarrow> pk \<Rightarrow> string \<Rightarrow> since \<Rightarrow> read_notification list response" where
  "notifications_for_device clk s u tok sent_since =
     (if strip tok = [] then Reply 200 []
      else case device_with_token s u (strip tok) of
        None \<Rightarrow> Reply 200 []
      | Some v \<Rightarrow>
          (let ns = newest_first (filter (\<lambda>n. is_visible n \<and>
                 list_ex (\<lambda>d. dlv_notification d = ntf_id n \<and> dlv_device d = dev_id v) (deliveries s)) (notifications s))
           in case sent_since of
             Bad_Bound \<Rightarrow> Invalid [(''sent_since'', [''Invalid datetime; expected ISO 8601.''])]
           | No_Bound \<Rightarrow> Reply 200 (map (read_notification_of clk s True) (take max_inbox_rows ns))
           | Since t \<Rightarrow> Reply 200 (map (read_notification_of clk s True) (take max_inbox_rows
               (filter (\<lambda>n. case ntf_sent_at n of None \<Rightarrow> False | Some x \<Rightarrow> t \<le> x) ns)))))"

text \<open>\<open>NotificationOpenedReceiptApiView.post\<close>: only the empty receipts are filled.\<close>

definition opened_receipt :: "instant \<Rightarrow> pk \<Rightarrow> pk \<Rightarrow> string \<Rightarrow> db \<Rightarrow> db \<times> instant response" where
  "opened_receipt now u i tok s =
     (if strip tok = [] then (s, Refuse 400 ''validation_error'')
      else case device_with_token s u (strip tok) of
        None \<Rightarrow> (s, Refuse 404 ''device_not_found'')
      | Some v \<Rightarrow>
          (case List.find (\<lambda>d. dlv_notification d = i \<and> dlv_device d = dev_id v) (deliveries s) of
             None \<Rightarrow> (s, Refuse 404 ''delivery_not_found'')
           | Some d \<Rightarrow>
               (let e = (case opened_at d of None \<Rightarrow> now | Some t \<Rightarrow> t);
                    f = (\<lambda>r. r\<lparr>opened_at := (if opened_at d = None then Some now else opened_at r),
                               delivered_at := (if delivered_at d = None then Some now else delivered_at r)\<rparr>)
                in (if opened_at d = None \<or> delivered_at d = None then put_deliveries (\<lambda>r. dlv_id r = dlv_id d) f s else s,
                    Reply 200 e))))"

lemma map_sort_key: "map f (sort_key f xs) = sort (map f xs)"
  by (rule properties_for_sort[symmetric]) simp_all

lemma find_map: "List.find P (map f xs) = map_option f (List.find (P \<circ> f) xs)"
  by (induction xs) auto

lemma newest_first_ids: "map ntf_id (newest_first ns) = rev (sort (map ntf_id ns))"
  by (simp add: newest_first_def map_sort_key flip: rev_map)

lemma sort_key_empty [simp]: "sort_key f xs = [] \<longleftrightarrow> xs = []"
  by (metis length_0_conv length_sort)

lemma newest_first_sorted:
  assumes "distinct (map ntf_id ns)"
  shows "sorted_wrt (\<lambda>x y. ntf_id y < ntf_id x) (newest_first ns)"
proof -
  have "sorted_wrt (<) (sort (map ntf_id ns))" using assms by (simp add: strict_sorted_iff)
  then have "sorted_wrt (\<lambda>x y. y < x) (map ntf_id (newest_first ns))"
    unfolding newest_first_ids sorted_wrt_rev .
  then show ?thesis by (simp add: sorted_wrt_map)
qed

section \<open>Readers see no more than they should\<close>

lemma detail_object_cases:
  assumes "detail_object s u i = Some (n, ds)"
  obtains (owner) "n \<in> set (notifications s)" "ntf_id n = i" "is_visible n" "owns s u n" "ds = deliveries_of s i"
  | (recipient) "n \<in> set (notifications s)" "ntf_id n = i" "is_visible n" "\<not> owns s u n"
      "ds = filter (\<lambda>d. device_of_user s u (dlv_device d)) (deliveries_of s i)" "ds \<noteq> []"
proof (cases "List.find (\<lambda>n. ntf_id n = i \<and> is_visible n \<and> owns s u n) (notifications s)")
  case (Some m)
  then have "m = n" "ds = deliveries_of s i" using assms by (simp_all add: detail_object_def)
  with Some owner show ?thesis by (auto dest!: find_SomeD)
next
  case None
  let ?own = "filter (\<lambda>d. device_of_user s u (dlv_device d)) (deliveries_of s i)"
  have f: "List.find (\<lambda>n. ntf_id n = i \<and> is_visible n \<and> ?own \<noteq> []) (notifications s) = Some n" "ds = ?own"
    using assms None by (auto simp: detail_object_def Let_def split: option.splits)
  have n: "n \<in> set (notifications s)" "ntf_id n = i" "is_visible n" "?own \<noteq> []" using find_SomeD[OF f(1)] by auto
  moreover have "\<not> owns s u n" using None n by (auto simp: find_None_iff)
  ultimately show ?thesis using recipient f(2) by simp
qed

text \<open>
  C27. The detail of a notification is given only to the owner of its application and to users one
  of whose own devices received it, never once it is hidden; a user who does not own the
  application sees the deliveries to their own devices alone, and no other recipient.
\<close>

theorem detail_leaks_no_other_recipient:
  assumes "notification_detail clk s u i = Reply 200 (r, views)"
  shows "\<exists>n \<in> set (notifications s). ntf_id n = i \<and> is_visible n \<and> rn_id r = i \<and>
    rn_device_ids r = map dw_device_id views \<and> sorted (rn_device_ids r) \<and>
    (if owns s u n
     then mset (rn_device_ids r) = image_mset dlv_device (mset (filter (\<lambda>d. dlv_notification d = i) (deliveries s)))
     else views \<noteq> [] \<and> list_all (\<lambda>w. device_of_user s u (dw_device_id w)) views)"
proof -
  from assms obtain n ds where o: "detail_object s u i = Some (n, ds)"
    and r: "r = read_fields clk s True ds n" "views = map (delivery_view_of s) (sort_key dlv_device ds)"
    by (auto simp: notification_detail_def split: option.splits)
  have "map dw_device_id (map (delivery_view_of s) ds') = map dlv_device ds'" for ds'
    by (simp add: delivery_view_of_def)
  then have ids: "rn_device_ids r = map dw_device_id views"
    unfolding r by (simp add: read_fields_def map_sort_key del: map_map)
  have sorted: "sorted (rn_device_ids r)" by (simp add: r read_fields_def)
  have eq: "rn_id r = ntf_id n" "rn_device_ids r = sort (map dlv_device ds)" by (simp_all add: r read_fields_def)
  from o show ?thesis
  proof (cases rule: detail_object_cases)
    case owner
    have "mset (rn_device_ids r) = image_mset dlv_device (mset (filter (\<lambda>d. dlv_notification d = i) (deliveries s)))"
      unfolding eq(2) owner(5) by (simp add: deliveries_of_def)
    then show ?thesis using owner eq(1) ids sorted by auto
  next
    case recipient
    have "list_all (\<lambda>w. device_of_user s u (dw_device_id w)) views" "views \<noteq> []"
      unfolding r(2) using recipient(5,6) by (auto simp: list_all_iff delivery_view_of_def)
    then show ?thesis using recipient eq(1) ids sorted by auto
  qed
qed

text \<open>
  Deleting hides a notification of the caller that is not waiting to be sent, and nothing else
  changes; a waiting one is refused with 409, and 404 is answered exactly when the caller owns no
  visible notification with this key.
\<close>

theorem destroy_hides_settled_notifications:
  assumes "keys_ok s" and "notification_destroy u i s = (s', r)"
  shows "(case List.find (\<lambda>n. ntf_id n = i \<and> is_visible n \<and> owns s u n) (notifications s) of
      None \<Rightarrow> r = Refuse 404 ''notification_not_found'' \<and> s' = s
    | Some n \<Rightarrow>
        if ntf_status n \<in> {Scheduled, Queued, Processing} then r = Refuse 409 ''notification_pending'' \<and> s' = s
        else r = Reply 204 () \<and>
          s' = s\<lparr>notifications := map (\<lambda>m. if m = n then m\<lparr>is_visible := False\<rparr> else m) (notifications s)\<rparr>)"
proof (cases "List.find (\<lambda>n. ntf_id n = i \<and> is_visible n \<and> owns s u n) (notifications s)")
  case None
  then have "\<forall>n \<in> set (notifications s). \<not> (ntf_id n = i \<and> is_visible n \<and> owns s u n)" by (simp add: find_None_iff)
  then have "\<not> exists_where (\<lambda>n. ntf_id n = i \<and> is_visible n \<and> owns s u n) (notifications s)"
    "filter (\<lambda>n. (ntf_id n = i \<and> is_visible n \<and> owns s u n) \<and> ntf_status n \<notin> set pending_statuses) (notifications s) = []"
    by (auto simp: exists_where_def list_ex_iff filter_empty_conv)
  then show ?thesis using assms(2) None by (simp add: notification_destroy_def Let_def count_where_def)
next
  case (Some n)
  then have n: "n \<in> set (notifications s)" "ntf_id n = i" "is_visible n" "owns s u n" by (auto dest: find_SomeD)
  have one: "m \<in> set (notifications s) \<Longrightarrow> ntf_id m = i \<longleftrightarrow> m = n" for m
    using assms(1) n by (auto simp: keys_ok_def distinct_map inj_on_def)
  have ex: "exists_where (\<lambda>n. ntf_id n = i \<and> is_visible n \<and> owns s u n) (notifications s)"
    using n by (auto simp: exists_where_def list_ex_iff)
  have hit: "filter (\<lambda>n. (ntf_id n = i \<and> is_visible n \<and> owns s u n) \<and> ntf_status n \<notin> set pending_statuses) (notifications s) \<noteq> []
      \<longleftrightarrow> ntf_status n \<notin> {Scheduled, Queued, Processing}"
    using one n by (auto simp: filter_empty_conv pending_statuses_def)
  have upd: "update_where (\<lambda>n. (ntf_id n = i \<and> is_visible n \<and> owns s u n) \<and> ntf_status n \<notin> set pending_statuses)
      (\<lambda>n. n\<lparr>is_visible := False\<rparr>) (notifications s) =
      map (\<lambda>m. if m = n then m\<lparr>is_visible := False\<rparr> else m) (notifications s)"
    if "ntf_status n \<notin> {Scheduled, Queued, Processing}"
    unfolding update_where_def using one n that by (intro map_cong) (auto simp: pending_statuses_def)
  show ?thesis
  proof (cases "ntf_status n \<in> {Scheduled, Queued, Processing}")
    case True
    then show ?thesis using Some assms(2) ex hit by (auto simp: notification_destroy_def Let_def count_where_def)
  next
    case False
    then show ?thesis using Some assms(2) ex hit upd
      by (auto simp: notification_destroy_def Let_def count_where_def put_notifications_def)
  qed
qed

text \<open>
  The inbox of a device returns at most 200 notifications, newest first, all visible, all
  delivered to that device, and none to a caller who does not own the device.
\<close>

theorem inbox_is_bounded_and_own:
  assumes "notifications_for_device clk s u tok b = Reply 200 rs" and "distinct (map ntf_id (notifications s))"
  shows "length rs \<le> 200 \<and> sorted_wrt (\<lambda>x y. rn_id y < rn_id x) rs \<and>
    list_all (\<lambda>x. \<exists>v \<in> set (devices s). dev_user v = Some u \<and> push_token v = strip tok \<and> dev_id v \<in> set (rn_device_ids x) \<and>
      (\<exists>n \<in> set (notifications s). ntf_id n = rn_id x \<and> is_visible n)) rs"
proof -
  consider "rs = []" | (dev) v ns where "device_with_token s u (strip tok) = Some v"
    "rs = map (read_notification_of clk s True) (take max_inbox_rows ns)"
    "ns = newest_first (filter (\<lambda>n. is_visible n \<and>
       list_ex (\<lambda>d. dlv_notification d = ntf_id n \<and> dlv_device d = dev_id v) (deliveries s)) (notifications s)) \<or>
     (\<exists>P. ns = filter P (newest_first (filter (\<lambda>n. is_visible n \<and>
       list_ex (\<lambda>d. dlv_notification d = ntf_id n \<and> dlv_device d = dev_id v) (deliveries s)) (notifications s))))"
    using assms(1) by (auto simp: notifications_for_device_def Let_def split: if_splits option.splits since.splits)
  then show ?thesis
  proof cases
    case 1
    then show ?thesis by simp
  next
    case dev
    let ?all = "newest_first (filter (\<lambda>n. is_visible n \<and>
       list_ex (\<lambda>d. dlv_notification d = ntf_id n \<and> dlv_device d = dev_id v) (deliveries s)) (notifications s))"
    from dev(3) have "\<exists>P. ns = filter P ?all"
    proof
      assume "ns = ?all"
      then show ?thesis by (intro exI[of _ "\<lambda>_. True"]) simp
    qed
    then obtain P where P: "ns = filter P ?all" by (rule exE)
    have "sorted_wrt (\<lambda>x y. ntf_id y < ntf_id x) ?all"
      using assms(2) by (intro newest_first_sorted) (simp add: distinct_map_filter)
    then have "sorted_wrt (\<lambda>x y. ntf_id y < ntf_id x) (take max_inbox_rows ns)"
      unfolding P by (intro sorted_wrt_take sorted_wrt_filter)
    then have srt: "sorted_wrt (\<lambda>x y. rn_id y < rn_id x) rs"
      unfolding dev(2) by (simp add: sorted_wrt_map read_notification_of_def read_fields_def)
    have v: "v \<in> set (devices s)" "dev_user v = Some u" "push_token v = strip tok"
      using dev(1) by (auto simp: device_with_token_def dest: find_SomeD)
    have "list_all (\<lambda>x. \<exists>v \<in> set (devices s). dev_user v = Some u \<and> push_token v = strip tok \<and> dev_id v \<in> set (rn_device_ids x) \<and>
      (\<exists>n \<in> set (notifications s). ntf_id n = rn_id x \<and> is_visible n)) rs"
    proof (unfold list_all_iff, intro ballI)
      fix x assume "x \<in> set rs"
      then obtain n where n: "n \<in> set ?all" "x = read_notification_of clk s True n"
        unfolding dev(2) P by (auto dest!: in_set_takeD)
      then have "n \<in> set (notifications s)" "is_visible n" "dev_id v \<in> set (rn_device_ids x)" "rn_id x = ntf_id n"
        by (auto simp: newest_first_def list_ex_iff read_notification_of_def read_fields_def set_deliveries_of
            intro: rev_image_eqI)
      then show "\<exists>v \<in> set (devices s). dev_user v = Some u \<and> push_token v = strip tok \<and> dev_id v \<in> set (rn_device_ids x) \<and>
        (\<exists>n \<in> set (notifications s). ntf_id n = rn_id x \<and> is_visible n)"
        using v by (intro bexI[of _ v] conjI bexI[of _ n]) simp_all
    qed
    moreover have "length rs \<le> 200" unfolding dev(2) by (simp add: max_inbox_rows_def)
    ultimately show ?thesis using srt by blast
  qed
qed

section \<open>Receipts\<close>

text \<open>Opening implies delivery.\<close>

definition receipts_ok :: "db \<Rightarrow> bool" where
  "receipts_ok s \<longleftrightarrow> list_all (\<lambda>d. opened_at d \<noteq> None \<longrightarrow> delivered_at d \<noteq> None) (deliveries s)"

text \<open>
  A receipt is written once: reporting an opening again, at any later time, answers with the
  first date and changes nothing; an opened delivery counts as delivered; and no other delivery,
  and no other column, is touched.
\<close>

theorem opened_receipt_is_written_once:
  assumes "deliveries_ok s" and "opened_receipt now u i tok s = (s1, Reply 200 t)"
  shows "opened_receipt later u i tok s1 = (s1, Reply 200 t) \<and>
    (\<exists>d \<in> set (deliveries s). dlv_notification d = i \<and> device_of_user s u (dlv_device d) \<and>
      s1 = s\<lparr>deliveries := map (\<lambda>e. if e = d then e\<lparr>opened_at := Some t,
        delivered_at := (if delivered_at d = None then Some now else delivered_at d)\<rparr> else e) (deliveries s)\<rparr> \<and>
      (opened_at d = None \<or> opened_at d = Some t))"
proof -
  from assms(2) obtain v d where tok: "strip tok \<noteq> []" and v: "device_with_token s u (strip tok) = Some v"
    and d: "List.find (\<lambda>d. dlv_notification d = i \<and> dlv_device d = dev_id v) (deliveries s) = Some d"
    and t: "t = (case opened_at d of None \<Rightarrow> now | Some t \<Rightarrow> t)"
    and s1: "s1 = (if opened_at d = None \<or> delivered_at d = None then put_deliveries (\<lambda>r. dlv_id r = dlv_id d)
        (\<lambda>r. r\<lparr>opened_at := (if opened_at d = None then Some now else opened_at r),
               delivered_at := (if delivered_at d = None then Some now else delivered_at r)\<rparr>) s else s)"
    by (auto simp: opened_receipt_def Let_def split: if_splits option.splits)
  have dd: "d \<in> set (deliveries s)" "dlv_notification d = i" "dlv_device d = dev_id v" using d by (auto dest: find_SomeD)
  have one: "e \<in> set (deliveries s) \<Longrightarrow> dlv_id e = dlv_id d \<longleftrightarrow> e = d" for e
    using assms(1) dd by (auto simp: deliveries_ok_def distinct_map inj_on_def)
  let ?g = "\<lambda>e. if e = d then e\<lparr>opened_at := Some t, delivered_at := (if delivered_at d = None then Some now else delivered_at d)\<rparr> else e"
  have rows: "deliveries s1 = map ?g (deliveries s)"
  proof (cases "opened_at d = None \<or> delivered_at d = None")
    case True
    then show ?thesis unfolding s1 using one t
      by (auto simp: put_deliveries_def update_where_def split: option.splits)
  next
    case False
    then have "?g e = e" for e using t by auto
    then show ?thesis using s1 False by (simp add: map_idI)
  qed
  have s1': "s1 = s\<lparr>deliveries := map ?g (deliveries s)\<rparr>"
    using rows s1 by (auto simp: put_deliveries_def)
  have usr: "device_of_user s u (dlv_device d)"
    using v dd(3) by (auto simp: device_with_token_def device_of_user_def list_ex_iff dest!: find_SomeD)
  have dev1: "device_with_token s1 u (strip tok) = Some v" using v by (simp add: s1' device_with_token_def)
  have "List.find (\<lambda>d. dlv_notification d = i \<and> dlv_device d = dev_id v) (deliveries s1) = Some (?g d)"
  proof -
    have "(\<lambda>d. dlv_notification d = i \<and> dlv_device d = dev_id v) \<circ> ?g = (\<lambda>d. dlv_notification d = i \<and> dlv_device d = dev_id v)"
      by (auto simp: fun_eq_iff)
    then show ?thesis using d unfolding rows by (simp add: find_map)
  qed
  then have "opened_receipt later u i tok s1 = (s1, Reply 200 t)"
    using tok dev1 by (cases "delivered_at d") (simp_all add: opened_receipt_def Let_def)
  moreover have "opened_at d = None \<or> opened_at d = Some t" using t by (auto split: option.splits)
  ultimately show ?thesis using dd usr s1' by blast
qed

section \<open>Concrete readers\<close>

text \<open>The second device belongs to user 2, a recipient who does not own the application.\<close>

definition inbox_db :: db where
  "inbox_db = demo_db\<lparr>devices := [blank_device, blank_device\<lparr>dev_id := 2, dev_user := Some 2, push_token := ''tok2''\<rparr>],
     notifications := [blank_notification\<lparr>ntf_status := Sent, ntf_sent_at := Some 5\<rparr>,
       blank_notification\<lparr>ntf_id := 2\<rparr>]\<rparr>"

definition inbox_detail :: "(read_notification \<times> delivery_view list) response" where
  "inbox_detail = notification_detail utc inbox_db 2 1"

theorem detail_leaks_no_other_recipient_witness:
  "\<exists>r views. inbox_detail = Reply 200 (r, views) \<and> rn_device_ids r = [2] \<and>
     list_all (\<lambda>w. device_of_user inbox_db 2 (dw_device_id w)) views"
proof -
  have "case inbox_detail of Reply k p \<Rightarrow> k = 200 \<and> rn_device_ids (fst p) = [2] | _ \<Rightarrow> False" by code_simp
  then have "\<exists>r views. inbox_detail = Reply 200 (r, views) \<and> rn_device_ids r = [2]"
    by (auto split: response.splits prod.splits)
  then obtain r views where rv: "inbox_detail = Reply 200 (r, views)" "rn_device_ids r = [2]" by blast
  have "n \<in> set (notifications inbox_db) \<Longrightarrow> \<not> owns inbox_db 2 n" for n
  proof -
    have "list_all (\<lambda>n. \<not> owns inbox_db 2 n) (notifications inbox_db)" by code_simp
    then show "n \<in> set (notifications inbox_db) \<Longrightarrow> \<not> owns inbox_db 2 n" by (simp add: list_all_iff)
  qed
  then show ?thesis
    using detail_leaks_no_other_recipient[OF rv(1)[unfolded inbox_detail_def]] rv by auto
qed

lemma inbox_keys: "keys_ok inbox_db" "deliveries_ok inbox_db"
  by code_simp+

theorem destroy_hides_settled_notifications_witness:
  "snd (notification_destroy 1 1 inbox_db) = Reply 204 () \<and>
   map is_visible (notifications (fst (notification_destroy 1 1 inbox_db))) = [False, True] \<and>
   snd (notification_destroy 1 2 inbox_db) = Refuse 409 ''notification_pending''"
proof -
  have f: "List.find (\<lambda>n. ntf_id n = 1 \<and> is_visible n \<and> owns inbox_db 1 n) (notifications inbox_db) = Some (hd (notifications inbox_db))"
    "List.find (\<lambda>n. ntf_id n = 2 \<and> is_visible n \<and> owns inbox_db 1 n) (notifications inbox_db) = Some (notifications inbox_db ! 1)"
    "ntf_status (hd (notifications inbox_db)) = Sent" "ntf_status (notifications inbox_db ! 1) = Queued"
    "map (\<lambda>m. if m = hd (notifications inbox_db) then False else is_visible m) (notifications inbox_db) = [False, True]"
    by code_simp+
  then have v: "map is_visible (map (\<lambda>m. if m = hd (notifications inbox_db) then m\<lparr>is_visible := False\<rparr> else m) (notifications inbox_db)) = [False, True]"
    by (simp add: comp_def if_distrib cong: if_cong)
  show ?thesis
    using destroy_hides_settled_notifications[OF inbox_keys(1) surjective_pairing, of 1 1]
      destroy_hides_settled_notifications[OF inbox_keys(1) surjective_pairing, of 1 2] f(1-4) v by simp
qed

theorem inbox_is_bounded_and_own_witness:
  "\<exists>rs. notifications_for_device utc inbox_db 2 '' tok2 '' No_Bound = Reply 200 rs \<and> length rs = 1 \<and> length rs \<le> 200"
proof -
  have "case notifications_for_device utc inbox_db 2 '' tok2 '' No_Bound of Reply k rs \<Rightarrow> k = 200 \<and> length rs = 1 | _ \<Rightarrow> False"
    by code_simp
  then obtain rs where rs: "notifications_for_device utc inbox_db 2 '' tok2 '' No_Bound = Reply 200 rs" "length rs = 1"
    by (cases "notifications_for_device utc inbox_db 2 '' tok2 '' No_Bound") auto
  then show ?thesis using inbox_is_bounded_and_own[OF rs(1)] inbox_keys(1) by (simp add: keys_ok_def)
qed

theorem opened_receipt_is_written_once_witness:
  "snd (opened_receipt 9 2 1 ''tok2'' (fst (opened_receipt 7 2 1 ''tok2'' inbox_db))) = Reply 200 7"
proof -
  have "opened_receipt 7 2 1 ''tok2'' inbox_db = (fst (opened_receipt 7 2 1 ''tok2'' inbox_db), Reply 200 7)"
    by (simp add: prod_eq_iff) code_simp
  from opened_receipt_is_written_once[OF inbox_keys(2) this, of 9] show ?thesis by simp
qed

end
