(* ===== verification/Queueing.thy ===== *)
theory Queueing
  imports Reading
begin

text \<open>
  Handing notifications to the workers: \<open>_try_queue_notification\<close>, the single, immediate and bulk
  sends of \<open>notifications/api_views.py\<close>, and their counterparts with an application token in
  \<open>notifications/api_views_app_token.py\<close>.
\<close>

section \<open>Queueing one notification\<close>

definition allowed_statuses_to_queue :: "notification_status list" where
  "allowed_statuses_to_queue = [Draft, Failed, Partial, Scheduled]"

text \<open>The world during a request: the time, and whether the update or the broker fails.\<close>

record queue_env =
  qe_now :: instant
  update_fails :: bool
  broker_fails :: bool

datatype queue_result = Queued_As pk | Queue_Refused pk string

text \<open>
  \<open>_try_queue_notification\<close>: \<open>n\<close> is the object in memory, read earlier, with its application's
  flag; \<open>s\<close> the database at the time of the update; \<open>mine\<close> the optional owner filter. The object
  comes back as the code leaves it in memory.
\<close>

definition try_queue_notification ::
    "queue_env \<Rightarrow> bool \<Rightarrow> (notification \<Rightarrow> bool) \<Rightarrow> notification \<Rightarrow> db \<Rightarrow> db \<times> notification \<times> queue_result" where
  "try_queue_notification env application_active mine n s =
     (let i = ntf_id n; not_sendable = (s, n, Queue_Refused i ''notification_not_sendable'') in
      if \<not> application_active then (s, n, Queue_Refused i ''application_inactive'')
      else if ntf_status n = Scheduled \<and> (case scheduled_for n of None \<Rightarrow> False | Some t \<Rightarrow> qe_now env < t)
      then not_sendable
      else if ntf_status n \<notin> set allowed_statuses_to_queue then not_sendable
      else if update_fails env then not_sendable
      else let previous = ntf_status n;
               hit = (\<lambda>r. ntf_id r = i \<and> ntf_status r = previous \<and> mine r) in
        if count_where hit (notifications s) = 0
        then (case get_notification s i of
                None \<Rightarrow> (s, n, Queue_Refused i ''notification_not_found'')
              | Some _ \<Rightarrow> not_sendable)
        else let s1 = put_notifications hit (\<lambda>r. r\<lparr>ntf_status := Queued\<rparr>) s;
                 n1 = n\<lparr>ntf_status := Queued\<rparr> in
          if broker_fails env
          then (put_notifications (\<lambda>r. ntf_id r = i \<and> ntf_status r = Queued) (\<lambda>r. r\<lparr>ntf_status := previous\<rparr>) s1,
                n1, Queue_Refused i ''notification_queue_unavailable'')
          else (submit (Send_Notification i) s1, n1, Queued_As i))"

definition queue_error_status :: "string \<Rightarrow> nat" where
  "queue_error_status code =
     (if code = ''notification_queue_unavailable'' then 503
      else if code = ''application_inactive'' then 400 else 409)"

definition application_active :: "db \<Rightarrow> notification \<Rightarrow> bool" where
  "application_active s n = (case get_application s (ntf_application n) of None \<Rightarrow> False | Some a \<Rightarrow> app_is_active a)"

text \<open>The owner filter is part of the update only where the fetch took no row lock.\<close>

definition owner_guard :: "config \<Rightarrow> (notification \<Rightarrow> bool) \<Rightarrow> notification \<Rightarrow> bool" where
  "owner_guard cfg mine = (if db_supports_row_locking cfg then (\<lambda>_. True) else mine)"

definition fetch_notification :: "db \<Rightarrow> (notification \<Rightarrow> bool) \<Rightarrow> pk \<Rightarrow> notification option" where
  "fetch_notification s mine i = List.find (\<lambda>n. ntf_id n = i \<and> is_visible n \<and> mine n) (notifications s)"

section \<open>Sending from the console\<close>

definition notification_send :: "config \<Rightarrow> queue_env \<Rightarrow> user \<Rightarrow> pk \<Rightarrow> db \<Rightarrow> db \<times> queue_result response" where
  "notification_send cfg env u i s =
     (case subscription_required cfg s (qe_now env) u of
        Some r \<Rightarrow> (s, r)
      | None \<Rightarrow>
          (case fetch_notification s (owns s (user_id u)) i of
             None \<Rightarrow> (s, Refuse 404 ''notification_not_found'')
           | Some n \<Rightarrow>
               (case try_queue_notification env (application_active s n) (owner_guard cfg (owns s (user_id u))) n s of
                  (s1, _, Queued_As k) \<Rightarrow> (s1, Reply 202 (Queued_As k))
                | (s1, _, Queue_Refused k c) \<Rightarrow> (s1, Refuse (queue_error_status c) c))))"

definition notification_create :: "config \<Rightarrow> clock \<Rightarrow> instant \<Rightarrow> user \<Rightarrow> create_request \<Rightarrow> db \<Rightarrow> db \<times> read_notification response" where
  "notification_create cfg clk now u r s =
     (case subscription_required cfg s now u of
        Some e \<Rightarrow> (s, e)
      | None \<Rightarrow>
          (case validate_create s (user_id u) now r of
             Inl e \<Rightarrow> (s, Invalid e)
           | Inr v \<Rightarrow> (let (s1, n) = create_notification now v s in (s1, Reply 201 (read_notification_of clk s1 False n)))))"

definition notification_send_now ::
    "config \<Rightarrow> clock \<Rightarrow> queue_env \<Rightarrow> user \<Rightarrow> create_request \<Rightarrow> db \<Rightarrow> db \<times> read_notification response" where
  "notification_send_now cfg clk env u r s =
     (case subscription_required cfg s (qe_now env) u of
        Some e \<Rightarrow> (s, e)
      | None \<Rightarrow>
          (case validate_create s (user_id u) (qe_now env) r of
             Inl e \<Rightarrow> (s, Invalid e)
           | Inr v \<Rightarrow>
               if cv_scheduled_for v \<noteq> None then (s, Refuse 400 ''validation_error'')
               else (let (s1, n) = create_notification (qe_now env) v s in
                 case try_queue_notification env (app_is_active (cv_application v))
                        (owner_guard cfg (owns s1 (user_id u))) n s1 of
                   (s2, n2, Queued_As k) \<Rightarrow> (s2, Reply 202 (read_notification_of clk s2 False n2))
                 | (s2, n2, Queue_Refused k c) \<Rightarrow> (s2, Refuse (queue_error_status c) c))))"

section \<open>Sending in bulk\<close>

definition bulk_send_max_ids :: nat where "bulk_send_max_ids = 500"

definition validate_bulk :: "pk list \<Rightarrow> field_errors" where
  "validate_bulk ids =
     (if ids = [] then [(''notification_ids'', [''This list may not be empty.''])]
      else if bulk_send_max_ids < length ids then [(''notification_ids'', [''Ensure this field has no more than 500 elements.''])]
      else if 0 \<in> set ids then [(''notification_ids'', [''Ensure this value is greater than or equal to 1.''])]
      else [])"

record bulk_state =
  bs_db :: db
  bs_found :: "(notification \<times> bool) list"
  bs_queued :: "pk list"
  bs_errors :: "(pk \<times> string) list"

text \<open>
  One turn: the object in memory (with the flag of its application, read with it) is queued, and
  what the attempt made of it stays in memory for a later occurrence of the same id.
\<close>

definition bulk_one :: "queue_env \<Rightarrow> (notification \<Rightarrow> bool) \<Rightarrow> pk \<Rightarrow> bulk_state \<Rightarrow> bulk_state" where
  "bulk_one env mine i b =
     (case List.find (\<lambda>na. ntf_id (fst na) = i) (bs_found b) of
        None \<Rightarrow> b\<lparr>bs_errors := bs_errors b @ [(i, ''notification_not_found'')]\<rparr>
      | Some na \<Rightarrow>
          (case try_queue_notification env (snd na) mine (fst na) (bs_db b) of
             (s1, n1, r) \<Rightarrow>
               (let b1 = b\<lparr>bs_db := s1, bs_found := map (\<lambda>x. if ntf_id (fst x) = i then (n1, snd x) else x) (bs_found b)\<rparr> in
                case r of
                  Queued_As k \<Rightarrow> b1\<lparr>bs_queued := bs_queued b @ [k]\<rparr>
                | Queue_Refused k c \<Rightarrow> b1\<lparr>bs_errors := bs_errors b @ [(k, c)]\<rparr>)))"

definition bulk_send :: "queue_env \<Rightarrow> (notification \<Rightarrow> bool) \<Rightarrow> (notification \<Rightarrow> bool) \<Rightarrow> pk list \<Rightarrow> db \<Rightarrow> bulk_state" where
  "bulk_send env mine guard ids s =
     fold (bulk_one env guard) ids \<lparr>bs_db = s,
       bs_found = map (\<lambda>n. (n, application_active s n))
         (filter (\<lambda>n. is_visible n \<and> ntf_id n \<in> set ids \<and> mine n) (notifications s)),
       bs_queued = [], bs_errors = []\<rparr>"

definition bulk_response :: "bulk_state \<Rightarrow> db \<times> (pk list \<times> (pk \<times> string) list) response" where
  "bulk_response b = (bs_db b, Reply 200 (bs_queued b, bs_errors b))"

definition notification_bulk_send ::
    "config \<Rightarrow> queue_env \<Rightarrow> user \<Rightarrow> pk list \<Rightarrow> db \<Rightarrow> db \<times> (pk list \<times> (pk \<times> string) list) response" where
  "notification_bulk_send cfg env u ids s =
     (case subscription_required cfg s (qe_now env) u of
        Some r \<Rightarrow> (s, r)
      | None \<Rightarrow>
          if validate_bulk ids \<noteq> [] then (s, Invalid (validate_bulk ids))
          else bulk_response (bulk_send env (owns s (user_id u)) (owner_guard cfg (owns s (user_id u))) ids s))"

section \<open>With an application token\<close>

definition idempotency_key_max_length :: nat where "idempotency_key_max_length = 255"

definition of_application :: "application \<Rightarrow> notification \<Rightarrow> bool" where
  "of_application a n \<longleftrightarrow> ntf_application n = app_id a"

definition owner_gate :: "config \<Rightarrow> db \<Rightarrow> instant \<Rightarrow> application \<Rightarrow> 'a response option" where
  "owner_gate cfg s now a =
     (case get_user s (app_owner a) of None \<Rightarrow> Some (Refuse 500 ''internal_error'') | Some u \<Rightarrow> subscription_required cfg s now u)"

definition check_idempotency_key :: "string \<Rightarrow> 'a response option" where
  "check_idempotency_key key =
     (if key = [] then Some (Refuse 400 ''idempotency_key_missing'')
      else if idempotency_key_max_length < length key then Some (Refuse 400 ''idempotency_key_invalid'')
      else None)"

text \<open>
  \<open>fingerprint\<close> is \<open>compute_request_fingerprint\<close> (the hash of the canonical JSON of the validated
  data), \<open>header\<close> the \<open>Idempotency-Key\<close> header.
\<close>

definition date_of :: "attrs \<Rightarrow> instant option" where
  "date_of v = (case at_scheduled_for v of None \<Rightarrow> None | Some d \<Rightarrow> d)"

definition notification_create_with_app_token ::
    "config \<Rightarrow> clock \<Rightarrow> write_env \<Rightarrow> (attrs \<Rightarrow> string) \<Rightarrow> instant \<Rightarrow> application \<Rightarrow> attrs \<Rightarrow> string \<Rightarrow> db \<Rightarrow>
     db \<times> read_notification response" where
  "notification_create_with_app_token cfg clk we fingerprint now a r header s =
     (case owner_gate cfg s now a of
        Some e \<Rightarrow> (s, e)
      | None \<Rightarrow>
          (case validate_create_with_app_token s (app_id a) now r of
             Inl e \<Rightarrow> (s, Invalid e)
           | Inr v \<Rightarrow>
               (case check_idempotency_key (strip header) of
                  Some e \<Rightarrow> (s, e)
                | None \<Rightarrow>
                    (case create_notification_with_optional_idempotency we (app_id a) (the (at_title v)) (the (at_message v))
                            (date_of v) (strip header) (fingerprint v) now s of
                       (s1, Inl e) \<Rightarrow> (s1, Refuse 500 ''internal_error'')
                     | (s1, Inr out) \<Rightarrow>
                         if out_conflict out then (s1, Refuse 409 ''idempotency_conflict'')
                         else (s1, Reply (if out_created out then 201 else 200)
                                (read_notification_of clk s1 False (out_notification out)))))))"

definition notification_send_with_app_token ::
    "config \<Rightarrow> clock \<Rightarrow> write_env \<Rightarrow> queue_env \<Rightarrow> (attrs \<Rightarrow> string) \<Rightarrow> application \<Rightarrow> attrs \<Rightarrow> string \<Rightarrow> db \<Rightarrow>
     db \<times> read_notification response" where
  "notification_send_with_app_token cfg clk we env fingerprint a r header s =
     (case owner_gate cfg s (qe_now env) a of
        Some e \<Rightarrow> (s, e)
      | None \<Rightarrow>
          (case validate_create_with_app_token s (app_id a) (qe_now env) r of
             Inl e \<Rightarrow> (s, Invalid e)
           | Inr v \<Rightarrow>
               if date_of v \<noteq> None then (s, Refuse 400 ''validation_error'')
               else case check_idempotency_key (strip header) of
                  Some e \<Rightarrow> (s, e)
                | None \<Rightarrow>
                    (case create_notification_with_optional_idempotency we (app_id a) (the (at_title v)) (the (at_message v))
                            None (strip header) (fingerprint v) (qe_now env) s of
                       (s1, Inl e) \<Rightarrow> (s1, Refuse 500 ''internal_error'')
                     | (s1, Inr out) \<Rightarrow>
                         if out_conflict out then (s1, Refuse 409 ''idempotency_conflict'')
                         else (let (s2, n2) = (if out_created out
                                 then case try_queue_notification env (app_is_active a)
                                        (owner_guard cfg (of_application a)) (out_notification out) s1 of
                                      (s2, n2, _) \<Rightarrow> (s2, n2)
                                 else (s1, out_notification out))
                               in (s2, Reply (if out_created out then 201 else 200) (read_notification_of clk s2 False n2))))))"

definition notification_bulk_send_with_app_token ::
    "config \<Rightarrow> queue_env \<Rightarrow> application \<Rightarrow> pk list \<Rightarrow> db \<Rightarrow> db \<times> (pk list \<times> (pk \<times> string) list) response" where
  "notification_bulk_send_with_app_token cfg env a ids s =
     (case owner_gate cfg s (qe_now env) a of
        Some r \<Rightarrow> (s, r)
      | None \<Rightarrow>
          if validate_bulk ids \<noteq> [] then (s, Invalid (validate_bulk ids))
          else bulk_response (bulk_send env (of_application a) (owner_guard cfg (of_application a)) ids s))"

section \<open>All or nothing\<close>

lemma key_unique:
  "keys_ok s \<Longrightarrow> m \<in> set (notifications s) \<Longrightarrow> n \<in> set (notifications s) \<Longrightarrow> ntf_id m = ntf_id n \<Longrightarrow> m = n"
  by (auto simp: keys_ok_def distinct_map inj_on_def)

text \<open>The outcomes of an attempt.\<close>

lemma try_queue_cases:
  assumes keys: "keys_ok s" and run: "try_queue_notification env act mine n s = (s', n', r)"
  obtains (queued) m where "m \<in> set (notifications s)" "ntf_id m = ntf_id n" "ntf_status m = ntf_status n" "mine m"
      "act" "ntf_status n \<in> set allowed_statuses_to_queue"
      "\<not> (ntf_status n = Scheduled \<and> (\<exists>t. scheduled_for n = Some t \<and> qe_now env < t))" "\<not> broker_fails env"
      "r = Queued_As (ntf_id n)" "n' = n\<lparr>ntf_status := Queued\<rparr>"
      "s' = submit (Send_Notification (ntf_id n))
        (s\<lparr>notifications := map (\<lambda>x. if x = m then x\<lparr>ntf_status := Queued\<rparr> else x) (notifications s)\<rparr>)"
  | (refused) c where "r = Queue_Refused (ntf_id n) c" "s' = s" "c \<noteq> ''notification_queue_unavailable''" "n' = n"
  | (outage) "r = Queue_Refused (ntf_id n) ''notification_queue_unavailable''" "s' = s" "broker_fails env"
      "n' = n\<lparr>ntf_status := Queued\<rparr>"
proof -
  let ?hit = "\<lambda>x. ntf_id x = ntf_id n \<and> ntf_status x = ntf_status n \<and> mine x"
  show ?thesis
  proof (cases "act \<and> ntf_status n \<in> set allowed_statuses_to_queue \<and>
      \<not> (ntf_status n = Scheduled \<and> (\<exists>t. scheduled_for n = Some t \<and> qe_now env < t)) \<and> \<not> update_fails env \<and>
      (\<exists>m \<in> set (notifications s). ?hit m)")
    case False
    have "\<exists>c. r = Queue_Refused (ntf_id n) c \<and> s' = s \<and> c \<noteq> ''notification_queue_unavailable'' \<and> n' = n"
    proof (cases "\<exists>m \<in> set (notifications s). ?hit m")
      case True
      with False run show ?thesis
        by (auto simp: try_queue_notification_def Let_def split: if_splits option.splits)
    next
      case noone: False
      then have "count_where ?hit (notifications s) = 0" by (auto simp: count_where_def filter_empty_conv)
      with run show ?thesis
        by (auto simp: try_queue_notification_def Let_def split: if_splits option.splits)
    qed
    then show ?thesis using refused by blast
  next
    case True
    then obtain m where m: "m \<in> set (notifications s)" "?hit m" by blast
    then have cnt: "count_where ?hit (notifications s) \<noteq> 0" by (auto simp: count_where_def filter_empty_conv)
    have one: "x \<in> set (notifications s) \<Longrightarrow> ntf_id x = ntf_id n \<longleftrightarrow> x = m" for x
      using key_unique[OF keys, of x m] m by auto
    have nq: "ntf_status n \<noteq> Queued" using True by (auto simp: allowed_statuses_to_queue_def)
    let ?rows = "map (\<lambda>x. if x = m then x\<lparr>ntf_status := Queued\<rparr> else x) (notifications s)"
    have up: "update_where ?hit (\<lambda>r. r\<lparr>ntf_status := Queued\<rparr>) (notifications s) = ?rows"
      unfolding update_where_def using one m by (intro map_cong) auto
    have undo: "update_where (\<lambda>r. ntf_id r = ntf_id n \<and> ntf_status r = Queued) (\<lambda>r. r\<lparr>ntf_status := ntf_status n\<rparr>) ?rows = notifications s"
      unfolding update_where_def map_map comp_def using one m nq by (intro map_idI) auto
    have sched: "(case scheduled_for n of None \<Rightarrow> False | Some t \<Rightarrow> qe_now env < t) \<longleftrightarrow> (\<exists>t. scheduled_for n = Some t \<and> qe_now env < t)"
      by (auto split: option.split)
    have p1: "put_notifications ?hit (\<lambda>r. r\<lparr>ntf_status := Queued\<rparr>) s = s\<lparr>notifications := ?rows\<rparr>"
      unfolding put_notifications_def up ..
    have p2: "put_notifications (\<lambda>r. ntf_id r = ntf_id n \<and> ntf_status r = Queued)
        (\<lambda>r. r\<lparr>ntf_status := ntf_status n\<rparr>) (s\<lparr>notifications := ?rows\<rparr>) = s"
      unfolding put_notifications_def using undo by simp
    have e: "(s', n', r) = (if broker_fails env
        then (s, n\<lparr>ntf_status := Queued\<rparr>, Queue_Refused (ntf_id n) ''notification_queue_unavailable'')
        else (submit (Send_Notification (ntf_id n)) (s\<lparr>notifications := ?rows\<rparr>), n\<lparr>ntf_status := Queued\<rparr>, Queued_As (ntf_id n)))"
      using run True cnt sched unfolding try_queue_notification_def Let_def p1 p2 by simp
    show ?thesis
    proof (cases "broker_fails env")
      case b: True
      then show ?thesis using e outage by simp
    next
      case b: False
      then show ?thesis using e True m by (intro queued[of m]) auto
    qed
  qed
qed

text \<open>
  C26. Queueing is all or nothing. On success the stored row had the status the caller saw, one from
  which sending is allowed and not a date in the future, it becomes queued, and exactly one task is
  submitted; on any failure (an inactive application, another caller that was faster, a broker that
  is down) the database and the broker are as before.
\<close>

theorem queueing_is_all_or_nothing:
  assumes "keys_ok s" and "try_queue_notification env act mine n s = (s', n', r)"
  shows "(case r of
      Queued_As i \<Rightarrow> i = ntf_id n \<and> act \<and> ntf_status n \<in> {Draft, Failed, Partial, Scheduled} \<and>
        \<not> (ntf_status n = Scheduled \<and> (\<exists>t. scheduled_for n = Some t \<and> qe_now env < t)) \<and>
        (\<exists>m \<in> set (notifications s). ntf_id m = i \<and> ntf_status m = ntf_status n \<and> mine m \<and>
          notifications s' = map (\<lambda>x. if x = m then x\<lparr>ntf_status := Queued\<rparr> else x) (notifications s)) \<and>
        broker s' = broker s @ [Send_Notification i] \<and> deliveries s' = deliveries s
    | Queue_Refused i c \<Rightarrow> s' = s)"
  using assms
proof (cases rule: try_queue_cases)
  case (queued m)
  then show ?thesis by (auto simp: allowed_statuses_to_queue_def)
qed auto

text \<open>
  Of two callers that read the notification at the same status, one queues it: whoever comes
  second is refused as not sendable and submits nothing.
\<close>

theorem one_of_two_callers_queues:
  assumes "keys_ok s" and "try_queue_notification env act mine n s = (s', n', Queued_As i)"
  shows "try_queue_notification env2 True (\<lambda>_. True) n s' = (s', n, Queue_Refused i ''notification_not_sendable'')"
  using assms
proof (cases rule: try_queue_cases)
  case (queued m)
  note s' = queued(11) and i = queued(9)
  have rows: "notifications s' = map (\<lambda>x. if x = m then x\<lparr>ntf_status := Queued\<rparr> else x) (notifications s)"
    unfolding s' by simp
  have nq: "ntf_status n \<noteq> Queued" using queued(6) by (auto simp: allowed_statuses_to_queue_def)
  have other: "x \<in> set (notifications s) \<Longrightarrow> ntf_id x = ntf_id n \<Longrightarrow> x = m" for x
    using key_unique[OF assms(1) _ queued(1)] queued(2) by simp
  have none: "count_where (\<lambda>x. ntf_id x = ntf_id n \<and> ntf_status x = ntf_status n) (notifications s') = 0"
  proof -
    have "\<not> (ntf_id y = ntf_id n \<and> ntf_status y = ntf_status n)" if y: "y \<in> set (notifications s')" for y
    proof -
      from y obtain x where x: "x \<in> set (notifications s)" "y = (if x = m then x\<lparr>ntf_status := Queued\<rparr> else x)"
        unfolding rows set_map by blast
      then show ?thesis using other[OF x(1)] nq by (cases "x = m") auto
    qed
    then show ?thesis by (simp add: count_where_def filter_empty_conv)
  qed
  have "\<exists>x \<in> set (notifications s'). ntf_id x = ntf_id n" unfolding rows using queued(1,2) by force
  then have "get_notification s' (ntf_id n) \<noteq> None" unfolding get_notification_def find_None_iff by blast
  then show ?thesis using none i by (auto simp: try_queue_notification_def Let_def)
qed auto

section \<open>Bulk sends\<close>

definition found_keys :: "(notification \<times> bool) list \<Rightarrow> (pk \<times> bool) set" where
  "found_keys f = (\<lambda>na. (ntf_id (fst na), snd na)) ` set f"

definition bulk_ok :: "db \<Rightarrow> (notification \<times> bool) list \<Rightarrow> bulk_state \<Rightarrow> bool" where
  "bulk_ok s0 f0 b \<longleftrightarrow> keys_ok (bs_db b) \<and> broker (bs_db b) = broker s0 @ map Send_Notification (bs_queued b) \<and>
     distinct (bs_queued b) \<and> found_keys (bs_found b) \<subseteq> found_keys f0 \<and>
     (\<forall>na \<in> set (bs_found b). ntf_id (fst na) \<in> set (bs_queued b) \<longrightarrow> ntf_status (fst na) = Queued) \<and>
     (\<forall>i \<in> set (bs_queued b). (i, True) \<in> found_keys f0)"

lemma keys_ok_status:
  "keys_ok s \<Longrightarrow> keys_ok (submit t (s\<lparr>notifications := map (\<lambda>x. if x = m then x\<lparr>ntf_status := st\<rparr> else x) (notifications s)\<rparr>))"
proof -
  let ?f = "\<lambda>x. if x = m then x\<lparr>ntf_status := st\<rparr> else x"
  have k: "ntf_id (?f x) = ntf_id x" "ntf_application (?f x) = ntf_application x" "idempotency_key (?f x) = idempotency_key x" for x
    by simp_all
  assume ok: "keys_ok s"
  then have "\<forall>n \<in> ?f ` set (notifications s). ntf_id n < next_pk s" by (auto simp: keys_ok_def)
  then show ?thesis using ok unfolding keys_ok_def submit_def by (simp add: filter_map comp_def k)
qed

lemma found_keys_put:
  assumes "na \<in> set f" "ntf_id (fst na) = i" "ntf_id n1 = i"
  shows "found_keys (map (\<lambda>x. if ntf_id (fst x) = i then (n1, snd x) else x) f) = found_keys f"
  unfolding found_keys_def set_map image_image using assms by (intro image_cong) auto

lemma found_status_put:
  assumes "\<forall>na \<in> set f. ntf_id (fst na) \<in> q \<longrightarrow> ntf_status (fst na) = Queued"
    and "i \<in> q' \<Longrightarrow> ntf_status n1 = Queued" and "q' \<subseteq> insert i q" and "ntf_id n1 = i"
  shows "\<forall>na \<in> set (map (\<lambda>x. if ntf_id (fst x) = i then (n1, snd x) else x) f).
    ntf_id (fst na) \<in> q' \<longrightarrow> ntf_status (fst na) = Queued"
proof -
  have "ntf_id (fst x) \<in> q' \<longrightarrow> ntf_status (fst x) = Queued" if "x \<in> set f" "ntf_id (fst x) \<noteq> i" for x
    using assms(1,3) that by blast
  then show ?thesis using assms(2,4) by (auto split: if_splits)
qed

lemma bulk_one_ok:
  assumes ok: "bulk_ok s0 f0 b"
  shows "bulk_ok s0 f0 (bulk_one env guard i b)"
proof (cases "List.find (\<lambda>na. ntf_id (fst na) = i) (bs_found b)")
  case None
  then show ?thesis using ok by (simp add: bulk_one_def bulk_ok_def)
next
  case (Some na)
  then have na: "na \<in> set (bs_found b)" "ntf_id (fst na) = i"
    unfolding find_Some_iff by auto
  obtain s1 n1 r where run: "try_queue_notification env (snd na) guard (fst na) (bs_db b) = (s1, n1, r)"
    by (metis prod_cases3)
  let ?put = "\<lambda>n1. map (\<lambda>x. if ntf_id (fst x) = i then (n1, snd x) else x) (bs_found b)"
  have b: "keys_ok (bs_db b)" "broker (bs_db b) = broker s0 @ map Send_Notification (bs_queued b)" "distinct (bs_queued b)"
      "found_keys (bs_found b) \<subseteq> found_keys f0" "\<forall>i \<in> set (bs_queued b). (i, True) \<in> found_keys f0"
    and st: "\<forall>na \<in> set (bs_found b). ntf_id (fst na) \<in> set (bs_queued b) \<longrightarrow> ntf_status (fst na) = Queued"
    using ok unfolding bulk_ok_def by blast+
  have key: "(i, snd na) \<in> found_keys f0" using b(4) na unfolding found_keys_def by blast
  have stay: "bulk_ok s0 f0 (b\<lparr>bs_db := bs_db b, bs_found := ?put n1, bs_errors := es\<rparr>)"
    if "ntf_id n1 = i" "i \<in> set (bs_queued b) \<Longrightarrow> ntf_status n1 = Queued" for es :: "(pk \<times> string) list" and n1
    using b found_keys_put[OF na that(1)] found_status_put[OF st that(2) _ that(1)]
    unfolding bulk_ok_def by (simp add: subset_insertI)
  from b(1) run show ?thesis
  proof (cases rule: try_queue_cases)
    case (queued m)
    have new: "i \<notin> set (bs_queued b)" using st na queued(6) by (auto simp: allowed_statuses_to_queue_def)
    have "ntf_id n1 = i" "ntf_status n1 = Queued" using queued(10) na(2) by simp_all
    note f = found_keys_put[OF na this(1)] found_status_put[OF st this(2) _ this(1), of "insert i (set (bs_queued b))"]
    have "broker s1 = broker (bs_db b) @ [Send_Notification i]" using queued(11) na(2) by simp
    moreover have "keys_ok s1" using keys_ok_status[OF b(1)] queued(11) by simp
    moreover have "bulk_one env guard i b = b\<lparr>bs_db := s1, bs_found := ?put n1, bs_queued := bs_queued b @ [i]\<rparr>"
      using Some run queued(9) na(2) by (simp add: bulk_one_def)
    ultimately show ?thesis
      using b f new key queued(5) unfolding bulk_ok_def by (simp del: set_map map_map)
  next
    case (refused c)
    have "bulk_one env guard i b = b\<lparr>bs_db := bs_db b, bs_found := ?put n1, bs_errors := bs_errors b @ [(i, c)]\<rparr>"
      using Some run refused na(2) by (simp add: bulk_one_def)
    then show ?thesis using stay[of n1] refused(4) na st by simp
  next
    case outage
    have "bulk_one env guard i b =
        b\<lparr>bs_db := bs_db b, bs_found := ?put n1, bs_errors := bs_errors b @ [(i, ''notification_queue_unavailable'')]\<rparr>"
      using Some run outage na(2) by (simp add: bulk_one_def)
    then show ?thesis using stay[of n1] outage(4) na by simp
  qed
qed

interpretation bulk: loop_invariant "bulk_one env guard" "\<lambda>_. True" "bulk_ok s0 f0" for env guard s0 f0
  by unfold_locales (rule bulk_one_ok)

lemma bulk_counts:
  "length (bs_queued (fold (bulk_one env guard) ids b)) + length (bs_errors (fold (bulk_one env guard) ids b)) =
   length (bs_queued b) + length (bs_errors b) + length ids"
proof (induction ids arbitrary: b)
  case (Cons i ids)
  have "length (bs_queued (bulk_one env guard i b)) + length (bs_errors (bulk_one env guard i b)) =
      Suc (length (bs_queued b) + length (bs_errors b))"
    by (auto simp: bulk_one_def Let_def split: option.split prod.split queue_result.split)
  then show ?case using Cons.IH[of "bulk_one env guard i b"] by simp
qed simp

text \<open>
  A bulk send accounts for every id of the request, as queued or as an error; the queued ones
  are submitted once each, in order, even when the request repeats them; and only visible
  notifications of the caller whose application is active are queued.
\<close>

theorem bulk_send_submits_once:
  assumes "keys_ok s" and "notification_bulk_send cfg env u ids s = (s', Reply 200 (qs, errs))"
  shows "broker s' = broker s @ map Send_Notification qs \<and> distinct qs \<and>
    length qs + length errs = length ids \<and> length ids \<le> 500 \<and>
    (\<forall>i \<in> set qs. i \<in> set ids \<and> (\<exists>n \<in> set (notifications s). ntf_id n = i \<and> is_visible n \<and> owns s (user_id u) n \<and>
      application_active s n))"
proof -
  let ?rows = "map (\<lambda>n. (n, application_active s n))
      (filter (\<lambda>n. is_visible n \<and> ntf_id n \<in> set ids \<and> owns s (user_id u) n) (notifications s))"
  let ?start = "\<lparr>bs_db = s, bs_found = ?rows, bs_queued = [], bs_errors = []\<rparr>"
  let ?done = "fold (bulk_one env (owner_guard cfg (owns s (user_id u)))) ids ?start"
  have none: "subscription_required cfg s (qe_now env) u = (None :: (pk list \<times> (pk \<times> string) list) response option)"
    and val: "validate_bulk ids = []"
    and b: "s' = bs_db ?done" "qs = bs_queued ?done" "errs = bs_errors ?done"
    using assms(2) by (auto simp: notification_bulk_send_def bulk_response_def bulk_send_def subscription_required_def
        split: option.splits if_splits)
  have ok0: "bulk_ok s ?rows ?start" using assms(1) by (simp add: bulk_ok_def)
  have ok: "bulk_ok s ?rows ?done" by (rule bulk.fold_good[OF _ ok0]) (simp add: list_all_iff)
  have "length qs + length errs = length ids" using bulk_counts[of env _ ids ?start] b by simp
  moreover have "length ids \<le> 500" using val by (auto simp: validate_bulk_def bulk_send_max_ids_def split: if_splits)
  moreover have "\<exists>n \<in> set (notifications s). i \<in> set ids \<and> ntf_id n = i \<and> is_visible n \<and> owns s (user_id u) n \<and> application_active s n"
    if "(i, True) \<in> found_keys ?rows" for i
    using that by (auto simp: found_keys_def)
  moreover have "broker s' = broker s @ map Send_Notification qs" "distinct qs"
    "\<forall>i \<in> set qs. (i, True) \<in> found_keys ?rows"
    using ok unfolding b bulk_ok_def by blast+
  ultimately show ?thesis by blast
qed

section \<open>A send that is lost\<close>

text \<open>Creating never submits anything.\<close>

lemma insert_broker [simp]: "insert_notification app ttl msg d key fp now s = (s1, r) \<Longrightarrow> broker s1 = broker s"
  by (auto simp: insert_notification_def Let_def split: if_splits)

lemma read_back_broker: "read_back app key fp s = (s1, r) \<Longrightarrow> broker s1 = broker s"
  by (auto simp: read_back_def split: list.splits)

lemma sqlite_attempts_broker:
  "sqlite_attempts ks we app ttl msg d key fp now s = Some (s1, r) \<Longrightarrow> broker s1 = broker s"
  by (induction ks) (auto simp: Let_def split: option.splits if_splits prod.splits list.splits)

lemma create_broker:
  "create_notification_with_optional_idempotency we app ttl msg d key fp now s = (s1, r) \<Longrightarrow> broker s1 = broker s"
  by (auto simp: create_notification_with_optional_idempotency_def create_with_savepoint_def
      split: if_splits option.splits prod.splits dest: sqlite_attempts_broker read_back_broker insert_broker)

lemma token_send_replay:
  assumes "keys_ok s" "quiet_db we" "n \<in> set (notifications s)" "same_key (app_id a) (strip header) n" "strip header \<noteq> []"
  shows "broker (fst (notification_send_with_app_token cfg clk we env fingerprint a r header s)) = broker s"
proof -
  have ex: "\<exists>s1. create_notification_with_optional_idempotency we (app_id a) t m d (strip header) f now s =
      (s1, Inr (existing_outcome f n)) \<and> broker s1 = broker s" for t m d f now
    using create_existing[OF assms(2,1,5,3,4), of t m d f now] create_broker by blast
  show ?thesis
  proof (cases "\<exists>e. owner_gate cfg s (qe_now env) a = (Some e :: read_notification response option)")
    case True
    then show ?thesis by (auto simp: notification_send_with_app_token_def)
  next
    case gate: False
    then have g: "owner_gate cfg s (qe_now env) a = (None :: read_notification response option)" by simp
    show ?thesis
    proof (cases "validate_create_with_app_token s (app_id a) (qe_now env) r")
      case (Inl e)
      then show ?thesis using g by (simp add: notification_send_with_app_token_def)
    next
      case (Inr v)
      obtain s1 where s1: "create_notification_with_optional_idempotency we (app_id a) (the (at_title v)) (the (at_message v))
          None (strip header) (fingerprint v) (qe_now env) s = (s1, Inr (existing_outcome (fingerprint v) n))" "broker s1 = broker s"
        using ex by blast
      show ?thesis using g Inr s1 by (simp add: notification_send_with_app_token_def existing_outcome_def split: option.split)
    qed
  qed
qed


section \<open>Examples\<close>

definition queue_ok :: queue_env where
  "queue_ok = \<lparr>qe_now = 0, update_fails = False, broker_fails = False\<rparr>"

definition draft_db :: db where
  "draft_db = demo_db\<lparr>notifications := [blank_notification\<lparr>ntf_status := Draft\<rparr>, blank_notification\<lparr>ntf_id := 2\<rparr>]\<rparr>"

lemma draft_keys: "keys_ok draft_db"
  by (simp add: keys_ok_def draft_db_def demo_db_def empty_db_def blank_rows)

definition demo_queue :: "db \<times> notification \<times> queue_result" where
  "demo_queue = try_queue_notification queue_ok True (\<lambda>_. True) (blank_notification\<lparr>ntf_status := Draft\<rparr>) draft_db"

theorem queueing_is_all_or_nothing_witness:
  "broker (fst demo_queue) = [Send_Notification 1] \<and> deliveries (fst demo_queue) = deliveries draft_db"
proof -
  obtain s' n' r where e: "demo_queue = (s', n', r)" by (metis prod_cases3)
  have "snd (snd demo_queue) = Queued_As 1" by code_simp
  then have "r = Queued_As 1" unfolding e snd_conv .
  moreover have "broker draft_db = []" by code_simp
  ultimately show ?thesis
    unfolding e fst_conv using queueing_is_all_or_nothing[OF draft_keys e[unfolded demo_queue_def]] by (simp add: blank_rows)
qed

theorem one_of_two_callers_queues_witness:
  "snd (snd (try_queue_notification queue_ok True (\<lambda>_. True) (blank_notification\<lparr>ntf_status := Draft\<rparr>) (fst demo_queue))) =
     Queue_Refused 1 ''notification_not_sendable''"
proof -
  obtain s' n' r where e: "demo_queue = (s', n', r)" by (metis prod_cases3)
  have "snd (snd demo_queue) = Queued_As 1" by code_simp
  then have "r = Queued_As 1" unfolding e snd_conv .
  then show ?thesis
    using one_of_two_callers_queues[OF draft_keys e[unfolded demo_queue_def, unfolded \<open>r = Queued_As 1\<close>], of queue_ok]
    unfolding e by simp
qed

definition demo_bulk :: "db \<times> (pk list \<times> (pk \<times> string) list) response" where
  "demo_bulk = notification_bulk_send default_config queue_ok blank_user [1, 7, 1] draft_db"

theorem bulk_send_submits_once_witness:
  "broker (fst demo_bulk) = [Send_Notification 1] \<and> distinct [1::nat]"
proof -
  have r: "snd demo_bulk = Reply 200 ([1], [(7, ''notification_not_found''), (1, ''notification_not_sendable'')])"
    by code_simp
  have "broker draft_db = []" by code_simp
  then show ?thesis
    using bulk_send_submits_once[OF draft_keys, of default_config queue_ok blank_user "[1, 7, 1]" "fst demo_bulk"] r
    by (simp add: demo_bulk_def prod_eq_iff)
qed

definition demo_outage :: "db \<times> read_notification response" where
  "demo_outage = notification_send_with_app_token default_config utc \<lparr>sqlite = False, write_error = (\<lambda>_. None)\<rparr>
     (queue_ok\<lparr>broker_fails := True\<rparr>) (\<lambda>_. ''f'') blank_application (demo_attrs\<lparr>at_scheduled_for := None\<rparr>) ''key'' demo_db"


end
