(* ===== verification/Tokens.thy ===== *)
theory Tokens
  imports Queueing
begin

text \<open>
  Credentials of applications: \<open>applications/authentication.py\<close> (who a token speaks for),
  \<open>applications/crypto.py\<close> and \<open>applications/models_send_token.py\<close> (the send tokens and their
  reversible copy), \<open>applications/permissions.py\<close>, and the views of
  \<open>applications/api_views_send_tokens.py\<close>.
\<close>

section \<open>The reversible copy\<close>

text \<open>
  What the modules take from outside: SHA-256, the MultiFernet box (given the configured keys, the
  first of which encrypts), which keys it accepts, and the password hasher.
\<close>

record secrets =
  sha256 :: "string \<Rightarrow> string"
  box_encrypt :: "string list \<Rightarrow> string \<Rightarrow> string"
  box_decrypt :: "string list \<Rightarrow> string \<Rightarrow> string option"
  key_wellformed :: "string \<Rightarrow> bool"
  check_password :: "string \<Rightarrow> string \<Rightarrow> bool"
  encryption_keys :: "string list"

datatype crypto_error = Reveal_Unavailable string | Improperly_Configured

definition keys_configured :: "secrets \<Rightarrow> string list" where
  "keys_configured x = filter (\<lambda>k. k \<noteq> []) (encryption_keys x)"

definition cipher :: "secrets \<Rightarrow> crypto_error + string list" where
  "cipher x =
     (let ks = keys_configured x in
      if ks = [] then Inl (Reveal_Unavailable ''APP_TOKEN_ENCRYPTION_KEYS n'est pas configure.'')
      else if list_ex (\<lambda>k. \<not> key_wellformed x k) ks then Inl Improperly_Configured
      else Inr ks)"

definition encrypt :: "secrets \<Rightarrow> string \<Rightarrow> crypto_error + string" where
  "encrypt x raw =
     (if keys_configured x = [] then Inr []
      else case cipher x of Inl e \<Rightarrow> Inl e | Inr ks \<Rightarrow> Inr (box_encrypt x ks raw))"

definition decrypt :: "secrets \<Rightarrow> string \<Rightarrow> crypto_error + string" where
  "decrypt x blob =
     (if blob = [] then Inl (Reveal_Unavailable ''Ce jeton n'a pas de copie dechiffrable.'')
      else case cipher x of
        Inl e \<Rightarrow> Inl e
      | Inr ks \<Rightarrow>
          (case box_decrypt x ks blob of
             None \<Rightarrow> Inl (Reveal_Unavailable ''Aucune cle ne dechiffre ce jeton.'')
           | Some raw \<Rightarrow> Inr raw))"

section \<open>Send tokens\<close>

definition max_tokens_per_application :: nat where "max_tokens_per_application = 10"

definition tok_is_active :: "send_token \<Rightarrow> bool" where
  "tok_is_active t \<longleftrightarrow> tok_revoked_at t = None"

definition tokens_of :: "db \<Rightarrow> pk \<Rightarrow> send_token list" where
  "tokens_of s app = filter (\<lambda>t. tok_application t = app) (send_tokens s)"

text \<open>\<open>issue\<close>, for the random value \<open>raw\<close> drawn: nothing is stored when the encryption raises.\<close>

definition issue :: "secrets \<Rightarrow> instant \<Rightarrow> pk \<Rightarrow> string \<Rightarrow> string \<Rightarrow> db \<Rightarrow> crypto_error + db \<times> send_token" where
  "issue x now app nm raw s =
     (case encrypt x raw of
        Inl e \<Rightarrow> Inl e
      | Inr blob \<Rightarrow>
          (let t = \<lparr>tok_id = next_pk s, tok_application = app, tok_name = nm, tok_prefix = take 12 raw,
                    token_hash = sha256 x raw, secret_encrypted = blob, tok_created_at = now,
                    tok_last_used_at = None, tok_revoked_at = None\<rparr>
           in Inr (s\<lparr>send_tokens := send_tokens s @ [t], next_pk := Suc (next_pk s)\<rparr>, t)))"

text \<open>\<open>revoke\<close> on an instance read before: the first revocation date stays.\<close>

definition revoke :: "instant \<Rightarrow> send_token \<Rightarrow> db \<Rightarrow> db" where
  "revoke now t s =
     (if tok_revoked_at t = None
      then put_tokens (\<lambda>r. tok_id r = tok_id t) (\<lambda>r. r\<lparr>tok_revoked_at := Some now\<rparr>) s else s)"

section \<open>Who a token speaks for\<close>

text \<open>The outcome of an authentication: the application, or a refusal (401 or 403 and a code).\<close>

datatype auth = Granted application | Denied nat string

text \<open>Sending: only the dedicated \<open>apt_\<close> tokens.\<close>

definition get_application_for_raw_app_token :: "secrets \<Rightarrow> instant \<Rightarrow> string option \<Rightarrow> db \<Rightarrow> db \<times> auth" where
  "get_application_for_raw_app_token x now raw_token s =
     (case raw_token of
        None \<Rightarrow> (s, Denied 401 ''app_token_missing'')
      | Some raw \<Rightarrow>
          if raw = [] then (s, Denied 401 ''app_token_missing'')
          else if \<not> starts_with raw ''apt_'' then (s, Denied 401 ''app_token_invalid_format'')
          else case List.find (\<lambda>t. token_hash t = sha256 x raw) (send_tokens s) of
            None \<Rightarrow> (s, Denied 401 ''app_token_retired'')
          | Some t \<Rightarrow>
              if tok_revoked_at t \<noteq> None then (s, Denied 401 ''app_token_revoked'')
              else (case get_application s (tok_application t) of
                 None \<Rightarrow> (s, Denied 500 ''internal_error'')
               | Some a \<Rightarrow>
                   if \<not> app_is_active a then (s, Denied 401 ''app_token_inactive'')
                   else (put_applications (\<lambda>r. app_id r = app_id a) (\<lambda>r. r\<lparr>app_last_used_at := Some now\<rparr>)
                           (put_tokens (\<lambda>r. tok_id r = tok_id t) (\<lambda>r. r\<lparr>tok_last_used_at := Some now\<rparr>) s),
                         Granted a)))"

text \<open>The historical token of an application, accepted for linking a device only.\<close>

definition legacy_application :: "secrets \<Rightarrow> instant \<Rightarrow> string \<Rightarrow> db \<Rightarrow> db \<times> auth" where
  "legacy_application x now raw s =
     (if \<not> starts_with raw ''apt_'' then (s, Denied 403 ''app_token_invalid_format'')
      else case filter (\<lambda>a. app_token_hash a = sha256 x raw) (applications s) of
        [a] \<Rightarrow>
          if \<not> app_is_active a then (s, Denied 403 ''app_token_inactive'')
          else if app_revoked_at a \<noteq> None then (s, Denied 403 ''app_token_revoked'')
          else if (case app_last_used_at a of None \<Rightarrow> True | Some t \<Rightarrow> t < now - 5 * minute)
          then (put_applications (\<lambda>r. app_id r = app_id a) (\<lambda>r. r\<lparr>app_last_used_at := Some now\<rparr>) s,
                Granted (a\<lparr>app_last_used_at := Some now\<rparr>))
          else (s, Granted a)
      | _ \<Rightarrow> (s, Denied 403 ''app_token_invalid''))"

definition get_application_for_enrolment :: "secrets \<Rightarrow> instant \<Rightarrow> string option \<Rightarrow> db \<Rightarrow> db \<times> auth" where
  "get_application_for_enrolment x now raw_code s =
     (case raw_code of
        None \<Rightarrow> (s, Denied 403 ''app_token_missing'')
      | Some raw \<Rightarrow>
          if raw = [] then (s, Denied 403 ''app_token_missing'')
          else if starts_with raw ''apk_''
          then (case List.find (\<lambda>a. enrolment_code a = raw) (applications s) of
             None \<Rightarrow> (s, Denied 403 ''app_token_invalid'')
           | Some a \<Rightarrow> if \<not> app_is_active a then (s, Denied 403 ''app_token_inactive'') else (s, Granted a))
          else legacy_application x now raw s)"

section \<open>The views\<close>

text \<open>
  \<open>authenticate(username=email, password=...)\<close>: the e-mail backend is called without an e-mail
  and declines; the model backend looks the user up by the e-mail.
\<close>

definition email_backend :: "secrets \<Rightarrow> db \<Rightarrow> string option \<Rightarrow> string option \<Rightarrow> user option" where
  "email_backend x s email password =
     (case (email, password) of
        (Some e, Some p) \<Rightarrow>
          (case List.find (\<lambda>u. user_email u = e) (users s) of
             None \<Rightarrow> None
           | Some u \<Rightarrow> if check_password x (user_password u) p \<and> user_is_active u then Some u else None)
      | _ \<Rightarrow> None)"

definition model_backend :: "secrets \<Rightarrow> db \<Rightarrow> string \<Rightarrow> string \<Rightarrow> user option" where
  "model_backend x s nm p = email_backend x s (Some nm) (Some p)"

definition authenticate :: "secrets \<Rightarrow> db \<Rightarrow> string \<Rightarrow> string \<Rightarrow> user option" where
  "authenticate x s nm p =
     (case email_backend x s None (Some p) of Some u \<Rightarrow> Some u | None \<Rightarrow> model_backend x s nm p)"

text \<open>The password of the reveal views is trimmed by its field like any text.\<close>

record token_view =
  tv_id :: pk
  tv_name :: string
  tv_prefix :: string
  tv_created_at :: instant
  tv_last_used_at :: "instant option"
  tv_revoked_at :: "instant option"
  tv_is_active :: bool

definition token_view_of :: "send_token \<Rightarrow> token_view" where
  "token_view_of t = \<lparr>tv_id = tok_id t, tv_name = tok_name t, tv_prefix = tok_prefix t,
     tv_created_at = tok_created_at t, tv_last_used_at = tok_last_used_at t,
     tv_revoked_at = tok_revoked_at t, tv_is_active = tok_is_active t\<rparr>"

definition send_token_list :: "pk \<Rightarrow> pk \<Rightarrow> db \<Rightarrow> token_view list response" where
  "send_token_list u app s =
     (case own_application s u app of
        None \<Rightarrow> Refuse 404 ''error''
      | Some a \<Rightarrow> Reply 200 (map token_view_of (rev (sort_key tok_created_at (tokens_of s app)))))"

definition send_token_create ::
    "secrets \<Rightarrow> instant \<Rightarrow> string \<Rightarrow> pk \<Rightarrow> pk \<Rightarrow> string \<Rightarrow> db \<Rightarrow> db \<times> (token_view \<times> string) response" where
  "send_token_create x now raw u app given_name s =
     (case own_application s u app of
        None \<Rightarrow> (s, Refuse 404 ''error'')
      | Some a \<Rightarrow>
          if max_tokens_per_application \<le> count_where tok_is_active (tokens_of s app)
          then (s, Refuse 409 ''too_many_send_tokens'')
          else if strip given_name = [] then (s, Refuse 400 ''missing_name'')
          else case issue x now app (take 60 (strip given_name)) raw s of
            Inl e \<Rightarrow> (s, Refuse 500 ''internal_error'')
          | Inr (s1, t) \<Rightarrow> (s1, Reply 201 (token_view_of t, raw)))"

definition send_token_revoke :: "instant \<Rightarrow> pk \<Rightarrow> pk \<Rightarrow> pk \<Rightarrow> db \<Rightarrow> db \<times> unit response" where
  "send_token_revoke now u app i s =
     (case own_application s u app of
        None \<Rightarrow> (s, Refuse 404 ''error'')
      | Some a \<Rightarrow>
          (case List.find (\<lambda>t. tok_id t = i) (tokens_of s app) of
             None \<Rightarrow> (s, Refuse 404 ''error'')
           | Some t \<Rightarrow> (revoke now t s, Reply 204 ())))"

definition send_token_reveal ::
    "secrets \<Rightarrow> instant \<Rightarrow> user \<Rightarrow> pk \<Rightarrow> pk \<Rightarrow> string \<Rightarrow> db \<Rightarrow> db \<times> string response" where
  "send_token_reveal x now u app i password s =
     (if strip password = [] then (s, Invalid [(''password'', [''This field may not be blank.''])])
      else if authenticate x s (user_email u) (strip password) = None then (s, Refuse 403 ''invalid_password'')
      else case own_application s (user_id u) app of
        None \<Rightarrow> (s, Refuse 404 ''error'')
      | Some a \<Rightarrow>
          (case List.find (\<lambda>t. tok_id t = i) (tokens_of s app) of
             None \<Rightarrow> (s, Refuse 404 ''error'')
           | Some t \<Rightarrow>
               (case decrypt x (secret_encrypted t) of
                  Inl (Reveal_Unavailable m) \<Rightarrow> (s, Refuse 503 ''reveal_unavailable'')
                | Inl Improperly_Configured \<Rightarrow> (s, Refuse 500 ''internal_error'')
                | Inr raw \<Rightarrow> (s\<lparr>reveals := reveals s @ [\<lparr>rev_token = i, rev_actor = Some (user_id u),
                      rev_actor_label = user_email u, rev_created_at = now\<rparr>]\<rparr>, Reply 200 raw))))"

definition webhook_secret_reveal :: "secrets \<Rightarrow> user \<Rightarrow> pk \<Rightarrow> string \<Rightarrow> db \<Rightarrow> string response" where
  "webhook_secret_reveal x u app password s =
     (if strip password = [] then Invalid [(''password'', [''This field may not be blank.''])]
      else case own_application s (user_id u) app of
        None \<Rightarrow> Refuse 404 ''error''
      | Some a \<Rightarrow> if authenticate x s (user_email u) (strip password) = None then Refuse 403 ''invalid_password''
                  else Reply 200 (webhook_secret a))"

text \<open>For the random part drawn.\<close>

definition generate_webhook_secret :: "string \<Rightarrow> string" where
  "generate_webhook_secret rnd = ''whs_'' @ rnd"

definition webhook_secret_rotate :: "string \<Rightarrow> pk \<Rightarrow> pk \<Rightarrow> db \<Rightarrow> db \<times> string response" where
  "webhook_secret_rotate rnd u app s =
     (case own_application s u app of
        None \<Rightarrow> (s, Refuse 404 ''error'')
      | Some a \<Rightarrow> (put_applications (\<lambda>r. app_id r = app) (\<lambda>r. r\<lparr>webhook_secret := generate_webhook_secret rnd\<rparr>) s,
                   Reply 200 (generate_webhook_secret rnd)))"

text \<open>
  \<open>AppTokenAuthentication\<close> and \<open>HasAppToken\<close>: a request with an application token is served in
  the name of the application; a principal without one is refused.
\<close>

record app_principal =
  principal_pk :: string
  principal_application_id :: pk
  principal_owner_id :: pk

definition app_token_authenticate :: "secrets \<Rightarrow> instant \<Rightarrow> string option \<Rightarrow> db \<Rightarrow> db \<times> (app_principal \<times> application) response" where
  "app_token_authenticate x now header s =
     (case get_application_for_raw_app_token x now header s of
        (s1, Granted a) \<Rightarrow> (s1, Reply 200 (\<lparr>principal_pk = ''app:'' @ decimal (app_id a),
           principal_application_id = app_id a, principal_owner_id = app_owner a\<rparr>, a))
      | (s1, Denied k c) \<Rightarrow> (s1, Refuse k c))"

definition has_app_token :: "app_principal option \<Rightarrow> application option \<Rightarrow> application option \<Rightarrow> string option" where
  "has_app_token caller authenticated auth_application =
     (if authenticated = None \<and> auth_application = None then Some ''app_token_missing''
      else if caller = None then Some ''app_token_context_invalid''
      else if authenticated = None \<or> auth_application = None \<or> auth_application \<noteq> authenticated
      then Some ''app_token_context_invalid'' else None)"

section \<open>Sending and linking are separate rights\<close>

lemma send_granted:
  "snd (get_application_for_raw_app_token x now (Some raw) s) = Granted a \<longleftrightarrow>
     starts_with raw ''apt_'' \<and> (\<exists>t. List.find (\<lambda>t. token_hash t = sha256 x raw) (send_tokens s) = Some t \<and>
       tok_revoked_at t = None \<and> get_application s (tok_application t) = Some a \<and> app_is_active a)"
  by (auto simp: get_application_for_raw_app_token_def starts_with_def split: option.splits)

lemma send_denied:
  "snd (get_application_for_raw_app_token x now raw s) = Denied k c \<Longrightarrow> k = 401 \<or> k = 500"
  by (auto simp: get_application_for_raw_app_token_def split: option.splits if_splits)

lemma legacy_granted:
  assumes "snd (legacy_application x now raw s) = Granted a"
  shows "starts_with raw ''apt_'' \<and> (\<exists>b \<in> set (applications s). app_token_hash b = sha256 x raw)"
proof (cases "starts_with raw ''apt_''")
  case True
  let ?m = "filter (\<lambda>a. app_token_hash a = sha256 x raw) (applications s)"
  have "?m \<noteq> []"
  proof
    assume "?m = []"
    then show False using assms True unfolding legacy_application_def by simp
  qed
  then show ?thesis using True by (auto simp: filter_empty_conv)
next
  case False
  then show ?thesis using assms by (simp add: legacy_application_def)
qed

lemma legacy_denied: "snd (legacy_application x now raw s) = Denied k c \<Longrightarrow> k = 403"
  unfolding legacy_application_def by (simp split: if_splits list.splits)

lemma enrol_granted:
  assumes "snd (get_application_for_enrolment x now (Some raw) s) = Granted a"
  shows "starts_with raw ''apk_'' \<or>
    starts_with raw ''apt_'' \<and> (\<exists>b \<in> set (applications s). app_token_hash b = sha256 x raw)"
proof (cases "starts_with raw ''apk_''")
  case False
  then have "snd (legacy_application x now raw s) = Granted a"
    using assms by (simp add: get_application_for_enrolment_def split: if_splits)
  then show ?thesis using legacy_granted by blast
qed simp

lemma enrol_denied:
  "snd (get_application_for_enrolment x now raw s) = Denied k c \<Longrightarrow> k = 403"
  by (auto simp: get_application_for_enrolment_def split: option.splits if_splits dest: legacy_denied)

lemma not_both_prefixes: "starts_with raw ''apk_'' \<Longrightarrow> starts_with raw ''apt_'' \<Longrightarrow> False"
  by (auto simp: starts_with_iff)

text \<open>
  C14. Sending and linking a device are separate rights: as long as no send token shares its hash
  with an application's historical token, a credential that may send is refused for linking (with
  403, the session stays alive), and one that may link is refused for sending (with 401).
\<close>

theorem send_and_enrolment_are_separate:
  assumes "\<forall>t \<in> set (send_tokens s). \<forall>a \<in> set (applications s). token_hash t \<noteq> app_token_hash a"
  shows "case snd (get_application_for_raw_app_token x now (Some raw) s) of
      Granted a \<Rightarrow> (\<exists>c. snd (get_application_for_enrolment x now' (Some raw) s) = Denied 403 c)
    | Denied k c \<Rightarrow> k = 401 \<or> k = 500"
proof (cases "snd (get_application_for_raw_app_token x now (Some raw) s)")
  case (Granted a)
  then obtain t where pre: "starts_with raw ''apt_''"
    and "List.find (\<lambda>t. token_hash t = sha256 x raw) (send_tokens s) = Some t"
    unfolding send_granted by blast
  then have t: "starts_with raw ''apt_''" "t \<in> set (send_tokens s)" "token_hash t = sha256 x raw"
    using find_SomeD[of _ "send_tokens s" t] by blast+
  show ?thesis
  proof (cases "snd (get_application_for_enrolment x now' (Some raw) s)")
    case g: (Granted b)
    from enrol_granted[OF this] have False
    proof
      assume "starts_with raw ''apk_''"
      then show False using not_both_prefixes[OF _ t(1)] by blast
    next
      assume "starts_with raw ''apt_'' \<and> (\<exists>b \<in> set (applications s). app_token_hash b = sha256 x raw)"
      then obtain b where b: "b \<in> set (applications s)" "app_token_hash b = sha256 x raw" by blast
      with assms t(2) have "token_hash t \<noteq> app_token_hash b" by blast
      then show False using b(2) t(3) by simp
    qed
    then show ?thesis ..
  next
    case (Denied k c)
    then show ?thesis using Granted enrol_denied[OF Denied] by simp
  qed
next
  case (Denied k c)
  then show ?thesis using send_denied by simp
qed

section \<open>Revocation\<close>

definition tokens_ok :: "db \<Rightarrow> bool" where
  "tokens_ok s \<longleftrightarrow> distinct (map tok_id (send_tokens s)) \<and> distinct (map token_hash (send_tokens s)) \<and>
     (\<forall>t \<in> set (send_tokens s). tok_id t < next_pk s)"

lemma find_token:
  "tokens_ok s \<Longrightarrow> t \<in> set (send_tokens s) \<Longrightarrow> List.find (\<lambda>r. token_hash r = token_hash t) (send_tokens s) = Some t"
  by (rule find_key_unique) (simp_all add: tokens_ok_def)

lemma revoke_tokens:
  "send_tokens (revoke now t s) = map (\<lambda>r. if tok_id r = tok_id t \<and> tok_revoked_at t = None
     then r\<lparr>tok_revoked_at := Some now\<rparr> else r) (send_tokens s)"
  by (auto simp: revoke_def put_tokens_def update_where_def intro: map_idI[symmetric])

lemma revoke_frame [simp]: "applications (revoke now t s) = applications s"
  by (simp add: revoke_def put_tokens_def)

lemma revoke_find:
  "List.find (\<lambda>r. token_hash r = h) (send_tokens (revoke now t s)) =
   map_option (\<lambda>r. if tok_id r = tok_id t \<and> tok_revoked_at t = None then r\<lparr>tok_revoked_at := Some now\<rparr> else r)
     (List.find (\<lambda>r. token_hash r = h) (send_tokens s))"
proof -
  have "List.find (\<lambda>r. token_hash r = h) (update_where (\<lambda>r. tok_id r = tok_id t) (\<lambda>r. r\<lparr>tok_revoked_at := Some now\<rparr>) (send_tokens s)) =
      map_option (\<lambda>r. if tok_id r = tok_id t then r\<lparr>tok_revoked_at := Some now\<rparr> else r)
        (List.find (\<lambda>r. token_hash r = h) (send_tokens s))"
    by (rule find_update_where_key) simp
  then show ?thesis by (cases "tok_revoked_at t") (simp_all add: revoke_def put_tokens_def option.map_ident)
qed

lemma tok_by_id:
  "tokens_ok s \<Longrightarrow> t \<in> set (send_tokens s) \<Longrightarrow> r \<in> set (send_tokens s) \<Longrightarrow> tok_id r = tok_id t \<Longrightarrow> r = t"
  by (auto simp: tokens_ok_def distinct_map inj_on_def)

text \<open>
  Revoking a send token is immediate and isolated: from then on its value authenticates
  nothing, at any later time, and every other credential is answered as before.
\<close>

theorem revocation_is_immediate_and_isolated:
  assumes "tokens_ok s" and "t \<in> set (send_tokens s)" and "token_hash t = sha256 x raw"
  shows "(\<exists>c. get_application_for_raw_app_token x later (Some raw) (revoke now t s) = (revoke now t s, Denied 401 c)) \<and>
    (if sha256 x other = token_hash t then True
     else snd (get_application_for_raw_app_token x later (Some other) (revoke now t s)) =
          snd (get_application_for_raw_app_token x later (Some other) s))"
proof
  have "List.find (\<lambda>r. token_hash r = sha256 x raw) (send_tokens (revoke now t s)) =
      Some (if tok_revoked_at t = None then t\<lparr>tok_revoked_at := Some now\<rparr> else t)"
    unfolding revoke_find assms(3)[symmetric] find_token[OF assms(1,2)] by simp
  then show "\<exists>c. get_application_for_raw_app_token x later (Some raw) (revoke now t s) = (revoke now t s, Denied 401 c)"
    by (auto simp: get_application_for_raw_app_token_def)
next
  show "if sha256 x other = token_hash t then True
     else snd (get_application_for_raw_app_token x later (Some other) (revoke now t s)) =
          snd (get_application_for_raw_app_token x later (Some other) s)"
  proof (cases "sha256 x other = token_hash t")
    case False
    have "List.find (\<lambda>r. token_hash r = sha256 x other) (send_tokens (revoke now t s)) =
        List.find (\<lambda>r. token_hash r = sha256 x other) (send_tokens s)"
    proof (cases "List.find (\<lambda>r. token_hash r = sha256 x other) (send_tokens s)")
      case (Some r)
      then have "r \<in> set (send_tokens s)" "token_hash r = sha256 x other" by (auto dest: find_SomeD)
      then have "tok_id r \<noteq> tok_id t" using tok_by_id[OF assms(1,2)] False by metis
      then show ?thesis unfolding revoke_find Some by simp
    qed (simp add: revoke_find)
    then show ?thesis
      by (auto simp: get_application_for_raw_app_token_def get_application_def split: option.split)
  qed simp
qed

section \<open>Issue, then reveal\<close>

lemma issue_SomeD:
  "issue x now app nm raw s = Inr (s1, t) \<Longrightarrow>
     (\<exists>blob. encrypt x raw = Inr blob \<and> secret_encrypted t = blob) \<and> tok_id t = next_pk s \<and> tok_application t = app \<and>
     token_hash t = sha256 x raw \<and> tok_revoked_at t = None \<and>
     s1 = s\<lparr>send_tokens := send_tokens s @ [t], next_pk := Suc (next_pk s)\<rparr>"
  by (auto simp: issue_def Let_def split: sum.splits)

text \<open>
  A send token can be read again: what a reveal with the owner's password answers is the value
  that was drawn, also after the encryption keys were rotated, as long as the key that encrypted it
  is still in the list; and the reveal leaves exactly one line in the journal.
\<close>

theorem issue_reveal_roundtrip:
  assumes "tokens_ok s" and "keys_configured x \<noteq> []"
    and box: "\<And>ks. hd (keys_configured x) \<in> set ks \<Longrightarrow> box_decrypt x ks (box_encrypt x (keys_configured x) raw) = Some raw"
    and "box_encrypt x (keys_configured x) raw \<noteq> []"
    and "send_token_create x now raw (user_id u) app nm s = (s1, Reply 201 (v, raw1))"
    and "hd (keys_configured x) \<in> set rotated" and "\<forall>k \<in> set rotated. k \<noteq> [] \<and> key_wellformed x k"
    and "strip password = password" and "password \<noteq> []" and "authenticate x s (user_email u) password \<noteq> None"
  shows "send_token_reveal (x\<lparr>encryption_keys := rotated\<rparr>) later u app (tv_id v) password s1 =
    (s1\<lparr>reveals := reveals s @ [\<lparr>rev_token = tv_id v, rev_actor = Some (user_id u), rev_actor_label = user_email u,
       rev_created_at = later\<rparr>]\<rparr>, Reply 200 raw) \<and> raw1 = raw"
proof -
  let ?y = "x\<lparr>encryption_keys := rotated\<rparr>"
  obtain a t where a: "own_application s (user_id u) app = Some a"
    and issued: "issue x now app (take 60 (strip nm)) raw s = Inr (s1, t)" and v: "v = token_view_of t" "raw1 = raw"
    using assms(5) by (auto simp: send_token_create_def split: option.splits if_splits sum.splits prod.splits)
  note t = issue_SomeD[OF issued]
  have enc: "secret_encrypted t = box_encrypt x (keys_configured x) raw"
    using t assms(2) by (auto simp: encrypt_def cipher_def Let_def split: sum.splits if_splits)
  have ks: "keys_configured ?y = rotated" using assms(7) by (simp add: keys_configured_def)
  have "cipher ?y = Inr rotated"
    unfolding cipher_def Let_def ks using assms(6,7) by (auto simp: list_ex_iff)
  then have dec: "decrypt ?y (secret_encrypted t) = Inr raw"
    using assms(4) box[OF assms(6)] by (simp add: decrypt_def enc)
  have "r \<in> set (send_tokens s) \<Longrightarrow> tok_id r \<noteq> next_pk s" for r using assms(1) by (auto simp: tokens_ok_def)
  then have "List.find (\<lambda>r. tok_id r = next_pk s) (tokens_of s app) = None"
    by (auto simp: find_None_iff tokens_of_def)
  then have found: "List.find (\<lambda>r. tok_id r = tv_id v) (tokens_of s1 app) = Some t"
    using t by (simp add: v token_view_of_def tokens_of_def find_append)
  have own: "own_application s1 (user_id u) app = Some a" using a t by (simp add: own_application_def)
  have auth: "authenticate ?y s1 (user_email u) password = authenticate x s (user_email u) password"
    using t by (simp add: authenticate_def model_backend_def email_backend_def split: option.split)
  show ?thesis
    unfolding send_token_reveal_def using assms(8-10) own found dec auth t v by simp
qed

section \<open>No more than ten active tokens\<close>

lemma active_tokens_bounded:
  assumes "\<And>app. count_where tok_is_active (tokens_of s app) \<le> max_tokens_per_application"
  shows "count_where tok_is_active (tokens_of (fst (send_token_create x now raw u app nm s)) app') \<le> max_tokens_per_application"
proof -
  let ?r = "fst (send_token_create x now raw u app nm s)"
  have "?r = s \<or> (\<exists>n t. issue x now app n raw s = Inr (?r, t) \<and>
      count_where tok_is_active (tokens_of s app) < max_tokens_per_application)"
    by (auto simp: send_token_create_def not_le split: option.split sum.split prod.split)
  then show ?thesis
  proof
    assume "\<exists>n t. issue x now app n raw s = Inr (?r, t) \<and> count_where tok_is_active (tokens_of s app) < max_tokens_per_application"
    then obtain t where lt: "count_where tok_is_active (tokens_of s app) < max_tokens_per_application"
      and t: "tok_application t = app" "send_tokens ?r = send_tokens s @ [t]"
      using issue_SomeD by fastforce
    have "tokens_of ?r app' = tokens_of s app' @ (if app = app' then [t] else [])" using t by (simp add: tokens_of_def)
    then show ?thesis using lt assms[of app'] by (cases "app = app'") (simp_all add: count_where_def)
  qed (simp add: assms)
qed

lemma issue_keeps_tokens_ok:
  assumes "tokens_ok s" and "issue x now app nm raw s = Inr (s1, t)" and "sha256 x raw \<notin> token_hash ` set (send_tokens s)"
  shows "tokens_ok s1"
proof -
  have "tok_id t = next_pk s" "token_hash t = sha256 x raw"
    "send_tokens s1 = send_tokens s @ [t]" "next_pk s1 = Suc (next_pk s)"
    using issue_SomeD[OF assms(2)] by auto
  then show ?thesis using assms(1,3) by (auto simp: tokens_ok_def less_SucI)
qed

section \<open>Examples\<close>

definition demo_secrets :: secrets where
  "demo_secrets = \<lparr>sha256 = (\<lambda>raw. CHR ''#'' # raw), box_encrypt = (\<lambda>ks raw. hd ks @ ''|'' @ raw),
     box_decrypt = (\<lambda>ks blob. if list_ex (\<lambda>k. starts_with blob (k @ ''|'')) ks
       then Some (tl (dropWhile (\<lambda>c. c \<noteq> CHR ''|'') blob)) else None),
     key_wellformed = (\<lambda>_. True), check_password = (\<lambda>h p. h = p), encryption_keys = [''k1'']\<rparr>"

definition token_db :: db where
  "token_db = demo_db\<lparr>users := [blank_user\<lparr>user_password := ''pw''\<rparr>]\<rparr>"

definition created_token :: "db \<times> (token_view \<times> string) response" where
  "created_token = send_token_create demo_secrets 5 ''apt_x'' 1 1 ''server'' token_db"

definition created_row :: send_token where
  "created_row = \<lparr>tok_id = 3, tok_application = 1, tok_name = ''server'', tok_prefix = ''apt_x'',
     token_hash = ''#apt_x'', secret_encrypted = ''k1|apt_x'', tok_created_at = 5, tok_last_used_at = None,
     tok_revoked_at = None\<rparr>"

lemma created: "created_token = (fst created_token, Reply 201 (token_view_of created_row, ''apt_x''))"
  "send_tokens (fst created_token) = [created_row]" "tokens_ok (fst created_token)" "tokens_ok token_db"
  by (simp add: prod_eq_iff) code_simp+

theorem send_and_enrolment_are_separate_witness:
  "\<exists>c. snd (get_application_for_enrolment demo_secrets 0 (Some ''apt_x'') (fst created_token)) = Denied 403 c"
proof -
  have "\<forall>t \<in> set (send_tokens (fst created_token)). \<forall>a \<in> set (applications (fst created_token)). token_hash t \<noteq> app_token_hash a"
    by code_simp
  note sep = send_and_enrolment_are_separate[OF this, of demo_secrets 0 "''apt_x''" 0]
  have "case snd (get_application_for_raw_app_token demo_secrets 0 (Some ''apt_x'') (fst created_token)) of
      Granted a \<Rightarrow> True | _ \<Rightarrow> False" by code_simp
  then show ?thesis using sep by (auto split: auth.splits)
qed

theorem revocation_is_immediate_and_isolated_witness:
  "\<exists>c. get_application_for_raw_app_token demo_secrets 9 (Some ''apt_x'') (revoke 7 created_row (fst created_token)) =
     (revoke 7 created_row (fst created_token), Denied 401 c)"
proof -
  have "created_row \<in> set (send_tokens (fst created_token))" unfolding created(2) by simp
  moreover have "token_hash created_row = sha256 demo_secrets ''apt_x''" by code_simp
  ultimately show ?thesis
    using revocation_is_immediate_and_isolated[OF created(3), of created_row demo_secrets "''apt_x''" 9 7 "''y''"] by blast
qed

theorem issue_reveal_roundtrip_witness:
  "snd (send_token_reveal (demo_secrets\<lparr>encryption_keys := [''k2'', ''k1'']\<rparr>) 8 (blank_user\<lparr>user_password := ''pw''\<rparr>) 1 3 ''pw''
     (fst created_token)) = Reply 200 ''apt_x''"
proof -
  have box: "box_decrypt demo_secrets ks (box_encrypt demo_secrets (keys_configured demo_secrets) ''apt_x'') = Some ''apt_x''"
    if "hd (keys_configured demo_secrets) \<in> set ks" for ks
  proof -
    have "list_ex (\<lambda>k. starts_with ''k1|apt_x'' (k @ ''|'')) ks"
      unfolding list_ex_iff by (rule bexI[of _ "''k1''"])
        (use that in \<open>simp_all add: demo_secrets_def keys_configured_def starts_with_def\<close>)
    then show ?thesis by (simp add: demo_secrets_def keys_configured_def)
  qed
  have "tv_id (token_view_of created_row) = 3" by code_simp
  moreover have "own_application token_db (user_id (blank_user\<lparr>user_password := ''pw''\<rparr>)) 1 \<noteq> None" by code_simp
  moreover have "authenticate demo_secrets token_db (user_email (blank_user\<lparr>user_password := ''pw''\<rparr>)) ''pw'' \<noteq> None" by code_simp
  moreover have "send_token_create demo_secrets 5 ''apt_x'' (user_id (blank_user\<lparr>user_password := ''pw''\<rparr>)) 1 ''server'' token_db =
      (fst created_token, Reply 201 (token_view_of created_row, ''apt_x''))"
    using created(1) by (simp add: created_token_def blank_rows)
  ultimately show ?thesis
    using issue_reveal_roundtrip[OF created(4) _ box, of 5 "blank_user\<lparr>user_password := ''pw''\<rparr>" 1 "''server''"
        "fst created_token" "token_view_of created_row" "''apt_x''" "[''k2'', ''k1'']" "''pw''" 8]
    by (simp add: keys_configured_def demo_secrets_def strip_def is_space_def)
qed

end
