(* ===== verification/Devices.thy ===== *)
theory Devices
  imports Tokens "HOL-Library.Char_ord" "HOL-Library.List_Lexorder"
begin

text \<open>
  Devices and their links to applications: identification, token rotation, takeover, linking and
  unlinking (\<open>devices/api_views_app_token.py\<close>), eviction by an owner
  (\<open>applications/api_views.py\<close>), and the console's views of devices (\<open>devices/api_views.py\<close>,
  \<open>devices/serializers.py\<close>). Texts are ordered by the codes of their characters.
\<close>

section \<open>Identifying a device\<close>

text \<open>
  What the serializers read: the texts are trimmed; \<open>dq_previous\<close> is the token the installation
  had before a rotation.
\<close>

record device_request =
  dq_app_token :: "string option"
  dq_device_name :: "string option"
  dq_platform :: device_platform
  dq_push_token :: string
  dq_previous :: "string option"

definition bounded :: "string \<Rightarrow> nat \<Rightarrow> nat \<Rightarrow> string \<Rightarrow> field_errors \<Rightarrow> field_errors" where
  "bounded name lo hi v e =
     (if hi < length v then add_error e name (''Ensure this field has no more than '' @ decimal hi @ '' characters.'')
      else if length v < lo then add_error e name (''Ensure this field has at least '' @ decimal lo @ '' characters.'')
      else e)"

definition device_field_errors :: "device_request \<Rightarrow> field_errors" where
  "device_field_errors r =
     (let e1 = (case dq_device_name r of None \<Rightarrow> [] | Some n \<Rightarrow> bounded ''device_name'' 0 120 (strip n) []);
          e2 = (if strip (dq_push_token r) = [] then add_error e1 ''push_token'' ''This field may not be blank.''
                else bounded ''push_token'' 20 512 (strip (dq_push_token r)) e1)
      in case dq_previous r of None \<Rightarrow> e2 | Some p \<Rightarrow> bounded ''previous_push_token'' 0 512 (strip p) e2)"

definition trim_request :: "device_request \<Rightarrow> device_request" where
  "trim_request r = r\<lparr>dq_app_token := map_option strip (dq_app_token r), dq_device_name := map_option strip (dq_device_name r),
     dq_push_token := strip (dq_push_token r), dq_previous := map_option strip (dq_previous r)\<rparr>"

definition validate_device :: "device_request \<Rightarrow> field_errors + device_request" where
  "validate_device r = (if device_field_errors r = [] then Inr (trim_request r) else Inl (device_field_errors r))"

definition select_existing_device :: "db \<Rightarrow> string \<Rightarrow> device option" where
  "select_existing_device s tok = List.find (\<lambda>d. push_token d = tok) (devices s)"

text \<open>
  \<open>_apply_device_fields\<close>: the links of a device that changes hands are cut in the database; the
  other fields are set on the instance, which the caller saves.
\<close>

definition changes_hands :: "pk \<Rightarrow> device \<Rightarrow> bool" where
  "changes_hands u d \<longleftrightarrow> dev_user d \<noteq> None \<and> dev_user d \<noteq> Some u"

definition take_over :: "instant \<Rightarrow> pk \<Rightarrow> device \<Rightarrow> db \<Rightarrow> db" where
  "take_over now u d s =
     (if changes_hands u d
      then put_links (\<lambda>l. link_device l = dev_id d \<and> link_is_active l)
             (\<lambda>l. l\<lparr>link_is_active := False, unlinked_at := Some now, unlink_source := Some Takeover\<rparr>) s
      else s)"

definition device_fields :: "instant \<Rightarrow> pk \<Rightarrow> device_request \<Rightarrow> device \<Rightarrow> device" where
  "device_fields now u r d = d\<lparr>dev_user := Some u,
     device_name := (case dq_device_name r of None \<Rightarrow> [] | Some n \<Rightarrow> n), platform := dq_platform r,
     push_token_status := T_Active, dev_is_active := True, invalidated_at := None,
     invalidation_reason := [], failure_count := 0, last_seen_at := Some now\<rparr>"

text \<open>Apply and save the listed columns of an existing row.\<close>

definition refresh_device :: "instant \<Rightarrow> pk \<Rightarrow> device_request \<Rightarrow> device \<Rightarrow> db \<Rightarrow> db \<times> device" where
  "refresh_device now u r d s =
     (put_devices (\<lambda>x. dev_id x = dev_id d) (device_fields now u r) (take_over now u d s), device_fields now u r d)"

text \<open>\<open>_merge_device_into\<close>: one link of the source, against the links the target had.\<close>

definition merge_link :: "device_link list \<Rightarrow> pk \<Rightarrow> device_link \<Rightarrow> db \<Rightarrow> db" where
  "merge_link target_links target l s =
     (case List.find (\<lambda>t. link_application t = link_application l) target_links of
        None \<Rightarrow> put_links (\<lambda>r. link_id r = link_id l) (\<lambda>r. r\<lparr>link_device := target\<rparr>) s
      | Some e \<Rightarrow>
          if link_is_active l \<and> \<not> link_is_active e
          then put_links (\<lambda>r. link_id r = link_id e) (\<lambda>r. r\<lparr>link_is_active := True, unlinked_at := None, unlink_source := None\<rparr>) s
          else s)"

definition links_of_device :: "db \<Rightarrow> pk \<Rightarrow> device_link list" where
  "links_of_device s d = filter (\<lambda>l. link_device l = d) (links s)"

definition merge_device_into :: "device \<Rightarrow> device \<Rightarrow> db \<Rightarrow> db" where
  "merge_device_into source target s =
     (let s1 = fold (merge_link (links_of_device s (dev_id target)) (dev_id target)) (links_of_device s (dev_id source)) s;
          already = map dlv_notification (filter (\<lambda>d. dlv_device d = dev_id target) (deliveries s1));
          s2 = put_deliveries (\<lambda>d. dlv_device d = dev_id source \<and> dlv_notification d \<notin> set already)
                 (\<lambda>d. d\<lparr>dlv_device := dev_id target\<rparr>) s1;
          s3 = s2\<lparr>device_quiet_periods := update_where (\<lambda>q. qp_parent q = dev_id source)
                 (\<lambda>q. q\<lparr>qp_parent := dev_id target\<rparr>) (device_quiet_periods s2)\<rparr>
      in delete_devices (\<lambda>d. dev_id d = dev_id source) s3)"

definition rotate_push_token :: "instant \<Rightarrow> pk \<Rightarrow> device_request \<Rightarrow> db \<Rightarrow> (db \<times> device) option" where
  "rotate_push_token now u r s =
     (let previous = (case dq_previous r of None \<Rightarrow> [] | Some p \<Rightarrow> strip p);
          finish = (\<lambda>old t. (put_devices (\<lambda>x. dev_id x = dev_id old)
            (\<lambda>x. device_fields now u r (x\<lparr>push_token := dq_push_token r\<rparr>)) (take_over now u old t),
            device_fields now u r (old\<lparr>push_token := dq_push_token r\<rparr>)))
      in if previous = [] \<or> previous = dq_push_token r then None
         else case select_existing_device s previous of
           None \<Rightarrow> None
         | Some old \<Rightarrow>
             if dev_user old \<noteq> Some u then None
             else (case select_existing_device s (dq_push_token r) of
                None \<Rightarrow> Some (finish old s)
              | Some clash \<Rightarrow>
                  if dev_user clash \<noteq> None \<and> dev_user clash \<noteq> Some u then None
                  else Some (finish old (merge_device_into clash old s))))"

definition new_device :: "pk \<Rightarrow> string \<Rightarrow> instant \<Rightarrow> device" where
  "new_device i tok now = \<lparr>dev_id = i, dev_user = None, device_name = [], platform = Android, push_token = tok,
     push_token_status = T_Active, last_seen_at = None, dev_created_at = now, dev_is_active = True,
     invalidated_at = None, invalidation_reason = [], failure_count = 0\<rparr>"

text \<open>
  \<open>_upsert_authenticated_device\<close>, in one transaction. \<open>race\<close> is what other requests commit between
  the selection and the insertion, which the unique push token then refuses.
\<close>

definition upsert_authenticated_device ::
    "instant \<Rightarrow> (db \<Rightarrow> db) \<Rightarrow> pk \<Rightarrow> device_request \<Rightarrow> db \<Rightarrow> db \<times> device \<times> bool" where
  "upsert_authenticated_device now race u r s =
     (case rotate_push_token now u r s of
        Some (s1, d) \<Rightarrow> (s1, d, False)
      | None \<Rightarrow>
          (case select_existing_device s (dq_push_token r) of
             Some d \<Rightarrow> (let (s1, d1) = refresh_device now u r d s in (s1, d1, False))
           | None \<Rightarrow>
               (let s1 = race s in
                case select_existing_device s1 (dq_push_token r) of
                  Some d \<Rightarrow> (let (s2, d2) = refresh_device now u r d s1 in (s2, d2, False))
                | None \<Rightarrow>
                    (let d = device_fields now u r (new_device (next_pk s1) (dq_push_token r) now) in
                     (s1\<lparr>devices := devices s1 @ [d], next_pk := Suc (next_pk s1)\<rparr>, d, True)))))"

section \<open>Linking and unlinking\<close>

record linked_application =
  la_id :: pk
  la_name :: string
  la_description :: string
  la_is_active :: bool
  la_linked_at :: instant
  la_logo :: string

text \<open>In the order of the names, then of the keys; the logo is empty when there is none.\<close>

definition serialize_linked_applications :: "db \<Rightarrow> pk \<Rightarrow> linked_application list" where
  "serialize_linked_applications s d =
     concat (map (\<lambda>a. map (\<lambda>l. \<lparr>la_id = app_id a, la_name = app_name a, la_description = app_description a,
              la_is_active = app_is_active a, la_linked_at = linked_at l, la_logo = app_logo a\<rparr>)
         (filter (\<lambda>l. link_application l = app_id a \<and> link_is_active l) (links_of_device s d)))
       (sort_key app_name (sort_key app_id (filter app_is_active (applications s)))))"

definition device_identify ::
    "instant \<Rightarrow> (db \<Rightarrow> db) \<Rightarrow> pk \<Rightarrow> device_request \<Rightarrow> db \<Rightarrow> db \<times> (pk \<times> bool \<times> linked_application list) response" where
  "device_identify now race u r s =
     (case validate_device r of
        Inl e \<Rightarrow> (s, Invalid e)
      | Inr v \<Rightarrow> (let (s1, d, created) = upsert_authenticated_device now race u v s
                  in (s1, Reply 200 (dev_id d, created, serialize_linked_applications s1 (dev_id d)))))"

text \<open>\<open>get_or_create\<close> of the link, and the reactivation of a link that was cut.\<close>

definition link_device_to :: "instant \<Rightarrow> pk \<Rightarrow> pk \<Rightarrow> db \<Rightarrow> db \<times> bool" where
  "link_device_to now d app s =
     (case link_of s d app of
        None \<Rightarrow> (s\<lparr>links := links s @ [\<lparr>link_id = next_pk s, link_device = d, link_application = app, link_is_active = True,
                   linked_at = now, unlinked_at = None, unlink_source = None\<rparr>], next_pk := Suc (next_pk s)\<rparr>, True)
      | Some l \<Rightarrow>
          (if link_is_active l then s
           else put_links (\<lambda>r. link_id r = link_id l)
                  (\<lambda>r. r\<lparr>link_is_active := True, unlinked_at := None, unlink_source := None\<rparr>) s, False))"

definition device_link_with_app_token ::
    "secrets \<Rightarrow> instant \<Rightarrow> (db \<Rightarrow> db) \<Rightarrow> pk \<Rightarrow> device_request \<Rightarrow> db \<Rightarrow> db \<times> (pk \<times> bool \<times> bool \<times> pk) response" where
  "device_link_with_app_token x now race u r s =
     (case validate_device r of
        Inl e \<Rightarrow> (s, Invalid e)
      | Inr v \<Rightarrow>
          (case get_application_for_enrolment x now (dq_app_token v) s of
             (s1, Denied k c) \<Rightarrow> (s1, Refuse k c)
           | (s1, Granted a) \<Rightarrow>
               (let (s2, d, created) = upsert_authenticated_device now race u v s1;
                    (s3, link_created) = link_device_to now (dev_id d) (app_id a) s2
                in (s3, Reply 200 (dev_id d, created, link_created, app_id a)))))"

text \<open>The link of the caller's device to an application is cut, once; \<open>src\<close> says from where.\<close>

definition cut_link :: "instant \<Rightarrow> unlink_source \<Rightarrow> device_link \<Rightarrow> db \<Rightarrow> db" where
  "cut_link now src l = put_links (\<lambda>r. link_id r = link_id l)
     (\<lambda>r. r\<lparr>link_is_active := False, unlinked_at := Some now, unlink_source := Some src\<rparr>)"

definition own_device_with_token :: "db \<Rightarrow> pk \<Rightarrow> string \<Rightarrow> device option" where
  "own_device_with_token s u tok = List.find (\<lambda>d. push_token d = tok \<and> dev_user d = Some u) (devices s)"

definition unlink_own_device :: "instant \<Rightarrow> unlink_source \<Rightarrow> pk \<Rightarrow> string \<Rightarrow> pk \<Rightarrow> db \<Rightarrow> db \<times> pk option \<times> bool" where
  "unlink_own_device now src u tok app s =
     (case own_device_with_token s u tok of
        None \<Rightarrow> (s, None, False)
      | Some d \<Rightarrow>
          (case List.find (\<lambda>l. link_application l = app \<and> link_is_active l) (links_of_device s (dev_id d)) of
             None \<Rightarrow> (s, Some (dev_id d), False)
           | Some l \<Rightarrow> (cut_link now src l s, Some (dev_id d), True)))"

definition device_unlink_with_app_token ::
    "secrets \<Rightarrow> instant \<Rightarrow> pk \<Rightarrow> string \<Rightarrow> string \<Rightarrow> db \<Rightarrow> db \<times> (pk option \<times> pk \<times> bool) response" where
  "device_unlink_with_app_token x now u code tok s =
     (let e1 = (if strip code = [] then add_error [] ''app_token'' ''This field may not be blank.'' else []);
          e2 = (if strip tok = [] then add_error e1 ''push_token'' ''This field may not be blank.''
                else bounded ''push_token'' 20 512 (strip tok) e1)
      in if e2 \<noteq> [] then (s, Invalid e2)
         else case get_application_for_enrolment x now (Some (strip code)) s of
           (s1, Denied k c) \<Rightarrow> (s1, Refuse k c)
         | (s1, Granted a) \<Rightarrow>
             (let (s2, d, unlinked) = unlink_own_device now Device_Button u (strip tok) (app_id a) s1
              in (s2, Reply 200 (d, app_id a, unlinked))))"

definition device_unlink_by_application :: "instant \<Rightarrow> pk \<Rightarrow> string \<Rightarrow> pk \<Rightarrow> db \<Rightarrow> db \<times> (pk option \<times> pk \<times> bool) response" where
  "device_unlink_by_application now u tok app s =
     (if strip tok = [] then (s, Invalid [(''push_token'', [''This field may not be blank.''])])
      else (let (s1, d, unlinked) = unlink_own_device now Inbox u (strip tok) app s
            in (s1, Reply 200 (d, app, unlinked))))"

text \<open>\<open>ApplicationDeviceEvictApiView.delete\<close>: the owner removes a subscriber.\<close>

definition device_evict :: "instant \<Rightarrow> pk \<Rightarrow> pk \<Rightarrow> pk \<Rightarrow> db \<Rightarrow> db \<times> unit response" where
  "device_evict now u app d s =
     (case own_application s u app of
        None \<Rightarrow> (s, Refuse 404 ''application_not_found'')
      | Some a \<Rightarrow>
          (case link_of s d app of
             None \<Rightarrow> (s, Refuse 404 ''device_not_linked'')
           | Some l \<Rightarrow> (if link_is_active l then cut_link now Owner_Eviction l s else s, Reply 204 ())))"

section \<open>Consistency of devices and links\<close>

definition links_ok :: "db \<Rightarrow> bool" where
  "links_ok s \<longleftrightarrow> distinct (map link_id (links s)) \<and>
     distinct (map (\<lambda>l. (link_device l, link_application l)) (links s)) \<and> (\<forall>l \<in> set (links s). link_id l < next_pk s)"

definition devices_ok :: "db \<Rightarrow> bool" where
  "devices_ok s \<longleftrightarrow> deliveries_ok s \<and> links_ok s \<and> distinct (map push_token (devices s)) \<and>
     (\<forall>d \<in> set (devices s). dev_id d < next_pk s)"

lemma link_by_id:
  "links_ok s \<Longrightarrow> l \<in> set (links s) \<Longrightarrow> m \<in> set (links s) \<Longrightarrow> link_id l = link_id m \<Longrightarrow> l = m"
  by (auto simp: links_ok_def distinct_map inj_on_def)

lemma link_by_pair:
  "links_ok s \<Longrightarrow> l \<in> set (links s) \<Longrightarrow> m \<in> set (links s) \<Longrightarrow> link_device l = link_device m \<Longrightarrow>
   link_application l = link_application m \<Longrightarrow> l = m"
  by (auto simp: links_ok_def distinct_map inj_on_def)

lemma device_by_id:
  "devices_ok s \<Longrightarrow> d \<in> set (devices s) \<Longrightarrow> e \<in> set (devices s) \<Longrightarrow> dev_id d = dev_id e \<Longrightarrow> d = e"
  by (auto simp: devices_ok_def deliveries_ok_def distinct_map inj_on_def)

lemma device_by_token:
  "devices_ok s \<Longrightarrow> d \<in> set (devices s) \<Longrightarrow> e \<in> set (devices s) \<Longrightarrow> push_token d = push_token e \<Longrightarrow> d = e"
  by (auto simp: devices_ok_def distinct_map inj_on_def)

lemma select_existing:
  "select_existing_device s tok = Some d \<Longrightarrow> d \<in> set (devices s) \<and> push_token d = tok"
  "select_existing_device s tok = None \<Longrightarrow> d \<in> set (devices s) \<Longrightarrow> push_token d \<noteq> tok"
  by (auto simp: select_existing_device_def find_None_iff dest: find_SomeD)

section \<open>Merging two devices\<close>

text \<open>What the loop over the source's links does to a row, in closed form.\<close>

definition moved :: "device_link list \<Rightarrow> device_link list \<Rightarrow> device_link \<Rightarrow> bool" where
  "moved had ls r \<longleftrightarrow> (\<exists>l \<in> set ls. link_id l = link_id r \<and> List.find (\<lambda>t. link_application t = link_application l) had = None)"

definition revived :: "device_link list \<Rightarrow> device_link list \<Rightarrow> device_link \<Rightarrow> bool" where
  "revived had ls r \<longleftrightarrow> (\<exists>l \<in> set ls. \<exists>e. List.find (\<lambda>t. link_application t = link_application l) had = Some e \<and>
     link_is_active l \<and> \<not> link_is_active e \<and> link_id e = link_id r)"

definition merged :: "device_link list \<Rightarrow> pk \<Rightarrow> device_link list \<Rightarrow> device_link \<Rightarrow> device_link" where
  "merged had t ls r =
     (let m = (if moved had ls r then r\<lparr>link_device := t\<rparr> else r)
      in if revived had ls r then m\<lparr>link_is_active := True, unlinked_at := None, unlink_source := None\<rparr> else m)"

lemma moved_Cons: "moved had (l # ls) r \<longleftrightarrow> moved had [l] r \<or> moved had ls r"
  by (auto simp: moved_def)

lemma revived_Cons: "revived had (l # ls) r \<longleftrightarrow> revived had [l] r \<or> revived had ls r"
  by (auto simp: revived_def)

lemma moved_id: "link_id r = link_id r' \<Longrightarrow> moved had ls r = moved had ls r'"
  by (simp add: moved_def)

lemma revived_id: "link_id r = link_id r' \<Longrightarrow> revived had ls r = revived had ls r'"
  by (simp add: revived_def)

lemma merged_id: "link_id (merged had t ls r) = link_id r"
  by (simp add: merged_def Let_def)

lemma merged_step: "merged had t ls (merged had t [l] r) = merged had t (l # ls) r"
proof -
  define q where "q = merged had t [l] r"
  have i: "link_id q = link_id r" unfolding q_def by (rule merged_id)
  have "merged had t ls q = (let m = (if moved had ls r then q\<lparr>link_device := t\<rparr> else q)
      in if revived had ls r then m\<lparr>link_is_active := True, unlinked_at := None, unlink_source := None\<rparr> else m)"
    unfolding merged_def[of had t ls q] moved_id[OF i] revived_id[OF i] ..
  then show ?thesis
    unfolding q_def merged_def[of had t "[l]" r] merged_def[of had t "l # ls" r] moved_Cons[of had l ls] revived_Cons[of had l ls]
    by (simp add: Let_def)
qed

lemma merge_link_rows: "merge_link had t l s = s\<lparr>links := map (merged had t [l]) (links s)\<rparr>"
proof (cases "List.find (\<lambda>x. link_application x = link_application l) had")
  case None
  then have "merged had t [l] r = (if link_id r = link_id l then r\<lparr>link_device := t\<rparr> else r)" for r
    by (auto simp: merged_def moved_def revived_def)
  then have "merged had t [l] = (\<lambda>r. if link_id r = link_id l then r\<lparr>link_device := t\<rparr> else r)" by blast
  then show ?thesis using None by (simp add: merge_link_def put_links_def update_where_def)
next
  case (Some e)
  then have "merged had t [l] r = (if link_is_active l \<and> \<not> link_is_active e \<and> link_id r = link_id e
      then r\<lparr>link_is_active := True, unlinked_at := None, unlink_source := None\<rparr> else r)" for r
    by (auto simp: merged_def moved_def revived_def)
  then have "merged had t [l] = (\<lambda>r. if link_is_active l \<and> \<not> link_is_active e \<and> link_id r = link_id e
      then r\<lparr>link_is_active := True, unlinked_at := None, unlink_source := None\<rparr> else r)" by blast
  then show ?thesis using Some by (auto simp: merge_link_def put_links_def update_where_def)
qed

lemma merge_links_rows: "fold (merge_link had t) ls s = s\<lparr>links := map (merged had t ls) (links s)\<rparr>"
proof (induction ls arbitrary: s)
  case Nil
  have "merged had t [] = id" by (auto simp: merged_def moved_def revived_def)
  then show ?case by simp
next
  case (Cons l ls)
  have "fold (merge_link had t) (l # ls) s = fold (merge_link had t) ls (s\<lparr>links := map (merged had t [l]) (links s)\<rparr>)"
    by (simp add: merge_link_rows[of had t l s])
  also have "\<dots> = s\<lparr>links := map (merged had t (l # ls)) (links s)\<rparr>"
    unfolding Cons.IH using merged_step[of had t ls l] by simp
  finally show ?case .
qed

lemma merged_keeps [simp]:
  "link_id (merged had t ls r) = link_id r" "link_application (merged had t ls r) = link_application r"
  "link_device (merged had t ls r) = (if moved had ls r then t else link_device r)"
  "link_is_active (merged had t ls r) = (link_is_active r \<or> revived had ls r)"
  by (simp_all add: merged_def Let_def)

definition merge_deliveries :: "pk \<Rightarrow> pk \<Rightarrow> db \<Rightarrow> delivery list" where
  "merge_deliveries src t s = filter (\<lambda>d. dlv_device d \<noteq> src)
     (update_where (\<lambda>d. dlv_device d = src \<and> (\<forall>e \<in> set (deliveries s). dlv_device e = t \<longrightarrow> dlv_notification e \<noteq> dlv_notification d))
       (\<lambda>d. d\<lparr>dlv_device := t\<rparr>) (deliveries s))"

lemma merge_state:
  assumes "source \<in> set (devices s)"
  shows "merge_device_into source target s = s\<lparr>
    devices := filter (\<lambda>d. dev_id d \<noteq> dev_id source) (devices s),
    deliveries := merge_deliveries (dev_id source) (dev_id target) s,
    links := filter (\<lambda>l. link_device l \<noteq> dev_id source)
      (map (merged (links_of_device s (dev_id target)) (dev_id target) (links_of_device s (dev_id source))) (links s)),
    device_quiet_periods := filter (\<lambda>q. qp_parent q \<noteq> dev_id source)
      (update_where (\<lambda>q. qp_parent q = dev_id source) (\<lambda>q. q\<lparr>qp_parent := dev_id target\<rparr>) (device_quiet_periods s))\<rparr>"
proof -
  have gone: "i \<notin> set (map dev_id (filter (\<lambda>d. dev_id d = dev_id source) (devices s))) \<longleftrightarrow> i \<noteq> dev_id source" for i
    using assms by auto
  have already: "n \<notin> set (map dlv_notification (filter (\<lambda>d. dlv_device d = t) ds)) \<longleftrightarrow>
      (\<forall>e \<in> set ds. dlv_device e = t \<longrightarrow> dlv_notification e \<noteq> n)" for n t and ds :: "delivery list"
    by auto
  show ?thesis
    unfolding merge_device_into_def merge_links_rows Let_def delete_devices_def put_deliveries_def merge_deliveries_def
    by (simp add: gone already del: set_map set_filter)
qed

text \<open>Nothing is lost: the target is linked to, and has received, what either device was.\<close>

lemma merge_links_union:
  assumes ok: "links_ok s" and ne: "dev_id source \<noteq> dev_id target" and src: "source \<in> set (devices s)"
  shows "actively_linked (merge_device_into source target s) (dev_id target) app \<longleftrightarrow>
    actively_linked s (dev_id target) app \<or> actively_linked s (dev_id source) app"
proof -
  define had where "had = links_of_device s (dev_id target)"
  define sl where "sl = links_of_device s (dev_id source)"
  have had: "e \<in> set had \<longleftrightarrow> e \<in> set (links s) \<and> link_device e = dev_id target" for e by (auto simp: had_def links_of_device_def)
  have sl: "e \<in> set sl \<longleftrightarrow> e \<in> set (links s) \<and> link_device e = dev_id source" for e by (auto simp: sl_def links_of_device_def)
  have links': "links (merge_device_into source target s) =
      filter (\<lambda>l. link_device l \<noteq> dev_id source) (map (merged had (dev_id target) sl) (links s))"
    unfolding merge_state[OF src] had_def sl_def by simp
  have al: "actively_linked s d app \<longleftrightarrow> (\<exists>l \<in> set (links s). link_device l = d \<and> link_application l = app \<and> link_is_active l)" for s d app
    by (auto simp: actively_linked_def list_ex_iff)
  have moved_src: "link_device r = dev_id source" if r: "r \<in> set (links s)" and m: "moved had sl r" for r
  proof -
    obtain l where "l \<in> set sl" "link_id l = link_id r" using m by (auto simp: moved_def)
    then show ?thesis using link_by_id[OF ok _ r, of l] sl by blast
  qed
  have revivedE: "link_device r = dev_id target \<and> actively_linked s (dev_id source) (link_application r)"
    if r: "r \<in> set (links s)" and rv: "revived had sl r" for r
  proof -
    obtain l e where le: "l \<in> set sl" "List.find (\<lambda>t. link_application t = link_application l) had = Some e"
      "link_is_active l" "link_id e = link_id r" using rv by (auto simp: revived_def)
    then have e: "e \<in> set had" "link_application e = link_application l" using find_SomeD[OF le(2)] by auto
    then have "e = r" using link_by_id[OF ok _ r] had le(4) by blast
    then show ?thesis using e le had sl by (auto simp: al)
  qed
  show ?thesis
  proof
    assume "actively_linked (merge_device_into source target s) (dev_id target) app"
    then obtain r where r: "r \<in> set (links s)" "link_device (merged had (dev_id target) sl r) = dev_id target"
      "link_application r = app" "link_is_active r \<or> revived had sl r"
      unfolding al links' by auto
    show "actively_linked s (dev_id target) app \<or> actively_linked s (dev_id source) app"
    proof (cases "revived had sl r")
      case True
      then show ?thesis using revivedE[OF r(1)] r(3) by blast
    next
      case False
      then have act: "link_is_active r" using r(4) by blast
      show ?thesis
      proof (cases "moved had sl r")
        case True
        then show ?thesis using moved_src[OF r(1)] act r(1,3) al by blast
      next
        case False
        then have "link_device r = dev_id target" using r(2) by simp
        then show ?thesis using act r(1,3) al by blast
      qed
    qed
  next
    have stay: "actively_linked (merge_device_into source target s) (dev_id target) app"
      if r: "r \<in> set (links s)" "link_device (merged had (dev_id target) sl r) = dev_id target" "link_application r = app"
        "link_is_active r \<or> revived had sl r" for r
      unfolding al links' using that ne by (intro bexI[of _ "merged had (dev_id target) sl r"]) auto
    assume "actively_linked s (dev_id target) app \<or> actively_linked s (dev_id source) app"
    then show "actively_linked (merge_device_into source target s) (dev_id target) app"
    proof
      assume "actively_linked s (dev_id target) app"
      then obtain r where "r \<in> set (links s)" "link_device r = dev_id target" "link_application r = app" "link_is_active r"
        using al by blast
      then show ?thesis by (intro stay) auto
    next
      assume "actively_linked s (dev_id source) app"
      then obtain l where l: "l \<in> set (links s)" "link_device l = dev_id source" "link_application l = app" "link_is_active l"
        using al by blast
      then have "l \<in> set sl" using sl by blast
      show ?thesis
      proof (cases "List.find (\<lambda>t. link_application t = link_application l) had")
        case None
        then have "moved had sl l" unfolding moved_def using \<open>l \<in> set sl\<close> by blast
        then show ?thesis using l by (intro stay[of l]) auto
      next
        case (Some e)
        then have e: "e \<in> set had" "link_application e = app" using find_SomeD[OF Some] l(3) by auto
        have "link_is_active e \<or> revived had sl e" unfolding revived_def using \<open>l \<in> set sl\<close> Some l(4) by blast
        then show ?thesis using e had by (intro stay[of e]) auto
      qed
    qed
  qed
qed

lemma distinct_map_filter_map:
  assumes "distinct xs"
    and "\<And>x y. x \<in> set xs \<Longrightarrow> y \<in> set xs \<Longrightarrow> P (h x) \<Longrightarrow> P (h y) \<Longrightarrow> f (h x) = f (h y) \<Longrightarrow> x = y"
  shows "distinct (map f (filter P (map h xs)))"
  using assms
proof (induction xs)
  case (Cons x xs)
  have "f (h x) \<notin> f ` {y \<in> h ` set xs. P y}" if "P (h x)"
  proof
    assume "f (h x) \<in> f ` {y \<in> h ` set xs. P y}"
    then obtain y where "y \<in> set xs" "P (h y)" "f (h x) = f (h y)" by blast
    then show False using Cons.prems(1) Cons.prems(2)[of x y] that by auto
  qed
  moreover have "distinct (map f (filter P (map h xs)))"
    by (rule Cons.IH) (use Cons.prems in auto)
  ultimately show ?case by simp
qed simp

lemma merge_deliveries_union:
  assumes "src \<noteq> t"
  shows "(\<exists>d \<in> set (merge_deliveries src t s). dlv_device d = t \<and> dlv_notification d = n) \<longleftrightarrow>
    (\<exists>d \<in> set (deliveries s). (dlv_device d = src \<or> dlv_device d = t) \<and> dlv_notification d = n)"
proof -
  define free :: "delivery \<Rightarrow> bool" where "free d \<longleftrightarrow> dlv_device d = src \<and>
    (\<forall>e \<in> set (deliveries s). dlv_device e = t \<longrightarrow> dlv_notification e \<noteq> dlv_notification d)" for d
  have m: "d \<in> set (merge_deliveries src t s) \<longleftrightarrow> dlv_device d \<noteq> src \<and>
      (d \<in> set (deliveries s) \<and> \<not> free d \<or> (\<exists>e \<in> set (deliveries s). free e \<and> d = e\<lparr>dlv_device := t\<rparr>))" for d
    unfolding merge_deliveries_def set_filter set_update_where free_def[symmetric] by blast
  show ?thesis
  proof
    assume "\<exists>d \<in> set (merge_deliveries src t s). dlv_device d = t \<and> dlv_notification d = n"
    then obtain d where "d \<in> set (merge_deliveries src t s)" "dlv_device d = t" "dlv_notification d = n" by blast
    then consider "d \<in> set (deliveries s)" | e where "e \<in> set (deliveries s)" "free e" "d = e\<lparr>dlv_device := t\<rparr>"
      using m by blast
    then show "\<exists>d \<in> set (deliveries s). (dlv_device d = src \<or> dlv_device d = t) \<and> dlv_notification d = n"
    proof cases
      case 1
      then show ?thesis using \<open>dlv_device d = t\<close> \<open>dlv_notification d = n\<close> by blast
    next
      case (2 e)
      then show ?thesis using \<open>dlv_notification d = n\<close> by (intro bexI[of _ e]) (simp_all add: free_def)
    qed
  next
    assume "\<exists>d \<in> set (deliveries s). (dlv_device d = src \<or> dlv_device d = t) \<and> dlv_notification d = n"
    then obtain d where d: "d \<in> set (deliveries s)" "dlv_device d = src \<or> dlv_device d = t" "dlv_notification d = n" by blast
    show "\<exists>d \<in> set (merge_deliveries src t s). dlv_device d = t \<and> dlv_notification d = n"
    proof (cases "free d")
      case True
      then have "d\<lparr>dlv_device := t\<rparr> \<in> set (merge_deliveries src t s)" unfolding m using d(1) assms by auto
      then show ?thesis using d(3) by (intro bexI[of _ "d\<lparr>dlv_device := t\<rparr>"]) simp_all
    next
      case False
      then obtain e where e: "e \<in> set (deliveries s)" "dlv_device e = t" "dlv_notification e = n"
        using d unfolding free_def by blast
      then have "\<not> free e" using assms by (simp add: free_def)
      then show ?thesis using e assms m by (intro bexI[of _ e]) simp_all
    qed
  qed
qed

lemma merge_deliveries_map:
  "merge_deliveries src t s = filter (\<lambda>d. dlv_device d \<noteq> src)
     (map (\<lambda>d. if dlv_device d = src \<and> (\<forall>e \<in> set (deliveries s). dlv_device e = t \<longrightarrow> dlv_notification e \<noteq> dlv_notification d)
       then d\<lparr>dlv_device := t\<rparr> else d) (deliveries s))"
  by (simp add: merge_deliveries_def update_where_def)

lemma merge_deliveries_pairs:
  assumes "distinct (map dlv_id (deliveries s))" "distinct (map (\<lambda>d. (dlv_notification d, dlv_device d)) (deliveries s))" "src \<noteq> t"
  shows "distinct (map (\<lambda>d. (dlv_notification d, dlv_device d)) (merge_deliveries src t s))"
  unfolding merge_deliveries_map
proof (rule distinct_map_filter_map)
  show "distinct (deliveries s)" using assms(1) by (simp add: distinct_map)
  fix x y
  assume x: "x \<in> set (deliveries s)" and y: "y \<in> set (deliveries s)"
  let ?h = "\<lambda>d. if dlv_device d = src \<and> (\<forall>e \<in> set (deliveries s). dlv_device e = t \<longrightarrow> dlv_notification e \<noteq> dlv_notification d)
       then d\<lparr>dlv_device := t\<rparr> else d"
  assume px: "dlv_device (?h x) \<noteq> src" and py: "dlv_device (?h y) \<noteq> src"
    and eq: "(dlv_notification (?h x), dlv_device (?h x)) = (dlv_notification (?h y), dlv_device (?h y))"
  have inj: "dlv_notification x = dlv_notification y \<Longrightarrow> dlv_device x = dlv_device y \<Longrightarrow> x = y"
    using assms(2) x y by (auto simp: distinct_map inj_on_def)
  show "x = y"
    using px py eq x y inj by (cases "dlv_device x = src"; cases "dlv_device y = src") (auto split: if_splits)
qed

lemma merged_pairs:
  assumes ok: "links_ok s" and ne: "src \<noteq> t"
  defines "g \<equiv> merged (links_of_device s t) t (links_of_device s src)"
  shows "distinct (map (\<lambda>l. (link_device l, link_application l)) (filter (\<lambda>l. link_device l \<noteq> src) (map g (links s))))"
proof (rule distinct_map_filter_map)
  show "distinct (links s)" using ok by (simp add: links_ok_def distinct_map)
  fix x y
  assume x: "x \<in> set (links s)" and y: "y \<in> set (links s)"
    and px: "link_device (g x) \<noteq> src" and py: "link_device (g y) \<noteq> src"
    and eq: "(link_device (g x), link_application (g x)) = (link_device (g y), link_application (g y))"
  let ?had = "links_of_device s t" and ?ls = "links_of_device s src"
  have mv: "link_device r = src \<and> (\<forall>e \<in> set (links s). link_device e = t \<longrightarrow> link_application e \<noteq> link_application r)"
    if r: "r \<in> set (links s)" and m: "moved ?had ?ls r" for r
  proof -
    obtain l where l: "l \<in> set ?ls" "link_id l = link_id r"
      "List.find (\<lambda>u. link_application u = link_application l) ?had = None" using m by (auto simp: moved_def)
    then have "l \<in> set (links s)" "link_device l = src" by (auto simp: links_of_device_def)
    moreover from this l(2) have "l = r" using link_by_id[OF ok _ r] by blast
    ultimately show ?thesis using l(3) by (auto simp: find_None_iff links_of_device_def)
  qed
  have app: "link_application x = link_application y" using eq by (simp add: g_def)
  have "link_device x = link_device y"
  proof (cases "moved ?had ?ls x"; cases "moved ?had ?ls y")
    assume "moved ?had ?ls x" "moved ?had ?ls y"
    then show ?thesis using mv[OF x] mv[OF y] by simp
  next
    assume "moved ?had ?ls x" "\<not> moved ?had ?ls y"
    moreover from this have "link_device y = t" using eq by (simp add: g_def)
    ultimately show ?thesis using mv[OF x] y app by fastforce
  next
    assume "\<not> moved ?had ?ls x" "moved ?had ?ls y"
    moreover from this have "link_device x = t" using eq by (simp add: g_def)
    ultimately show ?thesis using mv[OF y] x app by fastforce
  next
    assume "\<not> moved ?had ?ls x" "\<not> moved ?had ?ls y"
    then show ?thesis using eq by (simp add: g_def)
  qed
  then show "x = y" using link_by_pair[OF ok x y] app by blast
qed

lemma links_ok_merge:
  assumes ok: "links_ok s" and "source \<in> set (devices s)" and "dev_id source \<noteq> dev_id target"
  shows "links_ok (merge_device_into source target s)"
proof -
  have "map link_id (map (merged h t ls) (links s)) = map link_id (links s)" for h t ls by simp
  then have "distinct (map link_id (map (merged h t ls) (links s)))" for h t ls using ok by (simp only: links_ok_def)
  then have "distinct (map link_id (filter P (map (merged h t ls) (links s))))" for h t ls P
    by (rule distinct_map_filter)
  moreover have "\<forall>l \<in> set (filter P (map (merged h t ls) (links s))). link_id l < next_pk s" for h t ls P
    using ok by (auto simp: links_ok_def)
  ultimately show ?thesis
    using merged_pairs[OF ok assms(3)] unfolding links_ok_def merge_state[OF assms(2)]
    by (simp del: filter_map set_map map_map set_filter)
qed

lemma devices_ok_merge:
  assumes ok: "devices_ok s" and src: "source \<in> set (devices s)" and tgt: "target \<in> set (devices s)"
    and ne: "dev_id source \<noteq> dev_id target"
  shows "devices_ok (merge_device_into source target s)"
proof -
  let ?ds = "merge_deliveries (dev_id source) (dev_id target) s"
  have d: "distinct (map dlv_id (deliveries s))" "distinct (map (\<lambda>d. (dlv_notification d, dlv_device d)) (deliveries s))"
      "\<forall>d \<in> set (deliveries s). dlv_id d < next_pk s" "distinct (map dev_id (devices s))"
      "dlv_device ` set (deliveries s) \<subseteq> dev_id ` set (devices s)" and links: "links_ok s"
    and v: "distinct (map push_token (devices s))" "\<forall>d \<in> set (devices s). dev_id d < next_pk s"
    using ok by (auto simp: devices_ok_def deliveries_ok_def)
  have "distinct (map dlv_id ?ds)"
    unfolding merge_deliveries_def by (rule distinct_map_filter) (simp add: map_update_where d(1))
  moreover have "distinct (map (\<lambda>d. (dlv_notification d, dlv_device d)) ?ds)"
    by (rule merge_deliveries_pairs[OF d(1,2) ne])
  moreover have "\<forall>x \<in> set ?ds. dlv_id x < next_pk s"
    using d(3) unfolding merge_deliveries_def set_filter set_update_where by auto
  moreover have "dlv_device ` set ?ds \<subseteq> dev_id ` set (filter (\<lambda>d. dev_id d \<noteq> dev_id source) (devices s))"
  proof
    fix i
    assume "i \<in> dlv_device ` set ?ds"
    then have "i \<noteq> dev_id source" "i = dev_id target \<or> i \<in> dlv_device ` set (deliveries s)"
      unfolding merge_deliveries_def set_filter set_update_where by auto
    then show "i \<in> dev_id ` set (filter (\<lambda>d. dev_id d \<noteq> dev_id source) (devices s))" using d(5) tgt by force
  qed
  moreover have "distinct (map dev_id (filter (\<lambda>d. dev_id d \<noteq> dev_id source) (devices s)))"
    "distinct (map push_token (filter (\<lambda>d. dev_id d \<noteq> dev_id source) (devices s)))"
    using d(4) v(1) by (simp_all add: distinct_map_filter)
  ultimately show ?thesis
    using links_ok_merge[OF links src ne] v(2) unfolding devices_ok_def deliveries_ok_def links_ok_def merge_state[OF src]
    by (simp del: filter_map set_map map_map set_filter) auto
qed

section \<open>What an identification keeps\<close>

lemma devices_ok_put_links:
  assumes "devices_ok s" and keep: "\<And>l. link_id (f l) = link_id l" "\<And>l. link_device (f l) = link_device l"
    "\<And>l. link_application (f l) = link_application l"
  shows "devices_ok (put_links P f s)"
proof -
  have "map (\<lambda>l. (link_device l, link_application l)) (update_where P f (links s)) = map (\<lambda>l. (link_device l, link_application l)) (links s)"
    by (rule map_update_where) (simp add: keep)
  moreover have "map link_id (update_where P f (links s)) = map link_id (links s)"
    by (rule map_update_where) (simp add: keep)
  moreover have "\<forall>l \<in> set (update_where P f (links s)). link_id l < next_pk s"
    using assms(1) by (auto simp: devices_ok_def links_ok_def set_update_where keep)
  ultimately show ?thesis using assms(1)
    by (simp add: devices_ok_def links_ok_def deliveries_ok_def put_links_def)
qed

lemma devices_ok_put_device:
  assumes ok: "devices_ok s" and old: "old \<in> set (devices s)" and keep: "\<And>d. dev_id (f d) = dev_id d"
    and tok: "\<And>d. push_token (f d) = push_token (f old)"
    and free: "\<And>d. d \<in> set (devices s) \<Longrightarrow> push_token d = push_token (f old) \<Longrightarrow> d = old"
  shows "devices_ok (put_devices (\<lambda>d. dev_id d = dev_id old) f s)"
proof -
  let ?ds = "update_where (\<lambda>d. dev_id d = dev_id old) f (devices s)"
  have ids: "map dev_id ?ds = map dev_id (devices s)" by (rule map_update_where) (rule keep)
  have one: "d \<in> set (devices s) \<Longrightarrow> dev_id d = dev_id old \<longleftrightarrow> d = old" for d using device_by_id[OF ok _ old] by blast
  have "distinct (map push_token ?ds)"
  proof -
    have "distinct (devices s)" using ok by (simp add: devices_ok_def distinct_map)
    then have "distinct (map push_token (filter (\<lambda>_. True) (map (\<lambda>d. if dev_id d = dev_id old then f d else d) (devices s))))"
    proof (rule distinct_map_filter_map)
      fix x y
      assume x: "x \<in> set (devices s)" and y: "y \<in> set (devices s)"
        and eq: "push_token (if dev_id x = dev_id old then f x else x) = push_token (if dev_id y = dev_id old then f y else y)"
      show "x = y"
        using eq one[OF x] one[OF y] free[OF x] free[OF y] tok device_by_token[OF ok x y]
        by (cases "x = old"; cases "y = old") (auto split: if_splits)
    qed
    then show ?thesis by (simp add: update_where_def)
  qed
  moreover have "\<forall>d \<in> set ?ds. dev_id d < next_pk s" using ok by (auto simp: devices_ok_def set_update_where keep)
  moreover have "dev_id ` set ?ds = dev_id ` set (devices s)" using arg_cong[OF ids, of set] by (simp only: set_map)
  ultimately show ?thesis using ok ids
    unfolding devices_ok_def deliveries_ok_def links_ok_def put_devices_def by (simp del: set_map)
qed

lemma take_over_ok: "devices_ok s \<Longrightarrow> devices_ok (take_over now u d s)"
  by (simp add: take_over_def devices_ok_put_links)

lemma take_over_devices [simp]: "devices (take_over now u d s) = devices s" "deliveries (take_over now u d s) = deliveries s"
  by (simp_all add: take_over_def)

lemma device_fields_keeps [simp]:
  "dev_id (device_fields now u r d) = dev_id d" "push_token (device_fields now u r d) = push_token d"
  by (simp_all add: device_fields_def)

definition fresh :: "pk \<Rightarrow> device_request \<Rightarrow> device \<Rightarrow> bool" where
  "fresh u r d \<longleftrightarrow> push_token d = dq_push_token r \<and> dev_user d = Some u \<and> push_token_status d = T_Active \<and> dev_is_active d"

lemma refreshed:
  assumes ok: "devices_ok s" and d: "d \<in> set (devices s)" "push_token d = dq_push_token r"
    and run: "refresh_device now u r d s = (s', d')"
  shows "devices_ok s' \<and> d' \<in> set (devices s') \<and> fresh u r d'"
proof -
  let ?t = "take_over now u d s"
  have s': "s' = put_devices (\<lambda>x. dev_id x = dev_id d) (device_fields now u r) ?t" and d': "d' = device_fields now u r d"
    using run by (auto simp: refresh_device_def)
  have "devices_ok s'"
    unfolding s' put_devices_def
  proof -
    have ids: "map dev_id (update_where (\<lambda>x. dev_id x = dev_id d) (device_fields now u r) (devices s)) = map dev_id (devices s)"
      by (rule map_update_where) simp
    have toks: "map push_token (update_where (\<lambda>x. dev_id x = dev_id d) (device_fields now u r) (devices s)) = map push_token (devices s)"
      by (rule map_update_where) simp
    have "dev_id ` set (update_where (\<lambda>x. dev_id x = dev_id d) (device_fields now u r) (devices s)) = dev_id ` set (devices s)"
      using arg_cong[OF ids, of set] by (simp only: set_map)
    moreover have "\<forall>x \<in> set (update_where (\<lambda>x. dev_id x = dev_id d) (device_fields now u r) (devices s)). dev_id x < next_pk ?t"
      using take_over_ok[OF ok, of now u d] by (auto simp: devices_ok_def set_update_where)
    ultimately show "devices_ok (?t\<lparr>devices := update_where (\<lambda>x. dev_id x = dev_id d) (device_fields now u r) (devices ?t)\<rparr>)"
      using take_over_ok[OF ok, of now u d] ids toks
      unfolding devices_ok_def deliveries_ok_def links_ok_def by (simp del: set_map)
  qed
  moreover have "d' \<in> set (devices s')"
    unfolding s' d' put_devices_def using d(1) by (auto simp: set_update_where)
  moreover have "fresh u r d'" unfolding d' fresh_def using d(2) by (simp add: device_fields_def)
  ultimately show ?thesis by blast
qed

text \<open>A rotation, in its two cases.\<close>

definition rotated :: "instant \<Rightarrow> pk \<Rightarrow> device_request \<Rightarrow> device \<Rightarrow> db \<Rightarrow> db" where
  "rotated now u r old t = put_devices (\<lambda>x. dev_id x = dev_id old)
     (\<lambda>x. device_fields now u r (x\<lparr>push_token := dq_push_token r\<rparr>)) t"

lemma rotate_cases:
  assumes "rotate_push_token now u r s = Some (s', d)"
  obtains old where "old \<in> set (devices s)" "dev_user old = Some u" "\<exists>p. dq_previous r = Some p \<and> push_token old = strip p"
    "push_token old \<noteq> dq_push_token r" "d = device_fields now u r (old\<lparr>push_token := dq_push_token r\<rparr>)"
    "(\<forall>c \<in> set (devices s). push_token c \<noteq> dq_push_token r) \<and> s' = rotated now u r old s \<or>
     (\<exists>c. c \<in> set (devices s) \<and> push_token c = dq_push_token r \<and> s' = rotated now u r old (merge_device_into c old s))"
proof -
  from assms obtain p where p: "dq_previous r = Some p" "strip p \<noteq> []" "strip p \<noteq> dq_push_token r"
    by (auto simp: rotate_push_token_def Let_def split: if_splits option.splits)
  then obtain old where old: "select_existing_device s (strip p) = Some old" "dev_user old = Some u"
    using assms by (auto simp: rotate_push_token_def Let_def split: if_splits option.splits)
  note o = select_existing(1)[OF old(1)]
  have stay: "take_over now u old t = t" for t by (simp add: take_over_def changes_hands_def old(2))
  show ?thesis
  proof (cases "select_existing_device s (dq_push_token r)")
    case None
    have "s' = rotated now u r old s" "d = device_fields now u r (old\<lparr>push_token := dq_push_token r\<rparr>)"
      using assms p old None by (auto simp: rotate_push_token_def Let_def stay rotated_def)
    then show ?thesis using that[of old] o old p select_existing(2)[OF None] by blast
  next
    case (Some c)
    have "s' = rotated now u r old (merge_device_into c old s)" "d = device_fields now u r (old\<lparr>push_token := dq_push_token r\<rparr>)"
      using assms p old Some by (auto simp: rotate_push_token_def Let_def stay rotated_def split: if_splits)
    moreover have "c \<in> set (devices s) \<and> push_token c = dq_push_token r" using select_existing(1)[OF Some] .
    ultimately show ?thesis using o old p by (intro that[of old]) (simp_all, metis+)
  qed
qed

lemma rotated_ok:
  assumes ok: "devices_ok t" and old: "old \<in> set (devices t)"
    and free: "\<And>c. c \<in> set (devices t) \<Longrightarrow> push_token c = dq_push_token r \<Longrightarrow> c = old"
    and d: "d = device_fields now u r (old\<lparr>push_token := dq_push_token r\<rparr>)"
  shows "devices_ok (rotated now u r old t) \<and> d \<in> set (devices (rotated now u r old t)) \<and> fresh u r d"
proof -
  have "devices_ok (rotated now u r old t)"
    unfolding rotated_def by (rule devices_ok_put_device[OF ok old]) (simp_all add: free)
  moreover have "d \<in> set (devices (rotated now u r old t))"
    unfolding d rotated_def put_devices_def using old by (auto simp: set_update_where)
  moreover have "fresh u r d" unfolding d fresh_def by (simp add: device_fields_def)
  ultimately show ?thesis by blast
qed

lemma rotate_ok:
  assumes ok: "devices_ok s" and run: "rotate_push_token now u r s = Some (s', d)"
  shows "devices_ok s' \<and> d \<in> set (devices s') \<and> fresh u r d"
  using run
proof (cases rule: rotate_cases)
  case (1 old)
  from 1(6) show ?thesis
  proof
    assume a: "(\<forall>c \<in> set (devices s). push_token c \<noteq> dq_push_token r) \<and> s' = rotated now u r old s"
    then show ?thesis using rotated_ok[OF ok 1(1) _ 1(5)] by blast
  next
    assume "\<exists>c. c \<in> set (devices s) \<and> push_token c = dq_push_token r \<and> s' = rotated now u r old (merge_device_into c old s)"
    then obtain c where c: "c \<in> set (devices s)" "push_token c = dq_push_token r" "s' = rotated now u r old (merge_device_into c old s)" by blast
    have ne: "dev_id c \<noteq> dev_id old" using device_by_id[OF ok c(1) 1(1)] c(2) 1(4) by blast
    have rows: "devices (merge_device_into c old s) = filter (\<lambda>d. dev_id d \<noteq> dev_id c) (devices s)"
      unfolding merge_state[OF c(1)] by simp
    have "x = old" if "x \<in> set (devices (merge_device_into c old s))" "push_token x = dq_push_token r" for x
      using that device_by_token[OF ok _ c(1), of x] c(2) unfolding rows by auto
    moreover have "old \<in> set (devices (merge_device_into c old s))" unfolding rows using 1(1) ne by auto
    ultimately show ?thesis
      unfolding c(3) using rotated_ok[OF devices_ok_merge[OF ok c(1) 1(1) ne] _ _ 1(5)] by blast
  qed
qed

lemma filter_update_where_other:
  "(\<And>r. P r \<Longrightarrow> \<not> Q r \<and> \<not> Q (f r)) \<Longrightarrow> filter Q (update_where P f rs) = filter Q rs"
  by (induction rs) auto

lemma filter_eq_single: "distinct xs \<Longrightarrow> d \<in> set xs \<Longrightarrow> filter (\<lambda>x. x = d) xs = [d]"
  by (induction xs) (auto simp: filter_empty_conv)

text \<open>
  Identifying a device, whatever other requests commit meanwhile (they keep the tables
  consistent), leaves exactly one device with the push token: the one answered, active and owned by
  the caller; and the tables stay consistent (keys, push tokens, links and deliveries unique).
\<close>

theorem identified_device_is_unique:
  assumes "devices_ok s" and "devices_ok (race s)"
    and run: "upsert_authenticated_device now race u r s = (s', d, created)"
  shows "devices_ok s' \<and> filter (\<lambda>x. push_token x = dq_push_token r) (devices s') = [d] \<and>
    dev_user d = Some u \<and> push_token_status d = T_Active \<and> dev_is_active d"
proof -
  have "devices_ok s' \<and> d \<in> set (devices s') \<and> fresh u r d"
  proof (cases "rotate_push_token now u r s")
    case (Some sd)
    then show ?thesis using run rotate_ok[OF assms(1), of now u r] by (cases sd) (simp add: upsert_authenticated_device_def)
  next
    case rot: None
    show ?thesis
    proof (cases "select_existing_device s (dq_push_token r)")
      case (Some v)
      then have "refresh_device now u r v s = (s', d)"
        using run rot by (simp add: upsert_authenticated_device_def split: prod.splits)
      then show ?thesis using refreshed[OF assms(1)] select_existing(1)[OF Some] by blast
    next
      case none: None
      show ?thesis
      proof (cases "select_existing_device (race s) (dq_push_token r)")
        case (Some v)
        then have "refresh_device now u r v (race s) = (s', d)"
          using run rot none by (simp add: upsert_authenticated_device_def split: prod.splits)
        then show ?thesis using refreshed[OF assms(2)] select_existing(1)[OF Some] by blast
      next
        case None
        let ?t = "race s"
        have d: "d = device_fields now u r (new_device (next_pk ?t) (dq_push_token r) now)"
          and s': "s' = ?t\<lparr>devices := devices ?t @ [d], next_pk := Suc (next_pk ?t)\<rparr>"
          using run rot none None by (auto simp: upsert_authenticated_device_def Let_def)
        have f: "fresh u r d" "dev_id d = next_pk ?t" unfolding d by (simp_all add: fresh_def device_fields_def new_device_def)
        have "devices_ok s'"
        proof -
          have "push_token d \<notin> push_token ` set (devices ?t)"
            using select_existing(2)[OF None] f(1) by (fastforce simp: fresh_def)
          moreover have "dev_id d \<notin> dev_id ` set (devices ?t)" using assms(2) f(2) by (fastforce simp: devices_ok_def)
          moreover have "\<forall>x \<in> set (devices ?t). dev_id x < Suc (next_pk ?t)"
            "\<forall>x \<in> set (deliveries ?t). dlv_id x < Suc (next_pk ?t)" "\<forall>x \<in> set (links ?t). link_id x < Suc (next_pk ?t)"
            using assms(2) by (auto simp: devices_ok_def deliveries_ok_def links_ok_def less_SucI)
          ultimately show ?thesis
            unfolding s' using assms(2) f(2) by (auto simp: devices_ok_def deliveries_ok_def links_ok_def)
        qed
        then show ?thesis using f(1) s' by simp
      qed
    qed
  qed
  then have ok: "devices_ok s'" and d: "d \<in> set (devices s')" and f: "fresh u r d" by blast+
  have "x \<in> set (devices s') \<Longrightarrow> push_token x = dq_push_token r \<longleftrightarrow> x = d" for x
    using device_by_token[OF ok _ d] f by (auto simp: fresh_def)
  then have "filter (\<lambda>x. push_token x = dq_push_token r) (devices s') = filter (\<lambda>x. x = d) (devices s')"
    by (rule filter_cong[OF refl])
  moreover have "distinct (devices s')" using ok by (simp add: devices_ok_def distinct_map)
  then have "filter (\<lambda>x. x = d) (devices s') = [d]" using d by (rule filter_eq_single)
  ultimately show ?thesis using ok f by (simp add: fresh_def)
qed

text \<open>
  When a push token changes hands, nothing meant for the previous owner reaches the new one:
  the row is the same device, none of its links is active any more, and the links of every other
  device are as before.
\<close>

theorem takeover_cuts_every_link:
  assumes "select_existing_device s (dq_push_token r) = Some v" and "changes_hands u v"
    and "upsert_authenticated_device now race u r s = (s', d, created)"
  shows "dev_id d = dev_id v \<and> \<not> created \<and> \<not> actively_linked s' (dev_id v) app \<and>
    (other = dev_id v \<or> filter (\<lambda>l. link_device l = other) (links s') = filter (\<lambda>l. link_device l = other) (links s))"
proof -
  have "rotate_push_token now u r s = None"
    using assms(1,2) by (auto simp: rotate_push_token_def Let_def changes_hands_def split: option.split)
  then have run: "refresh_device now u r v s = (s', d)" "\<not> created"
    using assms(1,3) by (auto simp: upsert_authenticated_device_def split: prod.splits)
  let ?cut = "\<lambda>l. l\<lparr>link_is_active := False, unlinked_at := Some now, unlink_source := Some Takeover\<rparr>"
  have links: "links s' = update_where (\<lambda>l. link_device l = dev_id v \<and> link_is_active l) ?cut (links s)"
    using run(1) assms(2) by (auto simp: refresh_device_def take_over_def put_devices_def put_links_def)
  have "filter (\<lambda>l. link_device l = other) (links s') = filter (\<lambda>l. link_device l = other) (links s)" if "other \<noteq> dev_id v"
    unfolding links by (rule filter_update_where_other) (use that in auto)
  moreover have "\<not> actively_linked s' (dev_id v) app"
    unfolding actively_linked_def links list_ex_iff set_update_where by auto
  moreover have "dev_id d = dev_id v" using run(1) by (auto simp: refresh_device_def)
  ultimately show ?thesis using run(2) by blast
qed

definition received :: "db \<Rightarrow> pk \<Rightarrow> pk \<Rightarrow> bool" where
  "received s d n \<longleftrightarrow> (\<exists>x \<in> set (deliveries s). dlv_device x = d \<and> dlv_notification x = n)"

text \<open>
  A token rotation loses nothing: the device the caller had keeps its key and gets the new
  token, it is linked to and has received exactly what it or the device that carried the new token
  already was, and no other row carries the old token.
\<close>

theorem rotation_loses_nothing:
  assumes ok: "devices_ok s" and run: "rotate_push_token now u r s = Some (s', d)"
  shows "\<exists>old \<in> set (devices s). dev_user old = Some u \<and> dev_id d = dev_id old \<and> push_token d = dq_push_token r \<and>
    (actively_linked s' (dev_id old) app \<longleftrightarrow> actively_linked s (dev_id old) app \<or>
       (\<exists>c \<in> set (devices s). push_token c = dq_push_token r \<and> actively_linked s (dev_id c) app)) \<and>
    (received s' (dev_id old) n \<longleftrightarrow> received s (dev_id old) n \<or>
       (\<exists>c \<in> set (devices s). push_token c = dq_push_token r \<and> received s (dev_id c) n)) \<and>
    push_token old \<notin> push_token ` set (devices s')"
  using run
proof (cases rule: rotate_cases)
  case (1 old)
  have frame: "actively_linked (rotated now u r old t) = actively_linked t" "received (rotated now u r old t) = received t" for t
    by (simp_all add: fun_eq_iff actively_linked_def received_def rotated_def put_devices_def)
  have gone: "push_token old \<notin> push_token ` set (devices (rotated now u r old t))" if "set (devices t) \<subseteq> set (devices s)" for t
  proof -
    have "push_token x \<noteq> push_token old" if "x \<in> set (devices t)" "dev_id x \<noteq> dev_id old" for x
      using device_by_token[OF ok _ 1(1), of x] that \<open>set (devices t) \<subseteq> set (devices s)\<close> by blast
    then show ?thesis using 1(4) unfolding rotated_def put_devices_def by (fastforce simp: set_update_where)
  qed
  have d: "dev_id d = dev_id old" "push_token d = dq_push_token r" using 1(5) by simp_all
  from 1(6) show ?thesis
  proof
    assume a: "(\<forall>c \<in> set (devices s). push_token c \<noteq> dq_push_token r) \<and> s' = rotated now u r old s"
    then have "push_token old \<notin> push_token ` set (devices s')" using gone[of s] by simp
    with a show ?thesis using frame[of s] d 1(1,2) by (intro bexI[of _ old]) auto
  next
    assume "\<exists>c. c \<in> set (devices s) \<and> push_token c = dq_push_token r \<and> s' = rotated now u r old (merge_device_into c old s)"
    then obtain c where c: "c \<in> set (devices s)" "push_token c = dq_push_token r" "s' = rotated now u r old (merge_device_into c old s)" by blast
    have ne: "dev_id c \<noteq> dev_id old" using device_by_id[OF ok c(1) 1(1)] c(2) 1(4) by blast
    have only: "x \<in> set (devices s) \<and> push_token x = dq_push_token r \<longleftrightarrow> x = c" for x
      using device_by_token[OF ok _ c(1), of x] c(1,2) by auto
    have links: "links_ok s" using ok by (simp add: devices_ok_def)
    have ds: "deliveries (merge_device_into c old s) = merge_deliveries (dev_id c) (dev_id old) s"
      unfolding merge_state[OF c(1)] by simp
    have "received (merge_device_into c old s) (dev_id old) n \<longleftrightarrow> received s (dev_id old) n \<or> received s (dev_id c) n"
      unfolding received_def ds merge_deliveries_union[OF ne] by blast
    moreover have "actively_linked (merge_device_into c old s) (dev_id old) app \<longleftrightarrow>
        actively_linked s (dev_id old) app \<or> actively_linked s (dev_id c) app"
      by (rule merge_links_union[OF links ne c(1)])
    moreover have "push_token old \<notin> push_token ` set (devices s')"
      unfolding c(3) by (rule gone) (simp add: merge_state[OF c(1)])
    moreover have "(\<exists>x \<in> set (devices s). push_token x = dq_push_token r \<and> P x) \<longleftrightarrow> P c" for P
      using only c(1,2) by metis
    ultimately show ?thesis unfolding c(3) frame using d 1(1,2) by (intro bexI[of _ old]) (simp_all add: c(3))
  qed
qed

section \<open>Devices in the console\<close>

text \<open>
  \<open>_device_access_filter\<close>: to read, the caller's devices and those actively linked to one of the
  caller's applications; to write, the caller's own.
\<close>

definition device_access :: "db \<Rightarrow> pk \<Rightarrow> bool \<Rightarrow> device \<Rightarrow> bool" where
  "device_access s u writing d \<longleftrightarrow> dev_user d = Some u \<or>
     (\<not> writing \<and> list_ex (\<lambda>l. link_device l = dev_id d \<and> link_is_active l \<and> owns_application s u (link_application l)) (links s))"

definition device_object :: "db \<Rightarrow> pk \<Rightarrow> bool \<Rightarrow> pk \<Rightarrow> device option" where
  "device_object s u writing i = List.find (\<lambda>d. dev_id d = i \<and> device_access s u writing d) (devices s)"

text \<open>\<open>DeviceReadSerializer\<close>.\<close>

record unlinked_view =
  uv_application_id :: pk
  uv_application_name :: string
  uv_unlinked_at :: "instant option"
  uv_unlink_source :: "unlink_source option"

record device_view =
  dv_id :: pk
  dv_device_name :: string
  dv_platform :: device_platform
  dv_push_token_status :: device_token_status
  dv_last_seen_at :: "instant option"
  dv_created_at :: instant
  dv_application_ids :: "pk list"
  dv_unlinked_applications :: "unlinked_view list"
  dv_is_mine :: bool

definition visible_links :: "db \<Rightarrow> pk \<Rightarrow> device \<Rightarrow> device_link list" where
  "visible_links s u d =
     (if dev_user d = Some u then links_of_device s (dev_id d)
      else filter (\<lambda>l. owns_application s u (link_application l)) (links_of_device s (dev_id d)))"

definition application_name_of :: "db \<Rightarrow> pk \<Rightarrow> string" where
  "application_name_of s i = (case get_application s i of None \<Rightarrow> [] | Some a \<Rightarrow> app_name a)"

definition unlinked_view_of :: "db \<Rightarrow> device_link \<Rightarrow> unlinked_view" where
  "unlinked_view_of s l = \<lparr>uv_application_id = link_application l,
     uv_application_name = application_name_of s (link_application l),
     uv_unlinked_at = unlinked_at l, uv_unlink_source = unlink_source l\<rparr>"

definition device_view_of :: "db \<Rightarrow> pk \<Rightarrow> device \<Rightarrow> device_view" where
  "device_view_of s u d = \<lparr>dv_id = dev_id d, dv_device_name = device_name d, dv_platform = platform d,
     dv_push_token_status = push_token_status d, dv_last_seen_at = last_seen_at d, dv_created_at = dev_created_at d,
     dv_application_ids = map link_application (filter link_is_active (visible_links s u d)),
     dv_unlinked_applications = map (unlinked_view_of s)
       (sort_key (\<lambda>l. lower (application_name_of s (link_application l))) (filter (\<lambda>l. \<not> link_is_active l) (visible_links s u d))),
     dv_is_mine = (dev_user d = Some u)\<rparr>"

definition device_list :: "db \<Rightarrow> pk \<Rightarrow> page_query \<Rightarrow> device_view listing response" where
  "device_list s u q = paginate_queryset q (map (device_view_of s u)
     (rev (sort_key dev_id (filter (device_access s u False) (devices s)))))"

definition device_retrieve :: "db \<Rightarrow> pk \<Rightarrow> pk \<Rightarrow> device_view response" where
  "device_retrieve s u i =
     (case device_object s u False i of None \<Rightarrow> Refuse 404 ''device_not_found'' | Some d \<Rightarrow> Reply 200 (device_view_of s u d))"

text \<open>\<open>DeviceUpdateSerializer\<close>: no field is required, partial or not.\<close>

record device_changes =
  dc_name :: "string option"
  dc_platform :: "device_platform option"
  dc_status :: "device_token_status option"

definition device_changed :: "device_changes \<Rightarrow> device \<Rightarrow> device" where
  "device_changed c d = d\<lparr>device_name := (case dc_name c of None \<Rightarrow> device_name d | Some n \<Rightarrow> strip n),
     platform := (case dc_platform c of None \<Rightarrow> platform d | Some p \<Rightarrow> p),
     push_token_status := (case dc_status c of None \<Rightarrow> push_token_status d | Some t \<Rightarrow> t)\<rparr>"

definition device_update :: "pk \<Rightarrow> pk \<Rightarrow> device_changes \<Rightarrow> db \<Rightarrow> db \<times> device_view response" where
  "device_update u i c s =
     (case device_object s u True i of
        None \<Rightarrow> (s, Refuse 404 ''device_not_found'')
      | Some d \<Rightarrow>
          (let e = (case dc_name c of None \<Rightarrow> [] | Some n \<Rightarrow> bounded ''device_name'' 0 120 (strip n) []) in
           if e \<noteq> [] then (s, Invalid e)
           else (let s1 = put_devices (\<lambda>x. dev_id x = i) (\<lambda>_. device_changed c d) s
                 in (s1, Reply 200 (device_view_of s1 u (device_changed c d))))))"

definition device_destroy :: "pk \<Rightarrow> pk \<Rightarrow> db \<Rightarrow> db \<times> unit response" where
  "device_destroy u i s =
     (case device_object s u True i of
        None \<Rightarrow> (s, Refuse 404 ''device_not_found'')
      | Some d \<Rightarrow> (delete_devices (\<lambda>x. dev_id x = i) s, Reply 204 ()))"

text \<open>\<open>DeviceNotificationSerializer\<close>: a notification with the outcome on this device.\<close>

record device_notification =
  dn_id :: pk
  dn_application_id :: pk
  dn_application_name :: string
  dn_title :: string
  dn_message :: string
  dn_status :: notification_status
  dn_created_at :: instant
  dn_sent_at :: "instant option"
  dn_delivery_status :: "delivery_status option"
  dn_delivery_sent_at :: "instant option"
  dn_delivery_attempt_count :: nat

definition device_notification_of :: "db \<Rightarrow> pk \<Rightarrow> notification \<Rightarrow> device_notification" where
  "device_notification_of s d n =
     (let e = List.find (\<lambda>e. dlv_notification e = ntf_id n \<and> dlv_device e = d) (deliveries s) in
      \<lparr>dn_id = ntf_id n, dn_application_id = ntf_application n, dn_application_name = application_name_of s (ntf_application n),
       dn_title = title n, dn_message = message n, dn_status = ntf_status n, dn_created_at = ntf_created_at n,
       dn_sent_at = ntf_sent_at n, dn_delivery_status = map_option dlv_status e,
       dn_delivery_sent_at = (case e of None \<Rightarrow> None | Some x \<Rightarrow> dlv_sent_at x),
       dn_delivery_attempt_count = (case e of None \<Rightarrow> 0 | Some x \<Rightarrow> attempt_count x)\<rparr>)"

text \<open>The filter on the application: absent, not an integer, or a key.\<close>

datatype app_filter = No_Filter | Bad_Filter | For_Application pk

definition device_notifications :: "db \<Rightarrow> pk \<Rightarrow> pk \<Rightarrow> app_filter \<Rightarrow> page_ref option \<Rightarrow> device_notification listing response" where
  "device_notifications s u i flt p =
     (case device_object s u False i of
        None \<Rightarrow> Refuse 404 ''device_not_found''
      | Some d \<Rightarrow>
          if flt = Bad_Filter then Invalid [(''application_id'', [''Must be an integer.''])]
          else page_of page_size p (map (device_notification_of s i)
            (newest_first (filter (\<lambda>n. is_visible n \<and> owns s u n \<and>
               list_ex (\<lambda>e. dlv_notification e = ntf_id n \<and> dlv_device e = i) (deliveries s) \<and>
               (case flt of For_Application a \<Rightarrow> ntf_application n = a | _ \<Rightarrow> True)) (notifications s)))))"

lemma device_object_SomeD:
  "device_object s u w i = Some d \<Longrightarrow> d \<in> set (devices s) \<and> dev_id d = i \<and> device_access s u w d"
  by (auto simp: device_object_def dest: find_SomeD)

text \<open>
  A device belongs to its user: the owner of an application a device is linked to reads it with
  the links to that owner's applications only, and neither updating nor deleting through the API
  touches a device that is not the caller's.
\<close>

theorem devices_are_shared_read_only:
  assumes "devices_ok s"
  shows "(case device_retrieve s u i of Reply _ v \<Rightarrow> dv_is_mine v \<or>
      list_all (owns_application s u) (dv_application_ids v @ map uv_application_id (dv_unlinked_applications v)) | _ \<Rightarrow> True) \<and>
    filter (\<lambda>d. dev_user d \<noteq> Some u) (devices (fst (device_update u i c s))) = filter (\<lambda>d. dev_user d \<noteq> Some u) (devices s) \<and>
    filter (\<lambda>d. dev_user d \<noteq> Some u) (devices (fst (device_destroy u i s))) = filter (\<lambda>d. dev_user d \<noteq> Some u) (devices s)"
proof (intro conjI)
  have vis: "l \<in> set (visible_links s u d) \<Longrightarrow> dev_user d = Some u \<or> owns_application s u (link_application l)" for l d
    by (auto simp: visible_links_def split: if_splits)
  show "case device_retrieve s u i of Reply _ v \<Rightarrow> dv_is_mine v \<or>
      list_all (owns_application s u) (dv_application_ids v @ map uv_application_id (dv_unlinked_applications v)) | _ \<Rightarrow> True"
    by (auto simp: device_retrieve_def device_view_of_def list_all_iff unlinked_view_of_def dest: vis split: option.split)
  have other: "x \<in> set (devices s) \<Longrightarrow> dev_id x = i \<Longrightarrow> dev_user x = Some u" if "device_object s u True i = Some d" for x d
    using device_object_SomeD[OF that] device_by_id[OF assms, of x d] by (auto simp: device_access_def)
  show "filter (\<lambda>d. dev_user d \<noteq> Some u) (devices (fst (device_update u i c s))) = filter (\<lambda>d. dev_user d \<noteq> Some u) (devices s)"
  proof (cases "device_object s u True i")
    case None
    then show ?thesis by (simp add: device_update_def)
  next
    case (Some d)
    note o = other[OF Some]
    have "filter (\<lambda>d. dev_user d \<noteq> Some u) (update_where (\<lambda>x. dev_id x = i) (\<lambda>_. device_changed c d) rs) =
        filter (\<lambda>d. dev_user d \<noteq> Some u) rs" if "set rs \<subseteq> set (devices s)" for rs
      using that device_object_SomeD[OF Some] o by (induction rs) (auto simp: device_access_def device_changed_def)
    then show ?thesis using Some by (simp add: device_update_def put_devices_def Let_def)
  qed
  show "filter (\<lambda>d. dev_user d \<noteq> Some u) (devices (fst (device_destroy u i s))) = filter (\<lambda>d. dev_user d \<noteq> Some u) (devices s)"
  proof (cases "device_object s u True i")
    case None
    then show ?thesis by (simp add: device_destroy_def)
  next
    case (Some d)
    have "filter (\<lambda>d. dev_user d \<noteq> Some u) (filter (\<lambda>x. dev_id x \<noteq> i) (devices s)) = filter (\<lambda>d. dev_user d \<noteq> Some u) (devices s)"
      unfolding filter_filter by (rule filter_cong[OF refl]) (use other[OF Some] in blast)
    then show ?thesis using Some by (simp add: device_destroy_def delete_devices_def Let_def)
  qed
qed

section \<open>Examples\<close>

definition phone :: "string \<Rightarrow> string option \<Rightarrow> device_request" where
  "phone tok prev = \<lparr>dq_app_token = None, dq_device_name = Some ''phone'', dq_platform = Ios, dq_push_token = tok, dq_previous = prev\<rparr>"

definition phones_db :: db where
  "phones_db = demo_db\<lparr>devices := [blank_device\<lparr>dev_user := Some 1, push_token := ''old''\<rparr>,
       blank_device\<lparr>dev_id := 2, push_token := ''new''\<rparr>],
     links := [blank_link, blank_link\<lparr>link_id := 2, link_device := 2, link_application := 7\<rparr>], next_pk := 9\<rparr>"

lemma phones_ok: "devices_ok phones_db"
  by (simp add: devices_ok_def links_ok_def deliveries_ok_def phones_db_def demo_db_def empty_db_def blank_rows)

definition rotation :: "(db \<times> device) option" where
  "rotation = rotate_push_token 5 1 (phone ''new'' (Some ''old'')) phones_db"

theorem rotation_loses_nothing_witness:
  "case rotation of None \<Rightarrow> False | Some (s', d) \<Rightarrow> actively_linked s' 1 1 \<and> actively_linked s' 1 7"
proof -
  have "rotation \<noteq> None" by code_simp
  then obtain s' d where e: "rotation = Some (s', d)" by auto
  have one: "old \<in> set (devices phones_db) \<Longrightarrow> dev_user old = Some 1 \<Longrightarrow> dev_id old = 1" for old
    by (auto simp: phones_db_def blank_device_def)
  have b: "actively_linked phones_db 1 1"
    "\<exists>c \<in> set (devices phones_db). push_token c = dq_push_token (phone ''new'' (Some ''old'')) \<and> actively_linked phones_db (dev_id c) 7"
    by code_simp+
  have "actively_linked s' 1 app" if app: "app = 1 \<or> app = 7" for app
  proof -
    obtain old where old: "old \<in> set (devices phones_db)" "dev_user old = Some 1"
      and eq: "actively_linked s' (dev_id old) app \<longleftrightarrow> actively_linked phones_db (dev_id old) app \<or>
        (\<exists>c \<in> set (devices phones_db). push_token c = dq_push_token (phone ''new'' (Some ''old'')) \<and> actively_linked phones_db (dev_id c) app)"
      using rotation_loses_nothing[OF phones_ok e[unfolded rotation_def], of app 0] by blast
    show ?thesis using app b unfolding eq[unfolded one[OF old]] by blast
  qed
  then show ?thesis by (simp add: e)
qed

definition taken :: "db \<times> device \<times> bool" where
  "taken = upsert_authenticated_device 5 (\<lambda>s. s) 2 (phone ''old'' None) phones_db"

theorem identified_device_is_unique_witness:
  "map dev_user (filter (\<lambda>x. push_token x = ''old'') (devices (fst taken))) = [Some 2]"
proof -
  obtain s' d c where e: "taken = (s', d, c)" by (metis prod_cases3)
  have "dq_push_token (phone ''old'' None) = ''old''" by (simp add: phone_def)
  then show ?thesis
    using identified_device_is_unique[OF phones_ok _ e[unfolded taken_def]] phones_ok by (simp add: e)
qed

theorem takeover_cuts_every_link_witness:
  "\<not> actively_linked (fst taken) 1 1 \<and> actively_linked phones_db 1 1"
proof -
  obtain s' d c where e: "taken = (s', d, c)" by (metis prod_cases3)
  let ?v = "blank_device\<lparr>dev_user := Some 1, push_token := ''old''\<rparr>"
  have "select_existing_device phones_db (dq_push_token (phone ''old'' None)) = Some ?v" "changes_hands 2 ?v" by code_simp+
  moreover have "dev_id ?v = 1" by (simp add: blank_device_def)
  moreover have "actively_linked phones_db 1 1" by code_simp
  ultimately show ?thesis using takeover_cuts_every_link[OF _ _ e[unfolded taken_def], of ?v 1 1] by (simp add: e)
qed

theorem devices_are_shared_read_only_witness:
  "map dev_user (devices (fst (device_destroy 1 2 phones_db))) = [Some 1, None]"
proof -
  have "map dev_user (filter (\<lambda>d. dev_user d \<noteq> Some 1) (devices phones_db)) = [None]" by code_simp
  then have "map dev_user (filter (\<lambda>d. dev_user d \<noteq> Some 1) (devices (fst (device_destroy 1 2 phones_db)))) = [None]"
    using devices_are_shared_read_only[OF phones_ok, of 1 2] by simp
  moreover have "map dev_user (devices (fst (device_destroy 1 2 phones_db))) = [Some 1, None]" by code_simp
  ultimately show ?thesis by simp
qed

end
