(* ===== verification/Fleet.thy ===== *)
theory Fleet
  imports Tasks Devices Queueing Reading
begin

text \<open>
  The workers at the grain at which they interleave. A run of \<open>notifications/services.py\<close>
  \<open>send_notification\<close> is cut at its writes: what comes before the loop over the deliveries, one
  iteration, and what comes after it. The contract \<open>keeps\<close> says what every other operation leaves
  alone of the rows a worker relies on.
\<close>

section \<open>A run in steps\<close>

text \<open>What a worker holds in memory between two iterations.\<close>

record worker =
  wk_application :: application
  wk_context :: send_context
  wk_todo :: "(delivery \<times> device) list"
  wk_total :: nat
  wk_counts :: counts

definition wk_id :: "worker \<Rightarrow> pk" where
  "wk_id w = ntf_id (ctx_notification (wk_context w))"

definition wk_since :: "worker \<Rightarrow> instant" where
  "wk_since w = now_start (ctx_env (wk_context w))"

text \<open>The head of the run: it ends there, with a result, or hands the deliveries to the loop.\<close>

definition start_run :: "run_env \<Rightarrow> pk \<Rightarrow> db \<Rightarrow> db \<times> (send_result + worker)" where
  "start_run env i s =
     (case acquire_notification_for_processing (row_locked env) (now_start env) i s of
        (s1, None) \<Rightarrow> (s1, Inl (no_result i))
      | (s1, Some n) \<Rightarrow>
          (case get_application s1 (ntf_application n) of
             None \<Rightarrow> (s1, Inl (no_result i))
           | Some a \<Rightarrow>
               if \<not> owner_is_paid (env_cfg env) (now_start env) s1 a
               then (let (s2, r) = fail_for_lapsed_subscription (now_start env) n a s1 in (s2, Inl r))
               else (case get_current_quiet_period_end (env_clock env) s1 n (now_start env) of
                  Some e \<Rightarrow> (defer_for_quiet_period i e s1, Inl (no_result i))
                | None \<Rightarrow>
                    (let (s2, ds) = get_target_deliveries_for_notification n s1 in
                     if ds = [] then
                       (send_webhook_callback a (ntf_id n) No_Target None
                          (finish_notification (ntf_id n) No_Target None s2), Inl (no_result (ntf_id n)))
                     else (s2, Inr \<lparr>wk_application = a, wk_context = context_of env n a s2 ds,
                            wk_todo = with_devices s2 ds, wk_total = length ds, wk_counts = no_counts\<rparr>)))))"

text \<open>The end of the run, when the loop is through.\<close>

definition end_run :: "worker \<Rightarrow> db \<Rightarrow> db \<times> send_result" where
  "end_run w s =
     (let c = wk_counts w; st = final_status c;
          sent = (if st = Sent then Some (now_end (ctx_env (wk_context w))) else None)
      in (send_webhook_callback (wk_application w) (wk_id w) st sent (finish_notification (wk_id w) st sent s),
          \<lparr>sr_notification_id = wk_id w, target_count = wk_total w, sent_count = c_sent c,
           failed_count = c_failed c, skipped_count = c_skipped c\<rparr>))"

definition loop_run :: "worker \<Rightarrow> db \<Rightarrow> db \<times> worker" where
  "loop_run w s =
     (let (s1, c) = fold (process_delivery (wk_context w)) (wk_todo w) (s, wk_counts w)
      in (s1, w\<lparr>wk_todo := [], wk_counts := c\<rparr>))"

text \<open>A run that nobody interrupts is \<open>send_notification\<close>.\<close>

lemma run_is_its_steps:
  "send_notification env i s =
     (case start_run env i s of
        (s1, Inl r) \<Rightarrow> (s1, r)
      | (s1, Inr w) \<Rightarrow> (let (s2, w2) = loop_run w s1 in end_run w2 s2))"
  by (auto simp: send_notification_def start_run_def send_to_targets_def loop_run_def end_run_def context_of_def
      wk_id_def Let_def split: prod.split option.split)

section \<open>What a step may change\<close>

definition ntf_ids :: "db \<Rightarrow> pk set" where "ntf_ids s = ntf_id ` set (notifications s)"
definition dev_ids :: "db \<Rightarrow> pk set" where "dev_ids s = dev_id ` set (devices s)"

text \<open>The consistency of the tables a worker reads.\<close>

definition store_ok :: "db \<Rightarrow> bool" where
  "store_ok s \<longleftrightarrow> devices_ok s \<and> keys_ok s \<and> (\<forall>d \<in> set (deliveries s). dlv_notification d < next_pk s)"

definition is_sent :: "delivery \<Rightarrow> bool" where
  "is_sent d \<longleftrightarrow> dlv_status d = D_Sent"

text \<open>
  A delivery stays, sent or not as it was, unless its notification or its device is gone; a
  delivery that was not there is new and not sent, or has only changed its device.
\<close>

definition row_kept :: "db \<Rightarrow> delivery \<Rightarrow> bool" where
  "row_kept s' d \<longleftrightarrow> dlv_notification d \<notin> ntf_ids s' \<or> dlv_device d \<notin> dev_ids s' \<or>
     (\<exists>r \<in> set (deliveries s'). dlv_id r = dlv_id d \<and> dlv_notification r = dlv_notification d \<and>
        dlv_device r = dlv_device d \<and> is_sent r = is_sent d)"

definition row_known :: "db \<Rightarrow> delivery \<Rightarrow> bool" where
  "row_known s d \<longleftrightarrow> (next_pk s \<le> dlv_id d \<and> \<not> is_sent d) \<or>
     (\<exists>r \<in> set (deliveries s). dlv_id r = dlv_id d \<and> dlv_notification r = dlv_notification d \<and> is_sent r = is_sent d)"

definition new_or_old :: "pk set \<Rightarrow> pk \<Rightarrow> pk set \<Rightarrow> bool" where
  "new_or_old old n new \<longleftrightarrow> (\<forall>i \<in> new. i \<in> old \<or> n \<le> i)"

definition keeps :: "db \<Rightarrow> db \<Rightarrow> bool" where
  "keeps s s' \<longleftrightarrow> store_ok s' \<and> provider_log s' = provider_log s \<and> next_pk s \<le> next_pk s' \<and>
     new_or_old (ntf_ids s) (next_pk s) (ntf_ids s') \<and> new_or_old (dev_ids s) (next_pk s) (dev_ids s') \<and>
     (\<forall>d \<in> set (deliveries s). row_kept s' d) \<and> (\<forall>d \<in> set (deliveries s'). row_known s d)"

text \<open>The notifications of \<open>I\<close> being processed stay so, or are deleted.\<close>

definition holds :: "pk set \<Rightarrow> db \<Rightarrow> db \<Rightarrow> bool" where
  "holds I s s' \<longleftrightarrow> (\<forall>n \<in> set (notifications s). ntf_status n = Processing \<and> ntf_id n \<in> I \<longrightarrow>
     ntf_id n \<notin> ntf_ids s' \<or> (\<exists>m \<in> set (notifications s'). ntf_id m = ntf_id n \<and> ntf_status m = Processing \<and>
       processing_started_at m = processing_started_at n))"

lemma keeps_refl: "store_ok s \<Longrightarrow> keeps s s"
  by (auto simp: keeps_def new_or_old_def row_kept_def row_known_def)

lemma store_ok_ids:
  assumes "store_ok s"
  shows "i \<in> ntf_ids s \<Longrightarrow> i < next_pk s" "v \<in> dev_ids s \<Longrightarrow> v < next_pk s"
    "d \<in> set (deliveries s) \<Longrightarrow> dlv_device d < next_pk s" "d \<in> set (deliveries s) \<Longrightarrow> dlv_id d < next_pk s"
    "d \<in> set (deliveries s) \<Longrightarrow> dlv_notification d < next_pk s"
  using assms by (auto simp: store_ok_def keys_ok_def devices_ok_def deliveries_ok_def ntf_ids_def dev_ids_def)

lemma gone_stays_gone:
  assumes "new_or_old old n new" "i < n" "i \<notin> old"
  shows "i \<notin> new"
  using assms by (auto simp: new_or_old_def)

lemma keepsD:
  assumes "keeps s s'"
  shows "store_ok s'" "provider_log s' = provider_log s" "next_pk s \<le> next_pk s'"
    "i < next_pk s \<Longrightarrow> i \<notin> ntf_ids s \<Longrightarrow> i \<notin> ntf_ids s'" "i < next_pk s \<Longrightarrow> i \<notin> dev_ids s \<Longrightarrow> i \<notin> dev_ids s'"
    "d \<in> set (deliveries s) \<Longrightarrow> row_kept s' d" "d \<in> set (deliveries s') \<Longrightarrow> row_known s d"
  using assms by (auto simp: keeps_def intro: gone_stays_gone dest: gone_stays_gone)

lemma keeps_trans:
  assumes s: "store_ok s" and a: "keeps s s1" and b: "keeps s1 s2"
  shows "keeps s s2"
proof -
  note A = keepsD[OF a] and B = keepsD[OF b]
  have "row_kept s2 d" if d: "d \<in> set (deliveries s)" for d
  proof -
    have lt: "dlv_notification d < next_pk s1" "dlv_device d < next_pk s1"
      using store_ok_ids[OF s] d A(3) by (meson order_less_le_trans)+
    show ?thesis
    proof (cases "dlv_notification d \<notin> ntf_ids s1 \<or> dlv_device d \<notin> dev_ids s1")
      case True
      then show ?thesis using B(4,5) lt by (auto simp: row_kept_def)
    next
      case False
      then obtain r where r: "r \<in> set (deliveries s1)" "dlv_id r = dlv_id d" "dlv_notification r = dlv_notification d"
        "dlv_device r = dlv_device d" "is_sent r = is_sent d" using A(6)[OF d] by (auto simp: row_kept_def)
      show ?thesis using B(6)[OF r(1)] r(2-) by (simp add: row_kept_def)
    qed
  qed
  moreover have "row_known s d" if d: "d \<in> set (deliveries s2)" for d
  proof -
    from B(7)[OF d] show ?thesis unfolding row_known_def[of s1]
    proof
      assume "next_pk s1 \<le> dlv_id d \<and> \<not> is_sent d"
      then show ?thesis using A(3) by (auto simp: row_known_def)
    next
      assume "\<exists>r \<in> set (deliveries s1). dlv_id r = dlv_id d \<and> dlv_notification r = dlv_notification d \<and> is_sent r = is_sent d"
      then obtain r where r: "r \<in> set (deliveries s1)" "dlv_id r = dlv_id d" "dlv_notification r = dlv_notification d"
        "is_sent r = is_sent d" by blast
      show ?thesis using A(7)[OF r(1)] r(2-) by (simp add: row_known_def)
    qed
  qed
  moreover have "new_or_old (ntf_ids s) (next_pk s) (ntf_ids s2)" "new_or_old (dev_ids s) (next_pk s) (dev_ids s2)"
    using a b by (force simp: keeps_def new_or_old_def)+
  ultimately show ?thesis using A B by (simp add: keeps_def)
qed

lemma holds_trans:
  assumes "holds I s s1" "holds I s1 s2" "keeps s1 s2" "store_ok s" "keeps s s1"
  shows "holds I s s2"
  unfolding holds_def
proof (intro ballI impI)
  fix n
  assume n: "n \<in> set (notifications s)" "ntf_status n = Processing \<and> ntf_id n \<in> I"
  then have "ntf_id n < next_pk s" using store_ok_ids(1)[OF assms(4)] by (simp add: ntf_ids_def)
  then have lt: "ntf_id n < next_pk s1" using keepsD(3)[OF assms(5)] by simp
  show "ntf_id n \<notin> ntf_ids s2 \<or> (\<exists>m \<in> set (notifications s2). ntf_id m = ntf_id n \<and> ntf_status m = Processing \<and>
       processing_started_at m = processing_started_at n)"
  proof (cases "ntf_id n \<in> ntf_ids s1")
    case False
    then show ?thesis using keepsD(4)[OF assms(3) lt] by blast
  next
    case True
    then obtain m where m: "m \<in> set (notifications s1)" "ntf_id m = ntf_id n" "ntf_status m = Processing"
      "processing_started_at m = processing_started_at n" using assms(1) n by (auto simp: holds_def)
    have "ntf_id m \<notin> ntf_ids s2 \<or> (\<exists>k \<in> set (notifications s2). ntf_id k = ntf_id m \<and> ntf_status k = Processing \<and>
        processing_started_at k = processing_started_at m)"
      using assms(2)[unfolded holds_def, rule_format, OF m(1)] m(2,3) n(2) by simp
    then show ?thesis unfolding m(2,4) .
  qed
qed

section \<open>The effect of an iteration\<close>

lemma put_row_tables [simp]:
  "next_pk (set_delivery i f s) = next_pk s" "next_pk (set_device i g s) = next_pk s"
  "next_pk (set_notification i h s) = next_pk s"
  "devices (set_device i g s) = update_where (\<lambda>d. dev_id d = i) g (devices s)"
  by (simp_all add: set_delivery_def set_device_def set_notification_def dev.rows_put)

text \<open>What the columns a worker relies on are, apart from the rows of deliveries.\<close>

definition same_frame :: "db \<Rightarrow> db \<Rightarrow> bool" where
  "same_frame s t \<longleftrightarrow> notifications t = notifications s \<and> links t = links s \<and> next_pk t = next_pk s \<and>
     map dev_id (devices t) = map dev_id (devices s) \<and> map push_token (devices t) = map push_token (devices s)"

lemma same_frame_refl [simp]: "same_frame s s"
  by (simp add: same_frame_def)

lemma same_frame_rows [simp]:
  "same_frame s (set_delivery i f t) = same_frame s t" "same_frame s (t\<lparr>provider_log := l\<rparr>) = same_frame s t"
  "(\<And>d. dev_id (g d) = dev_id d) \<Longrightarrow> (\<And>d. push_token (g d) = push_token d) \<Longrightarrow>
     same_frame s (set_device i g t) = same_frame s t"
  by (simp_all add: same_frame_def set_delivery_def set_device_def put_deliveries_def put_devices_def map_update_where)

lemma same_frame_marks [simp]:
  "same_frame s (mark_delivery_as_sent now m d t) = same_frame s t"
  "same_frame s (mark_delivery_as_deferred now e d t) = same_frame s t"
  "same_frame s (cancel_delivery now reason d t) = same_frame s t"
  "same_frame s (mark_delivery_as_failed now x d t) = same_frame s t"
  "same_frame s (record_delivery_failure now x iv d dev t) = same_frame s t"
  by (simp_all add: mark_delivery_as_sent_def mark_delivery_as_deferred_def cancel_delivery_def
      mark_delivery_as_failed_def record_delivery_failure_def Let_def split: option.split)

lemma same_frame_process: "same_frame (fst st) (fst (process_delivery ctx dd st))"
  by (auto simp: process_delivery_def push_delivery_def Let_def split: option.split push_outcome.split)

text \<open>How the row a worker writes to is changed, whatever it has become since it was read.\<close>

definition keyed :: "(delivery \<Rightarrow> delivery) \<Rightarrow> bool" where
  "keyed g \<longleftrightarrow> (\<forall>r. dlv_id (g r) = dlv_id r \<and> dlv_notification (g r) = dlv_notification r \<and> dlv_device (g r) = dlv_device r)"

lemma update_where_cong_rows: "(\<And>r. r \<in> set rs \<Longrightarrow> P r \<Longrightarrow> f r = g r) \<Longrightarrow> update_where P f rs = update_where P g rs"
  by (auto simp: update_where_def)

lemma failed_effect:
  obtains g where "keyed g" "\<And>r. \<not> is_sent r \<Longrightarrow> \<not> is_sent (g r)"
    "deliveries (mark_delivery_as_failed now e d s) = update_where (\<lambda>r. dlv_id r = dlv_id d) g (deliveries s)"
proof -
  let ?s1 = "set_delivery (dlv_id d) (\<lambda>r. r\<lparr>attempt_count := attempt_count r + 1\<rparr>) s"
  show thesis
  proof (cases "get_delivery ?s1 (dlv_id d)")
    case None
    then show thesis
      by (intro that[of "\<lambda>r. r\<lparr>attempt_count := attempt_count r + 1\<rparr>"])
         (simp_all add: keyed_def is_sent_def mark_delivery_as_failed_def Let_def)
  next
    case (Some row)
    let ?g = "(\<lambda>r. if max_delivery_attempts \<le> attempt_count row
            then r\<lparr>last_attempt_at := Some now, error_message := e, dlv_status := D_Failed, next_retry_at := None\<rparr>
            else r\<lparr>last_attempt_at := Some now, error_message := e, dlv_status := D_Pending,
                   next_retry_at := Some (compute_next_retry now (attempt_count row))\<rparr>)
       \<circ> (\<lambda>r. r\<lparr>attempt_count := attempt_count r + 1\<rparr>)"
    have "deliveries (mark_delivery_as_failed now e d s) = update_where (\<lambda>r. dlv_id r = dlv_id d) ?g (deliveries s)"
      using Some by (simp add: mark_delivery_as_failed_def Let_def update_where_twice)
    then show thesis by (intro that[of ?g]) (simp_all add: keyed_def is_sent_def)
  qed
qed

text \<open>The branches of an iteration, with the state each leaves.\<close>

lemma process_branches:
  fixes ctx :: send_context and dd :: "delivery \<times> device"
  defines "now \<equiv> now_delivery (ctx_env ctx) (dlv_device (fst dd))"
  obtains (same) "fst (process_delivery ctx dd (s, c)) = s" "snd (delivery_step ctx s dd) \<noteq> K_Sent"
  | (cancel) reason where "fst (process_delivery ctx dd (s, c)) = cancel_delivery now reason (fst dd) s"
      "\<not> is_sent (fst dd)" "snd (delivery_step ctx s dd) \<noteq> K_Sent"
  | (later) e where "fst (process_delivery ctx dd (s, c)) = mark_delivery_as_deferred now e (fst dd) s"
      "\<not> is_sent (fst dd)" "snd (delivery_step ctx s dd) \<noteq> K_Sent"
  | (push) "fst (process_delivery ctx dd (s, c)) = fst (push_delivery ctx (fst dd) (snd dd) (s, c))"
      "\<not> is_sent (fst dd)" "(snd (delivery_step ctx s dd) = K_Sent) = (\<exists>m. push_of ctx (snd dd) = Push_Ok m)"
proof (cases "is_sent (fst dd)")
  case True
  then show thesis using same by (simp add: process_delivery_def delivery_step_def Let_def should_skip_delivery_def is_sent_def)
next
  case unsent: False
  then have d: "dlv_status (fst dd) \<noteq> D_Sent" "\<not> should_skip_delivery (fst dd)"
    by (simp_all add: is_sent_def should_skip_delivery_def)
  show thesis
  proof (cases "ineligibility_reason (ctx_application_active ctx) (snd dd) (ctx_linked_device_ids ctx)")
    case (Some reason)
    then show thesis using cancel[of reason] unsent d by (simp add: process_delivery_def delivery_step_def Let_def now_def)
  next
    case eligible: None
    show thesis
    proof (cases "should_wait_for_retry now (fst dd)")
      case True
      then show thesis using same eligible d by (simp add: process_delivery_def delivery_step_def Let_def now_def)
    next
      case due: False
      show thesis
      proof (cases "get_current_device_quiet_period_end (env_clock (ctx_env ctx)) s (snd dd) now")
        case (Some e)
        then show thesis using later[of e] unsent eligible due d by (simp add: process_delivery_def delivery_step_def Let_def now_def)
      next
        case awake: None
        show thesis
        proof (cases "can_retry_delivery (fst dd)")
          case False
          then show thesis using same eligible due awake d
            by (simp add: process_delivery_def delivery_step_def Let_def now_def can_retry_delivery_def)
        next
          case True
          then have step: "delivery_step ctx s dd = (case push_of ctx (snd dd) of
              Push_Ok m \<Rightarrow> ((fst dd)\<lparr>dlv_status := D_Sent, provider_message_id := m, error_message := [],
                 dlv_sent_at := Some now, last_attempt_at := Some now, next_retry_at := None\<rparr>, K_Sent)
            | Invalid_Push_Token e \<Rightarrow> (failed_row now e (fst dd), K_Failed)
            | Temporary_Push_Provider_Error e \<Rightarrow> (failed_row now e (fst dd), K_Failed)
            | Push_Provider_Error e \<Rightarrow> (failed_row now e (fst dd), K_Failed))"
            using eligible due awake d
            by (cases "push_of ctx (snd dd)") (simp_all add: delivery_step_def now_def can_retry_delivery_def Let_def)
          have "(snd (delivery_step ctx s dd) = K_Sent) = (\<exists>m. push_of ctx (snd dd) = Push_Ok m)"
            unfolding step by (cases "push_of ctx (snd dd)") simp_all
          then show thesis using True push unsent eligible due awake d by (simp add: process_delivery_def now_def Let_def)
        qed
      qed
    qed
  qed
qed

lemma process_effect:
  obtains g where "keyed g"
    "deliveries (fst (process_delivery ctx dd (s, c))) = update_where (\<lambda>r. dlv_id r = dlv_id (fst dd)) g (deliveries s)"
    "is_sent (fst dd) \<Longrightarrow> g = id"
    "snd (delivery_step ctx s dd) = K_Sent \<Longrightarrow> \<not> is_sent (fst dd) \<and> (\<forall>r. is_sent (g r))"
    "snd (delivery_step ctx s dd) \<noteq> K_Sent \<Longrightarrow> (\<forall>r. \<not> is_sent r \<longrightarrow> \<not> is_sent (g r))"
proof -
  let ?d = "fst dd" and ?now = "now_delivery (ctx_env ctx) (dlv_device (fst dd))"
  let ?up = "\<lambda>g. update_where (\<lambda>r. dlv_id r = dlv_id ?d) g (deliveries s)"
  have id: "?up id = deliveries s" by (simp add: update_where_id)
  obtain gf where gf: "keyed (gf e)" "\<And>r. \<not> is_sent r \<Longrightarrow> \<not> is_sent (gf e r)"
    "\<And>t. deliveries t = deliveries s \<Longrightarrow> deliveries (mark_delivery_as_failed ?now e ?d t) = ?up (gf e)" for e
  proof -
    have "\<exists>g. keyed g \<and> (\<forall>r. \<not> is_sent r \<longrightarrow> \<not> is_sent (g r)) \<and>
       (\<forall>t. deliveries t = deliveries s \<longrightarrow> deliveries (mark_delivery_as_failed ?now e ?d t) = ?up g)" for e
    proof -
      obtain g where g: "keyed g" "\<And>r. \<not> is_sent r \<Longrightarrow> \<not> is_sent (g r)"
        "deliveries (mark_delivery_as_failed ?now e ?d s) = ?up g"
        using failed_effect[of ?now e ?d s] by metis
      have "deliveries (mark_delivery_as_failed ?now e ?d t) = deliveries (mark_delivery_as_failed ?now e ?d s)"
        if "deliveries t = deliveries s" for t
        using that by (simp add: mark_delivery_as_failed_def Let_def get_delivery_def split: option.split)
      then show ?thesis using g by auto
    qed
    then show thesis using that by metis
  qed
  have fail: "deliveries (record_delivery_failure ?now e iv ?d v s) = ?up (gf e)" for e iv v
    unfolding record_delivery_failure_def Let_def by (rule gf(3)) simp
  show thesis
  proof (cases rule: process_branches[of ctx dd s c])
    case same
    have "deliveries (fst (process_delivery ctx dd (s, c))) = deliveries s" unfolding same(1) by simp
    then show thesis using same(2) id by (intro that[of id]) (simp_all add: keyed_def)
  next
    case (cancel reason)
    show thesis
      by (rule that[OF _ trans[OF arg_cong[OF cancel(1), of deliveries] mark_rows(3)]])
         (simp_all add: keyed_def cancel is_sent_def cancel(2)[unfolded is_sent_def])
  next
    case (later e)
    show thesis
      by (rule that[OF _ trans[OF arg_cong[OF later(1), of deliveries] mark_rows(2)]])
         (simp_all add: keyed_def later is_sent_def later(2)[unfolded is_sent_def])
  next
    case push
    show thesis
    proof (cases "push_of ctx (snd dd)")
      case (Push_Ok m)
      then have "deliveries (fst (process_delivery ctx dd (s, c))) = ?up (\<lambda>r. r\<lparr>dlv_status := D_Sent,
          provider_message_id := m, error_message := [], dlv_sent_at := Some ?now, last_attempt_at := Some ?now,
          next_retry_at := None\<rparr>)"
        unfolding push(1) by (simp add: push_delivery_def push_of_def Let_def)
      then show thesis by (rule that[rotated]) (use push Push_Ok in \<open>simp_all add: keyed_def is_sent_def\<close>)
    next
      case (Invalid_Push_Token e)
      then have "deliveries (fst (process_delivery ctx dd (s, c))) = ?up (gf e)"
        unfolding push(1) by (simp add: push_delivery_def push_of_def Let_def fail)
      then show thesis by (rule that[rotated]) (use push Invalid_Push_Token gf in \<open>simp_all\<close>)
    next
      case (Temporary_Push_Provider_Error e)
      then have "deliveries (fst (process_delivery ctx dd (s, c))) = ?up (gf e)"
        unfolding push(1) by (simp add: push_delivery_def push_of_def Let_def fail)
      then show thesis by (rule that[rotated]) (use push Temporary_Push_Provider_Error gf in \<open>simp_all\<close>)
    next
      case (Push_Provider_Error e)
      then have "deliveries (fst (process_delivery ctx dd (s, c))) = ?up (gf e)"
        unfolding push(1) by (simp add: push_delivery_def push_of_def Let_def fail)
      then show thesis by (rule that[rotated]) (use push Push_Provider_Error gf in \<open>simp_all\<close>)
    qed
  qed
qed

section \<open>Changes that keep the rows a worker relies on\<close>

named_theorems keeping

text \<open>Only tables no worker reads differ.\<close>

definition same_tables :: "db \<Rightarrow> db \<Rightarrow> bool" where
  "same_tables s s' \<longleftrightarrow> notifications s' = notifications s \<and> deliveries s' = deliveries s \<and> devices s' = devices s \<and>
     links s' = links s \<and> next_pk s' = next_pk s \<and> provider_log s' = provider_log s"

lemma store_ok_same_tables: "same_tables s s' \<Longrightarrow> store_ok s' = store_ok s"
  by (simp add: same_tables_def store_ok_def devices_ok_def deliveries_ok_def links_ok_def keys_ok_def)

lemma keeps_same_tables: "same_tables s s' \<Longrightarrow> store_ok s \<Longrightarrow> keeps s s' \<and> holds I s s'"
  using keeps_refl[of s] store_ok_same_tables[of s s']
  by (auto simp: same_tables_def keeps_def holds_def ntf_ids_def dev_ids_def row_kept_def row_known_def new_or_old_def)

lemma keepsI_rows:
  assumes "store_ok s'" "provider_log s' = provider_log s" "next_pk s \<le> next_pk s'" "deliveries s' = deliveries s"
    "new_or_old (ntf_ids s) (next_pk s) (ntf_ids s')" "new_or_old (dev_ids s) (next_pk s) (dev_ids s')"
  shows "keeps s s'"
  using assms by (auto simp: keeps_def row_kept_def row_known_def)

text \<open>Columns of notifications other than the keys.\<close>

definition ntf_keyed :: "(notification \<Rightarrow> notification) \<Rightarrow> bool" where
  "ntf_keyed f \<longleftrightarrow> (\<forall>n. ntf_id (f n) = ntf_id n \<and> ntf_application (f n) = ntf_application n \<and> idempotency_key (f n) = idempotency_key n)"

lemma keys_ok_put:
  assumes "keys_ok s" "ntf_keyed f"
  shows "keys_ok (put_notifications P f s)"
proof -
  have k: "ntf_id (f n) = ntf_id n" "ntf_application (f n) = ntf_application n" "idempotency_key (f n) = idempotency_key n" for n
    using assms(2) by (simp_all add: ntf_keyed_def)
  have h: "ntf_id (if P n then f n else n) = ntf_id n" "idempotency_key (if P n then f n else n) = idempotency_key n"
    "ntf_application (if P n then f n else n) = ntf_application n" for n by (simp_all add: k)
  have "\<forall>n \<in> set (update_where P f (notifications s)). ntf_id n < next_pk s"
    using assms(1) by (auto simp: keys_ok_def set_update_where k)
  then show ?thesis using assms(1)
    unfolding keys_ok_def put_notifications_def update_where_def by (simp add: filter_map comp_def h)
qed

lemma ntf_ids_put [simp]: "ntf_keyed f \<Longrightarrow> ntf_ids (put_notifications P f s) = ntf_ids s"
  by (simp add: ntf_ids_def put_notifications_def ntf_keyed_def map_update_where flip: set_map)

lemma dev_ids_other [simp]: "dev_ids (put_notifications P f s) = dev_ids s" "dev_ids (put_deliveries Q g s) = dev_ids s"
  "ntf_ids (put_deliveries Q g s) = ntf_ids s" "dev_ids (submit t s) = dev_ids s" "ntf_ids (submit t s) = ntf_ids s"
  "ntf_ids (put_devices R h s) = ntf_ids s" "ntf_ids (put_links T k s) = ntf_ids s" "dev_ids (put_links T k s) = dev_ids s"
  by (simp_all add: dev_ids_def ntf_ids_def)

lemma devices_ok_frame:
  "devices_ok s \<Longrightarrow> deliveries t = deliveries s \<Longrightarrow> devices t = devices s \<Longrightarrow> links t = links s \<Longrightarrow>
   next_pk s \<le> next_pk t \<Longrightarrow> devices_ok t"
  by (fastforce simp: devices_ok_def deliveries_ok_def links_ok_def)

lemma new_or_old_refl [simp]: "new_or_old A n A"
  by (simp add: new_or_old_def)

lemma keeps_put_notifications [keeping]:
  assumes "store_ok s" "ntf_keyed f"
  shows "keeps s (put_notifications P f s)"
proof -
  have "store_ok (put_notifications P f s)"
    using assms devices_ok_frame[of s "put_notifications P f s"] by (simp add: store_ok_def keys_ok_put)
  then show ?thesis using assms by (intro keepsI_rows) simp_all
qed

lemma holds_put_notifications:
  assumes "\<And>n. n \<in> set (notifications s) \<Longrightarrow> P n \<Longrightarrow> ntf_status n = Processing \<Longrightarrow> ntf_id n \<in> I \<Longrightarrow>
     ntf_status (f n) = Processing \<and> processing_started_at (f n) = processing_started_at n" and "ntf_keyed f"
  shows "holds I s (put_notifications P f s)"
  unfolding holds_def
proof (intro ballI impI disjI2)
  fix n
  assume n: "n \<in> set (notifications s)" "ntf_status n = Processing \<and> ntf_id n \<in> I"
  let ?m = "if P n then f n else n"
  have "?m \<in> set (notifications (put_notifications P f s))"
    using n(1) by (auto simp: put_notifications_def set_update_where)
  moreover have "ntf_id ?m = ntf_id n \<and> ntf_status ?m = Processing \<and> processing_started_at ?m = processing_started_at n"
    using assms n by (auto simp: ntf_keyed_def)
  ultimately show "\<exists>m \<in> set (notifications (put_notifications P f s)). ntf_id m = ntf_id n \<and> ntf_status m = Processing \<and>
      processing_started_at m = processing_started_at n" by blast
qed

lemma holds_same_notifications: "notifications s' = notifications s \<Longrightarrow> holds I s s'"
  by (auto simp: holds_def)

text \<open>Columns of deliveries other than the keys and the sent flag.\<close>

lemma devices_ok_map_rows:
  assumes "devices_ok s" "keyed g"
  shows "devices_ok (s\<lparr>deliveries := map g (deliveries s)\<rparr>)"
proof -
  have k: "dlv_id (g r) = dlv_id r" "dlv_notification (g r) = dlv_notification r" "dlv_device (g r) = dlv_device r" for r
    using assms(2) by (simp_all add: keyed_def)
  show ?thesis using assms(1) by (simp add: devices_ok_def deliveries_ok_def links_ok_def comp_def k image_image)
qed

lemma store_ok_map_rows:
  assumes "store_ok s" "keyed g"
  shows "store_ok (s\<lparr>deliveries := map g (deliveries s)\<rparr>)"
  using assms devices_ok_map_rows[OF _ assms(2), of s] by (auto simp: store_ok_def keys_ok_def keyed_def)

lemma keeps_map_rows:
  assumes ok: "store_ok s" and g: "keyed g" and sent: "\<And>r. r \<in> set (deliveries s) \<Longrightarrow> is_sent (g r) = is_sent r"
  shows "keeps s (s\<lparr>deliveries := map g (deliveries s)\<rparr>)"
proof -
  let ?t = "s\<lparr>deliveries := map g (deliveries s)\<rparr>"
  have "row_kept ?t d" if "d \<in> set (deliveries s)" for d
    unfolding row_kept_def using that g sent by (intro disjI2 bexI[of _ "g d"]) (auto simp: keyed_def)
  moreover have "row_known s d" if "d \<in> set (deliveries ?t)" for d
  proof -
    obtain r where "r \<in> set (deliveries s)" "d = g r" using \<open>d \<in> set (deliveries ?t)\<close> by auto
    then show ?thesis unfolding row_known_def using g sent by (intro disjI2 bexI[of _ r]) (auto simp: keyed_def)
  qed
  ultimately show ?thesis
    using store_ok_map_rows[OF ok g] by (simp add: keeps_def ntf_ids_def dev_ids_def)
qed

lemma update_where_as_map: "update_where P f rs = map (\<lambda>r. if P r then f r else r) rs"
  by (simp add: update_where_def)

lemma keeps_put_deliveries [keeping]:
  assumes "store_ok s" "keyed f" "\<And>r. r \<in> set (deliveries s) \<Longrightarrow> P r \<Longrightarrow> is_sent (f r) = is_sent r"
  shows "keeps s (put_deliveries P f s)"
  using keeps_map_rows[OF assms(1), of "\<lambda>r. if P r then f r else r"] assms(2,3)
  by (simp add: put_deliveries_def update_where_as_map keyed_def)

text \<open>New deliveries.\<close>

lemma store_ok_create_delivery:
  assumes ok: "store_ok s" and "nid < next_pk s" "v \<in> dev_ids s"
  shows "store_ok (create_delivery nid v s)"
proof -
  have "deliveries_ok (create_delivery nid v s)"
    using ok assms(3) by (intro create_delivery_ok) (auto simp: store_ok_def devices_ok_def dev_ids_def)
  moreover have "next_pk (create_delivery nid v s) = Suc (next_pk s)" by (simp add: create_delivery_def)
  moreover have "set (deliveries (create_delivery nid v s)) \<subseteq> insert (new_delivery (next_pk s) nid v) (set (deliveries s))"
    by (auto simp: create_delivery_def)
  ultimately show ?thesis using ok assms(2)
    by (fastforce simp: store_ok_def devices_ok_def links_ok_def keys_ok_def new_delivery_def)
qed

lemma keeps_create_delivery:
  assumes "store_ok s" "nid < next_pk s" "v \<in> dev_ids s"
  shows "keeps s (create_delivery nid v s)"
proof -
  have "row_kept (create_delivery nid v s) d" if "d \<in> set (deliveries s)" for d
    using that create_delivery_other(7)[of s nid v] unfolding row_kept_def by blast
  moreover have "row_known s d" if "d \<in> set (deliveries (create_delivery nid v s))" for d
    using that by (auto simp: row_known_def create_delivery_def new_delivery_def is_sent_def split: if_splits)
  ultimately show ?thesis using store_ok_create_delivery[OF assms]
    by (simp add: keeps_def ntf_ids_def dev_ids_def) (simp add: create_delivery_def)
qed

lemma keeps_create_deliveries:
  assumes "store_ok s" "nid < next_pk s" "set vs \<subseteq> dev_ids s"
  shows "keeps s (fold (create_delivery nid) vs s)"
  using assms
proof (induction vs arbitrary: s)
  case Nil
  then show ?case by (simp add: keeps_refl)
next
  case (Cons v vs)
  have k: "keeps s (create_delivery nid v s)" using Cons.prems by (intro keeps_create_delivery) auto
  have "keeps (create_delivery nid v s) (fold (create_delivery nid) vs (create_delivery nid v s))"
    using Cons.prems keepsD(1,3)[OF k] by (intro Cons.IH) (auto simp: dev_ids_def)
  then show ?case using keeps_trans[OF Cons.prems(1) k] by simp
qed

lemma keeps_targets:
  assumes "store_ok s" "ntf_id n < next_pk s"
  shows "keeps s (fst (get_target_deliveries_for_notification n s))"
proof -
  have "set (map dev_id (get_target_devices_for_notification s n)) \<subseteq> dev_ids s"
    by (auto simp: get_target_devices_for_notification_def dev_ids_def)
  from keeps_create_deliveries[OF assms this] show ?thesis using keeps_refl[OF assms(1)]
    by (simp add: get_target_deliveries_for_notification_def Let_def fold_map comp_def)
qed

section \<open>What the two ends of a run keep\<close>

lemma keeps_holds_refl: "store_ok s \<Longrightarrow> keeps s s \<and> holds I s s"
  by (simp add: keeps_refl holds_same_notifications)

lemma keeps_holds_trans:
  assumes "store_ok s" "keeps s s1 \<and> holds I s s1" "keeps s1 s2 \<and> holds I s1 s2"
  shows "keeps s s2 \<and> holds I s s2"
  using assms keeps_trans holds_trans by blast

lemma holds_mono: "holds I s s' \<Longrightarrow> J \<subseteq> I \<Longrightarrow> holds J s s'"
  by (auto simp: holds_def)

lemma keeps_set_notification:
  assumes "store_ok s" "ntf_keyed f" "i \<notin> I"
  shows "keeps s (set_notification i f s) \<and> holds I s (set_notification i f s)"
  unfolding set_notification_def
proof (intro conjI)
  show "keeps s (put_notifications (\<lambda>n. ntf_id n = i) f s)" by (rule keeps_put_notifications[OF assms(1,2)])
  show "holds I s (put_notifications (\<lambda>n. ntf_id n = i) f s)"
    by (rule holds_put_notifications[OF _ assms(2)]) (use assms(3) in simp)
qed

lemma webhook_same_tables: "same_tables s (send_webhook_callback a i st t s)"
  by (simp add: same_tables_def send_webhook_callback_def)

lemma keeps_webhook: "store_ok s \<Longrightarrow> keeps s (send_webhook_callback a i st t s) \<and> holds I s (send_webhook_callback a i st t s)"
  by (rule keeps_same_tables[OF webhook_same_tables])

lemma keeps_finish:
  assumes "store_ok s" "i \<notin> I"
  shows "keeps s (finish_notification i st t s) \<and> holds I s (finish_notification i st t s)"
  unfolding finish_notification_def by (rule keeps_set_notification[OF assms(1) _ assms(2)]) (simp add: ntf_keyed_def)

lemma keeps_close:
  assumes "store_ok s" "i \<notin> I"
  shows "keeps s (send_webhook_callback a j st t (finish_notification i st t s)) \<and>
    holds I s (send_webhook_callback a j st t (finish_notification i st t s))"
proof -
  note f = keeps_finish[OF assms, of st t]
  show ?thesis by (rule keeps_holds_trans[OF assms(1) f keeps_webhook]) (use f keepsD(1) in blast)
qed

lemma end_run_keeps:
  assumes "store_ok s" "end_run w s = (s', r)"
  shows "keeps s s' \<and> holds (- {wk_id w}) s s'"
  using assms(2) keeps_close[OF assms(1), of "wk_id w" "- {wk_id w}"] by (auto simp: end_run_def Let_def)

lemma keeps_cancel: "store_ok s \<Longrightarrow> (\<And>r. r \<in> set (deliveries s) \<Longrightarrow> dlv_id r = dlv_id d \<Longrightarrow> \<not> is_sent r) \<Longrightarrow>
    keeps s (cancel_delivery now reason d s)"
  unfolding cancel_delivery_def set_delivery_def
  by (rule keeps_put_deliveries) (auto simp: keyed_def is_sent_def)

lemma keeps_cancel_all:
  assumes "store_ok s" "\<And>r d. r \<in> set (deliveries s) \<Longrightarrow> d \<in> set ds \<Longrightarrow> dlv_id r = dlv_id d \<Longrightarrow> \<not> is_sent r"
  shows "keeps s (fold (cancel_delivery now reason) ds s) \<and> holds I s (fold (cancel_delivery now reason) ds s)"
  using assms
proof (induction ds arbitrary: s)
  case Nil
  then show ?case by (simp add: keeps_holds_refl)
next
  case (Cons d ds)
  let ?t = "cancel_delivery now reason d s"
  have k: "keeps s ?t \<and> holds I s ?t"
    using keeps_cancel[OF Cons.prems(1), of d] Cons.prems(2) by (auto intro: holds_same_notifications)
  have "\<not> is_sent r" if r: "r \<in> set (deliveries ?t)" "e \<in> set ds" "dlv_id r = dlv_id e" for r e
  proof -
    obtain q where "q \<in> set (deliveries s)" "dlv_id q = dlv_id r" "is_sent r \<longrightarrow> is_sent q"
      using r(1) by (auto simp: set_update_where is_sent_def)
    then show ?thesis using Cons.prems(2)[of q e] r by auto
  qed
  then have "keeps ?t (fold (cancel_delivery now reason) ds ?t) \<and> holds I ?t (fold (cancel_delivery now reason) ds ?t)"
    using keepsD(1) k by (intro Cons.IH) blast+
  then show ?case using keeps_holds_trans[OF Cons.prems(1) k] by simp
qed

lemma keeps_lapsed:
  assumes "store_ok s" "ntf_id n \<notin> I" "fail_for_lapsed_subscription now n a s = (s', r)"
  shows "keeps s s' \<and> holds I s s'"
proof -
  let ?p = "filter (\<lambda>d. dlv_notification d = ntf_id n \<and> dlv_status d \<noteq> D_Sent) (deliveries s)"
  have d: "distinct (map dlv_id (deliveries s))" using assms(1) by (simp add: store_ok_def devices_ok_def deliveries_ok_def)
  have unsent: "\<not> is_sent q" if "q \<in> set (deliveries s)" "d \<in> set ?p" "dlv_id q = dlv_id d" for q d
  proof -
    have "q = d" using that d by (auto simp: distinct_map inj_on_def)
    then show ?thesis using that by (simp add: is_sent_def)
  qed
  let ?t = "fold (cancel_delivery now cancel_subscription_required) ?p s"
  have c: "keeps s ?t \<and> holds I s ?t"
    by (rule keeps_cancel_all[OF assms(1)]) (rule unsent)
  then have ok: "store_ok ?t" using keepsD(1) by blast
  have s': "s' = send_webhook_callback a (ntf_id n) Failed None (finish_notification (ntf_id n) Failed None
      (fold (cancel_delivery now cancel_subscription_required) ?p s))"
    using assms(3) by (auto simp: fail_for_lapsed_subscription_def Let_def)
  show ?thesis unfolding s' by (rule keeps_holds_trans[OF assms(1) c keeps_close[OF ok assms(2)]])
qed

lemma find_notification: "store_ok s \<Longrightarrow> n \<in> set (notifications s) \<Longrightarrow> get_notification s (ntf_id n) = Some n"
  by (simp add: store_ok_def keys_ok_def get_notification_def find_key_unique)

lemma acquired:
  assumes ok: "store_ok s" and a: "acquire_notification_for_processing locked now i s = (s1, Some n)"
  shows "keeps s s1 \<and> holds UNIV s s1" "ntf_id n = i" "i < next_pk s1"
    "\<exists>m \<in> set (notifications s1). ntf_id m = i \<and> ntf_status m = Processing \<and> processing_started_at m = Some now"
    "\<And>m. m \<in> set (notifications s) \<Longrightarrow> ntf_id m = i \<Longrightarrow> ntf_status m \<noteq> Processing"
    "deliveries s1 = deliveries s" "provider_log s1 = provider_log s"
proof -
  from acquire_Some[OF a] obtain m where m: "get_notification s i = Some m" "ntf_status m \<in> set allowed_statuses_to_start"
    "n = m\<lparr>ntf_status := Processing, processing_started_at := Some now\<rparr>"
    "s1 = set_notification i (\<lambda>n. n\<lparr>ntf_status := Processing, processing_started_at := Some now\<rparr>) s" "ntf_id m = i"
    by blast
  have row: "m \<in> set (notifications s)" using m(1) by (auto simp: get_notification_def dest: find_SomeD)
  have other: "x = m" if "x \<in> set (notifications s)" "ntf_id x = i" for x
    using find_notification[OF ok that(1)] that(2) m(1) by simp
  show idle: "\<And>m. m \<in> set (notifications s) \<Longrightarrow> ntf_id m = i \<Longrightarrow> ntf_status m \<noteq> Processing"
    using other m(2) by (force simp: allowed_statuses_to_start_def)
  have "keeps s s1 \<and> holds (- {i}) s s1"
    unfolding m(4) by (rule keeps_set_notification[OF ok]) (simp_all add: ntf_keyed_def)
  moreover have "holds (- {i}) s s1 \<Longrightarrow> holds UNIV s s1" using idle by (auto simp: holds_def)
  ultimately show "keeps s s1 \<and> holds UNIV s s1" by blast
  show "ntf_id n = i" using m by simp
  show "\<exists>m \<in> set (notifications s1). ntf_id m = i \<and> ntf_status m = Processing \<and> processing_started_at m = Some now"
    using row m(5) unfolding m(4)
    by (intro bexI[of _ "m\<lparr>ntf_status := Processing, processing_started_at := Some now\<rparr>"]) (auto simp: set_update_where)
  have "i < next_pk s" using store_ok_ids(1)[OF ok] row m(5) by (auto simp: ntf_ids_def)
  then show "i < next_pk s1" by (simp add: m(4))
  show "deliveries s1 = deliveries s" "provider_log s1 = provider_log s" by (simp_all add: m(4))
qed

lemma not_acquired:
  assumes "acquire_notification_for_processing locked now i s = (s1, None)"
  shows "s1 = s"
  using assms
  by (auto simp: acquire_notification_for_processing_def Let_def get_notification_def find_update_where_key
      split: if_splits option.splits)

text \<open>The head of a run leaves every worker alone, and its own notification in its hands.\<close>

lemma start_run_keeps:
  assumes ok: "store_ok s" and run: "start_run env i s = (s', r)"
  shows "keeps s s' \<and> holds UNIV s s'"
proof -
  obtain s1 o1 where a: "acquire_notification_for_processing (row_locked env) (now_start env) i s = (s1, o1)" by fastforce
  show ?thesis
  proof (cases o1)
    case None
    then show ?thesis using a run not_acquired[of "row_locked env" "now_start env" i s s1] keeps_holds_refl[OF ok]
      by (simp add: start_run_def)
  next
    case (Some n)
    note A = acquired[OF ok a[unfolded Some]]
    have ok1: "store_ok s1" using A(1) keepsD(1) by blast
    have "keeps s1 s' \<and> holds (- {i}) s1 s'"
    proof (cases "get_application s1 (ntf_application n)")
      case None
      then show ?thesis using run a Some keeps_holds_refl[OF ok1] by (simp add: start_run_def)
    next
      case app: (Some ap)
      show ?thesis
      proof (cases "owner_is_paid (env_cfg env) (now_start env) s1 ap")
        case False
        obtain s2 q where l: "fail_for_lapsed_subscription (now_start env) n ap s1 = (s2, q)" by fastforce
        then have "s' = s2" using run a Some app False by (simp add: start_run_def)
        then show ?thesis using keeps_lapsed[OF ok1 _ l, of "- {i}"] A(2) by simp
      next
        case paid: True
        show ?thesis
        proof (cases "get_current_quiet_period_end (env_clock env) s1 n (now_start env)")
          case (Some e)
          then have "s' = defer_for_quiet_period i e s1" using run a \<open>o1 = Some n\<close> app paid by (simp add: start_run_def)
          then show ?thesis unfolding defer_for_quiet_period_def
            using keeps_set_notification[OF ok1, where i = i and I = "- {i}"] by (simp add: ntf_keyed_def)
        next
          case awake: None
          obtain s2 ds where t: "get_target_deliveries_for_notification n s1 = (s2, ds)" by fastforce
          have k2: "keeps s1 s2 \<and> holds (- {i}) s1 s2"
            using keeps_targets[OF ok1, of n] A(2,3) t target_deliveries(4)[OF _ t] ok1
            by (auto simp: store_ok_def devices_ok_def intro: holds_same_notifications)
          then have ok2: "store_ok s2" using keepsD(1) by blast
          show ?thesis
          proof (cases "ds = []")
            case True
            then have "s' = send_webhook_callback ap (ntf_id n) No_Target None (finish_notification (ntf_id n) No_Target None s2)"
              using run a Some app paid awake t by (simp add: start_run_def)
            then show ?thesis using keeps_holds_trans[OF ok1 k2 keeps_close[OF ok2]] A(2) by simp
          next
            case False
            then have "s' = s2" using run a Some app paid awake t by (simp add: start_run_def)
            then show ?thesis using k2 by simp
          qed
        qed
      qed
    qed
    note B = this
    have "holds (- {i}) s s'"
      using keeps_holds_trans[OF ok _ B] A(1) holds_mono by blast
    then have "holds UNIV s s'" using A(5) by (auto simp: holds_def)
    then show ?thesis using keeps_trans[OF ok] A(1) B by blast
  qed
qed

section \<open>The fleet and its invariant\<close>

text \<open>The pushes on record: a sent delivery says so as long as the notification and the device exist.\<close>

definition recorded :: "db \<Rightarrow> pk \<Rightarrow> pk \<Rightarrow> bool" where
  "recorded s i v \<longleftrightarrow> i \<notin> ntf_ids s \<or> v \<notin> dev_ids s \<or>
     (\<exists>d \<in> set (deliveries s). dlv_notification d = i \<and> dlv_device d = v \<and> is_sent d)"

definition log_ok :: "db \<Rightarrow> bool" where
  "log_ok s \<longleftrightarrow> distinct (provider_log s) \<and>
     (\<forall>p \<in> set (provider_log s). fst p < next_pk s \<and> snd p < next_pk s \<and> recorded s (fst p) (snd p))"

text \<open>
  A delivery in the hands of the worker of notification \<open>i\<close>: its row is still that of the pair
  unless one of the two is gone, it is sent just when the copy is, and an unsent one has not been
  pushed.
\<close>

definition todo_ok :: "db \<Rightarrow> pk \<Rightarrow> delivery \<times> device \<Rightarrow> bool" where
  "todo_ok s i dd \<longleftrightarrow> dev_id (snd dd) < next_pk s \<and> dlv_id (fst dd) < next_pk s \<and>
     (i \<notin> ntf_ids s \<or> dev_id (snd dd) \<notin> dev_ids s \<or>
        (\<exists>r \<in> set (deliveries s). dlv_id r = dlv_id (fst dd) \<and> dlv_notification r = i \<and> dlv_device r = dev_id (snd dd))) \<and>
     (\<forall>r \<in> set (deliveries s). dlv_id r = dlv_id (fst dd) \<longrightarrow> dlv_notification r = i \<and> is_sent r = is_sent (fst dd)) \<and>
     (\<not> is_sent (fst dd) \<longrightarrow> (i, dev_id (snd dd)) \<notin> set (provider_log s))"

definition in_hand :: "db \<Rightarrow> worker \<Rightarrow> bool" where
  "in_hand s w \<longleftrightarrow> wk_id w < next_pk s \<and> (wk_id w \<notin> ntf_ids s \<or>
     (\<exists>n \<in> set (notifications s). ntf_id n = wk_id w \<and> ntf_status n = Processing \<and> processing_started_at n = Some (wk_since w)))"

definition worker_ok :: "db \<Rightarrow> worker \<Rightarrow> bool" where
  "worker_ok s w \<longleftrightarrow> in_hand s w \<and> distinct (map (dlv_id \<circ> fst) (wk_todo w)) \<and>
     distinct (map (dev_id \<circ> snd) (wk_todo w)) \<and> (\<forall>dd \<in> set (wk_todo w). todo_ok s (wk_id w) dd)"

definition crew_ok :: "db \<Rightarrow> worker list \<Rightarrow> bool" where
  "crew_ok s ws \<longleftrightarrow> store_ok s \<and> log_ok s \<and> distinct (map wk_id ws) \<and> (\<forall>w \<in> set ws. worker_ok s w)"

lemma recorded_kept:
  assumes "keeps s s'" "store_ok s" "i < next_pk s" "v < next_pk s" "recorded s i v"
  shows "recorded s' i v"
proof (cases "i \<notin> ntf_ids s \<or> v \<notin> dev_ids s")
  case True
  then show ?thesis using keepsD(4,5)[OF assms(1)] assms(3,4) by (auto simp: recorded_def)
next
  case False
  then obtain d where d: "d \<in> set (deliveries s)" "dlv_notification d = i" "dlv_device d = v" "is_sent d"
    using assms(5) by (auto simp: recorded_def)
  show ?thesis using keepsD(6)[OF assms(1) d(1)] d(2-) by (auto simp: row_kept_def recorded_def)
qed

lemma log_ok_kept:
  assumes "keeps s s'" "store_ok s" "log_ok s"
  shows "log_ok s'"
  using recorded_kept[OF assms(1,2)] assms(3) keepsD(2,3)[OF assms(1)]
  unfolding log_ok_def by (auto intro: order_less_le_trans)

lemma todo_ok_kept:
  assumes k: "keeps s s'" and ok: "store_ok s" and i: "i < next_pk s" and t: "todo_ok s i dd"
  shows "todo_ok s' i dd"
proof -
  note K = keepsD[OF k]
  have lt: "dev_id (snd dd) < next_pk s" "dlv_id (fst dd) < next_pk s" using t by (auto simp: todo_ok_def)
  have "i \<notin> ntf_ids s' \<or> dev_id (snd dd) \<notin> dev_ids s' \<or>
    (\<exists>r \<in> set (deliveries s'). dlv_id r = dlv_id (fst dd) \<and> dlv_notification r = i \<and> dlv_device r = dev_id (snd dd))"
  proof (cases "i \<notin> ntf_ids s \<or> dev_id (snd dd) \<notin> dev_ids s")
    case True
    then show ?thesis using K(4,5) i lt by blast
  next
    case False
    then obtain r where r: "r \<in> set (deliveries s)" "dlv_id r = dlv_id (fst dd)" "dlv_notification r = i"
      "dlv_device r = dev_id (snd dd)" using t by (auto simp: todo_ok_def)
    show ?thesis using K(6)[OF r(1)] r(2-) by (auto simp: row_kept_def)
  qed
  moreover have "dlv_notification r = i \<and> is_sent r = is_sent (fst dd)"
    if r: "r \<in> set (deliveries s')" "dlv_id r = dlv_id (fst dd)" for r
  proof -
    obtain q where q: "q \<in> set (deliveries s)" "dlv_id q = dlv_id r" "dlv_notification q = dlv_notification r" "is_sent q = is_sent r"
      using K(7)[OF r(1)] r(2) lt by (auto simp: row_known_def)
    have "dlv_id q = dlv_id (fst dd) \<longrightarrow> dlv_notification q = i \<and> is_sent q = is_sent (fst dd)"
      using t q(1) unfolding todo_ok_def by blast
    then show ?thesis using q r(2) by simp
  qed
  ultimately show ?thesis using t K(2,3) unfolding todo_ok_def by (auto intro: order_less_le_trans)
qed

lemma in_hand_kept:
  assumes k: "keeps s s'" and h: "holds I s s'" and w: "wk_id w \<in> I" and i: "in_hand s w"
  shows "in_hand s' w"
proof -
  have lt: "wk_id w < next_pk s" using i by (simp add: in_hand_def)
  then have "wk_id w < next_pk s'" using keepsD(3)[OF k] by simp
  moreover have "wk_id w \<notin> ntf_ids s' \<or> (\<exists>n \<in> set (notifications s'). ntf_id n = wk_id w \<and>
      ntf_status n = Processing \<and> processing_started_at n = Some (wk_since w))"
  proof (cases "wk_id w \<in> ntf_ids s")
    case False
    then show ?thesis using keepsD(4)[OF k lt] by blast
  next
    case True
    then obtain n where n: "n \<in> set (notifications s)" "ntf_id n = wk_id w" "ntf_status n = Processing"
      "processing_started_at n = Some (wk_since w)" using i by (auto simp: in_hand_def)
    show ?thesis using h[unfolded holds_def, rule_format, OF n(1)] n(2-) w by simp
  qed
  ultimately show ?thesis by (simp add: in_hand_def)
qed

text \<open>Whatever keeps the rows keeps the invariant.\<close>

lemma crew_ok_kept:
  assumes "crew_ok s ws" "keeps s s' \<and> holds (wk_id ` set ws) s s'"
  shows "crew_ok s' ws"
proof -
  have k: "keeps s s'" and h: "holds (wk_id ` set ws) s s'" and ok: "store_ok s" using assms by (auto simp: crew_ok_def)
  have "worker_ok s' w" if w: "w \<in> set ws" for w
  proof -
    have i: "in_hand s w" "\<forall>dd \<in> set (wk_todo w). todo_ok s (wk_id w) dd" "distinct (map (dlv_id \<circ> fst) (wk_todo w))"
      "distinct (map (dev_id \<circ> snd) (wk_todo w))" using assms(1) w by (auto simp: crew_ok_def worker_ok_def)
    have "wk_id w < next_pk s" using i(1) by (simp add: in_hand_def)
    then show ?thesis using i in_hand_kept[OF k h _ i(1)] w todo_ok_kept[OF k ok] by (simp add: worker_ok_def)
  qed
  then show ?thesis using assms(1) keepsD(1)[OF k] log_ok_kept[OF k ok] by (simp add: crew_ok_def)
qed

lemma crew_ok_less: "crew_ok s (us @ w # vs) \<Longrightarrow> crew_ok s (us @ vs)"
  by (auto simp: crew_ok_def)

text \<open>A worker that enters the loop.\<close>

lemma started:
  assumes ok: "store_ok s" and run: "start_run env i s = (s', Inr w)"
  shows "wk_id w = i" "wk_since w = now_start env"
    "\<exists>n \<in> set (notifications s'). ntf_id n = i \<and> ntf_status n = Processing \<and> processing_started_at n = Some (now_start env)"
    "\<exists>n \<in> set (notifications s). ntf_id n = i \<and> ntf_status n \<noteq> Processing" "provider_log s' = provider_log s"
    "map fst (wk_todo w) = deliveries_of s' i"
    "\<forall>dd \<in> set (wk_todo w). dev_id (snd dd) = dlv_device (fst dd) \<and> snd dd \<in> set (devices s')"
proof -
  from run obtain s1 n a ds where
    a: "acquire_notification_for_processing (row_locked env) (now_start env) i s = (s1, Some n)" and
    t: "get_target_deliveries_for_notification n s1 = (s', ds)" "ds \<noteq> []" and
    w: "w = \<lparr>wk_application = a, wk_context = context_of env n a s' ds, wk_todo = with_devices s' ds,
      wk_total = length ds, wk_counts = no_counts\<rparr>"
    by (auto simp: start_run_def Let_def split: prod.splits option.splits if_splits)
  note A = acquired[OF ok a]
  have d1: "deliveries_ok s1" using A(1) keepsD(1) by (auto simp: store_ok_def devices_ok_def)
  note T = target_deliveries[OF d1 t(1)]
  show "wk_id w = i" "wk_since w = now_start env" using A(2) by (simp_all add: w wk_id_def wk_since_def context_of_def)
  show "\<exists>n \<in> set (notifications s'). ntf_id n = i \<and> ntf_status n = Processing \<and> processing_started_at n = Some (now_start env)"
    using A(4) T(4) by simp
  have ds: "ds = deliveries_of s' i" using T(9)[OF t(2)] A(2) by simp
  have "set ds \<subseteq> set (deliveries s')" using ds by (auto simp: set_deliveries_of)
  from with_devices_fst[OF T(1) this]
  show "map fst (wk_todo w) = deliveries_of s' i"
    "\<forall>dd \<in> set (wk_todo w). dev_id (snd dd) = dlv_device (fst dd) \<and> snd dd \<in> set (devices s')"
    by (simp_all add: w ds)
  show "provider_log s' = provider_log s" using T(7) A(7) by simp
  obtain m where "get_notification s i = Some m" "ntf_id m = i" using acquire_Some[OF a] by blast
  then have m: "m \<in> set (notifications s)" "ntf_id m = i" by (auto simp: get_notification_def dest: find_SomeD)
  then show "\<exists>n \<in> set (notifications s). ntf_id n = i \<and> ntf_status n \<noteq> Processing" using A(5)[OF m] by blast
qed

lemma crew_ok_start:
  assumes crew: "crew_ok s ws" and run: "start_run env i s = (s', Inr w)"
  shows "crew_ok s' (w # ws)"
proof -
  have ok: "store_ok s" using crew by (simp add: crew_ok_def)
  note S = started[OF ok run]
  have k: "keeps s s' \<and> holds UNIV s s'" by (rule start_run_keeps[OF ok run])
  have c': "crew_ok s' ws" using crew_ok_kept[OF crew] k holds_mono by blast
  then have ok': "store_ok s'" and log': "log_ok s'" by (auto simp: crew_ok_def)
  then have dok: "deliveries_ok s'" by (simp add: store_ok_def devices_ok_def)
  have i: "i \<in> ntf_ids s'" using S(3) by (auto simp: ntf_ids_def)
  have i0: "i \<in> ntf_ids s" using S(4) by (auto simp: ntf_ids_def)
  have others: "wk_id x \<noteq> i" if x: "x \<in> set ws" for x
  proof
    assume "wk_id x = i"
    then obtain n where n: "n \<in> set (notifications s)" "ntf_id n = i" "ntf_status n = Processing"
      using crew x i0 by (auto simp: crew_ok_def worker_ok_def in_hand_def)
    obtain m where m: "m \<in> set (notifications s)" "ntf_id m = i" "ntf_status m \<noteq> Processing" using S(4) by blast
    have "m = n" using find_notification[OF ok m(1)] find_notification[OF ok n(1)] m(2) n(2) by simp
    then show False using m n by simp
  qed
  then have "wk_id w \<notin> wk_id ` set ws" unfolding S(1) by blast
  then have dist: "distinct (map wk_id (w # ws))" using c' by (simp add: crew_ok_def)
  have rows: "set (map fst (wk_todo w)) = {d \<in> set (deliveries s'). dlv_notification d = i}"
    unfolding S(6) by (rule set_deliveries_of)
  have todo: "todo_ok s' i dd" if dd: "dd \<in> set (wk_todo w)" for dd
  proof -
    have "fst dd \<in> set (map fst (wk_todo w))" using dd by simp
    then have d: "fst dd \<in> set (deliveries s')" "dlv_notification (fst dd) = i" unfolding rows by auto
    have v: "dev_id (snd dd) = dlv_device (fst dd)" "dev_id (snd dd) \<in> dev_ids s'"
      using S(7) dd unfolding dev_ids_def by (blast, blast)
    have same: "r = fst dd" if "r \<in> set (deliveries s')" "dlv_id r = dlv_id (fst dd)" for r
      using that d(1) dok by (auto simp: deliveries_ok_def distinct_map inj_on_def)
    have "(i, dev_id (snd dd)) \<notin> set (provider_log s')" if unsent: "\<not> is_sent (fst dd)"
    proof
      assume "(i, dev_id (snd dd)) \<in> set (provider_log s')"
      then have "recorded s' i (dev_id (snd dd))" using log' by (auto simp: log_ok_def)
      then obtain r where r: "r \<in> set (deliveries s')" "dlv_notification r = i" "dlv_device r = dev_id (snd dd)" "is_sent r"
        using i v(2) by (auto simp: recorded_def)
      then have "r = fst dd" using same_pair_same_row[OF dok r(1) d(1)] d(2) v(1) by simp
      then show False using r(4) unsent by simp
    qed
    moreover have "dev_id (snd dd) < next_pk s'" "dlv_id (fst dd) < next_pk s'"
      using store_ok_ids[OF ok'] v(2) d(1) by blast+
    ultimately show ?thesis using d v same unfolding todo_ok_def by metis
  qed
  have "distinct (map dlv_id (deliveries_of s' i))" "distinct (map dlv_device (deliveries_of s' i))"
    using dok by (auto simp: deliveries_ok_def deliveries_of_def distinct_map inj_on_def)
  then have "distinct (map (dlv_id \<circ> fst) (wk_todo w))" "distinct (map (dlv_device \<circ> fst) (wk_todo w))"
    using S(6) by (metis list.map_comp)+
  moreover have "map (dlv_device \<circ> fst) (wk_todo w) = map (dev_id \<circ> snd) (wk_todo w)" using S(7) by simp
  ultimately have "worker_ok s' w"
    using todo S(1,2,3) i store_ok_ids(1)[OF ok'] by (auto simp: worker_ok_def in_hand_def)
  then show ?thesis using c' dist by (simp add: crew_ok_def)
qed

text \<open>An iteration, whatever the other workers hold.\<close>

lemma store_ok_process:
  assumes ok: "store_ok s" and st: "process_delivery ctx dd (s, c) = (s', c')"
  shows "store_ok s' \<and> ntf_ids s' = ntf_ids s \<and> dev_ids s' = dev_ids s \<and> next_pk s' = next_pk s \<and>
    notifications s' = notifications s"
proof -
  have s': "s' = fst (process_delivery ctx dd (s, c))" using st by simp
  obtain g where g: "keyed g" "deliveries s' = update_where (\<lambda>r. dlv_id r = dlv_id (fst dd)) g (deliveries s)"
    unfolding s' by (rule process_effect[of ctx dd s c])
  have f: "same_frame s s'" unfolding s' using same_frame_process[of "(s, c)"] by simp
  have k: "keyed (\<lambda>r. if dlv_id r = dlv_id (fst dd) then g r else r)" using g(1) by (simp add: keyed_def)
  let ?t = "s\<lparr>deliveries := map (\<lambda>r. if dlv_id r = dlv_id (fst dd) then g r else r) (deliveries s)\<rparr>"
  have t: "store_ok ?t" by (rule store_ok_map_rows[OF ok k])
  have rows: "deliveries s' = deliveries ?t" by (simp add: g(2) update_where_def)
  have ids: "dev_id ` set (devices s') = dev_id ` set (devices s)"
    using f unfolding same_frame_def by (metis set_map)
  have lt: "\<forall>d \<in> set (devices s'). dev_id d < next_pk s"
    using ids ok by (force simp: store_ok_def devices_ok_def)
  have "store_ok s'"
    using t f rows ids lt
    unfolding store_ok_def devices_ok_def deliveries_ok_def links_ok_def keys_ok_def same_frame_def by simp
  then show ?thesis using f ids by (simp add: same_frame_def ntf_ids_def dev_ids_def)
qed

lemma set_update_id:
  "r \<in> set (update_where P f rs) \<Longrightarrow> (\<And>x. k (f x) = k x) \<Longrightarrow> \<exists>q \<in> set rs. k r = k q \<and> (r = q \<and> \<not> P q \<or> P q \<and> r = f q)"
  by (auto simp: set_update_where)

lemma crew_ok_deliver:
  assumes crew: "crew_ok s (us @ w # vs)" and todo: "wk_todo w = dd # dds"
    and ctx: "ctx = wk_context w" and st: "process_delivery ctx dd (s, c) = (s', c')"
  shows "crew_ok s' (us @ w\<lparr>wk_todo := dds, wk_counts := c'\<rparr> # vs)"
proof -
  define i v where "i = wk_id w" and "v = dev_id (snd dd)"
  let ?w' = "w\<lparr>wk_todo := dds, wk_counts := c'\<rparr>"
  have ok: "store_ok s" and log: "log_ok s" and w: "worker_ok s w" using crew by (auto simp: crew_ok_def)
  note P = store_ok_process[OF ok st]
  have td: "todo_ok s i dd" using w todo by (simp add: worker_ok_def i_def)
  obtain g where g: "keyed g" "deliveries s' = update_where (\<lambda>r. dlv_id r = dlv_id (fst dd)) g (deliveries s)"
    "is_sent (fst dd) \<Longrightarrow> g = id"
    "snd (delivery_step ctx s dd) = K_Sent \<Longrightarrow> \<not> is_sent (fst dd) \<and> (\<forall>r. is_sent (g r))"
    "snd (delivery_step ctx s dd) \<noteq> K_Sent \<Longrightarrow> (\<forall>r. \<not> is_sent r \<longrightarrow> \<not> is_sent (g r))"
    using process_effect[of ctx dd s c] unfolding st fst_conv by metis
  have gk: "dlv_id (g r) = dlv_id r" "dlv_notification (g r) = dlv_notification r" "dlv_device (g r) = dlv_device r" for r
    using g(1) by (simp_all add: keyed_def)
  have plog: "provider_log s' = provider_log s @ (if snd (delivery_step ctx s dd) = K_Sent then [(i, v)] else [])"
    using process_delivery_other(3)[of ctx dd "(s, c)"] st ctx by (simp add: i_def v_def wk_id_def)
  have mine: "dlv_notification r = i \<and> is_sent r = is_sent (fst dd)" if "r \<in> set (deliveries s)" "dlv_id r = dlv_id (fst dd)" for r
    using td that unfolding todo_ok_def by blast
  have behind: "\<exists>q \<in> set (deliveries s). dlv_id q = dlv_id r \<and> dlv_notification q = dlv_notification r \<and> dlv_device q = dlv_device r \<and>
      (dlv_id r \<noteq> dlv_id (fst dd) \<longrightarrow> r = q)" if "r \<in> set (deliveries s')" for r
    using that unfolding g(2) set_update_where by (auto simp: gk)
  have stays: "r \<in> set (deliveries s')" if "r \<in> set (deliveries s)" "dlv_id r \<noteq> dlv_id (fst dd)" for r
    using that unfolding g(2) set_update_where by auto
  have image: "g r \<in> set (deliveries s')" if "r \<in> set (deliveries s)" "dlv_id r = dlv_id (fst dd)" for r
    using that unfolding g(2) set_update_where by auto
  have rec: "recorded s' j u" if r: "recorded s j u" for j u
  proof (cases "j \<notin> ntf_ids s \<or> u \<notin> dev_ids s")
    case True
    then show ?thesis using P by (auto simp: recorded_def)
  next
    case False
    then obtain d where d: "d \<in> set (deliveries s)" "dlv_notification d = j" "dlv_device d = u" "is_sent d"
      using r by (auto simp: recorded_def)
    show ?thesis
    proof (cases "dlv_id d = dlv_id (fst dd)")
      case True
      then have "is_sent (fst dd)" using mine[OF d(1)] d(4) by simp
      then have "d \<in> set (deliveries s')" using image[OF d(1) True] g(3) by simp
      then show ?thesis using d by (auto simp: recorded_def)
    next
      case False
      then show ?thesis using stays[OF d(1)] d by (auto simp: recorded_def)
    qed
  qed
  have newrec: "recorded s' i v" if pushed: "snd (delivery_step ctx s dd) = K_Sent"
  proof (cases "i \<notin> ntf_ids s \<or> v \<notin> dev_ids s")
    case True
    then show ?thesis using P by (auto simp: recorded_def)
  next
    case False
    then obtain r where r: "r \<in> set (deliveries s)" "dlv_id r = dlv_id (fst dd)" "dlv_notification r = i" "dlv_device r = v"
      using td by (auto simp: todo_ok_def v_def)
    show ?thesis unfolding recorded_def
      using image[OF r(1,2)] g(4)[OF pushed] r(3,4) by (intro disjI2 bexI[of _ "g r"]) (auto simp: gk)
  qed
  have fresh: "(i, v) \<notin> set (provider_log s)" if "snd (delivery_step ctx s dd) = K_Sent"
    using g(4)[OF that] td by (auto simp: todo_ok_def v_def)
  have lt: "i < next_pk s" "v < next_pk s" using w td by (auto simp: worker_ok_def in_hand_def todo_ok_def i_def v_def)
  have log': "log_ok s'"
    using log rec newrec fresh lt P unfolding log_ok_def plog by auto
  have other: "todo_ok s' j ee" if t: "todo_ok s j ee"
    and dj: "j \<noteq> i \<or> (dlv_id (fst ee) \<noteq> dlv_id (fst dd) \<and> dev_id (snd ee) \<noteq> v)" for j ee
  proof -
    have "j \<notin> ntf_ids s \<or> dev_id (snd ee) \<notin> dev_ids s \<or>
        (\<exists>r \<in> set (deliveries s'). dlv_id r = dlv_id (fst ee) \<and> dlv_notification r = j \<and> dlv_device r = dev_id (snd ee))"
    proof (cases "j \<notin> ntf_ids s \<or> dev_id (snd ee) \<notin> dev_ids s")
      case False
      then obtain r where r: "r \<in> set (deliveries s)" "dlv_id r = dlv_id (fst ee)" "dlv_notification r = j" "dlv_device r = dev_id (snd ee)"
        using t by (auto simp: todo_ok_def)
      have "dlv_id r \<noteq> dlv_id (fst dd)" using mine[OF r(1)] r dj by auto
      then show ?thesis using stays[OF r(1)] r by blast
    qed blast
    moreover have "dlv_notification r = j \<and> is_sent r = is_sent (fst ee)"
      if r: "r \<in> set (deliveries s')" "dlv_id r = dlv_id (fst ee)" for r
    proof -
      obtain q where q: "q \<in> set (deliveries s)" "dlv_id q = dlv_id r" "dlv_notification q = dlv_notification r"
        "dlv_id r \<noteq> dlv_id (fst dd) \<longrightarrow> r = q" using behind[OF r(1)] by blast
      have e: "dlv_notification q = j \<and> is_sent q = is_sent (fst ee)"
        using t q(1,2) r(2) unfolding todo_ok_def by simp
      have "dlv_id q \<noteq> dlv_id (fst dd)" using mine[OF q(1)] e q(2) r(2) dj by auto
      then show ?thesis using q e by simp
    qed
    moreover have "(j, dev_id (snd ee)) \<notin> set (provider_log s')" if "\<not> is_sent (fst ee)"
      using t that dj unfolding plog todo_ok_def by auto
    ultimately show ?thesis using t P unfolding todo_ok_def by simp
  qed
  have "worker_ok s' x" if x: "x \<in> set us \<union> set vs" for x
  proof -
    have "wk_id x \<in> wk_id ` (set us \<union> set vs)" using x by (rule imageI)
    moreover have "i \<notin> wk_id ` (set us \<union> set vs)" using crew by (auto simp: crew_ok_def i_def)
    ultimately have "wk_id x \<noteq> i" by metis
    moreover have "worker_ok s x" using crew x by (auto simp: crew_ok_def)
    ultimately show ?thesis using other P by (auto simp: worker_ok_def in_hand_def)
  qed
  moreover have "worker_ok s' ?w'"
  proof -
    have d: "distinct (map (dlv_id \<circ> fst) (dd # dds))" "distinct (map (dev_id \<circ> snd) (dd # dds))"
      "\<forall>ee \<in> set dds. todo_ok s i ee" "in_hand s w" using w todo by (auto simp: worker_ok_def i_def)
    have "todo_ok s' i ee" if e: "ee \<in> set dds" for ee
    proof -
      have "dlv_id (fst ee) \<in> (dlv_id \<circ> fst) ` set dds" "dev_id (snd ee) \<in> (dev_id \<circ> snd) ` set dds" using e by force+
      moreover have "dlv_id (fst dd) \<notin> (dlv_id \<circ> fst) ` set dds" "v \<notin> (dev_id \<circ> snd) ` set dds"
        using d(1,2) by (simp_all add: v_def)
      ultimately have "dlv_id (fst ee) \<noteq> dlv_id (fst dd)" "dev_id (snd ee) \<noteq> v" by metis+
      then show ?thesis using other d(3) e by blast
    qed
    moreover have "wk_id ?w' = i" "wk_since ?w' = wk_since w" by (simp_all add: i_def wk_id_def wk_since_def)
    ultimately show ?thesis using d P by (auto simp: worker_ok_def in_hand_def i_def)
  qed
  moreover have "map wk_id (us @ ?w' # vs) = map wk_id (us @ w # vs)" by (simp add: wk_id_def)
  then have "distinct (map wk_id (us @ ?w' # vs))" using crew by (simp only: crew_ok_def)
  ultimately show ?thesis using log' P by (auto simp: crew_ok_def)
qed

end
