(* ===== verification/Senders.thy ===== *)
theory Senders
  imports Store "HOL-Library.Sublist"
begin

text \<open>
  Who may write to an application by mail, and to which address: the owner's lists of senders
  (\<open>applications/inbound_sender_policy.py\<close>), the verdict of the mail provider on the sender
  (\<open>notifications/inbound_auth.py\<close>), the alias addresses (\<open>applications/inbound_alias.py\<close>) and the date
  in a subject (\<open>notifications/inbound_email.py\<close>). Parameters: the framework's address validator,
  \<open>email.utils.parseaddr\<close>, \<open>slugify\<close> and the date parser.
\<close>

section \<open>The sender policy\<close>

text \<open>
  \<open>valid_email\<close> is the framework's address validator. Entries of the two lists: an address, a
  domain (\<open>@d\<close>), or a domain with its subdomains (\<open>@*.d\<close>).
\<close>

definition max_sender_list_entries :: nat where "max_sender_list_entries = 200"
definition max_sender_entry_length :: nat where "max_sender_entry_length = 254"
definition wildcard_domain_prefix :: string where "wildcard_domain_prefix = ''@*.''"

definition reason_blocklisted :: string where "reason_blocklisted = ''blocklisted''"
definition reason_not_allowed :: string where "reason_not_allowed = ''not_allowed''"
definition reason_not_authenticated :: string where "reason_not_authenticated = ''sender_not_authenticated''"
definition accepted_owner :: string where "accepted_owner = ''owner''"
definition accepted_allowlist :: string where "accepted_allowlist = ''allowlisted''"
definition accepted_anyone :: string where "accepted_anyone = ''anyone''"

definition log_code_for_rejection :: "string \<Rightarrow> string" where
  "log_code_for_rejection r =
     (if r = reason_not_allowed then ''sender_not_allowed''
      else if r = reason_blocklisted then ''sender_blocked''
      else if r = reason_not_authenticated then ''dmarc_failed'' else r)"

definition normalize_entry :: "(string \<Rightarrow> bool) \<Rightarrow> string \<Rightarrow> string + string" where
  "normalize_entry valid_email raw =
     (let entry = lower (strip raw) in
      if entry = [] then Inl ''Empty entry.''
      else if max_sender_entry_length < length entry then Inl (''Entry is too long: '' @ take 40 entry @ ''...'')
      else if starts_with entry ''@'' then
        (let domain = (if starts_with entry wildcard_domain_prefix then drop 3 entry else drop 1 entry) in
         if CHR ''*'' \<in> set domain
         then Inl (''Invalid domain entry (wildcard only as '' @ [CHR 0x27] @ ''@*.domain'' @ [CHR 0x27] @ ''): '' @ entry)
         else if domain = [] \<or> CHR ''@'' \<in> set domain then Inl (''Invalid domain entry: '' @ entry)
         else if \<not> valid_email (''probe@'' @ domain) then Inl (''Invalid domain entry: '' @ entry)
         else Inr entry)
      else if CHR ''*'' \<in> set entry
      then Inl (''Invalid e-mail address (wildcard only as '' @ [CHR 0x27] @ ''@*.domain'' @ [CHR 0x27] @ ''): '' @ entry)
      else if \<not> valid_email entry then Inl (''Invalid e-mail address: '' @ entry)
      else Inr entry)"

text \<open>One value of the list: the entries kept so far and the messages collected.\<close>

definition normalize_one :: "(string \<Rightarrow> bool) \<Rightarrow> string \<Rightarrow> string list \<times> string list \<Rightarrow> string list \<times> string list" where
  "normalize_one valid_email raw st =
     (case st of (kept, msgs) \<Rightarrow>
        if strip raw = [] then (kept, msgs)
        else case normalize_entry valid_email raw of
          Inl m \<Rightarrow> (kept, msgs @ [m])
        | Inr e \<Rightarrow> if e \<in> set kept then (kept, msgs) else (kept @ [e], msgs))"

definition normalize_entries :: "(string \<Rightarrow> bool) \<Rightarrow> string list \<Rightarrow> string list + string list" where
  "normalize_entries valid_email values =
     (case fold (normalize_one valid_email) values ([], []) of (kept, msgs) \<Rightarrow>
        if msgs \<noteq> [] then Inl msgs
        else if max_sender_list_entries < length kept then Inl [''At most 200 entries are allowed.'']
        else Inr kept)"

definition entry_matches :: "string \<Rightarrow> string \<Rightarrow> string \<Rightarrow> bool" where
  "entry_matches sender sender_domain raw =
     (let entry = lower (strip raw) in
      if starts_with entry wildcard_domain_prefix
      then (let base = drop 3 entry in
            base \<noteq> [] \<and> (sender_domain = base \<or> ends_with sender_domain (CHR ''.'' # base)))
      else entry = sender \<or> entry = CHR ''@'' # sender_domain)"

definition sender_matches :: "string \<Rightarrow> string list \<Rightarrow> bool" where
  "sender_matches raw entries =
     (let sender = lower (strip raw); sender_domain = after_last CHR ''@'' sender in
      if CHR ''@'' \<notin> set sender then False
      else if sender_domain = [] then False
      else list_ex (entry_matches sender sender_domain) entries)"

record policy_decision =
  pd_accepted :: bool
  pd_reason :: string
  pd_is_owner :: bool

definition evaluate_sender_policy :: "db \<Rightarrow> application \<Rightarrow> string \<Rightarrow> policy_decision" where
  "evaluate_sender_policy s a raw =
     (let sender = lower (strip raw);
          owner_email = (case get_user s (app_owner a) of None \<Rightarrow> [] | Some u \<Rightarrow> lower (strip (user_email u)));
          is_owner = (owner_email \<noteq> [] \<and> sender = owner_email)
      in if is_owner then \<lparr>pd_accepted = True, pd_reason = accepted_owner, pd_is_owner = True\<rparr>
         else if sender_matches sender (inbound_sender_blocklist a)
         then \<lparr>pd_accepted = False, pd_reason = reason_blocklisted, pd_is_owner = False\<rparr>
         else if inbound_sender_mode a = Mode_Anyone
         then \<lparr>pd_accepted = True, pd_reason = accepted_anyone, pd_is_owner = False\<rparr>
         else if sender_matches sender (inbound_sender_allowlist a)
         then \<lparr>pd_accepted = True, pd_reason = accepted_allowlist, pd_is_owner = False\<rparr>
         else \<lparr>pd_accepted = False, pd_reason = reason_not_allowed, pd_is_owner = False\<rparr>)"

section \<open>The authentication verdict\<close>

text \<open>Word characters of a Python pattern, among the characters of the model.\<close>

definition is_word :: "char \<Rightarrow> bool" where
  "is_word c = (let n = of_char c :: nat in
     (48 \<le> n \<and> n \<le> 57) \<or> (65 \<le> n \<and> n \<le> 90) \<or> n = 95 \<or> (97 \<le> n \<and> n \<le> 122) \<or>
     n \<in> {170, 178, 179, 181, 185, 186, 188, 189, 190} \<or> (192 \<le> n \<and> n \<noteq> 215 \<and> n \<noteq> 247))"

text \<open>
  \<open>re.search\<close> of a word boundary, a literal starting with a letter, and a greedy non-empty run of
  a class of characters, which is the result; \<open>prev\<close> tells whether a word character comes before.
\<close>

fun search_after :: "string \<Rightarrow> (char \<Rightarrow> bool) \<Rightarrow> bool \<Rightarrow> string \<Rightarrow> string option" where
  "search_after lit cls prev [] = None"
| "search_after lit cls prev (c # cs) =
     (let run = takeWhile cls (drop (length lit) (c # cs)) in
      if \<not> prev \<and> starts_with (c # cs) lit \<and> run \<noteq> [] then Some run
      else search_after lit cls (is_word c) cs)"

definition lower_letter :: "char \<Rightarrow> bool" where
  "lower_letter c = (let n = of_char c :: nat in 97 \<le> n \<and> n \<le> 122)"

definition dmarc_search :: "string \<Rightarrow> string option" where
  "dmarc_search = search_after ''dmarc='' lower_letter False"

definition header_from_search :: "string \<Rightarrow> string option" where
  "header_from_search = search_after ''header.from='' (\<lambda>c. \<not> is_space c \<and> c \<noteq> CHR '';'') False"

record auth_verdict =
  av_accepted :: bool
  av_reason :: string
  av_dmarc :: string

definition rstrip_dots :: "string \<Rightarrow> string" where
  "rstrip_dots s = rev (dropWhile (\<lambda>c. c = CHR ''.'') (rev s))"

definition evaluate_sender_authentication :: "config \<Rightarrow> string \<Rightarrow> string \<Rightarrow> string \<Rightarrow> auth_verdict" where
  "evaluate_sender_authentication cfg results sender_domain auth_as =
     (let lowered = lower results; verdict = (\<lambda>ok r d. \<lparr>av_accepted = ok, av_reason = r, av_dmarc = d\<rparr>) in
      if dmarc_trust_internal cfg \<and> lower (strip auth_as) = ''internal'' then verdict True ''internal_org'' []
      else if strip lowered = [] then verdict False ''no_auth_results'' []
      else case dmarc_search lowered of
        None \<Rightarrow> verdict False ''no_dmarc_verdict'' []
      | Some v \<Rightarrow>
          if (case header_from_search lowered of None \<Rightarrow> False | Some f \<Rightarrow> rstrip_dots f \<noteq> lower sender_domain)
          then verdict False ''misaligned'' v
          else if v = ''pass'' then verdict True ''dmarc_pass'' v
          else if v = ''bestguesspass'' then verdict (dmarc_accept_bestguesspass cfg) ''dmarc_bestguesspass'' v
          else if v = ''none'' then verdict (dmarc_allow_no_policy cfg) ''dmarc_none'' v
          else verdict False (''dmarc_'' @ v) v)"

section \<open>Alias addresses\<close>

definition legacy_alias_prefix :: string where "legacy_alias_prefix = ''app_''"
definition alias_random_bytes :: nat where "alias_random_bytes = 4"
definition max_local_part_length :: nat where "max_local_part_length = 64"
definition default_slug :: string where "default_slug = ''app''"

definition alias_suffix :: "config \<Rightarrow> string" where
  "alias_suffix cfg = lower (strip (inbound_email_alias_suffix cfg))"

definition inbound_domain :: "config \<Rightarrow> string" where
  "inbound_domain cfg = lower (strip (inbound_email_domain cfg))"

definition mailbox_addresses :: "config \<Rightarrow> string list" where
  "mailbox_addresses cfg = map (\<lambda>c. lower (strip c))
     (filter (\<lambda>c. CHR ''@'' \<in> set c) [graph_mailbox_user_id cfg, exchange_shared_mailbox cfg])"

text \<open>\<open>parse_address\<close> is \<open>email.utils.parseaddr(...)[1]\<close>.\<close>

definition normalize_address :: "(string \<Rightarrow> string) \<Rightarrow> string \<Rightarrow> string" where
  "normalize_address parse_address v = lower (strip (parse_address v))"

text \<open>
  \<open>generate_alias\<close>: \<open>slug\<close> is the framework's \<open>slugify\<close> of the name, \<open>hex\<close> the random part drawn. Runs of
  dashes are collapsed, dashes at the ends dropped, and the slug is cut so that the local part
  fits.
\<close>

fun collapse_dashes :: "string \<Rightarrow> string" where
  "collapse_dashes (c # d # cs) =
     (if c = CHR ''-'' \<and> d = CHR ''-'' then collapse_dashes (d # cs) else c # collapse_dashes (d # cs))"
| "collapse_dashes s = s"

definition strip_dashes :: "string \<Rightarrow> string" where
  "strip_dashes s = rev (dropWhile (\<lambda>c. c = CHR ''-'') (rev (dropWhile (\<lambda>c. c = CHR ''-'') s)))"

definition or_default :: "string \<Rightarrow> string \<Rightarrow> string" where
  "or_default s d = (if s = [] then d else s)"

definition generate_alias :: "config \<Rightarrow> string \<Rightarrow> string \<Rightarrow> string" where
  "generate_alias cfg slugified hex =
     (let suffix = alias_suffix cfg;
          slug = or_default (strip_dashes (collapse_dashes slugified)) default_slug;
          room = max (int max_local_part_length - 1 - int (length hex) - int (length suffix)) 1;
          slug2 = or_default (strip_dashes (take (nat room) slug)) (take (nat room) default_slug)
      in slug2 @ ''-'' @ hex @ suffix)"

definition random_part_of :: "config \<Rightarrow> string \<Rightarrow> string" where
  "random_part_of cfg v =
     (let a = lower v; suffix = alias_suffix cfg in
      if suffix \<noteq> [] \<and> ends_with a suffix
      then after_last CHR ''-'' (take (length a - length suffix) a)
      else after_last CHR ''_'' a)"

definition is_current_format :: "config \<Rightarrow> string \<Rightarrow> bool" where
  "is_current_format cfg v = (let a = lower v; suffix = alias_suffix cfg in
     suffix \<noteq> [] \<and> ends_with a suffix \<and> length suffix < length a)"

definition is_legacy_format :: "string \<Rightarrow> bool" where
  "is_legacy_format v = (let a = lower v in starts_with a legacy_alias_prefix \<and> length legacy_alias_prefix < length a)"

definition is_alias_local_part :: "config \<Rightarrow> string \<Rightarrow> bool" where
  "is_alias_local_part cfg v \<longleftrightarrow> is_current_format cfg v \<or> is_legacy_format v"

definition is_inbound_alias_address :: "config \<Rightarrow> (string \<Rightarrow> string) \<Rightarrow> string \<Rightarrow> bool" where
  "is_inbound_alias_address cfg parse_address v =
     (let a = normalize_address parse_address v in
      if a = [] \<or> CHR ''@'' \<notin> set a \<or> a \<in> set (mailbox_addresses cfg) then False
      else after_last CHR ''@'' a = inbound_domain cfg \<and> is_alias_local_part cfg (before_last CHR ''@'' a))"

section \<open>The date in the subject\<close>

text \<open>
  The pattern \<open>[SEND_AT: ...]\<close> at a place: the text between the colon and the closing bracket, and
  what follows the bracket.
\<close>

definition marker_at :: "string \<Rightarrow> (string \<times> string) option" where
  "marker_at s =
     (case s of
        [] \<Rightarrow> None
      | c # r \<Rightarrow>
          if c \<noteq> CHR ''['' then None
          else (let r1 = lstrip r in
            if lower (take 7 r1) \<noteq> ''send_at'' then None
            else (case lstrip (drop 7 r1) of
               [] \<Rightarrow> None
             | k # r3 \<Rightarrow>
                 if k \<noteq> CHR '':'' then None
                 else (let inside = takeWhile (\<lambda>x. x \<noteq> CHR '']'') r3; rest = dropWhile (\<lambda>x. x \<noteq> CHR '']'') r3 in
                   if inside = [] \<or> rest = [] then None else Some (inside, tl rest)))))"

text \<open>The first place: what comes before, the text inside, what follows.\<close>

fun find_marker :: "string \<Rightarrow> (string \<times> string \<times> string) option" where
  "find_marker [] = None"
| "find_marker (c # cs) =
     (case marker_at (c # cs) of
        Some (inside, after) \<Rightarrow> Some ([], inside, after)
      | None \<Rightarrow> (case find_marker cs of
           None \<Rightarrow> None
         | Some (before, inside, after) \<Rightarrow> Some (c # before, inside, after)))"

text \<open>What the framework's \<open>parse_datetime\<close> makes of a text.\<close>

datatype parsed_date = No_Date | Naive_Date | Aware_Date instant | Bad_Date string

definition extract_subject_schedule :: "(string \<Rightarrow> parsed_date) \<Rightarrow> string \<Rightarrow> string + string \<times> instant option" where
  "extract_subject_schedule parse_date subject =
     (case find_marker subject of
        None \<Rightarrow> Inr (squeeze subject, None)
      | Some (before, inside, after) \<Rightarrow>
          (case parse_date (strip inside) of
             Bad_Date m \<Rightarrow> Inl m
           | Aware_Date t \<Rightarrow> Inr (squeeze (before @ after), Some t)
           | _ \<Rightarrow> Inl ''Invalid [SEND_AT:...] marker format. Use an ISO 8601 date with timezone.''))"

section \<open>The lists of senders in canonical form\<close>

definition canonical_entry :: "string \<Rightarrow> bool" where
  "canonical_entry e \<longleftrightarrow> e \<noteq> [] \<and> length e \<le> max_sender_entry_length \<and> lower (strip e) = e \<and>
     (starts_with e wildcard_domain_prefix \<longrightarrow> drop 3 e \<noteq> []) \<and>
     (starts_with e ''@'' \<longrightarrow> CHR ''@'' \<notin> set (drop 1 e))"

lemma lower_strip_lower_strip [simp]: "lower (strip (lower (strip x))) = lower (strip x)"
  by (simp add: strip_lower)

lemma strip_of_normal: "lower (strip e) = e \<Longrightarrow> strip e = e"
  by (metis lower_idem strip_idem strip_lower)

lemma normalize_entry_canonical:
  assumes "normalize_entry v x = Inr e"
  shows "canonical_entry e \<and> normalize_entry v e = Inr e"
proof -
  have e: "e = lower (strip x)" using assms by (auto simp: normalize_entry_def Let_def split: if_splits)
  have "normalize_entry v e = Inr e" using assms unfolding e by (simp add: normalize_entry_def)
  moreover have "canonical_entry e"
  proof -
    have "lower (strip e) = e" unfolding e by simp
    moreover have "e \<noteq> []" "length e \<le> max_sender_entry_length"
      "starts_with e wildcard_domain_prefix \<longrightarrow> drop 3 e \<noteq> [] \<and> CHR ''@'' \<notin> set (drop 3 e)"
      "starts_with e ''@'' \<and> \<not> starts_with e wildcard_domain_prefix \<longrightarrow> CHR ''@'' \<notin> set (drop 1 e)"
      using assms unfolding e
      by (auto simp: normalize_entry_def Let_def wildcard_domain_prefix_def starts_with_iff split: if_splits)
    moreover have "CHR ''@'' \<notin> set (drop 1 e)" if w: "starts_with e wildcard_domain_prefix" "CHR ''@'' \<notin> set (drop 3 e)"
    proof -
      obtain t where "e = ''@*.'' @ t" using w(1) by (auto simp: starts_with_iff wildcard_domain_prefix_def)
      then show ?thesis using w(2) by simp
    qed
    ultimately show ?thesis unfolding canonical_entry_def by blast
  qed
  ultimately show ?thesis by blast
qed

text \<open>The loop keeps canonical, pairwise different entries.\<close>

definition kept_ok :: "(string \<Rightarrow> bool) \<Rightarrow> string list \<times> string list \<Rightarrow> bool" where
  "kept_ok v st \<longleftrightarrow> distinct (fst st) \<and> (\<forall>e \<in> set (fst st). canonical_entry e \<and> normalize_entry v e = Inr e)"

interpretation kept: loop_invariant "normalize_one v" "\<lambda>_. True" "kept_ok v" for v
proof
  fix x and st :: "string list \<times> string list"
  assume "kept_ok v st"
  then show "kept_ok v (normalize_one v x st)"
  proof (cases "normalize_entry v x")
    case (Inl m)
    then show ?thesis using \<open>kept_ok v st\<close> by (cases st) (simp add: kept_ok_def normalize_one_def)
  next
    case (Inr e)
    then show ?thesis
      using \<open>kept_ok v st\<close> normalize_entry_canonical[OF Inr] by (cases st) (simp add: kept_ok_def normalize_one_def)
  qed
qed

lemma normalize_entries_ok:
  assumes "normalize_entries v xs = Inr es"
  shows "distinct es \<and> (\<forall>e \<in> set es. canonical_entry e \<and> normalize_entry v e = Inr e) \<and> length es \<le> max_sender_list_entries"
proof -
  obtain kept msgs where f: "fold (normalize_one v) xs ([], []) = (kept, msgs)" by (metis surj_pair)
  have start: "kept_ok v ([], [])" by (simp add: kept_ok_def)
  have "list_all (\<lambda>_. True) xs" by (simp add: list_all_iff)
  from kept.fold_good[OF this start] have ok: "kept_ok v (kept, msgs)" unfolding f .
  from assms have "(if msgs \<noteq> [] then Inl msgs else if max_sender_list_entries < length kept
      then Inl [''At most 200 entries are allowed.''] else Inr kept) = Inr es"
    unfolding normalize_entries_def f prod.case .
  then have "kept = es" "length kept \<le> max_sender_list_entries" by (simp_all split: if_splits)
  then show ?thesis using ok unfolding kept_ok_def fst_conv by blast
qed

lemma normalize_kept:
  "distinct (kept @ es) \<Longrightarrow> \<forall>e \<in> set es. canonical_entry e \<and> normalize_entry v e = Inr e \<Longrightarrow>
   fold (normalize_one v) es (kept, msgs) = (kept @ es, msgs)"
proof (induction es arbitrary: kept)
  case (Cons e es)
  have e: "canonical_entry e" "normalize_entry v e = Inr e" "e \<notin> set kept" using Cons.prems by simp_all
  have "strip e \<noteq> []"
  proof
    assume "strip e = []"
    then have "lower (strip e) = []" by simp
    then show False using e(1) unfolding canonical_entry_def by metis
  qed
  then have "normalize_one v e (kept, msgs) = (kept @ [e], msgs)"
    using e(2,3) by (simp add: normalize_one_def)
  then show ?case using Cons.IH[of "kept @ [e]"] Cons.prems by simp
qed simp

section \<open>The rules the entries stand for\<close>

text \<open>
  The abstract policy: a rule is an address, the labels of a domain, or the labels of a domain with
  everything below it.
\<close>

datatype sender_rule = Only_Address string | Only_Domain "string list" | Domain_Tree "string list"

fun split_on :: "char \<Rightarrow> string \<Rightarrow> string list" where
  "split_on c [] = [[]]"
| "split_on c (x # xs) =
     (if x = c then [] # split_on c xs
      else case split_on c xs of [] \<Rightarrow> [[x]] | w # ws \<Rightarrow> (x # w) # ws)"

definition domain_labels :: "string \<Rightarrow> string list" where
  "domain_labels d = split_on CHR ''.'' d"

definition rule_of :: "string \<Rightarrow> sender_rule" where
  "rule_of e =
     (if starts_with e wildcard_domain_prefix then Domain_Tree (domain_labels (drop 3 e))
      else if starts_with e ''@'' then Only_Domain (domain_labels (drop 1 e))
      else Only_Address e)"

fun covers :: "string \<Rightarrow> string list \<Rightarrow> sender_rule \<Rightarrow> bool" where
  "covers x labels (Only_Address y) \<longleftrightarrow> x = y"
| "covers x labels (Only_Domain ds) \<longleftrightarrow> labels = ds"
| "covers x labels (Domain_Tree ds) \<longleftrightarrow> suffix ds labels"

definition covered :: "sender_rule list \<Rightarrow> string \<Rightarrow> bool" where
  "covered rs x \<longleftrightarrow> CHR ''@'' \<in> set x \<and> after_last CHR ''@'' x \<noteq> [] \<and>
     list_ex (covers x (domain_labels (after_last CHR ''@'' x))) rs"

record sender_policy =
  owner_address :: string
  open_to_all :: bool
  allow_rules :: "sender_rule list"
  block_rules :: "sender_rule list"

definition policy_of :: "db \<Rightarrow> application \<Rightarrow> sender_policy" where
  "policy_of s a = \<lparr>owner_address = (case get_user s (app_owner a) of None \<Rightarrow> [] | Some u \<Rightarrow> lower (strip (user_email u))),
     open_to_all = (inbound_sender_mode a = Mode_Anyone),
     allow_rules = map rule_of (inbound_sender_allowlist a), block_rules = map rule_of (inbound_sender_blocklist a)\<rparr>"

definition may_send :: "sender_policy \<Rightarrow> string \<Rightarrow> bool" where
  "may_send p x \<longleftrightarrow> (x \<noteq> [] \<and> x = owner_address p) \<or>
     (\<not> covered (block_rules p) x \<and> (open_to_all p \<or> covered (allow_rules p) x))"

lemma split_on_ne [simp]: "split_on c s \<noteq> []"
  by (cases s) (auto split: list.split)

lemma join_Cons: "zs \<noteq> [] \<Longrightarrow> join sep (x # zs) = x @ sep @ join sep zs"
  by (cases zs) auto

lemma join_split [simp]: "join [c] (split_on c s) = s"
proof (induction s)
  case (Cons x xs)
  obtain w ws where w: "split_on c xs = w # ws" by (cases "split_on c xs") auto
  then show ?case using Cons by (cases ws) (auto simp: w)
qed simp

lemma split_append: "split_on c (t @ c # b) = split_on c t @ split_on c b"
proof (induction t)
  case (Cons x xs)
  obtain w ws where "split_on c xs = w # ws" by (cases "split_on c xs") auto
  then show ?case using Cons by auto
qed simp

lemma join_append: "ws \<noteq> [] \<Longrightarrow> zs \<noteq> [] \<Longrightarrow> join sep (ws @ zs) = join sep ws @ sep @ join sep zs"
proof (induction ws)
  case (Cons w ws)
  then show ?case by (cases "ws = []") (simp_all add: join_Cons)
qed simp

lemma split_inject [simp]: "split_on c s = split_on c t \<longleftrightarrow> s = t"
  by (metis join_split)

lemma suffix_split_iff: "suffix (split_on c b) (split_on c s) \<longleftrightarrow> s = b \<or> ends_with s (c # b)"
proof
  assume "suffix (split_on c b) (split_on c s)"
  then obtain ws where ws: "split_on c s = ws @ split_on c b" by (auto simp: suffix_def)
  show "s = b \<or> ends_with s (c # b)"
  proof (cases "ws = []")
    case True
    then show ?thesis using ws by simp
  next
    case False
    then have "s = join [c] ws @ c # b"
      using join_append[OF False split_on_ne, of "[c]" c b] ws[symmetric] join_split[of c s] by simp
    then show ?thesis by (auto simp: ends_with_iff)
  qed
qed (auto simp: ends_with_iff split_append suffix_def)

lemma after_last_append: "c \<notin> set d \<Longrightarrow> after_last c (x @ c # d) = d"
  by (simp add: after_last_def) (subst takeWhile_append2; auto)

lemma entry_matches_rule:
  assumes e: "canonical_entry e" and x: "CHR ''@'' \<in> set x"
  shows "entry_matches x (after_last CHR ''@'' x) e \<longleftrightarrow> covers x (domain_labels (after_last CHR ''@'' x)) (rule_of e)"
proof (cases "starts_with e wildcard_domain_prefix")
  case True
  then have "drop 3 e \<noteq> []" "lower (strip e) = e" using e by (simp_all add: canonical_entry_def)
  then show ?thesis
    using True by (simp add: entry_matches_def rule_of_def domain_labels_def suffix_split_iff Let_def)
next
  case tree: False
  show ?thesis
  proof (cases "starts_with e ''@''")
    case True
    then obtain d where d: "e = CHR ''@'' # d" by (auto simp: starts_with_iff)
    then have "CHR ''@'' \<notin> set d" "lower (strip e) = e" using e True by (simp_all add: canonical_entry_def)
    moreover have "e = x \<Longrightarrow> after_last CHR ''@'' x = d"
      using after_last_append[of "CHR ''@''" d "[]"] d \<open>CHR ''@'' \<notin> set d\<close> by simp
    ultimately show ?thesis using tree True d by (auto simp: entry_matches_def rule_of_def domain_labels_def)
  next
    case False
    then have "e \<noteq> CHR ''@'' # after_last CHR ''@'' x" by (auto simp: starts_with_iff)
    moreover have "lower (strip e) = e" using e by (simp add: canonical_entry_def)
    ultimately show ?thesis using tree False by (auto simp: entry_matches_def rule_of_def)
  qed
qed

lemma sender_matches_rules:
  assumes "\<forall>e \<in> set es. canonical_entry e"
  shows "sender_matches x es \<longleftrightarrow> covered (map rule_of es) (lower (strip x))"
proof (cases "CHR ''@'' \<in> set (lower (strip x))")
  case True
  then show ?thesis using assms entry_matches_rule[OF _ True]
    by (simp add: sender_matches_def covered_def Let_def list_ex_iff)
qed (simp add: sender_matches_def covered_def Let_def)

text \<open>
  C21. The sender policy is what the owner wrote down: with lists as the console stores them, a sender
  is accepted exactly when the abstract rules allow it. An address entry stands for that address, a
  domain entry for that domain, a wildcard entry for the domain and every domain below it on a
  label boundary; a blocked sender is refused whatever the mode, except the owner's own address.
\<close>

theorem sender_policy_refines_rules:
  assumes "normalize_entries v allow = Inr (inbound_sender_allowlist a)"
    and "normalize_entries v block = Inr (inbound_sender_blocklist a)"
  shows "pd_accepted (evaluate_sender_policy s a x) = may_send (policy_of s a) (lower (strip x))"
proof -
  have "sender_matches (lower (strip x)) (inbound_sender_blocklist a) = covered (block_rules (policy_of s a)) (lower (strip x))"
    "sender_matches (lower (strip x)) (inbound_sender_allowlist a) = covered (allow_rules (policy_of s a)) (lower (strip x))"
    using normalize_entries_ok[OF assms(1)] normalize_entries_ok[OF assms(2)] sender_matches_rules
    by (simp_all add: policy_of_def)
  moreover have "lower (strip x) = [] \<or> lower (strip x) \<noteq> []" by blast
  ultimately show ?thesis
    by (cases "get_user s (app_owner a)")
      (auto simp: evaluate_sender_policy_def may_send_def Let_def policy_of_def eq_commute[of "[]"])
qed

text \<open>
  What is stored as a list of senders is canonical: pairwise different, at most 200 entries of at
  most 254 characters, lower case without blanks around, each valid on its own; and saving the
  stored list again gives the same list.
\<close>

theorem sender_lists_are_canonical:
  assumes "normalize_entries v values = Inr es"
  shows "distinct es \<and> length es \<le> 200 \<and> (\<forall>e \<in> set es. length e \<le> 254 \<and> lower (strip e) = e \<and> normalize_entry v e = Inr e) \<and>
    normalize_entries v es = Inr es"
proof -
  note ok = normalize_entries_ok[OF assms]
  then have "fold (normalize_one v) es ([], []) = (es, [])" using normalize_kept[of "[]" es v "[]"] by simp
  then have "normalize_entries v es = Inr es" using ok by (simp add: normalize_entries_def)
  moreover have "length es \<le> 200" using ok by (simp add: max_sender_list_entries_def)
  moreover have "length e \<le> 254 \<and> lower (strip e) = e \<and> normalize_entry v e = Inr e" if "e \<in> set es" for e
    using ok that unfolding canonical_entry_def max_sender_entry_length_def by blast
  ultimately show ?thesis using ok by blast
qed

section \<open>Concrete lists\<close>

definition demo_valid_email :: "string \<Rightarrow> bool" where
  "demo_valid_email e \<longleftrightarrow> CHR ''@'' \<in> set e \<and> CHR ''.'' \<in> set (after_last CHR ''@'' e) \<and> CHR '' '' \<notin> set e"

definition demo_application :: application where
  "demo_application = blank_application\<lparr>inbound_sender_allowlist := [''@*.b.io'', ''c@d.io''],
     inbound_sender_blocklist := [''spam@b.io'']\<rparr>"

theorem sender_lists_are_canonical_witness:
  "normalize_entries demo_valid_email ['' @*.B.io'', [], ''c@d.io'', ''C@D.io''] = Inr [''@*.b.io'', ''c@d.io''] \<and>
   normalize_entries demo_valid_email [''@*.b.io'', ''c@d.io''] = Inr [''@*.b.io'', ''c@d.io'']"
proof -
  have e: "normalize_entries demo_valid_email ['' @*.B.io'', [], ''c@d.io'', ''C@D.io''] = Inr [''@*.b.io'', ''c@d.io'']"
    by code_simp
  show ?thesis using sender_lists_are_canonical[OF e] e by blast
qed

theorem sender_policy_refines_rules_witness:
  "pd_accepted (evaluate_sender_policy empty_db demo_application ''x@mail.b.io'') \<and>
   may_send (policy_of empty_db demo_application) ''x@mail.b.io'' \<and>
   \<not> may_send (policy_of empty_db demo_application) ''x@badb.io''"
proof -
  have "normalize_entries demo_valid_email [''@*.B.io'', ''c@d.io''] = Inr (inbound_sender_allowlist demo_application)"
    "normalize_entries demo_valid_email [''spam@b.io''] = Inr (inbound_sender_blocklist demo_application)"
    by code_simp+
  note r = sender_policy_refines_rules[OF this, of empty_db]
  have "lower (strip ''x@mail.b.io'') = ''x@mail.b.io''" "lower (strip ''x@badb.io'') = ''x@badb.io''" by code_simp+
  moreover have "pd_accepted (evaluate_sender_policy empty_db demo_application ''x@mail.b.io'')"
    "\<not> pd_accepted (evaluate_sender_policy empty_db demo_application ''x@badb.io'')" by code_simp+
  ultimately show ?thesis using r[of "''x@mail.b.io''"] r[of "''x@badb.io''"] by simp
qed

section \<open>Aliases: generation and recognition\<close>

lemma before_last_append: "c \<notin> set d \<Longrightarrow> before_last c (x @ c # d) = x"
  by (simp add: before_last_def) (subst dropWhile_append2; auto)

lemma lower_id_iff: "lower s = s \<longleftrightarrow> (\<forall>c \<in> set s. lower_char c = c)"
  by (induction s) (auto simp: lower_def)

lemma set_collapse: "set (collapse_dashes s) \<subseteq> set s"
  by (induction s rule: collapse_dashes.induct) auto

lemma set_strip_dashes: "set (strip_dashes s) \<subseteq> set s"
proof
  fix c
  assume "c \<in> set (strip_dashes s)"
  then have "c \<in> set (dropWhile (\<lambda>c. c = CHR ''-'') (rev (dropWhile (\<lambda>c. c = CHR ''-'') s)))" by (simp add: strip_dashes_def)
  from set_dropWhileD[OF this] have "c \<in> set (dropWhile (\<lambda>c. c = CHR ''-'') s)" by simp
  from set_dropWhileD[OF this] show "c \<in> set s" by blast
qed

lemma lower_append: "lower (s @ t) = lower s @ lower t" and lower_Cons: "lower (c # s) = lower_char c # lower s"
  by (simp_all add: lower_def)

lemma length_strip_dashes: "length (strip_dashes s) \<le> length s"
  unfolding strip_dashes_def length_rev by (metis dual_order.trans length_dropWhile_le length_rev)

text \<open>The shape of a generated alias.\<close>

lemma generate_alias_shape:
  obtains w where "generate_alias cfg slugified hex = w @ CHR ''-'' # hex @ alias_suffix cfg"
    and "w \<noteq> []" and "set w \<subseteq> set slugified \<union> set ''app''"
    and "length w \<le> nat (max (int max_local_part_length - 1 - int (length hex) - int (length (alias_suffix cfg))) 1)"
proof -
  let ?room = "nat (max (int max_local_part_length - 1 - int (length hex) - int (length (alias_suffix cfg))) 1)"
  let ?slug = "or_default (strip_dashes (collapse_dashes slugified)) default_slug"
  let ?w = "or_default (strip_dashes (take ?room ?slug)) (take ?room default_slug)"
  have slug: "set ?slug \<subseteq> set slugified \<union> set ''app''"
    using set_strip_dashes[of "collapse_dashes slugified"] set_collapse[of slugified]
    by (auto simp: or_default_def default_slug_def)
  have "set ?w \<subseteq> set slugified \<union> set ''app''"
  proof (cases "strip_dashes (take ?room ?slug) = []")
    case True
    then show ?thesis using set_take_subset[of ?room default_slug] by (auto simp: or_default_def default_slug_def)
  next
    case False
    then have "set ?w \<subseteq> set ?slug"
      using set_strip_dashes[of "take ?room ?slug"] set_take_subset[of ?room ?slug] by (simp add: or_default_def)
    then show ?thesis using slug by blast
  qed
  moreover have "?w \<noteq> []" by (simp add: or_default_def default_slug_def)
  moreover have "length ?w \<le> ?room"
    using length_strip_dashes[of "take ?room ?slug"] by (auto simp: or_default_def)
  ultimately show thesis by (intro that[of ?w]) (simp_all add: generate_alias_def Let_def)
qed

lemma strip_id: "s \<noteq> [] \<Longrightarrow> \<not> is_space (hd s) \<Longrightarrow> \<not> is_space (last s) \<Longrightarrow> strip s = s"
  by (simp add: strip_def dropWhile_eq_self_iff[THEN iffD2] hd_rev)

lemma strip_last: "strip s \<noteq> [] \<Longrightarrow> \<not> is_space (last (strip s))"
  unfolding strip_def last_rev by (rule hd_dropWhile) (simp add: rev_is_Nil_conv)

text \<open>
  An alias can be told from its random part and back, whatever the mail systems did to the case
  of its letters: a generated alias fits in a local part, is recognised as one, and what is read
  back as its random part is what was drawn; at the inbound domain it routes to the application
  side, never to the mailbox itself.
\<close>

theorem alias_roundtrip:
  assumes slug: "lower slugified = slugified" "\<forall>c \<in> set slugified. \<not> is_space c \<and> c \<noteq> CHR ''@''"
    and hex: "length hex = 8" "lower hex = hex" "CHR ''-'' \<notin> set hex" "CHR ''@'' \<notin> set hex"
    and cfg: "alias_suffix cfg \<noteq> []" "length (alias_suffix cfg) \<le> 54" "CHR ''@'' \<notin> set (alias_suffix cfg)"
      "inbound_domain cfg \<noteq> []" "CHR ''@'' \<notin> set (inbound_domain cfg)"
    and seen: "lower seen = generate_alias cfg slugified hex"
    and parse: "parse_address (seen @ CHR ''@'' # inbound_domain cfg) = seen @ CHR ''@'' # inbound_domain cfg"
  shows "length (generate_alias cfg slugified hex) \<le> max_local_part_length \<and> random_part_of cfg seen = hex \<and>
    is_alias_local_part cfg seen \<and>
    is_inbound_alias_address cfg parse_address (seen @ CHR ''@'' # inbound_domain cfg) =
      (generate_alias cfg slugified hex @ CHR ''@'' # inbound_domain cfg \<notin> set (mailbox_addresses cfg))"
proof -
  obtain w where g: "generate_alias cfg slugified hex = w @ CHR ''-'' # hex @ alias_suffix cfg" "w \<noteq> []"
    "set w \<subseteq> set slugified \<union> set ''app''"
    "length w \<le> nat (max (int max_local_part_length - 1 - int (length hex) - int (length (alias_suffix cfg))) 1)"
    by (rule generate_alias_shape)
  have short: "length (generate_alias cfg slugified hex) \<le> max_local_part_length"
    using g(1,4) hex(1) cfg(2) by (simp add: max_local_part_length_def)
  have low: "lower seen = (w @ CHR ''-'' # hex) @ alias_suffix cfg" unfolding seen g(1) by simp
  have random: "random_part_of cfg seen = hex"
    unfolding random_part_of_def Let_def low using cfg(1) hex(3)
    by (simp add: ends_with_iff after_last_append)
  have current: "is_current_format cfg seen"
    unfolding is_current_format_def Let_def low using cfg(1) by (auto simp: ends_with_iff)
  let ?addr = "generate_alias cfg slugified hex @ CHR ''@'' # inbound_domain cfg"
  have dom: "lower (inbound_domain cfg) = inbound_domain cfg" by (simp add: inbound_domain_def)
  have "normalize_address parse_address (seen @ CHR ''@'' # inbound_domain cfg) = ?addr"
  proof -
    have "strip (inbound_domain cfg) = inbound_domain cfg" by (simp add: inbound_domain_def strip_lower)
    then have last: "\<not> is_space (last ?addr)" using strip_last[of "inbound_domain cfg"] cfg(4) by simp
    have "hd w \<in> set w" using g(2) by simp
    then have "hd w \<in> set slugified \<union> set ''app''" using g(3) by blast
    moreover have "\<not> is_space CHR ''a''" "\<not> is_space CHR ''p''" by code_simp+
    ultimately have "\<not> is_space (hd w)"
    proof (elim UnE)
      assume "hd w \<in> set ''app''"
      then have "hd w = CHR ''a'' \<or> hd w = CHR ''p''" by simp
      then show ?thesis using \<open>\<not> is_space CHR ''a''\<close> \<open>\<not> is_space CHR ''p''\<close> by metis
    qed (use slug(2) in blast)
    then have "\<not> is_space (hd ?addr)" using g(2) unfolding g(1) by simp
    then have "strip ?addr = ?addr" using last by (intro strip_id) (simp_all add: g(1,2))
    moreover have "lower_char CHR ''@'' = CHR ''@''" by code_simp
    then have "lower (seen @ CHR ''@'' # inbound_domain cfg) = ?addr" by (simp add: lower_append lower_Cons seen dom)
    ultimately show ?thesis unfolding normalize_address_def parse strip_lower[symmetric] by simp
  qed
  moreover have "CHR ''@'' \<notin> set (generate_alias cfg slugified hex)"
    using g(1,3) slug(2) hex(4) cfg(3) by auto
  ultimately have addr: "normalize_address parse_address (seen @ CHR ''@'' # inbound_domain cfg) = ?addr"
    "after_last CHR ''@'' ?addr = inbound_domain cfg" "before_last CHR ''@'' ?addr = generate_alias cfg slugified hex"
    using cfg(5) by (simp_all add: after_last_append before_last_append)
  have "is_alias_local_part cfg (generate_alias cfg slugified hex)"
    using current unfolding is_alias_local_part_def is_current_format_def seen[symmetric] lower_idem by blast
  then show ?thesis
    unfolding is_inbound_alias_address_def Let_def addr using short random current
    by (auto simp: is_alias_local_part_def)
qed

definition demo_config :: config where
  "demo_config = default_config\<lparr>graph_mailbox_user_id := ''pushit@foxugly.com''\<rparr>"

theorem alias_roundtrip_witness:
  "generate_alias demo_config ''mon-app'' ''3f9a2c1b'' = ''mon-app-3f9a2c1b.pushit'' \<and>
   random_part_of demo_config ''Mon-App-3F9A2C1B.PushIT'' = ''3f9a2c1b'' \<and>
   is_inbound_alias_address demo_config id ''Mon-App-3F9A2C1B.PushIT@foxugly.com''"
proof -
  have g: "generate_alias demo_config ''mon-app'' ''3f9a2c1b'' = ''mon-app-3f9a2c1b.pushit''" by code_simp
  have 1: "lower ''mon-app'' = ''mon-app''" "\<forall>c \<in> set ''mon-app''. \<not> is_space c \<and> c \<noteq> CHR ''@''"
    "length ''3f9a2c1b'' = 8" "lower ''3f9a2c1b'' = ''3f9a2c1b''" "CHR ''-'' \<notin> set ''3f9a2c1b''" "CHR ''@'' \<notin> set ''3f9a2c1b''"
    "alias_suffix demo_config \<noteq> []" "length (alias_suffix demo_config) \<le> 54" "CHR ''@'' \<notin> set (alias_suffix demo_config)"
    "inbound_domain demo_config \<noteq> []" "CHR ''@'' \<notin> set (inbound_domain demo_config)" by code_simp+
  have 2: "lower ''Mon-App-3F9A2C1B.PushIT'' = generate_alias demo_config ''mon-app'' ''3f9a2c1b''" by code_simp
  have 3: "inbound_domain demo_config = ''foxugly.com''" "generate_alias demo_config ''mon-app'' ''3f9a2c1b'' @ CHR ''@'' # inbound_domain demo_config \<notin> set (mailbox_addresses demo_config)"
    by code_simp+
  show ?thesis
    using alias_roundtrip[OF 1 2, of id] 3 g by simp
qed

section \<open>The date in the subject: writing and reading\<close>

lemma find_marker_none: "CHR ''['' \<notin> set s \<Longrightarrow> find_marker s = None"
  by (induction s) (auto simp: marker_at_def)

lemma find_marker_skip:
  "CHR ''['' \<notin> set t \<Longrightarrow> find_marker (t @ r) =
     map_option (\<lambda>(before, inside, after). (t @ before, inside, after)) (find_marker r)"
proof (induction t)
  case Nil
  then show ?case by (cases "find_marker r") auto
next
  case (Cons c t)
  then show ?case by (cases "find_marker r") (auto simp: marker_at_def)
qed

definition send_at_marker :: "string \<Rightarrow> string" where
  "send_at_marker d = ''[SEND_AT: '' @ d @ '']''"

lemma marker_at_send_at:
  assumes "CHR '']'' \<notin> set d"
  shows "marker_at (send_at_marker d @ r) = Some (CHR '' '' # d, r)"
proof -
  have "send_at_marker d @ r = CHR ''['' # ''SEND_AT'' @ CHR '':'' # CHR '' '' # d @ CHR '']'' # r"
    by (simp add: send_at_marker_def)
  moreover have "lstrip (''SEND_AT'' @ x) = ''SEND_AT'' @ x" for x
    by (simp add: lstrip_def is_space_def)
  moreover have "lower ''SEND_AT'' = ''send_at''" by code_simp
  moreover have "take 7 (''SEND_AT'' @ x) = ''SEND_AT''" "drop 7 (''SEND_AT'' @ x) = x" for x by simp_all
  moreover have "lstrip (CHR '':'' # x) = CHR '':'' # x" for x by (simp add: lstrip_def is_space_def)
  moreover have "takeWhile (\<lambda>x. x \<noteq> CHR '']'') (d @ CHR '']'' # r) = d" "dropWhile (\<lambda>x. x \<noteq> CHR '']'') (d @ CHR '']'' # r) = CHR '']'' # r"
    using assms by (subst takeWhile_append2 dropWhile_append2; auto)+
  ultimately show ?thesis by (simp add: marker_at_def Let_def)
qed

lemma find_marker_send_at:
  assumes "CHR ''['' \<notin> set t" and "CHR '']'' \<notin> set d"
  shows "find_marker (t @ send_at_marker d @ r) = Some (t, CHR '' '' # d, r)"
proof -
  obtain c cs where c: "send_at_marker d @ r = c # cs" by (auto simp: send_at_marker_def)
  have "find_marker (send_at_marker d @ r) = Some ([], CHR '' '' # d, r)"
    unfolding c using marker_at_send_at[OF assms(2), of r] unfolding c by simp
  then show ?thesis using find_marker_skip[OF assms(1), of "send_at_marker d @ r"] by simp
qed

lemma words_of_space: "is_space c \<Longrightarrow> words_of acc (s @ [c]) = words_of acc s"
  by (induction s arbitrary: acc) auto

text \<open>
  A date written into a subject is read back: the title comes out as it was and the date as the
  framework reads it; a subject without a bracket is only a title; and a marker whose date is not a
  date with a time zone is an error, never a notification sent at once.
\<close>

theorem subject_schedule_roundtrip:
  assumes "squeeze subj = subj" and "CHR ''['' \<notin> set subj" and "CHR '']'' \<notin> set d" and "strip d = d"
  shows "extract_subject_schedule parse_date subj = Inr (subj, None) \<and>
    extract_subject_schedule parse_date (subj @ '' '' @ send_at_marker d) =
      (case parse_date d of
         Aware_Date t \<Rightarrow> Inr (subj, Some t)
       | Bad_Date m \<Rightarrow> Inl m
       | _ \<Rightarrow> Inl ''Invalid [SEND_AT:...] marker format. Use an ISO 8601 date with timezone.'')"
proof -
  have "strip (CHR '' '' # d) = strip d" by (simp add: strip_def is_space_def)
  then have d: "strip (CHR '' '' # d) = d" using assms(4) by simp
  have "is_space CHR '' ''" by code_simp
  then have "squeeze (subj @ '' '') = subj" using assms(1) by (simp add: squeeze_def words_of_space)
  moreover have "find_marker (subj @ '' '' @ send_at_marker d) = Some (subj @ '' '', CHR '' '' # d, [])"
    using find_marker_send_at[of "subj @ '' ''" d "[]"] assms(2,3) by simp
  ultimately show ?thesis
    using find_marker_none[OF assms(2)] d assms(1)
    by (simp add: extract_subject_schedule_def split: parsed_date.split)
qed

definition demo_parse_date :: "string \<Rightarrow> parsed_date" where
  "demo_parse_date s = (if s = ''1970-01-02T00:00:00Z'' then Aware_Date day
     else if s = ''1970-01-02T00:00:00'' then Naive_Date else No_Date)"

theorem subject_schedule_roundtrip_witness:
  "extract_subject_schedule demo_parse_date ''Water the plants [SEND_AT: 1970-01-02T00:00:00Z]'' =
     Inr (''Water the plants'', Some day) \<and>
   (\<exists>m. extract_subject_schedule demo_parse_date ''Water the plants [SEND_AT: 1970-01-02T00:00:00]'' = Inl m)"
proof -
  let ?t = "''Water the plants''"
  have t: "squeeze ?t = ?t" "CHR ''['' \<notin> set ?t" by code_simp+
  have a: "CHR '']'' \<notin> set ''1970-01-02T00:00:00Z''" "strip ''1970-01-02T00:00:00Z'' = ''1970-01-02T00:00:00Z''"
    and n: "CHR '']'' \<notin> set ''1970-01-02T00:00:00''" "strip ''1970-01-02T00:00:00'' = ''1970-01-02T00:00:00''" by code_simp+
  show ?thesis
    using subject_schedule_roundtrip[OF t a, of demo_parse_date] subject_schedule_roundtrip[OF t n, of demo_parse_date]
    by (simp add: send_at_marker_def demo_parse_date_def)
qed

end
