(* ===== verification/Exchange.thy ===== *)
theory Exchange
  imports Senders
begin

text \<open>
  The aliases on the shared mailbox: the service around the PowerShell script
  (\<open>exchange/services.py\<close>, \<open>exchange/exceptions.py\<close>) and the hooks the applications call
  (\<open>exchange/integration.py\<close>). Running the script, decoding its JSON and printing a value are
  parameters; the decoder's own message and the environment handed to the script are left out.
\<close>

section \<open>Failures\<close>

text \<open>
  The classes of \<open>exchange/exceptions.py\<close>; a failure carries its class, its \<open>error_code\<close> and its
  message. \<open>Escaped\<close> is any exception that is not an \<open>ExchangeError\<close>.
\<close>

datatype exchange_class =
  Exchange_Base | Exchange_Config | Invalid_Alias_Input | Exchange_Auth | Mailbox_Not_Found
| Alias_Already_Exists | Alias_Not_Found | Exchange_Timeout

datatype exchange_failure = Exchange_Failure exchange_class string string | Escaped string

fun default_code :: "exchange_class \<Rightarrow> string" where
  "default_code Exchange_Base = ''exchange_error''"
| "default_code Exchange_Config = ''missing_config''"
| "default_code Invalid_Alias_Input = ''invalid_input''"
| "default_code Exchange_Auth = ''auth_failed''"
| "default_code Mailbox_Not_Found = ''mailbox_not_found''"
| "default_code Alias_Already_Exists = ''alias_already_exists''"
| "default_code Alias_Not_Found = ''alias_not_found''"
| "default_code Exchange_Timeout = ''timeout''"

definition raise_as :: "exchange_class \<Rightarrow> string \<Rightarrow> exchange_failure" where
  "raise_as c msg = Exchange_Failure c (default_code c) msg"

definition exception_for_code :: "string \<Rightarrow> exchange_class" where
  "exception_for_code code =
     (case map_of [(''missing_param'', Invalid_Alias_Input), (''missing_env'', Exchange_Config),
        (''auth_failed'', Exchange_Auth), (''mailbox_not_found'', Mailbox_Not_Found),
        (''alias_already_exists'', Alias_Already_Exists), (''alias_not_found'', Alias_Not_Found),
        (''exchange_error'', Exchange_Base)] code of None \<Rightarrow> Exchange_Base | Some c \<Rightarrow> c)"

section \<open>Arguments\<close>

definition is_letter :: "char \<Rightarrow> bool" where
  "is_letter c = (let n = of_char c :: nat in (65 \<le> n \<and> n \<le> 90) \<or> (97 \<le> n \<and> n \<le> 122))"

definition is_digit :: "char \<Rightarrow> bool" where
  "is_digit c = (let n = of_char c :: nat in 48 \<le> n \<and> n \<le> 57)"

definition forbidden_chars :: "char list" where
  "forbidden_chars = [CHR 0x22, CHR 0x27, CHR 0x60, CHR ''$'', CHR '';'', CHR ''|'', CHR ''&'', CHR ''<'', CHR ''>'',
     CHR 0x0A, CHR 0x0D, CHR 0x09, CHR 0x5C]"

text \<open>
  \<open>_EMAIL_RE\<close>: a local part, one \<open>@\<close>, and a domain whose last label has at least two letters. The
  line break \<open>$\<close> would tolerate at the end is a forbidden character.
\<close>

definition local_char :: "char \<Rightarrow> bool" where
  "local_char c \<longleftrightarrow> is_letter c \<or> is_digit c \<or> c \<in> set ''._+-''"

definition domain_char :: "char \<Rightarrow> bool" where
  "domain_char c \<longleftrightarrow> is_letter c \<or> is_digit c \<or> c \<in> set ''.-''"

definition email_re :: "string \<Rightarrow> bool" where
  "email_re v =
     (case split_first CHR ''@'' v of
        None \<Rightarrow> False
      | Some (l, d) \<Rightarrow> l \<noteq> [] \<and> list_all local_char l \<and> CHR ''.'' \<in> set d \<and>
          (let host = before_last CHR ''.'' d; tld = after_last CHR ''.'' d in
           host \<noteq> [] \<and> list_all domain_char host \<and> 2 \<le> length tld \<and> list_all is_letter tld))"

definition validate_email :: "string \<Rightarrow> string \<Rightarrow> exchange_failure + unit" where
  "validate_email field v =
     (if v = [] then Inl (raise_as Invalid_Alias_Input (field @ '' must be a non-empty string.''))
      else if list_ex (\<lambda>c. c \<in> set forbidden_chars) v
        then Inl (raise_as Invalid_Alias_Input (field @ '' contains forbidden characters.''))
      else if 320 < length v then Inl (raise_as Invalid_Alias_Input (field @ '' exceeds 320 characters.''))
      else if \<not> email_re v then Inl (raise_as Invalid_Alias_Input (field @ '' is not a valid email address: '' @ v))
      else Inr ())"

section \<open>The script\<close>

text \<open>A JSON value, and what running the script comes to.\<close>

datatype json =
  JSON_Null | JSON_Bool bool | JSON_Number int | JSON_Text string | JSON_Array "json list" | JSON_Object "(string \<times> json) list"

datatype script_run = Run_Timed_Out | Run_Not_Started string | Run_Completed int string string

text \<open>
  The settings, and the outside: \<open>pwsh\<close> runs a command line, \<open>parse_json\<close> is \<open>json.loads\<close> (None when
  the text is not JSON), \<open>json_str\<close> is \<open>str\<close> of a value.
\<close>

record exchange_env =
  ps_script_path :: string
  ps_app_id :: string
  ps_tenant :: string
  ps_mailbox :: string
  ps_timeout :: int
  pwsh :: "string list \<Rightarrow> script_run"
  parse_json :: "string \<Rightarrow> json option"
  json_str :: "json \<Rightarrow> string"

fun json_get :: "(string \<times> json) list \<Rightarrow> string \<Rightarrow> json" where
  "json_get obj k = (case map_of obj k of None \<Rightarrow> JSON_Null | Some v \<Rightarrow> v)"

fun json_truthy :: "json \<Rightarrow> bool" where
  "json_truthy JSON_Null = False"
| "json_truthy (JSON_Bool b) = b"
| "json_truthy (JSON_Number n) = (n \<noteq> 0)"
| "json_truthy (JSON_Text s) = (s \<noteq> [])"
| "json_truthy (JSON_Array xs) = (xs \<noteq> [])"
| "json_truthy (JSON_Object xs) = (xs \<noteq> [])"

text \<open>\<open>str.splitlines\<close>: a line ends at a line feed, a carriage return, or both, and at the other line separators of the character set.\<close>

definition is_line_end :: "char \<Rightarrow> bool" where
  "is_line_end c = (let n = of_char c :: nat in (10 \<le> n \<and> n \<le> 13) \<or> (28 \<le> n \<and> n \<le> 30) \<or> n = 133)"

fun split_lines_from :: "string \<Rightarrow> string \<Rightarrow> string list" where
  "split_lines_from acc [] = (if acc = [] then [] else [rev acc])"
| "split_lines_from acc (c # cs) =
     (if c = CHR 0x0D \<and> cs \<noteq> [] \<and> hd cs = CHR 0x0A then rev acc # split_lines_from [] (tl cs)
      else if is_line_end c then rev acc # split_lines_from [] cs
      else split_lines_from (c # acc) cs)"

definition split_lines :: "string \<Rightarrow> string list" where
  "split_lines s = split_lines_from [] s"

definition last_line :: "string \<Rightarrow> string" where
  "last_line s = (case List.find (\<lambda>l. strip l \<noteq> []) (rev (split_lines s)) of None \<Rightarrow> [] | Some l \<Rightarrow> l)"

definition command_line :: "exchange_env \<Rightarrow> string \<Rightarrow> string \<Rightarrow> string option \<Rightarrow> string list" where
  "command_line x action mailbox alias =
     [''pwsh'', ''-NoProfile'', ''-NonInteractive'', ''-File'', ps_script_path x, ''-Action'', action, ''-Mailbox'', mailbox] @
     (case alias of None \<Rightarrow> [] | Some a \<Rightarrow> [''-Alias'', a])"

definition run_script :: "exchange_env \<Rightarrow> string \<Rightarrow> string \<Rightarrow> string option \<Rightarrow> exchange_failure + json" where
  "run_script x action mailbox alias =
     (case pwsh x (command_line x action mailbox alias) of
        Run_Timed_Out \<Rightarrow> Inl (raise_as Exchange_Timeout (''PowerShell timed out after '' @ str_int (ps_timeout x) @
          ''s while running '' @ [CHR 0x27] @ action @ [CHR 0x27, CHR ''.'']))
      | Run_Not_Started e \<Rightarrow> Inl (Escaped e)
      | Run_Completed rc out err \<Rightarrow>
          (let stdout = strip out; stderr = strip err in
           if stdout = [] then Inl (raise_as Exchange_Base (''PowerShell returned empty stdout (exit='' @ str_int rc @
             ''). stderr: '' @ take 500 stderr))
           else case parse_json x (last_line stdout) of
             None \<Rightarrow> Inl (raise_as Exchange_Base ''Could not parse JSON from PowerShell'')
           | Some (JSON_Object obj) \<Rightarrow>
               if json_get obj ''success'' = JSON_Bool True then Inr (json_get obj ''data'')
               else (let code = (if json_truthy (json_get obj ''error_code'') then json_str x (json_get obj ''error_code'') else ''exchange_error'');
                         message = (if json_truthy (json_get obj ''error'') then json_str x (json_get obj ''error'') else ''Unknown Exchange error.'')
                     in Inl (Exchange_Failure (exception_for_code code) code message))
           | Some other \<Rightarrow> Inl (raise_as Exchange_Base (''Unexpected JSON shape from PowerShell: '' @ json_str x other))))"

section \<open>The service\<close>

record alias_result =
  ar_mailbox :: string
  ar_alias :: string
  ar_action :: string

definition data_field :: "exchange_env \<Rightarrow> (string \<times> json) list \<Rightarrow> string \<Rightarrow> string \<Rightarrow> string" where
  "data_field x obj k dflt = (case map_of obj k of None \<Rightarrow> dflt | Some v \<Rightarrow> json_str x v)"

text \<open>\<open>add_alias\<close> and \<open>remove_alias\<close>; data that is not an object has no \<open>get\<close>.\<close>

definition change_alias :: "exchange_env \<Rightarrow> string \<Rightarrow> string \<Rightarrow> string \<Rightarrow> string \<Rightarrow> exchange_failure + alias_result" where
  "change_alias x action done_word mailbox alias =
     (case validate_email ''mailbox'' mailbox of
        Inl e \<Rightarrow> Inl e
      | Inr _ \<Rightarrow> (case validate_email ''alias'' alias of
          Inl e \<Rightarrow> Inl e
        | Inr _ \<Rightarrow> (case run_script x action mailbox (Some alias) of
            Inl e \<Rightarrow> Inl e
          | Inr (JSON_Object obj) \<Rightarrow> Inr \<lparr>ar_mailbox = data_field x obj ''mailbox'' mailbox,
              ar_alias = data_field x obj ''alias'' alias, ar_action = data_field x obj ''action'' done_word\<rparr>
          | Inr _ \<Rightarrow> Inl (Escaped ''AttributeError''))))"

definition add_alias :: "exchange_env \<Rightarrow> string \<Rightarrow> string \<Rightarrow> exchange_failure + alias_result" where
  "add_alias x mailbox alias = change_alias x ''add'' ''added'' mailbox alias"

definition remove_alias :: "exchange_env \<Rightarrow> string \<Rightarrow> string \<Rightarrow> exchange_failure + alias_result" where
  "remove_alias x mailbox alias = change_alias x ''remove'' ''removed'' mailbox alias"

definition list_aliases :: "exchange_env \<Rightarrow> string \<Rightarrow> exchange_failure + string list" where
  "list_aliases x mailbox =
     (case validate_email ''mailbox'' mailbox of
        Inl e \<Rightarrow> Inl e
      | Inr _ \<Rightarrow> (case run_script x ''list'' mailbox None of
          Inl e \<Rightarrow> Inl e
        | Inr (JSON_Array xs) \<Rightarrow> Inr (map (json_str x) xs)
        | Inr other \<Rightarrow> Inl (raise_as Exchange_Base (''Unexpected list payload from script: '' @ json_str x other))))"

section \<open>The integration\<close>

definition exchange_configured :: "exchange_env \<Rightarrow> bool" where
  "exchange_configured x \<longleftrightarrow> ps_script_path x \<noteq> [] \<and> ps_app_id x \<noteq> [] \<and> ps_tenant x \<noteq> [] \<and> ps_mailbox x \<noteq> []"

record alias_state =
  as_configured :: bool
  as_provisioned :: "bool option"
  as_detail :: string

definition alias_status :: "exchange_env \<Rightarrow> string \<Rightarrow> string + alias_state" where
  "alias_status x alias =
     (if \<not> exchange_configured x then Inr \<lparr>as_configured = False, as_provisioned = None, as_detail = ''exchange_not_configured''\<rparr>
      else let target = lower (strip alias) in
        case list_aliases x (ps_mailbox x) of
          Inl (Escaped e) \<Rightarrow> Inl e
        | Inl (Exchange_Failure c code msg) \<Rightarrow>
            Inr \<lparr>as_configured = True, as_provisioned = None, as_detail = (if code = [] then ''exchange_error'' else code)\<rparr>
        | Inr addresses \<Rightarrow>
            (let provisioned = list_ex (\<lambda>a. lower (strip a) \<in> {target, ''smtp:'' @ target}) addresses in
             Inr \<lparr>as_configured = True, as_provisioned = Some provisioned,
                  as_detail = (if provisioned then ''provisioned'' else ''not_provisioned'')\<rparr>))"

text \<open>The two hooks swallow the failures of the service; what they return is the exception that escapes.\<close>

definition swallow :: "exchange_failure + 'a \<Rightarrow> string option" where
  "swallow r = (case r of Inl (Escaped e) \<Rightarrow> Some e | _ \<Rightarrow> None)"

definition provision_alias :: "exchange_env \<Rightarrow> string \<Rightarrow> string option" where
  "provision_alias x alias = (if \<not> exchange_configured x then None else swallow (add_alias x (ps_mailbox x) alias))"

definition deprovision_alias :: "exchange_env \<Rightarrow> string \<Rightarrow> string option" where
  "deprovision_alias x alias = (if \<not> exchange_configured x then None else swallow (remove_alias x (ps_mailbox x) alias))"

section \<open>What reaches the script\<close>

lemma validate_email_ok: "validate_email field v = Inr () \<longleftrightarrow>
    list_all (\<lambda>c. c \<notin> set forbidden_chars) v \<and> length v \<le> 320 \<and> email_re v"
  by (auto simp: validate_email_def email_re_def split_first_def list_ex_iff list_all_iff not_less split: if_splits)

lemma validate_email_cases:
  obtains "validate_email field v = Inr ()"
  | msg where "validate_email field v = Inl (Exchange_Failure Invalid_Alias_Input ''invalid_input'' msg)"
proof (cases "validate_email field v")
  case (Inl e)
  then have "\<exists>msg. e = raise_as Invalid_Alias_Input msg" by (auto simp: validate_email_def split: if_splits)
  then show thesis using that(2) Inl by (auto simp: raise_as_def)
qed (use that(1) in simp)

text \<open>The exceptions of the script that are not failures of the service.\<close>

lemma run_script_escaped:
  "run_script x action mailbox alias = Inl (Escaped e) \<longleftrightarrow> pwsh x (command_line x action mailbox alias) = Run_Not_Started e"
proof (cases "pwsh x (command_line x action mailbox alias)")
  case (Run_Completed rc out err)
  have "run_script x action mailbox alias \<noteq> Inl (Escaped e)"
  proof (cases "strip out = []")
    case True
    then show ?thesis using Run_Completed by (simp add: run_script_def raise_as_def Let_def)
  next
    case out: False
    show ?thesis
    proof (cases "parse_json x (last_line (strip out))")
      case None
      then show ?thesis using Run_Completed out by (simp add: run_script_def raise_as_def Let_def)
    next
      case (Some j)
      then show ?thesis using Run_Completed out by (cases j) (simp_all add: run_script_def raise_as_def Let_def)
    qed
  qed
  then show ?thesis using Run_Completed by simp
qed (simp_all add: run_script_def raise_as_def)

lemma change_alias_escaped:
  assumes "validate_email ''mailbox'' mailbox = Inr ()" and "validate_email ''alias'' alias = Inr ()"
  shows "swallow (change_alias x action w mailbox alias) =
    (case pwsh x (command_line x action mailbox (Some alias)) of
       Run_Not_Started e \<Rightarrow> Some e
     | _ \<Rightarrow> (case run_script x action mailbox (Some alias) of
         Inr (JSON_Object obj) \<Rightarrow> None | Inr _ \<Rightarrow> Some ''AttributeError'' | Inl _ \<Rightarrow> None))"
proof -
  let ?run = "run_script x action mailbox (Some alias)"
  have ch: "change_alias x action w mailbox alias =
      (case ?run of Inl e \<Rightarrow> Inl e
       | Inr (JSON_Object obj) \<Rightarrow> Inr \<lparr>ar_mailbox = data_field x obj ''mailbox'' mailbox,
           ar_alias = data_field x obj ''alias'' alias, ar_action = data_field x obj ''action'' w\<rparr>
       | Inr _ \<Rightarrow> Inl (Escaped ''AttributeError''))"
    unfolding change_alias_def assms sum.case ..
  show ?thesis
  proof (cases "pwsh x (command_line x action mailbox (Some alias))")
    case (Run_Not_Started e)
    then have "?run = Inl (Escaped e)" using run_script_escaped[of x action mailbox "Some alias" e] by blast
    then show ?thesis unfolding ch swallow_def Run_Not_Started by simp
  next
    case Run_Timed_Out
    then have "?run = Inl (raise_as Exchange_Timeout (''PowerShell timed out after '' @ str_int (ps_timeout x) @
          ''s while running '' @ [CHR 0x27] @ action @ [CHR 0x27, CHR ''.'']))" by (simp add: run_script_def)
    then show ?thesis unfolding ch swallow_def Run_Timed_Out raise_as_def by simp
  next
    case (Run_Completed rc out err)
    then have esc: "?run \<noteq> Inl (Escaped e)" for e using run_script_escaped[of x action mailbox "Some alias" e] by simp
    show ?thesis
    proof (cases ?run)
      case (Inl f)
      then obtain c code msg where "f = Exchange_Failure c code msg" using esc by (cases f) auto
      then show ?thesis unfolding ch swallow_def Run_Completed Inl by simp
    next
      case (Inr d)
      then show ?thesis unfolding ch swallow_def Run_Completed Inr by (cases d) simp_all
    qed
  qed
qed

definition is_object :: "json \<Rightarrow> bool" where
  "is_object j = (case j of JSON_Object _ \<Rightarrow> True | _ \<Rightarrow> False)"

text \<open>
  An outage of Exchange does not stop the program, a missing PowerShell does: attaching an alias
  never raises when the integration is off, when an argument is refused (the script is not run at
  all), or when the script times out, fails, or answers anything but success; it raises exactly when
  the interpreter cannot be started, or when a success carries data that is not an object.
\<close>

theorem alias_hooks_swallow_the_service:
  "provision_alias x alias = Some err \<longleftrightarrow>
     exchange_configured x \<and> validate_email ''mailbox'' (ps_mailbox x) = Inr () \<and> validate_email ''alias'' alias = Inr () \<and>
     (pwsh x (command_line x ''add'' (ps_mailbox x) (Some alias)) = Run_Not_Started err \<or>
      (err = ''AttributeError'' \<and> (\<exists>d. run_script x ''add'' (ps_mailbox x) (Some alias) = Inr d \<and> \<not> is_object d)))"
proof (cases "exchange_configured x")
  case T: True
  show ?thesis
  proof (cases rule: validate_email_cases[of "''mailbox''" "ps_mailbox x"])
    case m: 1
    show ?thesis
    proof (cases rule: validate_email_cases[of "''alias''" "alias"])
      case a: 1
      let ?run = "run_script x ''add'' (ps_mailbox x) (Some alias)"
      have p: "provision_alias x alias = swallow (change_alias x ''add'' ''added'' (ps_mailbox x) alias)"
        using T by (simp add: provision_alias_def add_alias_def)
      have "swallow (change_alias x ''add'' ''added'' (ps_mailbox x) alias) = Some err \<longleftrightarrow>
          pwsh x (command_line x ''add'' (ps_mailbox x) (Some alias)) = Run_Not_Started err \<or>
          (err = ''AttributeError'' \<and> (\<exists>d. ?run = Inr d \<and> \<not> is_object d))"
      proof (cases "pwsh x (command_line x ''add'' (ps_mailbox x) (Some alias))")
        case (Run_Not_Started e)
        then have "?run = Inl (Escaped e)" by (simp add: run_script_escaped)
        then show ?thesis unfolding change_alias_escaped[OF m a] using Run_Not_Started by simp
      qed (auto simp: change_alias_escaped[OF m a] is_object_def split: sum.splits json.splits)
      then show ?thesis unfolding p using T m a by blast
    next
      case (2 msg)
      then show ?thesis using T m by (simp add: provision_alias_def add_alias_def change_alias_def swallow_def)
    qed
  next
    case (2 msg)
    then show ?thesis using T by (simp add: provision_alias_def add_alias_def change_alias_def swallow_def)
  qed
qed (simp add: provision_alias_def)

section \<open>Generated aliases are addresses\<close>

lemma hex_chars: "list_all local_char ''app''" "local_char CHR ''-''" "\<not> is_letter CHR ''@''" "\<not> local_char CHR ''@''" "\<not> is_letter CHR ''.''"
  by code_simp+

lemma local_not_forbidden: "local_char c \<Longrightarrow> c \<notin> set forbidden_chars"
  and domain_not_forbidden: "domain_char c \<Longrightarrow> c \<notin> set forbidden_chars"
proof -
  have "list_all (\<lambda>c. \<not> local_char c \<and> \<not> domain_char c) forbidden_chars" by code_simp
  then show "local_char c \<Longrightarrow> c \<notin> set forbidden_chars" "domain_char c \<Longrightarrow> c \<notin> set forbidden_chars"
    by (auto simp: list_all_iff)
qed

text \<open>
  The aliases the program generates are addresses Exchange accepts, so that no application is
  left without its address for a formal reason: with a slug of letters, digits, dashes and
  underscores, a hexadecimal random part, and a suffix and a domain made of such labels.
\<close>

theorem generated_aliases_are_valid_addresses:
  assumes "list_all local_char slugified" and "list_all local_char hex" and "length hex = 8"
    and "list_all local_char (alias_suffix cfg)" and "length (alias_suffix cfg) \<le> 54"
    and "inbound_domain cfg = host @ CHR ''.'' # tld" and "host \<noteq> []" and "list_all domain_char host"
    and "2 \<le> length tld" and "list_all is_letter tld" and "length host + length tld \<le> 200"
  shows "validate_email field (generate_alias cfg slugified hex @ CHR ''@'' # inbound_domain cfg) = Inr ()"
proof -
  let ?l = "generate_alias cfg slugified hex"
  obtain w where g: "?l = w @ CHR ''-'' # hex @ alias_suffix cfg" "w \<noteq> []" "set w \<subseteq> set slugified \<union> set ''app''"
    "length w \<le> nat (max (int max_local_part_length - 1 - int (length hex) - int (length (alias_suffix cfg))) 1)"
    by (rule generate_alias_shape)
  have "\<forall>c \<in> set slugified \<union> set ''app''. local_char c" using assms(1) hex_chars(1) by (auto simp: list_all_iff)
  then have local: "list_all local_char ?l"
    using g(1,3) assms(2,4) hex_chars(2) by (auto simp: list_all_iff)
  then have no_at: "CHR ''@'' \<notin> set ?l" using hex_chars(4) by (auto simp: list_all_iff)
  have ne: "?l \<noteq> []" unfolding g(1) by simp
  have short: "length ?l \<le> 64" using g(1,4) assms(3,5) by (simp add: max_local_part_length_def)
  have no_dot: "CHR ''.'' \<notin> set tld" using assms(10) hex_chars(5) by (auto simp: list_all_iff)
  have split: "split_first CHR ''@'' (?l @ CHR ''@'' # inbound_domain cfg) = Some (?l, inbound_domain cfg)"
    using no_at by (simp add: split_first_def) (subst takeWhile_append2 dropWhile_append2; auto)+
  have "email_re (?l @ CHR ''@'' # inbound_domain cfg)"
    unfolding email_re_def split option.case prod.case Let_def
    unfolding assms(6) before_last_append[OF no_dot] after_last_append[OF no_dot] using local assms(7-10) ne by simp
  moreover have "list_all (\<lambda>c. c \<notin> set forbidden_chars) (?l @ CHR ''@'' # inbound_domain cfg)"
  proof -
    have "c \<notin> set forbidden_chars" if "c \<in> set (?l @ CHR ''@'' # inbound_domain cfg)" for c
    proof -
      have "local_char c \<or> domain_char c \<or> c = CHR ''@''"
        using that local assms(6,8,10) by (auto simp: list_all_iff domain_char_def)
      moreover have "CHR ''@'' \<notin> set forbidden_chars" by code_simp
      ultimately show ?thesis using local_not_forbidden domain_not_forbidden by blast
    qed
    then show ?thesis unfolding list_all_iff by blast
  qed
  moreover have "length (?l @ CHR ''@'' # inbound_domain cfg) \<le> 320" using short assms(6,11) by simp
  ultimately show ?thesis by (simp add: validate_email_ok)
qed

section \<open>A concrete integration\<close>

text \<open>A server without PowerShell.\<close>

definition bare_server :: exchange_env where
  "bare_server = \<lparr>ps_script_path = ''m.ps1'', ps_app_id = ''app'', ps_tenant = ''t'', ps_mailbox = ''m@d.io'', ps_timeout = 60,
     pwsh = (\<lambda>_. Run_Not_Started ''FileNotFoundError''), parse_json = (\<lambda>_. None), json_str = (\<lambda>_. [])\<rparr>"

theorem alias_hooks_swallow_the_service_witness:
  "provision_alias bare_server ''a-1.p@d.io'' = Some ''FileNotFoundError'' \<and> provision_alias bare_server ''a b@d.io'' = None"
proof -
  have "exchange_configured bare_server" "validate_email ''mailbox'' (ps_mailbox bare_server) = Inr ()"
    "validate_email ''alias'' ''a-1.p@d.io'' = Inr ()"
    "pwsh bare_server (command_line bare_server ''add'' (ps_mailbox bare_server) (Some ''a-1.p@d.io'')) = Run_Not_Started ''FileNotFoundError''"
    "validate_email ''alias'' ''a b@d.io'' \<noteq> Inr ()" by code_simp+
  note f = this
  have "provision_alias bare_server ''a-1.p@d.io'' = Some ''FileNotFoundError''"
    unfolding alias_hooks_swallow_the_service using f by blast
  moreover have "provision_alias bare_server ''a b@d.io'' \<noteq> Some e" for e
    unfolding alias_hooks_swallow_the_service using f by blast
  ultimately show ?thesis by (metis option.exhaust)
qed

theorem generated_aliases_are_valid_addresses_witness:
  "validate_email ''alias'' (generate_alias demo_config ''mon-app'' ''3f9a2c1b'' @ ''@foxugly.com'') = Inr ()"
proof -
  have d: "inbound_domain demo_config = ''foxugly'' @ CHR ''.'' # ''com''" by code_simp
  have "list_all local_char ''mon-app''" "list_all local_char ''3f9a2c1b''" "length ''3f9a2c1b'' = 8"
    "list_all local_char (alias_suffix demo_config)" "length (alias_suffix demo_config) \<le> 54"
    "''foxugly'' \<noteq> []" "list_all domain_char ''foxugly''" "2 \<le> length ''com''" "list_all is_letter ''com''"
    "length ''foxugly'' + length ''com'' \<le> 200" by code_simp+
  then have "validate_email ''alias'' (generate_alias demo_config ''mon-app'' ''3f9a2c1b'' @ CHR ''@'' # inbound_domain demo_config) = Inr ()"
    using generated_aliases_are_valid_addresses[of "''mon-app''" "''3f9a2c1b''" demo_config "''foxugly''" "''com''" "''alias''"] d by simp
  then show ?thesis unfolding d by simp
qed

end
