(* ===== verification/Inbound.thy ===== *)
theory Inbound
  imports Creation Senders "HOL-Library.Char_ord" "HOL-Library.List_Lexorder"
begin

text \<open>
  Notifications by mail: the validation of a mail (\<open>NotificationInboundEmailSerializer\<close>), the handling
  of a mail and the poll (\<open>notifications/inbound_mailbox.py\<close>), the replies with their loop
  protection (\<open>notifications/inbound_reply.py\<close>), the notices to the owner and the journal
  (\<open>notifications/inbound_journal.py\<close>). The calls to the mail server are the lists of the world:
  mails sent, messages marked as read; both functions swallow their own failures. The framework's
  own refusal of NUL characters is left out.
\<close>

section \<open>The mailbox and what the poll leaves behind\<close>

text \<open>A message of the mailbox, as \<open>GraphEmail\<close>.\<close>

record inbound_mail =
  ge_graph_id :: string
  ge_sender :: string
  ge_recipient :: string
  ge_subject :: string
  ge_text :: string
  ge_message_id :: string
  ge_authentication_results :: string
  ge_recipients :: "string list"
  ge_headers :: "(string \<times> string) list"

text \<open>
  The world of a poll: the database (with the mails sent), the slots of the shared cache with
  their expiry, the pushes tried towards owners' own devices (device, title, text), and the
  messages the mailbox was asked to mark as read.
\<close>

record mail_world =
  mw_db :: db
  mw_slots :: "(string \<times> instant) list"
  mw_owner_pushes :: "(pk \<times> string \<times> string) list"
  mw_read :: "string list"

text \<open>
  What the code takes from outside: settings, push provider, database backend, the address
  validator, \<open>parseaddr\<close>, the date parser, SHA-256, the fingerprint of the canonical JSON of the
  five normalised fields, and the text Python prints for a dictionary of errors.
\<close>

record mail_env =
  me_config :: config
  me_graph_client_id :: string
  me_provider :: provider
  me_write :: write_env
  me_valid_email :: "string \<Rightarrow> bool"
  me_parse_address :: "string \<Rightarrow> string"
  me_parse_date :: "string \<Rightarrow> parsed_date"
  me_digest :: "string \<Rightarrow> string"
  me_fingerprint :: "string \<Rightarrow> string \<Rightarrow> string \<Rightarrow> string \<Rightarrow> instant option \<Rightarrow> string"
  me_print_errors :: "field_errors \<Rightarrow> string"

definition mask_email :: "string \<Rightarrow> string" where
  "mask_email a =
     (if a = [] then [] else
      case split_first CHR ''@'' a of
        None \<Rightarrow> ''***''
      | Some (local, domain) \<Rightarrow> take 1 local @ ''***@'' @ domain)"

definition inbound_email_address :: "config \<Rightarrow> application \<Rightarrow> string" where
  "inbound_email_address cfg a = inbound_email_alias a @ ''@'' @ lower (strip (inbound_email_domain cfg))"

text \<open>\<open>cache.add\<close>: refused while an entry with the key is alive.\<close>

definition cache_add :: "instant \<Rightarrow> string \<Rightarrow> int \<Rightarrow> (string \<times> instant) list \<Rightarrow> (string \<times> instant) list \<times> bool" where
  "cache_add now key ttl c =
     (if list_ex (\<lambda>e. fst e = key \<and> now < snd e) c then (c, False)
      else ((key, now + ttl * second) # filter (\<lambda>e. fst e \<noteq> key) c, True))"

definition with_slot :: "instant \<Rightarrow> config \<Rightarrow> string \<Rightarrow> mail_world \<Rightarrow> mail_world \<times> bool" where
  "with_slot now cfg key w =
     (if auto_reply_interval_seconds cfg \<le> 0 then (w, True)
      else case cache_add now key (auto_reply_interval_seconds cfg) (mw_slots w) of
        (c, ok) \<Rightarrow> (w\<lparr>mw_slots := c\<rparr>, ok))"

definition send_graph_mail :: "string \<Rightarrow> string \<Rightarrow> string \<Rightarrow> mail_world \<Rightarrow> mail_world" where
  "send_graph_mail recipient subj body w =
     w\<lparr>mw_db := send_mail \<lparr>mail_to = recipient, mail_subject = subj, mail_body = body\<rparr> (mw_db w)\<rparr>"

definition mark_email_read :: "string \<Rightarrow> mail_world \<Rightarrow> mail_world" where
  "mark_email_read i w = w\<lparr>mw_read := mw_read w @ [i]\<rparr>"

definition newline :: string where "newline = [CHR 0x0A]"
definition join_lines :: "string list \<Rightarrow> string" where "join_lines ls = join newline ls"

section \<open>Replies\<close>

text \<open>
  \<open>_ROBOT_SENDER_RE\<close>: one of the machine names, alone or followed by a separator and anything on
  the same line.
\<close>

definition robot_names :: "string list" where
  "robot_names = [''mailer-daemon'', ''postmaster'', ''bounce'', ''bounces''] @
     map (\<lambda>s. ''no'' @ s @ ''reply'') [[], ''-'', ''_'', ''.''] @
     concat (map (\<lambda>s. map (\<lambda>t. ''do'' @ s @ ''not'' @ t @ ''reply'') [[], ''-'', ''_'', ''.'']) [[], ''-'', ''_'', ''.''])"

definition robot_rest :: "string \<Rightarrow> bool" where
  "robot_rest r = (case r of
       [] \<Rightarrow> True
     | c # t \<Rightarrow> r = newline \<or> (c \<in> set ''-_.+'' \<and> CHR 0x0A \<notin> set (butlast t)))"

definition is_robot_sender :: "string \<Rightarrow> bool" where
  "is_robot_sender local = list_ex (\<lambda>p. starts_with local p \<and> robot_rest (drop (length p) local)) robot_names"

definition header :: "inbound_mail \<Rightarrow> string \<Rightarrow> string" where
  "header m name = (case map_of (ge_headers m) name of None \<Rightarrow> [] | Some v \<Rightarrow> v)"

definition has_header :: "inbound_mail \<Rightarrow> string \<Rightarrow> bool" where
  "has_header m name \<longleftrightarrow> map_of (ge_headers m) name \<noteq> None"

definition local_part_of :: "string \<Rightarrow> string" where
  "local_part_of a = (case split_first CHR ''@'' a of None \<Rightarrow> a | Some (l, _) \<Rightarrow> l)"

definition auto_reply_block_reason :: "mail_env \<Rightarrow> inbound_mail \<Rightarrow> string" where
  "auto_reply_block_reason e m =
     (let sender = normalize_address (me_parse_address e) (ge_sender m);
          mailbox = mailbox_addresses (me_config e);
          auto_submitted = lower (strip (header m ''auto-submitted''));
          recipients = (if ge_recipients m \<noteq> [] then ge_recipients m
                        else if ge_recipient m \<noteq> [] then [ge_recipient m] else [])
      in if sender = [] \<or> CHR ''@'' \<notin> set sender then ''no_sender''
         else if auto_submitted \<noteq> [] \<and> auto_submitted \<noteq> ''no'' then ''auto_submitted''
         else if lower (strip (header m ''precedence'')) \<in> {''bulk'', ''junk'', ''list'', ''auto_reply''} then ''precedence''
         else if has_header m ''x-auto-response-suppress'' then ''auto_response_suppressed''
         else if has_header m ''list-id'' \<or> has_header m ''list-unsubscribe'' then ''mailing_list''
         else if is_robot_sender (local_part_of sender) then ''robot_sender''
         else if sender \<in> set mailbox then ''own_mailbox''
         else if recipients \<noteq> [] \<and> set recipients \<subseteq> set mailbox then ''addressed_to_mailbox_only''
         else [])"

definition claim_auto_reply_slot :: "mail_env \<Rightarrow> instant \<Rightarrow> string \<Rightarrow> mail_world \<Rightarrow> mail_world \<times> bool" where
  "claim_auto_reply_slot e now sender w =
     with_slot now (me_config e) (''inbound:auto-reply:'' @ me_digest e (normalize_address (me_parse_address e) sender)) w"

definition replyable_apps :: "db \<Rightarrow> pk \<Rightarrow> application list" where
  "replyable_apps s u = sort_key app_name
     (filter (\<lambda>a. app_owner a = u \<and> app_is_active a \<and> app_revoked_at a = None) (applications s))"

definition build_unknown_address_reply :: "config \<Rightarrow> db \<Rightarrow> string \<Rightarrow> string \<Rightarrow> string \<times> string" where
  "build_unknown_address_reply cfg s sender tried =
     (case List.find (\<lambda>u. user_email u = sender) (users s) of
        None \<Rightarrow> ([], [])
      | Some u \<Rightarrow>
          (case replyable_apps s (user_id u) of
             [] \<Rightarrow> (''Undeliverable: no active application'',
                 ''Your email to '' @ tried @ '' could not be delivered.'' @ newline @ newline @
                 ''You don'' @ [CHR 0x27] @ ''t have any active applications configured.'' @ newline @
                 ''Please create an application first on PushIT.'')
           | apps \<Rightarrow> (''Undeliverable: unknown recipient address'',
                 join_lines
                   ([''Your email to '' @ tried @ '' could not be delivered '' @
                     ''because this address does not match any of your applications.'', [],
                     ''Here are your valid inbound email addresses:'', []] @
                    map (\<lambda>a. ''  - '' @ app_name a @ '': '' @ inbound_email_address cfg a) apps @
                    [[], ''Please resend your email to the correct address.'']))))"

definition send_unknown_address_reply :: "mail_env \<Rightarrow> string \<Rightarrow> string \<Rightarrow> mail_world \<Rightarrow> mail_world" where
  "send_unknown_address_reply e sender tried w =
     (case build_unknown_address_reply (me_config e) (mw_db w) sender tried of
        (subj, body) \<Rightarrow> if subj \<noteq> [] \<and> body \<noteq> [] then send_graph_mail sender subj body w else w)"

definition build_rejected_sender_reply :: "string \<Rightarrow> string \<times> string" where
  "build_rejected_sender_reply tried = (''Undeliverable: sender not authorized'',
     join_lines [''Your e-mail to '' @ tried @ '' was not accepted.'', [],
       ''This address only accepts messages from senders authorized by its owner.'',
       ''No notification was sent. If you think this is a mistake, contact the'',
       ''person who gave you this address.''])"

definition send_rejected_sender_reply :: "mail_env \<Rightarrow> string \<Rightarrow> string \<Rightarrow> mail_world \<Rightarrow> mail_world" where
  "send_rejected_sender_reply e sender tried w =
     (case build_rejected_sender_reply tried of (subj, body) \<Rightarrow> send_graph_mail sender subj body w)"

text \<open>\<open>_maybe_send_unknown_address_reply\<close>, with the reply to send.\<close>

definition maybe_send_reply ::
    "mail_env \<Rightarrow> instant \<Rightarrow> (mail_env \<Rightarrow> string \<Rightarrow> string \<Rightarrow> mail_world \<Rightarrow> mail_world) \<Rightarrow> inbound_mail \<Rightarrow>
     mail_world \<Rightarrow> mail_world" where
  "maybe_send_reply e now send m w =
     (if auto_reply_block_reason e m \<noteq> [] then w
      else case claim_auto_reply_slot e now (ge_sender m) w of
        (w1, False) \<Rightarrow> w1
      | (w1, True) \<Rightarrow> send e (lower (strip (ge_sender m))) (ge_recipient m) w1)"

definition reply_to_refused_sender :: "mail_env \<Rightarrow> instant \<Rightarrow> inbound_mail \<Rightarrow> mail_world \<Rightarrow> mail_world" where
  "reply_to_refused_sender e now m w =
     (if list_ex (\<lambda>u. user_email u = lower (strip (ge_sender m))) (users (mw_db w))
      then maybe_send_reply e now send_unknown_address_reply m w
      else maybe_send_reply e now send_rejected_sender_reply m w)"

section \<open>Telling the owner\<close>

definition reason_text :: "string \<Rightarrow> string" where
  "reason_text r =
     (if r = reason_blocklisted then ''the sender is on the application'' @ [CHR 0x27] @ ''s blocklist''
      else if r = reason_not_allowed
        then ''the sender is neither the owner nor on the application'' @ [CHR 0x27] @ ''s allowlist''
      else if r = reason_not_authenticated then ''the sender failed authentication (SPF/DKIM/DMARC)''
      else r)"

definition claim_owner_notice_slot :: "mail_env \<Rightarrow> instant \<Rightarrow> pk \<Rightarrow> string \<Rightarrow> mail_world \<Rightarrow> mail_world \<times> bool" where
  "claim_owner_notice_slot e now u channel w =
     with_slot now (me_config e) (''inbound:owner-notice:'' @ channel @ '':'' @ me_digest e (decimal u)) w"

definition build_owner_notice ::
    "config \<Rightarrow> application \<Rightarrow> string \<Rightarrow> string \<Rightarrow> auth_verdict option \<Rightarrow> string \<times> string \<times> string" where
  "build_owner_notice cfg a reason sender verdict =
     (let masked = mask_email sender; q = [CHR 0x27];
          why = reason_text reason @ (case verdict of None \<Rightarrow> [] | Some v \<Rightarrow> '' ('' @ av_reason v @ '')'');
          lines = [''PushIT refused an e-mail sent to '' @ inbound_email_address cfg a @
                     '' (application '' @ [CHR 0x22] @ app_name a @ [CHR 0x22] @ '').'',
                   ''Sender: '' @ masked, ''Reason: '' @ why @ ''.'', ''No notification was sent.'', []];
          refused = reason = reason_not_authenticated;
          more = (if refused
            then [''If the sender is legitimate, their mail domain probably lacks SPF/DKIM'',
                  ''alignment or a DMARC record; ask their mail administrator.'',
                  ''If not, someone may be trying to send notifications in their name:'',
                  ''regenerate the application'' @ q @ ''s inbound address in PushIT.'']
            else [''You can change who may send to this address in the application'' @ q @ ''s'',
                  ''sending settings in PushIT.''])
      in (if refused then ''PushIT: inbound e-mail refused (sender not authenticated)'' else ''PushIT: inbound e-mail refused'',
          join_lines (lines @ more),
          ''Mail from '' @ masked @ '' to '' @ app_name a @ '' refused: '' @ why @ ''.''))"

definition owner_push_data :: "application \<Rightarrow> string \<Rightarrow> string \<Rightarrow> string \<Rightarrow> string \<Rightarrow> (string \<times> string) list" where
  "owner_push_data a ttl msg code masked =
     [(''type'', ''inbound_email_rejected''), (''application_id'', decimal (app_id a)),
      (''application_name'', app_name a), (''title'', ttl), (''message'', msg), (''reason'', code),
      (''sender_masked'', masked)]"

definition owner_devices :: "db \<Rightarrow> pk \<Rightarrow> device list" where
  "owner_devices s u = filter (\<lambda>d. dev_user d = Some u \<and> dev_is_active d \<and> push_token_status d = T_Active) (devices s)"

text \<open>\<open>_push_to_owner_devices\<close>: every device is tried; the number of pushes the provider took.\<close>

definition push_to_owner_devices ::
    "mail_env \<Rightarrow> pk \<Rightarrow> application \<Rightarrow> string \<Rightarrow> string \<Rightarrow> string \<Rightarrow> string \<Rightarrow> mail_world \<Rightarrow> mail_world \<times> nat" where
  "push_to_owner_devices e u a ttl msg code masked w =
     (let ds = owner_devices (mw_db w) u;
          push = (\<lambda>d. send_push_to_device (me_config e) (me_provider e) (push_token d) ttl msg
                   (owner_push_data a ttl msg code masked) (Some (platform d)) True)
      in (w\<lparr>mw_owner_pushes := mw_owner_pushes w @ map (\<lambda>d. (dev_id d, ttl, msg)) ds\<rparr>,
          count_where (\<lambda>d. case push d of Push_Ok _ \<Rightarrow> True | _ \<Rightarrow> False) ds))"

definition notify_owner_of_rejection ::
    "mail_env \<Rightarrow> instant \<Rightarrow> application option \<Rightarrow> string \<Rightarrow> string \<Rightarrow> auth_verdict option \<Rightarrow> mail_world \<Rightarrow> mail_world" where
  "notify_owner_of_rejection e now app reason sender verdict w =
     (case app of
        None \<Rightarrow> w
      | Some a \<Rightarrow>
          (case get_user (mw_db w) (app_owner a) of
             None \<Rightarrow> w
           | Some u \<Rightarrow>
               (let (subj, body, push_text) = build_owner_notice (me_config e) a reason sender verdict;
                    by_mail = inbound_rejection_notify_email a \<and>
                      \<not> (reason = reason_not_authenticated \<and> \<not> dmarc_notify_owner (me_config e));
                    w1 = (if by_mail \<and> user_email u \<noteq> []
                          then (case claim_owner_notice_slot e now (user_id u) ''email'' w of
                                  (v, True) \<Rightarrow> send_graph_mail (user_email u) subj body v
                                | (v, False) \<Rightarrow> v)
                          else w)
                in if inbound_rejection_notify_push a
                   then (case claim_owner_notice_slot e now (user_id u) ''push'' w1 of
                           (v, True) \<Rightarrow> fst (push_to_owner_devices e (user_id u) a ''PushIT: inbound e-mail refused'' push_text
                                          (log_code_for_rejection reason) (mask_email sender) v)
                         | (v, False) \<Rightarrow> v)
                   else w1)))"

section \<open>Validation of a mail\<close>

text \<open>A \<open>CharField\<close> that may be blank: only its length is checked.\<close>

definition optional_field :: "string \<Rightarrow> nat \<Rightarrow> string \<Rightarrow> field_errors \<Rightarrow> field_errors" where
  "optional_field name hi v errs =
     (if hi < length v then add_error errs name (''Ensure this field has no more than '' @ decimal hi @ '' characters.'') else errs)"

definition email_field :: "mail_env \<Rightarrow> string \<Rightarrow> string \<Rightarrow> field_errors \<Rightarrow> field_errors" where
  "email_field e name v errs =
     (if strip v = [] then add_error errs name ''This field may not be blank.''
      else if \<not> me_valid_email e (strip v) then add_error errs name ''Enter a valid email address.''
      else errs)"

definition required_field :: "string \<Rightarrow> nat option \<Rightarrow> string \<Rightarrow> field_errors \<Rightarrow> field_errors" where
  "required_field name hi v errs = (case char_field hi v of Inl m \<Rightarrow> add_error errs name m | Inr _ \<Rightarrow> errs)"

definition inbound_field_errors :: "mail_env \<Rightarrow> inbound_mail \<Rightarrow> field_errors" where
  "inbound_field_errors e m =
     optional_field ''message_id'' 255 (strip (ge_message_id m))
       (required_field ''text'' None (ge_text m)
         (required_field ''subject'' (Some 255) (ge_subject m)
           (email_field e ''recipient'' (ge_recipient m)
             (email_field e ''sender'' (ge_sender m) []))))"

definition auth_as_header :: string where "auth_as_header = ''x-ms-exchange-organization-authas''"

text \<open>The application an address routes to.\<close>

definition application_of_alias :: "config \<Rightarrow> db \<Rightarrow> string \<Rightarrow> string \<Rightarrow> application option" where
  "application_of_alias cfg s local recipient =
     (if is_alias_local_part cfg local \<and> recipient \<notin> set (mailbox_addresses cfg)
      then List.find (\<lambda>a. lower (inbound_email_alias a) = lower local \<and> app_is_active a \<and> app_revoked_at a = None) (applications s)
      else None)"

text \<open>
  \<open>validate\<close>: the errors, and what it leaves in the serializer's context (the reason of a refusal,
  the verdict of the authentication, the application) with the normalised fields.
\<close>

record inbound_check =
  ic_errors :: field_errors
  ic_rejection :: "string option"
  ic_auth :: "auth_verdict option"
  ic_application :: "application option"
  ic_sender :: string
  ic_recipient :: string
  ic_title :: string
  ic_text :: string
  ic_message_id :: string
  ic_scheduled_for :: "instant option"

definition content_errors :: "instant \<Rightarrow> string + string \<times> instant option \<Rightarrow> string \<Rightarrow> field_errors \<Rightarrow> field_errors" where
  "content_errors now schedule txt e0 =
     (let e1 = (case schedule of Inl msg \<Rightarrow> set_error e0 ''subject'' msg | Inr _ \<Rightarrow> e0);
          ttl = (case schedule of Inl _ \<Rightarrow> [] | Inr (t, _) \<Rightarrow> t);
          sched = (case schedule of Inl _ \<Rightarrow> None | Inr (_, d) \<Rightarrow> d);
          e2 = (if ttl = [] then add_error e1 ''subject'' ''Subject cannot be empty.'' else e1);
          e3 = (if strip txt = [] then set_error e2 ''text'' ''Email body cannot be empty.''
                else if 5000 < length (strip txt) then set_error e2 ''text'' ''Email body is too long.'' else e2)
      in case sched of
           None \<Rightarrow> e3
         | Some d \<Rightarrow> if d \<le> now then add_error e3 ''subject'' ''Scheduled date must be in the future.'' else e3)"

text \<open>The sender against the policy, then against the verdict of the mail provider.\<close>

definition sender_errors ::
    "mail_env \<Rightarrow> db \<Rightarrow> application option \<Rightarrow> string \<Rightarrow> string \<Rightarrow> string \<Rightarrow> field_errors \<Rightarrow>
     field_errors \<times> string option \<times> auth_verdict option" where
  "sender_errors e s app sender results auth_as e0 =
     (case app of
        None \<Rightarrow>
          (if list_ex (\<lambda>u. user_email u = sender) (users s) then e0
           else add_error e0 ''sender'' ''No user matches this email address.'', None, None)
      | Some a \<Rightarrow>
          (let policy = evaluate_sender_policy s a sender in
           if \<not> pd_accepted policy
           then (add_error e0 ''sender''
                   (if pd_reason policy = reason_blocklisted then ''Sender is blocked for this application.''
                    else ''Sender is not allowed to send to this application.''), Some (pd_reason policy), None)
           else (let verdict = evaluate_sender_authentication (me_config e) results (after_last CHR ''@'' sender) auth_as in
             if \<not> av_accepted verdict \<and> require_dmarc (me_config e)
             then (add_error e0 ''sender'' ''Sender failed DMARC authentication.'', Some reason_not_authenticated, Some verdict)
             else (e0, None, None))))"

definition validate_inbound :: "mail_env \<Rightarrow> instant \<Rightarrow> db \<Rightarrow> inbound_mail \<Rightarrow> inbound_check" where
  "validate_inbound e now s m =
     (let fe = inbound_field_errors e m; cfg = me_config e;
          sender = lower (strip (ge_sender m)); recipient = lower (strip (ge_recipient m)); txt = strip (ge_text m);
          stop = (\<lambda>errs. \<lparr>ic_errors = errs, ic_rejection = None, ic_auth = None, ic_application = None,
                   ic_sender = sender, ic_recipient = recipient, ic_title = [], ic_text = txt,
                   ic_message_id = [], ic_scheduled_for = None\<rparr>)
      in if fe \<noteq> [] then stop fe
         else case split_first CHR ''@'' recipient of
           None \<Rightarrow> stop [(''recipient'', [''Invalid email address.''])]
         | Some (local, domain) \<Rightarrow>
             (let e1 = (if domain \<noteq> inbound_domain cfg
                        then set_error [] ''recipient'' (''Inbound domain must be '' @ inbound_domain cfg @ ''.'') else []);
                  schedule = extract_subject_schedule (me_parse_date e) (strip (ge_subject m));
                  e2 = content_errors now schedule txt e1;
                  app = application_of_alias cfg s local recipient;
                  e3 = (if app = None then add_error e2 ''recipient'' ''No application matches this email address.'' else e2);
                  (e4, rejection, verdict) = sender_errors e s app sender (strip (ge_authentication_results m))
                    (strip (header m auth_as_header)) e3
              in \<lparr>ic_errors = e4, ic_rejection = rejection, ic_auth = verdict, ic_application = app,
                  ic_sender = sender, ic_recipient = recipient,
                  ic_title = (case schedule of Inl _ \<Rightarrow> [] | Inr (t, _) \<Rightarrow> t), ic_text = txt,
                  ic_message_id = strip (strip (ge_message_id m)),
                  ic_scheduled_for = (case schedule of Inl _ \<Rightarrow> None | Inr (_, d) \<Rightarrow> d)\<rparr>))"

section \<open>The journal\<close>

text \<open>
  \<open>record_inbound_email_ingestion\<close>. A database that enforces the widths of its columns (any but
  SQLite) refuses a row with a longer text: the exception leaves the function.
\<close>

record log_entry =
  le_status :: ingestion_status
  le_application :: "pk option"
  le_notification :: "pk option"
  le_scheduled_for :: "instant option"
  le_error :: string

definition plain_entry :: "ingestion_status \<Rightarrow> string \<Rightarrow> log_entry" where
  "plain_entry st err = \<lparr>le_status = st, le_application = None, le_notification = None, le_scheduled_for = None, le_error = err\<rparr>"

definition log_fits :: "inbound_mail \<Rightarrow> bool" where
  "log_fits m \<longleftrightarrow> length (ge_sender m) \<le> 254 \<and> length (ge_recipient m) \<le> 254 \<and>
     length (ge_message_id m) \<le> 255 \<and> length (ge_graph_id m) \<le> 255"

definition new_log :: "pk \<Rightarrow> instant \<Rightarrow> inbound_mail \<Rightarrow> log_entry \<Rightarrow> ingestion_log" where
  "new_log i now m x = \<lparr>log_id = i, log_source = Polling, log_status = le_status x,
     log_application = le_application x, log_notification = le_notification x, log_sender = ge_sender m,
     log_recipient = ge_recipient m, log_subject = take 255 (ge_subject m), log_message_id = ge_message_id m,
     mailbox_uid = ge_graph_id m, log_scheduled_for = le_scheduled_for x, log_error_message = le_error x,
     processed_at = now\<rparr>"

definition record_ingestion ::
    "mail_env \<Rightarrow> instant \<Rightarrow> inbound_mail \<Rightarrow> log_entry \<Rightarrow> mail_world \<Rightarrow> mail_world \<times> ingestion_log raising" where
  "record_ingestion e now m x w =
     (if \<not> sqlite (me_write e) \<and> \<not> log_fits m then (w, Inl ''DataError'')
      else let l = new_log (next_pk (mw_db w)) now m x in
        (w\<lparr>mw_db := (mw_db w)\<lparr>inbound_logs := inbound_logs (mw_db w) @ [l], next_pk := Suc (next_pk (mw_db w))\<rparr>\<rparr>, Inr l))"

section \<open>One mail\<close>

definition rejection_message :: "string \<Rightarrow> auth_verdict option \<Rightarrow> string" where
  "rejection_message reason verdict =
     (case verdict of
        Some v \<Rightarrow> log_code_for_rejection reason @ '': Sender failed DMARC authentication ('' @ av_reason v @ '').''
      | None \<Rightarrow> log_code_for_rejection reason @ '': Sender refused by the application'' @ [CHR 0x27] @
          ''s inbound policy ('' @ reason @ '').'')"

text \<open>Refused by the policy or by the authentication: journal, tell the owner, perhaps answer.\<close>

definition reject_sender ::
    "mail_env \<Rightarrow> instant \<Rightarrow> inbound_mail \<Rightarrow> inbound_check \<Rightarrow> string \<Rightarrow> mail_world \<Rightarrow> mail_world \<times> string raising" where
  "reject_sender e now m c reason w =
     (case record_ingestion e now m
        ((plain_entry I_Rejected (rejection_message reason (ic_auth c)))\<lparr>le_application := map_option app_id (ic_application c)\<rparr>) w of
        (w1, Inl err) \<Rightarrow> (w1, Inl err)
      | (w1, Inr _) \<Rightarrow>
          (let w2 = notify_owner_of_rejection e now (ic_application c) reason (ge_sender m) (ic_auth c) w1;
               answer = (case ic_application c of None \<Rightarrow> False | Some a \<Rightarrow>
                   inbound_rejection_reply_to_sender a \<and> reason \<noteq> reason_not_authenticated)
           in (if answer then reply_to_refused_sender e now m w2 else w2, Inr ''rejected'')))"

definition reject_content ::
    "mail_env \<Rightarrow> instant \<Rightarrow> inbound_mail \<Rightarrow> inbound_check \<Rightarrow> mail_world \<Rightarrow> mail_world \<times> string raising" where
  "reject_content e now m c w =
     (let known_user_wrong_address =
            list_ex (\<lambda>x. contains x ''No application matches'') (field_messages (ic_errors c) ''recipient'') \<and>
            \<not> list_ex (\<lambda>x. contains x ''No user matches'') (field_messages (ic_errors c) ''sender'');
          w1 = (if known_user_wrong_address then maybe_send_reply e now send_unknown_address_reply m w else w)
      in case record_ingestion e now m (plain_entry I_Rejected (me_print_errors e (ic_errors c))) w1 of
           (w2, Inl err) \<Rightarrow> (w2, Inl err)
         | (w2, Inr _) \<Rightarrow> (w2, Inr ''rejected''))"

definition idempotency_key_of :: "inbound_check \<Rightarrow> inbound_mail \<Rightarrow> string" where
  "idempotency_key_of c m = (if ic_message_id c = [] then ''graph-'' @ ge_graph_id m else ic_message_id c)"

definition accept_mail ::
    "mail_env \<Rightarrow> instant \<Rightarrow> inbound_mail \<Rightarrow> inbound_check \<Rightarrow> application \<Rightarrow> mail_world \<Rightarrow> mail_world \<times> string raising" where
  "accept_mail e now m c a w =
     (let fp = me_fingerprint e (ic_sender c) (ic_recipient c) (ic_title c) (ic_text c) (ic_scheduled_for c);
          entry = (\<lambda>st n err. \<lparr>le_status = st, le_application = Some (app_id a), le_notification = Some (ntf_id n),
                    le_scheduled_for = ic_scheduled_for c, le_error = err\<rparr>)
      in case create_notification_with_optional_idempotency (me_write e) (app_id a) (ic_title c) (ic_text c)
           (ic_scheduled_for c) (idempotency_key_of c m) fp now (mw_db w) of
        (s1, Inl err) \<Rightarrow> (w\<lparr>mw_db := s1\<rparr>, Inl err)
      | (s1, Inr out) \<Rightarrow>
          (let w1 = w\<lparr>mw_db := s1\<rparr> in
           if out_conflict out
           then (case record_ingestion e now m
                   (entry I_Conflict (out_notification out) ''Message already processed with different content.'') w1 of
                   (w2, Inl err) \<Rightarrow> (w2, Inl err) | (w2, Inr _) \<Rightarrow> (w2, Inr ''conflict''))
           else (case record_ingestion e now m
                   (entry (if out_created out then I_Created else I_Existing) (out_notification out) []) w1 of
                   (w2, Inl err) \<Rightarrow> (w2, Inl err)
                 | (w2, Inr _) \<Rightarrow> (w2, Inr (if out_created out then ''created'' else ''existing'')))))"

text \<open>\<open>_process_email\<close>: the outcome, or the exception that leaves it. Every outcome is marked as read.\<close>

definition process_email :: "mail_env \<Rightarrow> instant \<Rightarrow> inbound_mail \<Rightarrow> mail_world \<Rightarrow> mail_world \<times> string raising" where
  "process_email e now m w =
     (if \<not> is_inbound_alias_address (me_config e) (me_parse_address e) (ge_recipient m) then (w, Inr ''ignored'')
      else let c = validate_inbound e now (mw_db w) m in
        if ic_errors c \<noteq> []
        then (case ic_rejection c of
                Some reason \<Rightarrow> reject_sender e now m c reason w
              | None \<Rightarrow> reject_content e now m c w)
        else (case ic_application c of
                Some a \<Rightarrow> accept_mail e now m c a w
              | None \<Rightarrow> (w, Inl ''KeyError'')))"

section \<open>A mail that fails\<close>

definition failed_attempts :: "db \<Rightarrow> string \<Rightarrow> nat" where
  "failed_attempts s uid =
     count_where (\<lambda>l. log_source l = Polling \<and> log_status l = I_Error \<and> mailbox_uid l = uid) (inbound_logs s)"

definition record_processing_failure ::
    "mail_env \<Rightarrow> instant \<Rightarrow> inbound_mail \<Rightarrow> string \<Rightarrow> mail_world \<Rightarrow> mail_world \<times> unit raising" where
  "record_processing_failure e now m err w =
     (case record_ingestion e now m (plain_entry I_Error err) w of
        (w1, Inl x) \<Rightarrow> (w1, Inl x)
      | (w1, Inr l) \<Rightarrow>
          (let attempts = failed_attempts (mw_db w1) (ge_graph_id m); cap = max_processing_attempts (me_config e) in
           if ge_graph_id m = [] \<or> cap \<le> 0 \<or> int attempts < cap then (w1, Inr ())
           else (let text = ''Giving up after '' @ decimal attempts @ '' failed attempts (marked read): '' @ err in
             (mark_email_read (ge_graph_id m)
               (w1\<lparr>mw_db := (mw_db w1)\<lparr>inbound_logs := update_where (\<lambda>r. log_id r = log_id l)
                  (\<lambda>r. r\<lparr>log_error_message := text\<rparr>) (inbound_logs (mw_db w1))\<rparr>\<rparr>), Inr ()))))"

section \<open>The poll\<close>

record poll_counts =
  processed_count :: nat
  created_count :: nat
  rejected_count :: nat
  ignored_count :: nat
  failed_count :: nat

datatype poll_report = Poll_Skipped | Poll_Error string | Poll_Ok poll_counts

definition count_outcome :: "string \<Rightarrow> poll_counts \<Rightarrow> poll_counts" where
  "count_outcome r k =
     (let k1 = k\<lparr>processed_count := Suc (processed_count k)\<rparr> in
      if r = ''rejected'' then k1\<lparr>rejected_count := Suc (rejected_count k)\<rparr>
      else if r = ''created'' then k1\<lparr>created_count := Suc (created_count k)\<rparr>
      else if r = ''ignored'' then k1\<lparr>ignored_count := Suc (ignored_count k)\<rparr> else k1)"

text \<open>The loop over the mails, each with the time it is processed at. An exception of the recovery ends the poll.\<close>

fun poll_mails ::
    "mail_env \<Rightarrow> (instant \<times> inbound_mail) list \<Rightarrow> mail_world \<Rightarrow> poll_counts \<Rightarrow> mail_world \<times> poll_counts raising" where
  "poll_mails e [] w k = (w, Inr k)"
| "poll_mails e ((now, m) # ms) w k =
     (case process_email e now m w of
        (w1, Inr r) \<Rightarrow> poll_mails e ms (mark_email_read (ge_graph_id m) w1) (count_outcome r k)
      | (w1, Inl err) \<Rightarrow>
          (case record_processing_failure e now m err w1 of
             (w2, Inl x) \<Rightarrow> (w2, Inl x)
           | (w2, Inr _) \<Rightarrow> poll_mails e ms w2 (k\<lparr>failed_count := Suc (failed_count k)\<rparr>)))"

text \<open>\<open>poll_inbound_mailbox\<close>: \<open>fetched\<close> is what the mail server answers, or the exception of the request.\<close>

definition poll_inbound_mailbox ::
    "mail_env \<Rightarrow> (instant \<times> inbound_mail) list raising \<Rightarrow> mail_world \<Rightarrow> mail_world \<times> poll_report raising" where
  "poll_inbound_mailbox e fetched w =
     (if me_graph_client_id e = [] then (w, Inr Poll_Skipped)
      else case fetched of
        Inl err \<Rightarrow> (w, Inr (Poll_Error err))
      | Inr ms \<Rightarrow>
          (case poll_mails e ms w \<lparr>processed_count = 0, created_count = 0, rejected_count = 0, ignored_count = 0, failed_count = 0\<rparr> of
             (w1, Inl x) \<Rightarrow> (w1, Inl x)
           | (w1, Inr k) \<Rightarrow> (w1, Inr (Poll_Ok k))))"

section \<open>What the steps leave alone\<close>

named_theorems inbound_frame \<open>what the steps of the poll keep\<close>

text \<open>The part of the world only a creation may change, and the failures journalled.\<close>

definition core :: "mail_world \<Rightarrow> notification list \<times> application list \<times> user list \<times> string list" where
  "core w = (notifications (mw_db w), applications (mw_db w), users (mw_db w), mw_read w)"

lemma core_slot [inbound_frame]: "core (fst (with_slot now cfg key w)) = core w"
  by (simp add: with_slot_def core_def split: prod.split)

lemma core_slots: "core (mw_slots_update f w) = core w"
  by (simp add: core_def)

lemma logs_slot [inbound_frame]: "inbound_logs (mw_db (fst (with_slot now cfg key w))) = inbound_logs (mw_db w)"
  by (simp add: with_slot_def split: prod.split)

lemma core_mail [inbound_frame]: "core (send_graph_mail r subj body w) = core w"
  and logs_mail [inbound_frame]: "inbound_logs (mw_db (send_graph_mail r subj body w)) = inbound_logs (mw_db w)"
  by (simp_all add: send_graph_mail_def send_mail_def core_def)

lemma outbox_mail: "outbox (mw_db (send_graph_mail r subj body w)) =
    outbox (mw_db w) @ [\<lparr>mail_to = r, mail_subject = subj, mail_body = body\<rparr>]"
  by (simp add: send_graph_mail_def send_mail_def)

text \<open>A step that sends at most one mail, to the given address.\<close>

definition sends_to :: "string \<Rightarrow> (mail_world \<Rightarrow> mail_world) \<Rightarrow> bool" where
  "sends_to r f \<longleftrightarrow> (\<forall>w. \<exists>sent. outbox (mw_db (f w)) = outbox (mw_db w) @ sent \<and> length sent \<le> 1 \<and>
     list_all (\<lambda>x. mail_to x = r) sent)"

lemma sends_unknown: "sends_to sender (send_unknown_address_reply e sender tried)"
  and sends_refused: "sends_to sender (send_rejected_sender_reply e sender tried)"
  by (simp_all add: sends_to_def send_unknown_address_reply_def send_rejected_sender_reply_def outbox_mail split: prod.split)

lemma core_unknown [inbound_frame]: "core (send_unknown_address_reply e sender tried w) = core w"
  and logs_unknown [inbound_frame]: "inbound_logs (mw_db (send_unknown_address_reply e sender tried w)) = inbound_logs (mw_db w)"
  by (simp_all add: send_unknown_address_reply_def inbound_frame split: prod.split)

lemma core_refused [inbound_frame]: "core (send_rejected_sender_reply e sender tried w) = core w"
  and logs_refused [inbound_frame]: "inbound_logs (mw_db (send_rejected_sender_reply e sender tried w)) = inbound_logs (mw_db w)"
  by (simp_all add: send_rejected_sender_reply_def inbound_frame split: prod.split)

lemma slot_cases:
  obtains v b where "with_slot now cfg key w = (v, b)" "core v = core w" "inbound_logs (mw_db v) = inbound_logs (mw_db w)"
    "outbox (mw_db v) = outbox (mw_db w)" "users (mw_db v) = users (mw_db w)"
  by (rule that[of "fst (with_slot now cfg key w)" "snd (with_slot now cfg key w)"])
    (simp_all add: with_slot_def core_def split: prod.split)

text \<open>A reply, once its loop protections have passed, is the one mail it sends.\<close>

lemma maybe_send_reply_frame:
  assumes "\<And>s t v. core (send e s t v) = core v" and "\<And>s t v. inbound_logs (mw_db (send e s t v)) = inbound_logs (mw_db v)"
  shows "core (maybe_send_reply e now send m w) = core w"
    and "inbound_logs (mw_db (maybe_send_reply e now send m w)) = inbound_logs (mw_db w)"
proof -
  let ?key = "''inbound:auto-reply:'' @ me_digest e (normalize_address (me_parse_address e) (ge_sender m))"
  obtain v b where "with_slot now (me_config e) ?key w = (v, b)" "core v = core w" "inbound_logs (mw_db v) = inbound_logs (mw_db w)"
    by (rule slot_cases)
  then show "core (maybe_send_reply e now send m w) = core w"
    and "inbound_logs (mw_db (maybe_send_reply e now send m w)) = inbound_logs (mw_db w)"
    by (cases b; simp add: maybe_send_reply_def claim_auto_reply_slot_def assms)+
qed

lemmas replies_frame [inbound_frame] =
  maybe_send_reply_frame[OF core_unknown logs_unknown] maybe_send_reply_frame[OF core_refused logs_refused]

lemma maybe_send_reply_sends:
  assumes "\<And>s t. sends_to s (send e s t)"
  shows "\<exists>sent. outbox (mw_db (maybe_send_reply e now send m w)) = outbox (mw_db w) @ sent \<and> length sent \<le> 1 \<and>
    list_all (\<lambda>x. auto_reply_block_reason e m = [] \<and> mail_to x = lower (strip (ge_sender m))) sent"
proof (cases "auto_reply_block_reason e m = []")
  case False
  then show ?thesis by (intro exI[of _ "[]"]) (simp add: maybe_send_reply_def)
next
  case True
  let ?key = "''inbound:auto-reply:'' @ me_digest e (normalize_address (me_parse_address e) (ge_sender m))"
  obtain v b where v: "with_slot now (me_config e) ?key w = (v, b)" "outbox (mw_db v) = outbox (mw_db w)"
    by (rule slot_cases)
  obtain sent where "outbox (mw_db (send e (lower (strip (ge_sender m))) (ge_recipient m) v)) = outbox (mw_db v) @ sent"
    "length sent \<le> 1" "list_all (\<lambda>x. mail_to x = lower (strip (ge_sender m))) sent"
    using assms[of "lower (strip (ge_sender m))" "ge_recipient m"] unfolding sends_to_def by blast
  then show ?thesis using True v
    by (cases b) (auto simp: maybe_send_reply_def claim_auto_reply_slot_def intro: exI[of _ "[]"] exI[of _ sent])
qed

lemmas reply_sends = maybe_send_reply_sends[OF sends_unknown] maybe_send_reply_sends[OF sends_refused]

lemma reply_frame [inbound_frame]:
  "core (reply_to_refused_sender e now m w) = core w"
  "inbound_logs (mw_db (reply_to_refused_sender e now m w)) = inbound_logs (mw_db w)"
  by (simp_all add: reply_to_refused_sender_def inbound_frame)

lemma push_frame [inbound_frame]:
  "core (fst (push_to_owner_devices e u a ttl msg code masked w)) = core w"
  "inbound_logs (mw_db (fst (push_to_owner_devices e u a ttl msg code masked w))) = inbound_logs (mw_db w)"
  "outbox (mw_db (fst (push_to_owner_devices e u a ttl msg code masked w))) = outbox (mw_db w)"
  by (simp_all add: push_to_owner_devices_def Let_def core_def)

text \<open>The notice: at most one mail, to the owner's own address.\<close>

lemma notify_owner_effect:
  "\<exists>sent. core (notify_owner_of_rejection e now app reason sender verdict w) = core w \<and>
     inbound_logs (mw_db (notify_owner_of_rejection e now app reason sender verdict w)) = inbound_logs (mw_db w) \<and>
     outbox (mw_db (notify_owner_of_rejection e now app reason sender verdict w)) = outbox (mw_db w) @ sent \<and>
     length sent \<le> 1 \<and>
     list_all (\<lambda>x. \<exists>a u. app = Some a \<and> get_user (mw_db w) (app_owner a) = Some u \<and> mail_to x = user_email u) sent"
proof (cases app)
  case None
  then show ?thesis by (intro exI[of _ "[]"]) (simp add: notify_owner_of_rejection_def)
next
  case (Some a)
  show ?thesis
  proof (cases "get_user (mw_db w) (app_owner a)")
    case None
    then show ?thesis using Some by (intro exI[of _ "[]"]) (simp add: notify_owner_of_rejection_def)
  next
    case u: (Some u)
    obtain subj body push_text where n: "build_owner_notice (me_config e) a reason sender verdict = (subj, body, push_text)"
      by (metis surj_pair)
    let ?by_mail = "(inbound_rejection_notify_email a \<and> \<not> (reason = reason_not_authenticated \<and> \<not> dmarc_notify_owner (me_config e))) \<and>
      user_email u \<noteq> []"
    obtain v b where v: "claim_owner_notice_slot e now (user_id u) ''email'' w = (v, b)" "core v = core w"
      "inbound_logs (mw_db v) = inbound_logs (mw_db w)" "outbox (mw_db v) = outbox (mw_db w)"
      unfolding claim_owner_notice_slot_def by (rule slot_cases)
    define w1 where "w1 = (if ?by_mail then (if b then send_graph_mail (user_email u) subj body v else v) else w)"
    let ?sent = "if ?by_mail \<and> b then [\<lparr>mail_to = user_email u, mail_subject = subj, mail_body = body\<rparr>] else []"
    have w1: "core w1 = core w" "inbound_logs (mw_db w1) = inbound_logs (mw_db w)" "outbox (mw_db w1) = outbox (mw_db w) @ ?sent"
      using v by (auto simp: w1_def inbound_frame outbox_mail)
    obtain x c where x: "claim_owner_notice_slot e now (user_id u) ''push'' w1 = (x, c)" "core x = core w1"
      "inbound_logs (mw_db x) = inbound_logs (mw_db w1)" "outbox (mw_db x) = outbox (mw_db w1)"
      unfolding claim_owner_notice_slot_def by (rule slot_cases)
    have "notify_owner_of_rejection e now app reason sender verdict w =
        (if inbound_rejection_notify_push a
         then (if c then fst (push_to_owner_devices e (user_id u) a ''PushIT: inbound e-mail refused'' push_text
                          (log_code_for_rejection reason) (mask_email sender) x) else x)
         else w1)"
    proof -
      have "(if ?by_mail then (case claim_owner_notice_slot e now (user_id u) ''email'' w of
            (v, True) \<Rightarrow> send_graph_mail (user_email u) subj body v | (v, False) \<Rightarrow> v) else w) = w1"
        unfolding w1_def v(1) by (cases b) auto
      then have "notify_owner_of_rejection e now app reason sender verdict w =
          (if inbound_rejection_notify_push a
           then (case claim_owner_notice_slot e now (user_id u) ''push'' w1 of
                   (v, True) \<Rightarrow> fst (push_to_owner_devices e (user_id u) a ''PushIT: inbound e-mail refused'' push_text
                                  (log_code_for_rejection reason) (mask_email sender) v)
                 | (v, False) \<Rightarrow> v)
           else w1)"
        unfolding notify_owner_of_rejection_def Some option.case u n Let_def prod.case by simp
      then show ?thesis unfolding x(1) by (cases c) simp_all
    qed
    then show ?thesis using w1 x Some u by (intro exI[of _ ?sent]) (simp add: inbound_frame)
  qed
qed

section \<open>What a creation adds\<close>

definition kept_tables :: "db \<Rightarrow> application list \<times> user list \<times> ingestion_log list \<times> mail list" where
  "kept_tables s = (applications s, users s, inbound_logs s, outbox s)"

text \<open>Nothing, or the notification the outcome names.\<close>

definition adds :: "(pk \<Rightarrow> notification) \<Rightarrow> db \<Rightarrow> db \<times> creation_outcome raising \<Rightarrow> bool" where
  "adds new s x \<longleftrightarrow> kept_tables (fst x) = kept_tables s \<and>
     (notifications (fst x) = notifications s \<or>
      (\<exists>i. notifications (fst x) = notifications s @ [new i] \<and> snd x = Inr (fresh_outcome (new i))))"

lemma insert_cases:
  obtains s1 where "insert_notification app ttl msg sched key fp now s = (s1, None)" "notifications s1 = notifications s"
      "kept_tables s1 = kept_tables s"
  | s1 i where "insert_notification app ttl msg sched key fp now s = (s1, Some (new_notification i app ttl msg sched key fp now))"
      "notifications s1 = notifications s @ [new_notification i app ttl msg sched key fp now]" "kept_tables s1 = kept_tables s"
proof (cases "key \<noteq> [] \<and> list_ex (same_key app key) (notifications s)")
  case True
  show thesis
    by (rule that(1)[of "s\<lparr>next_pk := Suc (next_pk s)\<rparr>"]) (use True in \<open>simp_all add: insert_notification_def kept_tables_def\<close>)
next
  case False
  show thesis
    by (rule that(2)[of "s\<lparr>notifications := notifications s @ [new_notification (next_pk s) app ttl msg sched key fp now], next_pk := Suc (next_pk s)\<rparr>" "next_pk s"])
      (use False in \<open>auto simp: insert_notification_def kept_tables_def Let_def\<close>)
qed

lemma read_back_adds: "kept_tables s1 = kept_tables s \<Longrightarrow> notifications s1 = notifications s \<Longrightarrow> adds new s (read_back app key fp s1)"
  by (auto simp: read_back_def adds_def split: list.split)

lemma sqlite_adds:
  "sqlite_attempts ks env app ttl msg sched key fp now s = Some x \<Longrightarrow>
   adds (\<lambda>i. new_notification i app ttl msg sched key fp now) s x"
proof (induction ks)
  case (Cons k ks)
  then show ?case
    by (cases rule: insert_cases[of app ttl msg sched key fp now s])
      (auto simp: adds_def split: option.splits if_splits)
qed simp

lemma savepoint_adds:
  "adds (\<lambda>i. new_notification i app ttl msg sched key fp now) s (create_with_savepoint env app ttl msg sched key fp now s)"
  by (cases rule: insert_cases[of app ttl msg sched key fp now s])
    (auto simp: create_with_savepoint_def adds_def[of _ _ "(_, _)"] intro: read_back_adds split: option.split)

lemma creation_adds:
  "adds (\<lambda>i. new_notification i app ttl msg sched key fp now) s
     (create_notification_with_optional_idempotency env app ttl msg sched key fp now s)"
proof (cases "key = []")
  case True
  then show ?thesis
    by (cases rule: insert_cases[of app ttl msg sched key fp now s])
      (auto simp: create_notification_with_optional_idempotency_def adds_def split: option.split)
next
  case False
  then show ?thesis
    using savepoint_adds sqlite_adds[of "[0, 1, 2]" env app ttl msg sched key fp now s]
    unfolding create_notification_with_optional_idempotency_def by (simp del: sqlite_attempts.simps split: option.split)
qed

lemma record_cases:
  obtains w1 where "record_ingestion e now m x w = (w1, Inl ''DataError'')" "w1 = w" "\<not> sqlite (me_write e)" "\<not> log_fits m"
  | w1 l where "record_ingestion e now m x w = (w1, Inr l)" "core w1 = core w" "outbox (mw_db w1) = outbox (mw_db w)"
      "inbound_logs (mw_db w1) = inbound_logs (mw_db w) @ [l]" "l = new_log (next_pk (mw_db w)) now m x"
      "sqlite (me_write e) \<or> log_fits m"
proof (cases "\<not> sqlite (me_write e) \<and> \<not> log_fits m")
  case True
  show thesis by (rule that(1)) (use True in \<open>simp_all add: record_ingestion_def\<close>)
next
  case False
  let ?l = "new_log (next_pk (mw_db w)) now m x"
  show thesis
    by (rule that(2)[of "w\<lparr>mw_db := (mw_db w)\<lparr>inbound_logs := inbound_logs (mw_db w) @ [?l], next_pk := Suc (next_pk (mw_db w))\<rparr>\<rparr>" ?l])
      (use False in \<open>auto simp: record_ingestion_def Let_def core_def\<close>)
qed

section \<open>Who may create a notification by mail\<close>

text \<open>What a mail without errors has been checked for.\<close>

definition authorised :: "mail_env \<Rightarrow> db \<Rightarrow> inbound_mail \<Rightarrow> application \<Rightarrow> bool" where
  "authorised e s m a \<longleftrightarrow> a \<in> set (applications s) \<and> app_is_active a \<and> app_revoked_at a = None \<and>
     lower (inbound_email_alias a) = lower (local_part_of (lower (strip (ge_recipient m)))) \<and>
     pd_accepted (evaluate_sender_policy s a (lower (strip (ge_sender m)))) \<and>
     (if require_dmarc (me_config e)
      then av_accepted (evaluate_sender_authentication (me_config e) (strip (ge_authentication_results m))
             (after_last CHR ''@'' (lower (strip (ge_sender m)))) (strip (header m auth_as_header)))
      else True)"

lemma errs_not_Nil: "e0 \<noteq> [] \<Longrightarrow> fst (sender_errors e s app sender r a e0) \<noteq> []"
  by (auto simp: sender_errors_def Let_def split: option.split)

lemma content_not_Nil: "e0 \<noteq> [] \<Longrightarrow> content_errors now sc txt e0 \<noteq> []"
  by (auto simp: content_errors_def Let_def split: sum.split prod.split option.split)

lemma content_Nil:
  "content_errors now sc txt e0 = [] \<Longrightarrow> e0 = [] \<and> (\<exists>t d. sc = Inr (t, d) \<and> t \<noteq> [] \<and> (case d of None \<Rightarrow> True | Some x \<Rightarrow> now < x)) \<and>
     strip txt \<noteq> [] \<and> length (strip txt) \<le> 5000"
  by (auto simp: content_errors_def Let_def split: sum.splits prod.splits option.splits if_splits)

lemma sender_Nil:
  "sender_errors e s (Some a) sender r h e0 = ([], x) \<Longrightarrow> pd_accepted (evaluate_sender_policy s a sender) \<and>
     (require_dmarc (me_config e) \<longrightarrow> av_accepted (evaluate_sender_authentication (me_config e) r (after_last CHR ''@'' sender) h))"
  by (auto simp: sender_errors_def Let_def split: if_splits)

lemma valid_mail:
  assumes "ic_errors (validate_inbound e now s m) = []"
  defines "c \<equiv> validate_inbound e now s m"
  shows "\<exists>a. ic_application c = Some a \<and> authorised e s m a \<and> ic_title c \<noteq> [] \<and> ic_text c \<noteq> [] \<and> length (ic_text c) \<le> 5000 \<and>
    (case ic_scheduled_for c of None \<Rightarrow> True | Some d \<Rightarrow> now < d) \<and> inbound_field_errors e m = []"
proof -
  let ?cfg = "me_config e" and ?sender = "lower (strip (ge_sender m))" and ?recipient = "lower (strip (ge_recipient m))"
  have fe: "inbound_field_errors e m = []" using assms(1) by (auto simp: validate_inbound_def Let_def split: if_splits)
  obtain local domain where sp: "split_first CHR ''@'' ?recipient = Some (local, domain)"
    using assms(1) fe by (cases "split_first CHR ''@'' ?recipient") (auto simp: validate_inbound_def Let_def)
  let ?schedule = "extract_subject_schedule (me_parse_date e) (strip (ge_subject m))"
  let ?app = "application_of_alias ?cfg s local ?recipient"
  define e1 where "e1 = (if domain \<noteq> inbound_domain ?cfg then set_error [] ''recipient'' (''Inbound domain must be '' @ inbound_domain ?cfg @ ''.'') else [])"
  define e2 where "e2 = content_errors now ?schedule (strip (ge_text m)) e1"
  define e3 where "e3 = (if ?app = None then add_error e2 ''recipient'' ''No application matches this email address.'' else e2)"
  obtain e4 r v where se: "sender_errors e s ?app ?sender (strip (ge_authentication_results m)) (strip (header m auth_as_header)) e3 = (e4, r, v)"
    by (metis surj_pair)
  have c: "ic_errors c = e4" "ic_application c = ?app" "ic_text c = strip (ge_text m)"
    "ic_title c = (case ?schedule of Inl _ \<Rightarrow> [] | Inr (t, _) \<Rightarrow> t)" "ic_scheduled_for c = (case ?schedule of Inl _ \<Rightarrow> None | Inr (_, d) \<Rightarrow> d)"
    unfolding c_def validate_inbound_def Let_def sp option.case prod.case e1_def[symmetric] e2_def[symmetric] e3_def[symmetric] se
    using fe by simp_all
  have e4: "e4 = []" using assms c(1) by simp
  then have e3: "e3 = []" using errs_not_Nil[of e3 e s ?app ?sender "strip (ge_authentication_results m)" "strip (header m auth_as_header)"] se by auto
  then obtain a where a: "?app = Some a" and "e2 = []" unfolding e3_def by (cases ?app) auto
  note body = content_Nil[OF \<open>e2 = []\<close>[unfolded e2_def]]
  have "a \<in> set (applications s)" "lower (inbound_email_alias a) = lower local" "app_is_active a" "app_revoked_at a = None"
    using a by (auto simp: application_of_alias_def dest!: find_SomeD split: if_splits)
  moreover have "local_part_of ?recipient = local" by (simp add: local_part_of_def sp)
  ultimately have "authorised e s m a"
    using sender_Nil[OF se[unfolded a e4]] by (simp add: authorised_def)
  then show ?thesis using a body c fe by auto
qed

section \<open>The outcomes of a mail\<close>

text \<open>Mails a step may send: to the owner of the application, or to a sender that may be answered.\<close>

definition to_owner :: "mail_world \<Rightarrow> application option \<Rightarrow> mail \<Rightarrow> bool" where
  "to_owner w app x \<longleftrightarrow> (\<exists>a u. app = Some a \<and> get_user (mw_db w) (app_owner a) = Some u \<and> mail_to x = user_email u)"

definition to_sender :: "mail_env \<Rightarrow> inbound_mail \<Rightarrow> mail \<Rightarrow> bool" where
  "to_sender e m x \<longleftrightarrow> auto_reply_block_reason e m = [] \<and> mail_to x = lower (strip (ge_sender m))"

text \<open>Only rows of the journal that are not failures are added, and mails of the given kind sent.\<close>

definition quiet_step :: "mail_world \<Rightarrow> (mail \<Rightarrow> bool) \<Rightarrow> nat \<Rightarrow> mail_world \<Rightarrow> bool" where
  "quiet_step w ok k v \<longleftrightarrow> core v = core w \<and>
     (\<exists>ls. inbound_logs (mw_db v) = inbound_logs (mw_db w) @ ls \<and> list_all (\<lambda>l. log_status l \<noteq> I_Error) ls) \<and>
     (\<exists>sent. outbox (mw_db v) = outbox (mw_db w) @ sent \<and> length sent \<le> k \<and> list_all ok sent)"

lemma quiet_refl: "quiet_step w ok k w"
  by (simp add: quiet_step_def exI[of _ "[]"])

lemma quiet_trans:
  assumes "quiet_step w ok j v" and "quiet_step v ok k u"
  shows "quiet_step w ok (j + k) u"
proof -
  obtain ls ms where ls: "inbound_logs (mw_db v) = inbound_logs (mw_db w) @ ls" "list_all (\<lambda>l. log_status l \<noteq> I_Error) ls"
    and ms: "outbox (mw_db v) = outbox (mw_db w) @ ms" "length ms \<le> j" "list_all ok ms"
    using assms(1) unfolding quiet_step_def by blast
  obtain ls' ms' where ls': "inbound_logs (mw_db u) = inbound_logs (mw_db v) @ ls'" "list_all (\<lambda>l. log_status l \<noteq> I_Error) ls'"
    and ms': "outbox (mw_db u) = outbox (mw_db v) @ ms'" "length ms' \<le> k" "list_all ok ms'"
    using assms(2) unfolding quiet_step_def by blast
  have "core u = core w" using assms unfolding quiet_step_def by simp
  then show ?thesis unfolding quiet_step_def
    using ls ls' ms ms' by (intro conjI exI[of _ "ls @ ls'"] exI[of _ "ms @ ms'"]) simp_all
qed

lemma quiet_mono: "quiet_step w ok j v \<Longrightarrow> j \<le> k \<Longrightarrow> (\<And>x. ok x \<Longrightarrow> ok' x) \<Longrightarrow> quiet_step w ok' k v"
  unfolding quiet_step_def by (meson le_trans list.pred_mono_strong)

lemma quiet_record:
  assumes "record_ingestion e now m x w = (v, r)" and "le_status x \<noteq> I_Error"
  shows "quiet_step w ok 0 v"
  using assms by (cases rule: record_cases[of e now m x w])
    (auto simp: quiet_step_def new_log_def intro: quiet_refl[unfolded quiet_step_def])

lemma quiet_reply:
  assumes "\<And>s t v. core (send e s t v) = core v" and "\<And>s t v. inbound_logs (mw_db (send e s t v)) = inbound_logs (mw_db v)"
    and "\<And>s t. sends_to s (send e s t)"
  shows "quiet_step w (to_sender e m) 1 (maybe_send_reply e now send m w)"
  using maybe_send_reply_sends[of send e now m w, OF assms(3)] maybe_send_reply_frame[of send e now m w, OF assms(1,2)]
  unfolding quiet_step_def to_sender_def by (auto intro: exI[of _ "[]"])

lemmas quiet_replies = quiet_reply[OF core_unknown logs_unknown sends_unknown] quiet_reply[OF core_refused logs_refused sends_refused]

lemma quiet_notice: "quiet_step w (to_owner w app) 1 (notify_owner_of_rejection e now app reason sender verdict w)"
  using notify_owner_effect[of e now app reason sender verdict w]
  unfolding quiet_step_def to_owner_def by (auto intro: exI[of _ "[]"])

text \<open>What the outcomes of a mail come from.\<close>

lemma reject_sender_quiet:
  assumes "reject_sender e now m c reason w = (v, r)"
  shows "quiet_step w (\<lambda>x. to_owner w (ic_application c) x \<or> (reason \<noteq> reason_not_authenticated \<and> to_sender e m x)) 2 v"
proof -
  let ?entry = "(plain_entry I_Rejected (rejection_message reason (ic_auth c)))\<lparr>le_application := map_option app_id (ic_application c)\<rparr>"
  let ?ok = "\<lambda>x. to_owner w (ic_application c) x \<or> (reason \<noteq> reason_not_authenticated \<and> to_sender e m x)"
  obtain w1 q where rec: "record_ingestion e now m ?entry w = (w1, q)" by (metis surj_pair)
  have s1: "quiet_step w ok 0 w1" for ok by (rule quiet_record[OF rec]) (simp add: plain_entry_def)
  show ?thesis
  proof (cases q)
    case (Inl err)
    then have "v = w1" using assms rec by (simp add: reject_sender_def)
    then show ?thesis using s1 by (auto intro: quiet_mono)
  next
    case (Inr l)
    let ?w2 = "notify_owner_of_rejection e now (ic_application c) reason (ge_sender m) (ic_auth c) w1"
    have "users (mw_db w1) = users (mw_db w)" using s1[of "\<lambda>_. True"] by (simp add: quiet_step_def core_def)
    then have own: "to_owner w1 = to_owner w" by (simp add: to_owner_def fun_eq_iff get_user_def)
    have "quiet_step w1 ?ok 1 ?w2" by (rule quiet_mono[OF quiet_notice]) (simp_all add: own)
    from quiet_trans[OF s1 this] have s2: "quiet_step w ?ok 1 ?w2" by simp
    have v: "v = ?w2 \<or> (reason \<noteq> reason_not_authenticated \<and> v = reply_to_refused_sender e now m ?w2)"
      using assms rec Inr by (auto simp: reject_sender_def Let_def split: if_splits option.splits)
    then show ?thesis
    proof
      assume "v = ?w2"
      then show ?thesis using s2 by (auto intro: quiet_mono)
    next
      assume a: "reason \<noteq> reason_not_authenticated \<and> v = reply_to_refused_sender e now m ?w2"
      have "quiet_step ?w2 (to_sender e m) 1 (reply_to_refused_sender e now m ?w2)"
        using quiet_replies by (simp add: reply_to_refused_sender_def)
      then have "quiet_step ?w2 ?ok 1 v" using a by (auto intro: quiet_mono)
      from quiet_trans[OF s2 this] show ?thesis unfolding one_add_one .
    qed
  qed
qed

lemma reject_content_quiet:
  assumes "reject_content e now m c w = (v, r)"
  shows "quiet_step w (to_sender e m) 1 v"
proof -
  let ?entry = "plain_entry I_Rejected (me_print_errors e (ic_errors c))"
  define w1 where "w1 = (if list_ex (\<lambda>x. contains x ''No application matches'') (field_messages (ic_errors c) ''recipient'') \<and>
      \<not> list_ex (\<lambda>x. contains x ''No user matches'') (field_messages (ic_errors c) ''sender'')
    then maybe_send_reply e now send_unknown_address_reply m w else w)"
  have "quiet_step w (to_sender e m) 1 w1" unfolding w1_def using quiet_replies(1) quiet_refl by simp
  moreover obtain w2 q where rec: "record_ingestion e now m ?entry w1 = (w2, q)" by (metis surj_pair)
  have "quiet_step w1 (to_sender e m) 0 w2" by (rule quiet_record[OF rec]) (simp add: plain_entry_def)
  moreover have "v = w2"
    using assms rec unfolding reject_content_def Let_def w1_def[symmetric] by (cases q) simp_all
  ultimately show ?thesis using quiet_trans by fastforce
qed

lemma accept_mail_effect:
  assumes "accept_mail e now m c a w = (v, r)"
  defines "new \<equiv> \<lambda>i. new_notification i (app_id a) (ic_title c) (ic_text c) (ic_scheduled_for c) (idempotency_key_of c m)
    (me_fingerprint e (ic_sender c) (ic_recipient c) (ic_title c) (ic_text c) (ic_scheduled_for c)) now"
  shows "applications (mw_db v) = applications (mw_db w) \<and> users (mw_db v) = users (mw_db w) \<and> mw_read v = mw_read w \<and>
    outbox (mw_db v) = outbox (mw_db w) \<and>
    (notifications (mw_db v) = notifications (mw_db w) \<or> (\<exists>i. notifications (mw_db v) = notifications (mw_db w) @ [new i])) \<and>
    (\<exists>ls. inbound_logs (mw_db v) = inbound_logs (mw_db w) @ ls \<and> list_all (\<lambda>l. log_status l \<noteq> I_Error) ls)"
proof -
  let ?fp = "me_fingerprint e (ic_sender c) (ic_recipient c) (ic_title c) (ic_text c) (ic_scheduled_for c)"
  obtain s1 o1 where cr: "create_notification_with_optional_idempotency (me_write e) (app_id a) (ic_title c) (ic_text c)
      (ic_scheduled_for c) (idempotency_key_of c m) ?fp now (mw_db w) = (s1, o1)" by (metis surj_pair)
  have added: "adds new (mw_db w) (s1, o1)"
    using creation_adds[of "app_id a" "ic_title c" "ic_text c" "ic_scheduled_for c" "idempotency_key_of c m" ?fp now "mw_db w" "me_write e"]
    unfolding cr new_def .
  let ?w1 = "w\<lparr>mw_db := s1\<rparr>"
  have w1: "applications s1 = applications (mw_db w)" "users s1 = users (mw_db w)" "outbox s1 = outbox (mw_db w)"
    "inbound_logs s1 = inbound_logs (mw_db w)"
    "notifications s1 = notifications (mw_db w) \<or> (\<exists>i. notifications s1 = notifications (mw_db w) @ [new i])"
    using added by (auto simp: adds_def kept_tables_def)
  have "v = ?w1 \<or> (\<exists>x q. record_ingestion e now m x ?w1 = (v, q) \<and> le_status x \<noteq> I_Error)"
  proof (cases o1)
    case (Inl err)
    then show ?thesis using assms(1) unfolding accept_mail_def Let_def cr by simp
  next
    case (Inr out)
    let ?entry = "\<lambda>st err. \<lparr>le_status = st, le_application = Some (app_id a), le_notification = Some (ntf_id (out_notification out)),
                    le_scheduled_for = ic_scheduled_for c, le_error = err\<rparr>"
    let ?x = "if out_conflict out then ?entry I_Conflict ''Message already processed with different content.''
      else ?entry (if out_created out then I_Created else I_Existing) []"
    obtain v' q where rec: "record_ingestion e now m ?x ?w1 = (v', q)" by (metis surj_pair)
    then have "v = v'"
      using assms(1) unfolding accept_mail_def Let_def cr Inr
      by (cases "out_conflict out"; cases q) simp_all
    then show ?thesis using rec by (intro disjI2 exI[of _ ?x] exI[of _ q]) auto
  qed
  then show ?thesis
  proof
    assume "v = ?w1"
    then show ?thesis using w1 by simp
  next
    assume "\<exists>x q. record_ingestion e now m x ?w1 = (v, q) \<and> le_status x \<noteq> I_Error"
    then obtain x q where "record_ingestion e now m x ?w1 = (v, q)" "le_status x \<noteq> I_Error" by blast
    then have "quiet_step ?w1 (\<lambda>_. True) 0 v" by (rule quiet_record)
    then show ?thesis using w1 by (auto simp: quiet_step_def core_def)
  qed
qed

text \<open>The three ways a mail goes.\<close>

lemma process_cases:
  assumes "process_email e now m w = (v, r)"
  obtains "v = w"
  | reason where "ic_rejection (validate_inbound e now (mw_db w) m) = Some reason"
      "reject_sender e now m (validate_inbound e now (mw_db w) m) reason w = (v, r)"
  | "reject_content e now m (validate_inbound e now (mw_db w) m) w = (v, r)"
      "ic_rejection (validate_inbound e now (mw_db w) m) = None"
  | a where "ic_errors (validate_inbound e now (mw_db w) m) = []" "ic_application (validate_inbound e now (mw_db w) m) = Some a"
      "accept_mail e now m (validate_inbound e now (mw_db w) m) a w = (v, r)"
  using assms by (auto simp: process_email_def Let_def split: if_splits option.splits)

lemma core_fields: "core v = core w \<Longrightarrow> notifications (mw_db v) = notifications (mw_db w) \<and>
    applications (mw_db v) = applications (mw_db w) \<and> users (mw_db v) = users (mw_db w) \<and> mw_read v = mw_read w"
  by (simp add: core_def)



section \<open>Mails that fail\<close>

lemma field_messages_add: "field_messages (add_error es f m) g = (if f = g then field_messages es g @ [m] else field_messages es g)"
  by (induction es f m rule: add_error.induct) (auto simp: field_messages_def)

lemma field_messages_Nil [simp]: "field_messages [] f = []"
  by (simp add: field_messages_def)

lemma char_field_too_long: "n < length (strip v) \<Longrightarrow> strip v \<noteq> []"
  by auto

text \<open>A message id that is too long is refused before the application is looked up.\<close>

lemma overlong_field_errors:
  assumes "255 < length (strip (ge_message_id m))"
  shows "inbound_field_errors e m \<noteq> []"
    and "\<not> list_ex (\<lambda>x. contains x ''No application matches'') (field_messages (inbound_field_errors e m) ''recipient'')"
proof -
  show "inbound_field_errors e m \<noteq> []" using assms by (simp add: inbound_field_errors_def optional_field_def)
  have "\<not> contains ''This field may not be blank.'' ''No application matches''"
    "\<not> contains ''Enter a valid email address.'' ''No application matches''" by code_simp+
  moreover have "set (field_messages (inbound_field_errors e m) ''recipient'') \<subseteq> {''This field may not be blank.'', ''Enter a valid email address.''}"
    by (simp add: inbound_field_errors_def optional_field_def required_field_def email_field_def field_messages_add del: add_error.simps split: sum.split)
  ultimately show "\<not> list_ex (\<lambda>x. contains x ''No application matches'') (field_messages (inbound_field_errors e m) ''recipient'')"
    unfolding list_ex_iff by blast
qed

text \<open>
  C34. One mail can stop the mailbox: on a database that enforces the width of its columns, a mail to
  an alias whose message id is longer than 255 characters cannot be journalled, neither as refused
  nor as failed; the poll ends with that exception, leaving no trace of it, the mail is never marked
  as read, and no mail behind it is handled, at this and at every later poll.
\<close>

theorem overlong_message_id_blocks_the_mailbox:
  assumes "\<not> sqlite (me_write e)" and "me_graph_client_id e \<noteq> []"
    and "is_inbound_alias_address (me_config e) (me_parse_address e) (ge_recipient m)"
    and "255 < length (strip (ge_message_id m))"
  shows "poll_inbound_mailbox e (Inr ((now, m) # behind)) w = (w, Inl ''DataError'')"
proof -
  have "length (strip (ge_message_id m)) \<le> length (ge_message_id m)"
    unfolding strip_def length_rev by (metis dual_order.trans length_dropWhile_le length_rev)
  then have "\<not> log_fits m" using assms(4) by (simp add: log_fits_def)
  then have wide: "record_ingestion e now m x w = (w, Inl ''DataError'')" for x using assms(1) by (simp add: record_ingestion_def)
  have "ic_errors (validate_inbound e now (mw_db w) m) = inbound_field_errors e m"
    "ic_rejection (validate_inbound e now (mw_db w) m) = None"
    using overlong_field_errors(1)[OF assms(4), of e] by (simp_all add: validate_inbound_def Let_def)
  then have "process_email e now m w = (w, Inl ''DataError'')"
    using assms(3) overlong_field_errors[OF assms(4), of e] wide
    by (simp add: process_email_def reject_content_def Let_def)
  moreover have "record_processing_failure e now m err w = (w, Inl ''DataError'')" for err
    using wide by (simp add: record_processing_failure_def)
  ultimately show ?thesis using assms(2) by (simp add: poll_inbound_mailbox_def)
qed

lemma failures_step: "inbound_logs s' = inbound_logs s @ ls \<Longrightarrow> list_all (\<lambda>l. log_status l \<noteq> I_Error) ls \<Longrightarrow>
    failed_attempts s' uid = failed_attempts s uid"
  by (auto simp: failed_attempts_def count_where_def filter_empty_conv list_all_iff)

lemma process_keeps_failures:
  assumes "process_email e now m w = (v, r)"
  shows "failed_attempts (mw_db v) uid = failed_attempts (mw_db w) uid" and "mw_read v = mw_read w"
proof -
  have "(\<exists>ls. inbound_logs (mw_db v) = inbound_logs (mw_db w) @ ls \<and> list_all (\<lambda>l. log_status l \<noteq> I_Error) ls) \<and> mw_read v = mw_read w"
    using assms
  proof (cases rule: process_cases)
    case (2 reason)
    then show ?thesis using reject_sender_quiet[OF 2(2)] by (simp add: quiet_step_def core_def)
  next
    case 3
    then show ?thesis using reject_content_quiet[OF 3(1)] by (simp add: quiet_step_def core_def)
  next
    case (4 a)
    then show ?thesis using accept_mail_effect[OF 4(3)] by simp
  qed (auto intro: exI[of _ "[]"])
  then show "failed_attempts (mw_db v) uid = failed_attempts (mw_db w) uid" and "mw_read v = mw_read w"
    using failures_step by blast+
qed

text \<open>
  A mail that keeps failing is given up: every failure that can be journalled is counted against
  the message, and the one that reaches the cap marks it as read, so that it is not fetched again;
  the poll goes on with the mails behind it.
\<close>

theorem poison_mail_is_given_up:
  assumes "process_email e now m w = (v, Inl err)" and "sqlite (me_write e) \<or> log_fits m"
    and "ge_graph_id m \<noteq> []" and "0 < max_processing_attempts (me_config e)"
  shows "\<exists>u. poll_mails e ((now, m) # behind) w k = poll_mails e behind u (k\<lparr>failed_count := Suc (failed_count k)\<rparr>) \<and>
    failed_attempts (mw_db u) (ge_graph_id m) = Suc (failed_attempts (mw_db w) (ge_graph_id m)) \<and>
    mw_read u = mw_read w @ (if max_processing_attempts (me_config e) \<le> int (Suc (failed_attempts (mw_db w) (ge_graph_id m)))
                             then [ge_graph_id m] else [])"
proof -
  let ?uid = "ge_graph_id m" and ?entry = "plain_entry I_Error err"
  note kept = process_keeps_failures[OF assms(1)]
  obtain w1 l where rec: "record_ingestion e now m ?entry v = (w1, Inr l)" "core w1 = core v"
    "inbound_logs (mw_db w1) = inbound_logs (mw_db v) @ [l]" "l = new_log (next_pk (mw_db v)) now m ?entry"
    using assms(2) by (cases rule: record_cases[of e now m ?entry v]) auto
  have n: "failed_attempts (mw_db w1) ?uid = Suc (failed_attempts (mw_db w) ?uid)"
    using kept(1)[of ?uid] rec(3,4) by (simp add: failed_attempts_def count_where_def new_log_def plain_entry_def)
  have r1: "mw_read w1 = mw_read w" using kept(2) rec(2) by (simp add: core_def)
  have same: "failed_attempts (s\<lparr>inbound_logs := update_where P (\<lambda>x. x\<lparr>log_error_message := t\<rparr>) (inbound_logs s)\<rparr>) uid = failed_attempts s uid"
    for s :: db and P t uid
    by (simp add: failed_attempts_def count_where_def update_where_def filter_map o_def if_distrib cong: if_cong)
  obtain u where u: "record_processing_failure e now m err v = (u, Inr ())"
    "failed_attempts (mw_db u) ?uid = Suc (failed_attempts (mw_db w) ?uid)"
    "mw_read u = mw_read w @ (if max_processing_attempts (me_config e) \<le> int (Suc (failed_attempts (mw_db w) ?uid)) then [?uid] else [])"
  proof (cases "max_processing_attempts (me_config e) \<le> int (Suc (failed_attempts (mw_db w) ?uid))")
    case True
    then have "\<not> (?uid = [] \<or> max_processing_attempts (me_config e) \<le> 0 \<or> int (failed_attempts (mw_db w1) ?uid) < max_processing_attempts (me_config e))"
      using assms(3,4) n by simp
    then obtain u t where "record_processing_failure e now m err v = (u, Inr ())" "u = mark_email_read ?uid
        (w1\<lparr>mw_db := (mw_db w1)\<lparr>inbound_logs := update_where (\<lambda>r. log_id r = log_id l)
                  (\<lambda>r. r\<lparr>log_error_message := t\<rparr>) (inbound_logs (mw_db w1))\<rparr>\<rparr>)"
      unfolding record_processing_failure_def rec(1) Let_def by auto
    then show thesis using that[of u] True n r1 same by (simp add: mark_email_read_def)
  next
    case False
    then have "record_processing_failure e now m err v = (w1, Inr ())"
      unfolding record_processing_failure_def rec(1) Let_def using n by simp
    then show thesis using that[of w1] False n r1 by simp
  qed
  then show ?thesis using assms(1) by (intro exI[of _ u]) simp
qed

section \<open>A concrete mailbox\<close>

definition mail_demo_env :: mail_env where
  "mail_demo_env = \<lparr>me_config = default_config\<lparr>require_dmarc := True, inbound_email_domain := ''d.io'', inbound_email_alias_suffix := ''.p''\<rparr>, me_graph_client_id = ''client'',
     me_provider = \<lparr>init_error = None, fcm_send = (\<lambda>_. Fcm_Ok ''id'')\<rparr>,
     me_write = \<lparr>sqlite = False, write_error = (\<lambda>_. None)\<rparr>, me_valid_email = demo_valid_email,
     me_parse_address = id, me_parse_date = demo_parse_date, me_digest = id,
     me_fingerprint = (\<lambda>a b c d t. a @ b @ c @ d), me_print_errors = (\<lambda>es. concat (map fst es))\<rparr>"

definition mail_demo_app :: application where
  "mail_demo_app = blank_application\<lparr>inbound_email_alias := ''a.p'', inbound_rejection_notify_email := True\<rparr>"

definition mail_demo_world :: mail_world where
  "mail_demo_world = \<lparr>mw_db = empty_db\<lparr>users := [blank_user], applications := [mail_demo_app], next_pk := 10\<rparr>,
     mw_slots = [], mw_owner_pushes = [], mw_read = []\<rparr>"

text \<open>A mail of the owner, as the provider vouches for it, and the same one with the verdict missing.\<close>

definition good_mail :: inbound_mail where
  "good_mail = \<lparr>ge_graph_id = ''g1'', ge_sender = ''o@x.io'', ge_recipient = ''a.p@d.io'',
     ge_subject = ''Hi'', ge_text = ''text'', ge_message_id = ''m1'', ge_authentication_results = ''dmarc=pass'',
     ge_recipients = [''a.p@d.io''], ge_headers = []\<rparr>"

definition forged_mail :: inbound_mail where
  "forged_mail = good_mail\<lparr>ge_authentication_results := ''dmarc=fail''\<rparr>"

definition long_mail :: inbound_mail where
  "long_mail = good_mail\<lparr>ge_message_id := replicate 256 CHR ''m''\<rparr>"



theorem overlong_message_id_blocks_the_mailbox_witness:
  "poll_inbound_mailbox mail_demo_env (Inr [(0, long_mail), (0, good_mail)]) mail_demo_world = (mail_demo_world, Inl ''DataError'')"
proof (rule overlong_message_id_blocks_the_mailbox)
  show "\<not> sqlite (me_write mail_demo_env)" "me_graph_client_id mail_demo_env \<noteq> []" by code_simp+
  show "is_inbound_alias_address (me_config mail_demo_env) (me_parse_address mail_demo_env) (ge_recipient long_mail)" by code_simp
  show "255 < length (strip (ge_message_id long_mail))" by code_simp
qed

text \<open>A database that refuses the write of the notification, at the fifth attempt.\<close>

definition broken_env :: mail_env where
  "broken_env = mail_demo_env\<lparr>me_write := \<lparr>sqlite = False, write_error = (\<lambda>_. Some ''OperationalError'')\<rparr>\<rparr>"

definition fifth_world :: mail_world where
  "fifth_world = mail_demo_world\<lparr>mw_db := (mw_db mail_demo_world)\<lparr>inbound_logs :=
     map (\<lambda>i. new_log i 0 good_mail (plain_entry I_Error ''OperationalError'')) [5, 6, 7, 8]\<rparr>\<rparr>"

definition no_counts :: poll_counts where
  "no_counts = \<lparr>processed_count = 0, created_count = 0, rejected_count = 0, ignored_count = 0, failed_count = 0\<rparr>"

theorem poison_mail_is_given_up_witness:
  "\<exists>u. poll_mails broken_env [(0, good_mail)] fifth_world no_counts = (u, Inr (no_counts\<lparr>failed_count := 1\<rparr>)) \<and>
     mw_read u = [''g1'']"
proof -
  have k: "Suc (failed_count no_counts) = 1" by code_simp
  have p: "process_email broken_env 0 good_mail fifth_world = (fifth_world, Inl ''OperationalError'')" by code_simp
  have c: "sqlite (me_write broken_env) \<or> log_fits good_mail" "ge_graph_id good_mail \<noteq> []"
    "0 < max_processing_attempts (me_config broken_env)" by code_simp+
  have v: "max_processing_attempts (me_config broken_env) = 5" "failed_attempts (mw_db fifth_world) (ge_graph_id good_mail) = 4"
    "mw_read fifth_world = []" "ge_graph_id good_mail = ''g1''" by code_simp+
  show ?thesis
    using poison_mail_is_given_up[OF p c, of "[]" no_counts, unfolded k v] v by auto
qed

end
