(* ===== verification/Periods.thy ===== *)
theory Periods
  imports Devices
begin

text \<open>
  The editing of quiet periods: the shared validation and normalisation of the write serializers
  (\<open>QuietPeriodWriteMixin\<close> in \<open>applications/serializers.py\<close>) and the views of the periods of
  applications (\<open>applications/api_views.py\<close>) and devices (\<open>devices/api_views.py\<close>). Dates and times
  arrive parsed; a type or a date that cannot be parsed is refused by the framework.
\<close>

section \<open>Requests and their validation\<close>

text \<open>
  What a client sends for a quiet period: every field absent or present, dates and times possibly
  null. \<open>recurrence_days\<close> holds week days.
\<close>

record period_request =
  pr_name :: "string option"
  pr_period_type :: "quiet_period_type option"
  pr_start_at :: "instant option option"
  pr_end_at :: "instant option option"
  pr_recurrence_days :: "int list option"
  pr_start_time :: "int option option"
  pr_end_time :: "int option option"
  pr_is_active :: "bool option"

definition period_field_errors :: "period_request \<Rightarrow> field_errors" where
  "period_field_errors r =
     (let e1 = (case pr_name r of None \<Rightarrow> [] | Some n \<Rightarrow> bounded ''name'' 0 120 (strip n) []) in
      case pr_recurrence_days r of
        None \<Rightarrow> e1
      | Some ds \<Rightarrow>
          if list_ex (\<lambda>d. d < 0) ds then add_error e1 ''recurrence_days'' ''Ensure this value is greater than or equal to 0.''
          else if list_ex (\<lambda>d. 6 < d) ds then add_error e1 ''recurrence_days'' ''Ensure this value is less than or equal to 6.''
          else e1)"

text \<open>
  The values a request stands for: its own, else those of the edited period, unless the request
  changes the type of the period.
\<close>

definition merged :: "'a option \<Rightarrow> 'a \<Rightarrow> bool \<Rightarrow> 'a option \<Rightarrow> 'a" where
  "merged req dflt changing stored =
     (case req of Some v \<Rightarrow> v | None \<Rightarrow> if changing then dflt else (case stored of None \<Rightarrow> dflt | Some v \<Rightarrow> v))"

record period_values =
  pv_type :: quiet_period_type
  pv_start_at :: "instant option"
  pv_end_at :: "instant option"
  pv_days :: "int list"
  pv_start_time :: "int option"
  pv_end_time :: "int option"

definition period_values_of :: "quiet_period option \<Rightarrow> period_request \<Rightarrow> period_values" where
  "period_values_of inst r =
     (let t = (case pr_period_type r of Some t \<Rightarrow> t | None \<Rightarrow> (case inst of None \<Rightarrow> Once | Some q \<Rightarrow> period_type q));
          changing = (case (inst, pr_period_type r) of (Some q, Some t') \<Rightarrow> t' \<noteq> period_type q | _ \<Rightarrow> False)
      in \<lparr>pv_type = t,
          pv_start_at = merged (pr_start_at r) None changing (map_option start_at inst),
          pv_end_at = merged (pr_end_at r) None changing (map_option end_at inst),
          pv_days = merged (pr_recurrence_days r) [] changing (map_option recurrence_days inst),
          pv_start_time = merged (pr_start_time r) None changing (map_option start_time inst),
          pv_end_time = merged (pr_end_time r) None changing (map_option end_time inst)\<rparr>)"

definition once_errors :: "period_values \<Rightarrow> field_errors" where
  "once_errors v =
     (let e1 = (if pv_start_at v = None then set_error [] ''start_at'' ''This field is required for a one-time period.'' else []);
          e2 = (if pv_end_at v = None then set_error e1 ''end_at'' ''This field is required for a one-time period.'' else e1);
          e3 = (case (pv_start_at v, pv_end_at v) of
                  (Some a, Some b) \<Rightarrow> if b \<le> a then set_error e2 ''end_at'' ''Quiet period end must be after the start.'' else e2
                | _ \<Rightarrow> e2);
          e4 = (if pv_days v \<noteq> [] then set_error e3 ''recurrence_days'' ''This field must be empty for a one-time period.'' else e3);
          e5 = (if pv_start_time v \<noteq> None then set_error e4 ''start_time'' ''This field must be null for a one-time period.'' else e4)
      in if pv_end_time v \<noteq> None then set_error e5 ''end_time'' ''This field must be null for a one-time period.'' else e5)"

definition recurring_errors :: "period_values \<Rightarrow> field_errors" where
  "recurring_errors v =
     (let e1 = (if pv_days v = [] then set_error [] ''recurrence_days'' ''At least one recurrence day is required.'' else []);
          e2 = (if pv_start_time v = None then set_error e1 ''start_time'' ''This field is required for a recurring period.'' else e1);
          e3 = (if pv_end_time v = None then set_error e2 ''end_time'' ''This field is required for a recurring period.'' else e2);
          e4 = (if pv_start_time v \<noteq> None \<and> pv_end_time v \<noteq> None \<and> pv_start_time v = pv_end_time v
                then set_error e3 ''end_time'' ''End time must differ from start time.'' else e3);
          e5 = (if pv_start_at v \<noteq> None then set_error e4 ''start_at'' ''This field must be null for a recurring period.'' else e4)
      in if pv_end_at v \<noteq> None then set_error e5 ''end_at'' ''This field must be null for a recurring period.'' else e5)"

text \<open>
  \<open>validate\<close>: the request with the week days it stands for sorted and without repetition.
  \<open>sorted(set(...))\<close> is the library's sorted list without repetition.
\<close>

definition validate_period :: "quiet_period option \<Rightarrow> period_request \<Rightarrow> field_errors + period_request" where
  "validate_period inst r =
     (let fe = period_field_errors r in
      if fe \<noteq> [] then Inl fe
      else let v = period_values_of inst r;
               errs = (if pv_type v = Once then once_errors v else recurring_errors v)
        in if errs \<noteq> [] then Inl errs
           else Inr (r\<lparr>pr_name := map_option strip (pr_name r),
                       pr_recurrence_days := (if pv_days v \<noteq> [] then Some (sort (remdups (pv_days v))) else pr_recurrence_days r)\<rparr>))"

definition normalize_payload :: "quiet_period option \<Rightarrow> period_request \<Rightarrow> period_request" where
  "normalize_payload inst r =
     (let t = (case pr_period_type r of Some t \<Rightarrow> t | None \<Rightarrow> (case inst of None \<Rightarrow> Once | Some q \<Rightarrow> period_type q)) in
      if t = Once then r\<lparr>pr_recurrence_days := Some [], pr_start_time := Some None, pr_end_time := Some None\<rparr>
      else r\<lparr>pr_start_at := Some None, pr_end_at := Some None\<rparr>)"

definition or_else :: "'a option \<Rightarrow> 'a \<Rightarrow> 'a" where
  "or_else x d = (case x of None \<Rightarrow> d | Some v \<Rightarrow> v)"

text \<open>The row of a request: the fields given over those of a row (the model's defaults on creation).\<close>

definition write_period :: "period_request \<Rightarrow> quiet_period \<Rightarrow> quiet_period" where
  "write_period r q = \<lparr>qp_id = qp_id q, qp_parent = qp_parent q, qp_name = or_else (pr_name r) (qp_name q),
     period_type = or_else (pr_period_type r) (period_type q), start_at = or_else (pr_start_at r) (start_at q),
     end_at = or_else (pr_end_at r) (end_at q), recurrence_days = or_else (pr_recurrence_days r) (recurrence_days q),
     start_time = or_else (pr_start_time r) (start_time q), end_time = or_else (pr_end_time r) (end_time q),
     qp_is_active = or_else (pr_is_active r) (qp_is_active q)\<rparr>"

definition default_period :: "pk \<Rightarrow> pk \<Rightarrow> quiet_period" where
  "default_period i parent = \<lparr>qp_id = i, qp_parent = parent, qp_name = [], period_type = Once, start_at = None, end_at = None,
     recurrence_days = [], start_time = None, end_time = None, qp_is_active = True\<rparr>"

section \<open>The periods of an application and of a device\<close>

text \<open>
  The four operations on a table of periods, for the owner \<open>parent\<close>: \<open>None\<close> is the refusal 404 of a
  period that does not exist or belongs to another parent.
\<close>

definition list_periods :: "pk \<Rightarrow> quiet_period list \<Rightarrow> quiet_period list" where
  "list_periods parent rows = sort_key qp_id (filter (\<lambda>q. qp_parent q = parent) rows)"

definition find_period :: "pk \<Rightarrow> pk \<Rightarrow> quiet_period list \<Rightarrow> quiet_period option" where
  "find_period parent i rows = List.find (\<lambda>q. qp_id q = i \<and> qp_parent q = parent) rows"

definition create_period :: "pk \<Rightarrow> pk \<Rightarrow> period_request \<Rightarrow> quiet_period list \<Rightarrow> quiet_period list \<times> (field_errors + quiet_period)" where
  "create_period i parent r rows =
     (case validate_period None r of
        Inl e \<Rightarrow> (rows, Inl e)
      | Inr v \<Rightarrow> let q = write_period (normalize_payload None v) (default_period i parent) in (rows @ [q], Inr q))"

definition patch_period :: "quiet_period \<Rightarrow> period_request \<Rightarrow> quiet_period list \<Rightarrow> quiet_period list \<times> (field_errors + quiet_period)" where
  "patch_period q r rows =
     (case validate_period (Some q) r of
        Inl e \<Rightarrow> (rows, Inl e)
      | Inr v \<Rightarrow> let q' = write_period (normalize_payload (Some q) v) q in
          (update_where (\<lambda>x. qp_id x = qp_id q) (\<lambda>_. q') rows, Inr q'))"

definition delete_period :: "quiet_period \<Rightarrow> quiet_period list \<Rightarrow> quiet_period list" where
  "delete_period q rows = filter (\<lambda>x. qp_id x \<noteq> qp_id q) rows"

definition period_reply :: "nat \<Rightarrow> (field_errors + quiet_period) \<Rightarrow> quiet_period response" where
  "period_reply code x = (case x of Inl e \<Rightarrow> Invalid e | Inr q \<Rightarrow> Reply code q)"

definition application_periods_list :: "pk \<Rightarrow> pk \<Rightarrow> db \<Rightarrow> quiet_period list response" where
  "application_periods_list u app s =
     (case own_application s u app of
        None \<Rightarrow> Refuse 404 ''application_not_found''
      | Some a \<Rightarrow> Reply 200 (list_periods app (app_quiet_periods s)))"

definition application_period_create :: "pk \<Rightarrow> pk \<Rightarrow> period_request \<Rightarrow> db \<Rightarrow> db \<times> quiet_period response" where
  "application_period_create u app r s =
     (case own_application s u app of
        None \<Rightarrow> (s, Refuse 404 ''application_not_found'')
      | Some a \<Rightarrow>
          (case create_period (next_pk s) app r (app_quiet_periods s) of
             (rows, Inl e) \<Rightarrow> (s, Invalid e)
           | (rows, Inr q) \<Rightarrow> (s\<lparr>app_quiet_periods := rows, next_pk := Suc (next_pk s)\<rparr>, Reply 201 q)))"

definition application_period_retrieve :: "pk \<Rightarrow> pk \<Rightarrow> pk \<Rightarrow> db \<Rightarrow> quiet_period response" where
  "application_period_retrieve u app i s =
     (case own_application s u app of
        None \<Rightarrow> Refuse 404 ''application_not_found''
      | Some a \<Rightarrow> (case find_period app i (app_quiet_periods s) of None \<Rightarrow> Refuse 404 ''quiet_period_not_found'' | Some q \<Rightarrow> Reply 200 q))"

definition application_period_patch :: "pk \<Rightarrow> pk \<Rightarrow> pk \<Rightarrow> period_request \<Rightarrow> db \<Rightarrow> db \<times> quiet_period response" where
  "application_period_patch u app i r s =
     (case application_period_retrieve u app i s of
        Reply _ q \<Rightarrow> (case patch_period q r (app_quiet_periods s) of
            (rows, x) \<Rightarrow> (s\<lparr>app_quiet_periods := rows\<rparr>, period_reply 200 x))
      | Refuse n c \<Rightarrow> (s, Refuse n c) | Invalid e \<Rightarrow> (s, Invalid e))"

definition application_period_destroy :: "pk \<Rightarrow> pk \<Rightarrow> pk \<Rightarrow> db \<Rightarrow> db \<times> unit response" where
  "application_period_destroy u app i s =
     (case application_period_retrieve u app i s of
        Reply _ q \<Rightarrow> (s\<lparr>app_quiet_periods := delete_period q (app_quiet_periods s)\<rparr>, Reply 204 ())
      | Refuse n c \<Rightarrow> (s, Refuse n c) | Invalid e \<Rightarrow> (s, Invalid e))"

text \<open>
  The same views for devices: reading is open to the owners of the applications a device is linked
  to, writing to the user of the device.
\<close>

definition device_periods_list :: "pk \<Rightarrow> pk \<Rightarrow> db \<Rightarrow> quiet_period list response" where
  "device_periods_list u d s =
     (case device_object s u False d of
        None \<Rightarrow> Refuse 404 ''device_not_found''
      | Some x \<Rightarrow> Reply 200 (list_periods d (device_quiet_periods s)))"

definition device_period_create :: "pk \<Rightarrow> pk \<Rightarrow> period_request \<Rightarrow> db \<Rightarrow> db \<times> quiet_period response" where
  "device_period_create u d r s =
     (case device_object s u True d of
        None \<Rightarrow> (s, Refuse 404 ''device_not_found'')
      | Some x \<Rightarrow>
          (case create_period (next_pk s) d r (device_quiet_periods s) of
             (rows, Inl e) \<Rightarrow> (s, Invalid e)
           | (rows, Inr q) \<Rightarrow> (s\<lparr>device_quiet_periods := rows, next_pk := Suc (next_pk s)\<rparr>, Reply 201 q)))"

definition device_period_retrieve :: "bool \<Rightarrow> pk \<Rightarrow> pk \<Rightarrow> pk \<Rightarrow> db \<Rightarrow> quiet_period response" where
  "device_period_retrieve writing u d i s =
     (case device_object s u writing d of
        None \<Rightarrow> Refuse 404 ''device_not_found''
      | Some x \<Rightarrow> (case find_period d i (device_quiet_periods s) of None \<Rightarrow> Refuse 404 ''quiet_period_not_found'' | Some q \<Rightarrow> Reply 200 q))"

definition device_period_patch :: "pk \<Rightarrow> pk \<Rightarrow> pk \<Rightarrow> period_request \<Rightarrow> db \<Rightarrow> db \<times> quiet_period response" where
  "device_period_patch u d i r s =
     (case device_period_retrieve True u d i s of
        Reply _ q \<Rightarrow> (case patch_period q r (device_quiet_periods s) of
            (rows, x) \<Rightarrow> (s\<lparr>device_quiet_periods := rows\<rparr>, period_reply 200 x))
      | Refuse n c \<Rightarrow> (s, Refuse n c) | Invalid e \<Rightarrow> (s, Invalid e))"

definition device_period_destroy :: "pk \<Rightarrow> pk \<Rightarrow> pk \<Rightarrow> db \<Rightarrow> db \<times> unit response" where
  "device_period_destroy u d i s =
     (case device_period_retrieve True u d i s of
        Reply _ q \<Rightarrow> (s\<lparr>device_quiet_periods := delete_period q (device_quiet_periods s)\<rparr>, Reply 204 ())
      | Refuse n c \<Rightarrow> (s, Refuse n c) | Invalid e \<Rightarrow> (s, Invalid e))"

section \<open>What is stored is a quiet period\<close>

definition period_ok :: "quiet_period \<Rightarrow> bool" where
  "period_ok q \<longleftrightarrow> strip (qp_name q) = qp_name q \<and> length (qp_name q) \<le> 120 \<and>
     (case period_type q of
        Once \<Rightarrow> (case (start_at q, end_at q) of (Some a, Some b) \<Rightarrow> a < b | _ \<Rightarrow> False) \<and>
          recurrence_days q = [] \<and> start_time q = None \<and> end_time q = None
      | Recurring \<Rightarrow> recurrence_days q \<noteq> [] \<and> sorted (recurrence_days q) \<and> distinct (recurrence_days q) \<and>
          list_all (\<lambda>d. 0 \<le> d \<and> d \<le> 6) (recurrence_days q) \<and>
          (case (start_time q, end_time q) of (Some a, Some b) \<Rightarrow> a \<noteq> b | _ \<Rightarrow> False) \<and> start_at q = None \<and> end_at q = None)"

lemma bounded_Nil: "bounded name lo hi v e = [] \<longleftrightarrow> e = [] \<and> lo \<le> length v \<and> length v \<le> hi"
  by (auto simp: bounded_def)

lemma week_days: "list_all (\<lambda>d. 0 \<le> d \<and> d \<le> (6 :: int)) ds \<longleftrightarrow> \<not> list_ex (\<lambda>d. d < 0) ds \<and> \<not> list_ex (\<lambda>d. 6 < d) ds"
  by (induction ds) auto

lemma field_errors_Nil:
  "period_field_errors r = [] \<longleftrightarrow> (case pr_name r of None \<Rightarrow> True | Some n \<Rightarrow> length (strip n) \<le> 120) \<and>
     (case pr_recurrence_days r of None \<Rightarrow> True | Some ds \<Rightarrow> list_all (\<lambda>d. 0 \<le> d \<and> d \<le> 6) ds)"
  by (simp add: period_field_errors_def Let_def bounded_Nil week_days split: option.split)

lemma once_errors_Nil:
  "once_errors v = [] \<longleftrightarrow> (case (pv_start_at v, pv_end_at v) of (Some a, Some b) \<Rightarrow> a < b | _ \<Rightarrow> False) \<and> pv_days v = [] \<and>
     pv_start_time v = None \<and> pv_end_time v = None"
  by (cases "pv_start_at v"; cases "pv_end_at v") (auto simp: once_errors_def Let_def not_le)

lemma recurring_errors_Nil:
  "recurring_errors v = [] \<longleftrightarrow> pv_days v \<noteq> [] \<and> (case (pv_start_time v, pv_end_time v) of (Some a, Some b) \<Rightarrow> a \<noteq> b | _ \<Rightarrow> False) \<and>
     pv_start_at v = None \<and> pv_end_at v = None"
  by (cases "pv_start_time v"; cases "pv_end_time v") (auto simp: recurring_errors_def Let_def)

text \<open>The row an accepted request leads to carries the values that were validated.\<close>

lemma written_values:
  assumes "validate_period inst r = Inr v" and "q = (case inst of None \<Rightarrow> default_period i p | Some q0 \<Rightarrow> q0)"
  defines "w \<equiv> write_period (normalize_payload inst v) q" and "x \<equiv> period_values_of inst r"
  shows "period_type w = pv_type x"
    and "pv_type x = Once \<Longrightarrow> start_at w = pv_start_at x \<and> end_at w = pv_end_at x \<and> recurrence_days w = [] \<and> start_time w = None \<and> end_time w = None"
    and "pv_type x = Recurring \<Longrightarrow> start_time w = pv_start_time x \<and> end_time w = pv_end_time x \<and>
      recurrence_days w = sort (remdups (pv_days x)) \<and> start_at w = None \<and> end_at w = None"
    and "qp_name w = (case pr_name r of None \<Rightarrow> qp_name q | Some n \<Rightarrow> strip n)"
    and "qp_id w = qp_id q" and "qp_parent w = qp_parent q"
proof -
  have v: "v = r\<lparr>pr_name := map_option strip (pr_name r),
      pr_recurrence_days := (if pv_days x \<noteq> [] then Some (sort (remdups (pv_days x))) else pr_recurrence_days r)\<rparr>"
    and ok: "pv_type x = Once \<Longrightarrow> once_errors x = []" "pv_type x = Recurring \<Longrightarrow> recurring_errors x = []"
    using assms(1) by (auto simp: validate_period_def Let_def x_def split: if_splits)
  show "qp_id w = qp_id q" "qp_parent w = qp_parent q" by (simp_all add: w_def write_period_def)
  show "qp_name w = (case pr_name r of None \<Rightarrow> qp_name q | Some n \<Rightarrow> strip n)"
    by (simp add: w_def write_period_def v normalize_payload_def Let_def or_else_def split: option.split)
  show t: "period_type w = pv_type x"
    using assms(2) by (auto simp: w_def write_period_def v normalize_payload_def Let_def or_else_def x_def period_values_of_def default_period_def split: option.split)
  have changing: "pr_period_type r = Some t' \<Longrightarrow> pv_type x = t'" for t' by (simp add: x_def period_values_of_def Let_def)
  show "start_at w = pv_start_at x \<and> end_at w = pv_end_at x \<and> recurrence_days w = [] \<and> start_time w = None \<and> end_time w = None"
    if o: "pv_type x = Once"
  proof -
    have "pv_start_at x \<noteq> None" "pv_end_at x \<noteq> None" using ok(1)[OF o] by (auto simp: once_errors_Nil split: option.splits)
    then show ?thesis using o assms(2)
      by (auto simp: w_def write_period_def v normalize_payload_def Let_def or_else_def x_def period_values_of_def merged_def
          split: option.splits if_splits)
  qed
  show "start_time w = pv_start_time x \<and> end_time w = pv_end_time x \<and>
      recurrence_days w = sort (remdups (pv_days x)) \<and> start_at w = None \<and> end_at w = None" if o: "pv_type x = Recurring"
  proof -
    have "pv_start_time x \<noteq> None" "pv_end_time x \<noteq> None" "pv_days x \<noteq> []"
      using ok(2)[OF o] by (auto simp: recurring_errors_Nil split: option.splits)
    then show ?thesis using o assms(2)
      by (auto simp: w_def write_period_def v normalize_payload_def Let_def or_else_def x_def period_values_of_def merged_def
          split: option.splits if_splits)
  qed
qed

lemma accepted_period_ok:
  assumes v: "validate_period inst r = Inr v" and q: "q = (case inst of None \<Rightarrow> default_period i p | Some q0 \<Rightarrow> q0)"
    and inst: "case inst of None \<Rightarrow> True | Some q0 \<Rightarrow> period_ok q0"
  shows "period_ok (write_period (normalize_payload inst v) q)"
proof -
  let ?w = "write_period (normalize_payload inst v) q" and ?x = "period_values_of inst r"
  note w = written_values[OF v q]
  have fe: "period_field_errors r = []" and ok: "pv_type ?x = Once \<Longrightarrow> once_errors ?x = []" "pv_type ?x = Recurring \<Longrightarrow> recurring_errors ?x = []"
    using v by (auto simp: validate_period_def Let_def split: if_splits)
  have "strip (qp_name q) = qp_name q \<and> length (qp_name q) \<le> 120"
    using q inst by (auto simp: period_ok_def default_period_def split: option.splits)
  then have name: "strip (qp_name ?w) = qp_name ?w \<and> length (qp_name ?w) \<le> 120"
    using w(4) fe by (auto simp: field_errors_Nil split: option.splits)
  have days: "list_all (\<lambda>d. 0 \<le> d \<and> d \<le> 6) (pv_days ?x)"
  proof (cases "pr_recurrence_days r")
    case (Some ds)
    then show ?thesis using fe by (auto simp: field_errors_Nil period_values_of_def merged_def Let_def)
  next
    case None
    have "list_all (\<lambda>d. 0 \<le> d \<and> d \<le> 6) (recurrence_days q0)" if "inst = Some q0" for q0
      using inst that by (auto simp: period_ok_def split: quiet_period_type.splits)
    then show ?thesis using None by (auto simp: period_values_of_def merged_def Let_def split: option.split)
  qed
  show ?thesis
  proof (cases "pv_type ?x")
    case Once
    then show ?thesis using name w(1) w(2)[OF Once] ok(1)[OF Once]
      by (simp add: period_ok_def once_errors_Nil)
  next
    case Recurring
    have "pv_days ?x \<noteq> []" using ok(2)[OF Recurring] unfolding recurring_errors_Nil by blast
    then have "set (sort (remdups (pv_days ?x))) \<noteq> {}" by simp
    then have "sort (remdups (pv_days ?x)) \<noteq> []" unfolding set_empty .
    moreover have "list_all (\<lambda>d. 0 \<le> d \<and> d \<le> 6) (sort (remdups (pv_days ?x)))" using days by (simp add: list_all_iff)
    ultimately show ?thesis using name w(1) w(3)[OF Recurring] ok(2)[OF Recurring] Recurring
      by (simp add: period_ok_def recurring_errors_Nil)
  qed
qed

lemma create_period_ok: "list_all period_ok rows \<Longrightarrow> list_all period_ok (fst (create_period i parent r rows))"
  using accepted_period_ok[of None r] by (auto simp: create_period_def Let_def split: sum.split)

lemma patch_period_ok: "list_all period_ok rows \<Longrightarrow> period_ok q \<Longrightarrow> list_all period_ok (fst (patch_period q r rows))"
  using accepted_period_ok[of "Some q" r]
  by (auto simp: patch_period_def Let_def list_all_iff set_update_where split: sum.split)

lemma find_period_ok: "list_all period_ok rows \<Longrightarrow> find_period parent i rows = Some q \<Longrightarrow> period_ok q"
  by (auto simp: find_period_def list_all_iff dest: find_SomeD)

lemma retrieve_SomeD:
  "application_period_retrieve u app i s = Reply k q \<Longrightarrow> own_application s u app \<noteq> None \<and> find_period app i (app_quiet_periods s) = Some q \<and> k = 200"
  "device_period_retrieve wr u d i s = Reply k q \<Longrightarrow> device_object s u wr d \<noteq> None \<and> find_period d i (device_quiet_periods s) = Some q \<and> k = 200"
  by (auto simp: application_period_retrieve_def device_period_retrieve_def split: option.splits)

text \<open>The states a request of \<open>u\<close> can lead to.\<close>

inductive edits :: "pk \<Rightarrow> db \<Rightarrow> db \<Rightarrow> bool" for u s where
  app_create: "edits u s (fst (application_period_create u app r s))"
| app_patch: "edits u s (fst (application_period_patch u app i r s))"
| app_destroy: "edits u s (fst (application_period_destroy u app i s))"
| dev_create: "edits u s (fst (device_period_create u d r s))"
| dev_patch: "edits u s (fst (device_period_patch u d i r s))"
| dev_destroy: "edits u s (fst (device_period_destroy u d i s))"

text \<open>Each of them changes one of the two tables by one operation on a period of an own parent.\<close>

lemma edits_cases:
  assumes "edits u s t"
  obtains (same) "app_quiet_periods t = app_quiet_periods s" "device_quiet_periods t = device_quiet_periods s"
  | (app) app i r where "own_application s u app \<noteq> None" "device_quiet_periods t = device_quiet_periods s"
      "app_quiet_periods t = fst (create_period i app r (app_quiet_periods s)) \<or>
       (\<exists>q. find_period app i (app_quiet_periods s) = Some q \<and>
         (app_quiet_periods t = fst (patch_period q r (app_quiet_periods s)) \<or> app_quiet_periods t = delete_period q (app_quiet_periods s)))"
  | (dev) d i r where "device_object s u True d \<noteq> None" "app_quiet_periods t = app_quiet_periods s"
      "device_quiet_periods t = fst (create_period i d r (device_quiet_periods s)) \<or>
       (\<exists>q. find_period d i (device_quiet_periods s) = Some q \<and>
         (device_quiet_periods t = fst (patch_period q r (device_quiet_periods s)) \<or> device_quiet_periods t = delete_period q (device_quiet_periods s)))"
  using assms
proof cases
  case (app_create a r)
  show thesis
  proof (cases "own_application s u a")
    case None
    then show thesis using app_create by (intro same) (simp_all add: application_period_create_def)
  next
    case (Some p)
    obtain rows x where c: "create_period (next_pk s) a r (app_quiet_periods s) = (rows, x)" by (metis surj_pair)
    then have "rows = app_quiet_periods s" if "x = Inl e" for e
      using that by (auto simp: create_period_def Let_def split: sum.splits)
    then show thesis using app_create Some c
      by (intro app[of a "next_pk s" r]) (auto simp: application_period_create_def split: sum.split)
  qed
next
  case (app_patch a i r)
  show thesis
  proof (cases "application_period_retrieve u a i s")
    case (Reply k q)
    then show thesis using app_patch retrieve_SomeD(1)[OF Reply]
      by (intro app[of a i r]) (auto simp: application_period_patch_def split: prod.split)
  qed (use app_patch in \<open>auto intro!: same simp: application_period_patch_def\<close>)
next
  case (app_destroy a i)
  show thesis
  proof (cases "application_period_retrieve u a i s")
    case (Reply k q)
    then show thesis using app_destroy retrieve_SomeD(1)[OF Reply]
      by (intro app[of a i undefined]) (auto simp: application_period_destroy_def)
  qed (use app_destroy in \<open>auto intro!: same simp: application_period_destroy_def\<close>)
next
  case (dev_create d r)
  show thesis
  proof (cases "device_object s u True d")
    case None
    then show thesis using dev_create by (intro same) (simp_all add: device_period_create_def)
  next
    case (Some p)
    obtain rows x where c: "create_period (next_pk s) d r (device_quiet_periods s) = (rows, x)" by (metis surj_pair)
    then have "rows = device_quiet_periods s" if "x = Inl e" for e
      using that by (auto simp: create_period_def Let_def split: sum.splits)
    then show thesis using dev_create Some c
      by (intro dev[of d "next_pk s" r]) (auto simp: device_period_create_def split: sum.split)
  qed
next
  case (dev_patch d i r)
  show thesis
  proof (cases "device_period_retrieve True u d i s")
    case (Reply k q)
    then show thesis using dev_patch retrieve_SomeD(2)[OF Reply]
      by (intro dev[of d i r]) (auto simp: device_period_patch_def split: prod.split)
  qed (use dev_patch in \<open>auto intro!: same simp: device_period_patch_def\<close>)
next
  case (dev_destroy d i)
  show thesis
  proof (cases "device_period_retrieve True u d i s")
    case (Reply k q)
    then show thesis using dev_destroy retrieve_SomeD(2)[OF Reply]
      by (intro dev[of d i undefined]) (auto simp: device_period_destroy_def)
  qed (use dev_destroy in \<open>auto intro!: same simp: device_period_destroy_def\<close>)
qed

lemma edited_rows_ok:
  assumes "list_all period_ok rows"
    and "rows' = fst (create_period i p r rows) \<or> (\<exists>q. find_period p i rows = Some q \<and> (rows' = fst (patch_period q r rows) \<or> rows' = delete_period q rows))"
  shows "list_all period_ok rows'"
  using assms create_period_ok[OF assms(1), of i p r] patch_period_ok[OF assms(1) find_period_ok[OF assms(1)], of p i _ r]
  by (auto simp: delete_period_def list_all_iff)

text \<open>
  C31. Whatever requests are made on the quiet periods of applications and devices, what is stored
  are quiet periods: a one-time one has an end after its start and no recurrence, a recurring one
  has sorted week days without repetition and two different times of day and no dates.
\<close>

theorem stored_periods_are_wellformed:
  assumes "edits u s t" and "list_all period_ok (app_quiet_periods s)" and "list_all period_ok (device_quiet_periods s)"
  shows "list_all period_ok (app_quiet_periods t) \<and> list_all period_ok (device_quiet_periods t)"
  using assms(1)
proof (cases rule: edits_cases)
  case same
  then show ?thesis using assms(2,3) by simp
next
  case (app a i r)
  then show ?thesis using edited_rows_ok[OF assms(2) app(3)] assms(3) by simp
next
  case (dev d i r)
  then show ?thesis using edited_rows_ok[OF assms(3) dev(3)] assms(2) by simp
qed

text \<open>The parents whose periods a user may edit.\<close>

definition my_device :: "db \<Rightarrow> pk \<Rightarrow> pk \<Rightarrow> bool" where
  "my_device s u d \<longleftrightarrow> list_ex (\<lambda>x. dev_id x = d \<and> dev_user x = Some u) (devices s)"

lemma edited_rows_other:
  assumes "distinct (map qp_id rows)" and "f p"
    and "rows' = fst (create_period i p r rows) \<or> (\<exists>q. find_period p i rows = Some q \<and> (rows' = fst (patch_period q r rows) \<or> rows' = delete_period q rows))"
  shows "filter (\<lambda>q. \<not> f (qp_parent q)) rows' = filter (\<lambda>q. \<not> f (qp_parent q)) rows"
  using assms(3)
proof
  assume "rows' = fst (create_period i p r rows)"
  then show ?thesis using assms(2)
    by (auto simp: create_period_def Let_def write_period_def default_period_def split: sum.split)
next
  assume "\<exists>q. find_period p i rows = Some q \<and> (rows' = fst (patch_period q r rows) \<or> rows' = delete_period q rows)"
  then obtain q where q: "find_period p i rows = Some q" "rows' = fst (patch_period q r rows) \<or> rows' = delete_period q rows" by blast
  from q(1) have in_rows: "q \<in> set rows" "qp_parent q = p" by (auto simp: find_period_def dest: find_SomeD)
  have only: "x = q" if "x \<in> set rows" "qp_id x = qp_id q" for x
    using assms(1) in_rows(1) that by (auto simp: distinct_map inj_on_def)
  have mine: "x \<in> set rows \<Longrightarrow> qp_id x = qp_id q \<Longrightarrow> f (qp_parent x)" for x using only in_rows(2) assms(2) by blast
  from q(2) show ?thesis
  proof
    assume "rows' = delete_period q rows"
    then show ?thesis using mine by (auto simp: delete_period_def intro: filter_cong)
  next
    assume p: "rows' = fst (patch_period q r rows)"
    have "qp_parent (write_period v q) = p" for v using in_rows(2) by (simp add: write_period_def)
    then have "filter (\<lambda>x. \<not> f (qp_parent x)) (update_where (\<lambda>x. qp_id x = qp_id q) (\<lambda>_. write_period v q) rs) =
        filter (\<lambda>x. \<not> f (qp_parent x)) rs" if "set rs \<subseteq> set rows" for v rs
      using that mine assms(2) by (induction rs) auto
    then show ?thesis using p by (auto simp: patch_period_def Let_def split: sum.split)
  qed
qed

text \<open>
  Quiet periods are edited by their owner only: no request of a user changes a period of an
  application of somebody else, nor one of a device that is not the user's own (an owner who sees a
  linked device reads its periods but does not change them).
\<close>

theorem periods_are_edited_by_their_owner:
  assumes "edits u s t" and "distinct (map qp_id (app_quiet_periods s))" and "distinct (map qp_id (device_quiet_periods s))"
  shows "filter (\<lambda>q. \<not> owns_application s u (qp_parent q)) (app_quiet_periods t) =
      filter (\<lambda>q. \<not> owns_application s u (qp_parent q)) (app_quiet_periods s) \<and>
    filter (\<lambda>q. \<not> my_device s u (qp_parent q)) (device_quiet_periods t) =
      filter (\<lambda>q. \<not> my_device s u (qp_parent q)) (device_quiet_periods s)"
  using assms(1)
proof (cases rule: edits_cases)
  case (app a i r)
  then have "owns_application s u a"
    by (auto simp: own_application_def owns_application_def list_ex_iff dest: find_SomeD)
  then show ?thesis using edited_rows_other[OF assms(2) _ app(3)] app(2) by simp
next
  case (dev d i r)
  then obtain x where "device_object s u True d = Some x" by blast
  then have "my_device s u d"
    using device_object_SomeD[of s u True d x] by (auto simp: my_device_def device_access_def list_ex_iff)
  then show ?thesis using edited_rows_other[OF assms(3) _ dev(3)] dev(2) by simp
qed simp

text \<open>The request a client makes that sends back what it has read.\<close>

definition request_of :: "quiet_period \<Rightarrow> period_request" where
  "request_of q = \<lparr>pr_name = Some (qp_name q), pr_period_type = Some (period_type q), pr_start_at = Some (start_at q),
     pr_end_at = Some (end_at q), pr_recurrence_days = Some (recurrence_days q), pr_start_time = Some (start_time q),
     pr_end_time = Some (end_time q), pr_is_active = Some (qp_is_active q)\<rparr>"

lemma sorted_distinct_days: "sorted xs \<Longrightarrow> distinct xs \<Longrightarrow> sort (remdups xs) = (xs :: int list)"
  by (simp add: sorted_sort_id distinct_remdups_id)


section \<open>Concrete periods\<close>

definition night_request :: period_request where
  "night_request = \<lparr>pr_name = Some ''night'', pr_period_type = Some Recurring, pr_start_at = None, pr_end_at = None,
     pr_recurrence_days = Some [4, 0, 4], pr_start_time = Some (Some (22 * hour)), pr_end_time = Some (Some (8 * hour)),
     pr_is_active = None\<rparr>"

definition night :: quiet_period where
  "night = \<lparr>qp_id = 7, qp_parent = 1, qp_name = ''night'', period_type = Recurring, start_at = None, end_at = None,
     recurrence_days = [0, 4], start_time = Some (22 * hour), end_time = Some (8 * hour), qp_is_active = True\<rparr>"

definition period_db :: db where
  "period_db = empty_db\<lparr>users := [blank_user], applications := [blank_application, blank_application\<lparr>app_id := 2, app_owner := 2\<rparr>],
     app_quiet_periods := [default_period 3 2\<lparr>start_at := Some 0, end_at := Some day\<rparr>], next_pk := 7\<rparr>"

lemma night_stored: "application_period_create 1 1 night_request period_db =
    (period_db\<lparr>app_quiet_periods := app_quiet_periods period_db @ [night], next_pk := 8\<rparr>, Reply 201 night)"
  by code_simp

theorem stored_periods_are_wellformed_witness:
  "list_all period_ok (app_quiet_periods (fst (application_period_create 1 1 night_request period_db))) \<and>
   length (app_quiet_periods (fst (application_period_create 1 1 night_request period_db))) = 2"
proof -
  have "list_all period_ok (app_quiet_periods period_db)" "list_all period_ok (device_quiet_periods period_db)" by code_simp+
  note ok = stored_periods_are_wellformed[OF edits.app_create[of 1 period_db 1 night_request] this]
  moreover have "length (app_quiet_periods (fst (application_period_create 1 1 night_request period_db))) = 2" by code_simp
  ultimately show ?thesis by blast
qed

theorem periods_are_edited_by_their_owner_witness:
  "filter (\<lambda>q. \<not> owns_application period_db 1 (qp_parent q)) (app_quiet_periods (fst (application_period_create 1 1 night_request period_db))) =
     [default_period 3 2\<lparr>start_at := Some 0, end_at := Some day\<rparr>] \<and>
   application_period_destroy 1 2 3 period_db = (period_db, Refuse 404 ''application_not_found'')"
proof -
  have "distinct (map qp_id (app_quiet_periods period_db))" "distinct (map qp_id (device_quiet_periods period_db))" by code_simp+
  note r = periods_are_edited_by_their_owner[OF edits.app_create[of 1 period_db 1 night_request] this]
  have "filter (\<lambda>q. \<not> owns_application period_db 1 (qp_parent q)) (app_quiet_periods period_db) =
      [default_period 3 2\<lparr>start_at := Some 0, end_at := Some day\<rparr>]" by code_simp
  moreover have "application_period_destroy 1 2 3 period_db = (period_db, Refuse 404 ''application_not_found'')" by code_simp
  ultimately show ?thesis using r by simp
qed


end
