(* ===== verification/Lifecycle.thy ===== *)
theory Lifecycle
  imports Exchange Inbound Periods
begin

text \<open>
  The life of an application: the methods of \<open>applications/models.py\<close>, the views of
  \<open>applications/api_views.py\<close> that list, create, edit and delete applications, rotate their
  credentials and addresses and keep their logo, and the serializers they use. The random values
  drawn, \<open>slugify\<close>, SHA-256, the URL and address validators and the image decoder are parameters.
\<close>

section \<open>Drawn values\<close>

record draws =
  token_draw :: string
  code_draw :: string
  secret_draw :: string
  alias_draw :: "nat \<Rightarrow> string"

record app_env =
  env_config :: config
  env_secrets :: secrets
  slugify :: "string \<Rightarrow> string"
  env_exchange :: exchange_env

definition generate_raw_app_token :: "string \<Rightarrow> string" where
  "generate_raw_app_token hex = ''apt_'' @ hex"

definition get_token_prefix :: "string \<Rightarrow> string" where
  "get_token_prefix raw = take 12 raw"

definition generate_enrolment_code :: "string \<Rightarrow> string" where
  "generate_enrolment_code drawn = ''apk_'' @ take 12 (filter (\<lambda>c. c \<noteq> CHR ''-'' \<and> c \<noteq> CHR ''_'') drawn)"

definition check_app_token :: "secrets \<Rightarrow> application \<Rightarrow> string \<Rightarrow> bool" where
  "check_app_token x a raw \<longleftrightarrow> app_token_hash a = sha256 x raw"

definition set_new_app_token :: "secrets \<Rightarrow> string \<Rightarrow> application \<Rightarrow> application" where
  "set_new_app_token x hex a =
     (let raw = generate_raw_app_token hex in
      a\<lparr>app_token_prefix := get_token_prefix raw, app_token_hash := sha256 x raw, app_revoked_at := None, app_last_used_at := None\<rparr>)"

definition rotate_enrolment_code :: "string \<Rightarrow> instant \<Rightarrow> application \<Rightarrow> application" where
  "rotate_enrolment_code drawn now a =
     a\<lparr>enrolment_code := generate_enrolment_code drawn, enrolment_code_rotated_at := Some now\<rparr>"

section \<open>Writing a row\<close>

text \<open>
  An object without a row has the key 0. The database refuses (\<open>IntegrityError\<close>) a row that shares a
  unique column with another one; the sequence of a refused insertion is consumed.
\<close>

definition clashes :: "application \<Rightarrow> application \<Rightarrow> bool" where
  "clashes a b \<longleftrightarrow> app_id b \<noteq> app_id a \<and>
     (app_token_hash b = app_token_hash a \<or> enrolment_code b = enrolment_code a \<or>
      inbound_email_alias b = inbound_email_alias a \<or> inbound_email_suffix b = inbound_email_suffix a)"

definition write_application :: "application \<Rightarrow> db \<Rightarrow> db \<times> application option" where
  "write_application a s =
     (if app_id a = 0 then
        (if list_ex (clashes a) (applications s) then (s\<lparr>next_pk := Suc (next_pk s)\<rparr>, None)
         else (let row = a\<lparr>app_id := next_pk s\<rparr> in
               (s\<lparr>applications := applications s @ [row], next_pk := Suc (next_pk s)\<rparr>, Some row)))
      else if list_ex (clashes a) (applications s) then (s, None)
      else (put_applications (\<lambda>r. app_id r = app_id a) (\<lambda>_. a) s, Some a))"

text \<open>
  What a save does to the outside: the hooks of the mailbox called, in order; and how it ends. A hook
  that raises does so after the row is written.
\<close>

datatype alias_call = Attach string | Detach string

type_synonym world = "db \<times> alias_call list"

datatype save_outcome = Saved application | Saved_Then_Raised application string | Not_Saved string

definition saved_or_raised :: "application \<Rightarrow> string option \<Rightarrow> save_outcome" where
  "saved_or_raised a e = (case e of None \<Rightarrow> Saved a | Some x \<Rightarrow> Saved_Then_Raised a x)"

definition fill_defaults :: "app_env \<Rightarrow> draws \<Rightarrow> application \<Rightarrow> application" where
  "fill_defaults env dr a =
     (let a1 = (if app_token_hash a = [] then set_new_app_token (env_secrets env) (token_draw dr) a else a);
          a2 = (if enrolment_code a1 = [] then a1\<lparr>enrolment_code := generate_enrolment_code (code_draw dr)\<rparr> else a1)
      in if webhook_secret a2 = [] then a2\<lparr>webhook_secret := generate_webhook_secret (secret_draw dr)\<rparr> else a2)"

definition candidate :: "app_env \<Rightarrow> draws \<Rightarrow> application \<Rightarrow> nat \<Rightarrow> application" where
  "candidate env dr a i =
     (let ali = generate_alias (env_config env) (slugify env (app_name a)) (alias_draw dr i) in
      a\<lparr>inbound_email_alias := ali, inbound_email_suffix := random_part_of (env_config env) ali\<rparr>)"

definition is_mailbox :: "config \<Rightarrow> application \<Rightarrow> bool" where
  "is_mailbox cfg a \<longleftrightarrow> inbound_email_address cfg a \<in> set (mailbox_addresses cfg)"

text \<open>The loop, for the attempts left; \<open>refused\<close> remembers whether the database refused one.\<close>

fun allocate :: "app_env \<Rightarrow> draws \<Rightarrow> application \<Rightarrow> nat \<Rightarrow> nat \<Rightarrow> bool \<Rightarrow> world \<Rightarrow> world \<times> save_outcome" where
  "allocate env dr a i 0 refused w = (w, Not_Saved (if refused then ''IntegrityError'' else ''RuntimeError''))"
| "allocate env dr a i (Suc k) refused (s, calls) =
     (let b = candidate env dr a i in
      if is_mailbox (env_config env) b then allocate env dr a (Suc i) k refused (s, calls)
      else case write_application b s of
        (s1, None) \<Rightarrow> allocate env dr a (Suc i) k True (s1, calls)
      | (s1, Some row) \<Rightarrow>
          (let address = inbound_email_address (env_config env) row in
           ((s1, calls @ [Attach address]), saved_or_raised row (provision_alias (env_exchange env) address))))"

definition max_alias_attempts :: nat where "max_alias_attempts = 12"

definition save_application :: "app_env \<Rightarrow> draws \<Rightarrow> application \<Rightarrow> world \<Rightarrow> world \<times> save_outcome" where
  "save_application env dr a0 w =
     (let a = fill_defaults env dr a0 in
      if inbound_email_alias a \<noteq> [] then
        (let b = (if inbound_email_suffix a = []
                  then a\<lparr>inbound_email_suffix := random_part_of (env_config env) (inbound_email_alias a)\<rparr> else a)
         in case write_application b (fst w) of
              (s1, None) \<Rightarrow> ((s1, snd w), Not_Saved ''IntegrityError'')
            | (s1, Some row) \<Rightarrow> ((s1, snd w), Saved row))
      else allocate env dr a 0 max_alias_attempts False w)"

text \<open>\<open>_deprovision_exchange_alias\<close> uses the domain of the settings as it is written there.\<close>

definition deprovision :: "app_env \<Rightarrow> string \<Rightarrow> alias_call list \<Rightarrow> alias_call list \<times> string option" where
  "deprovision env local_part calls =
     (let address = local_part @ CHR ''@'' # inbound_email_domain (env_config env) in
      (calls @ [Detach address], deprovision_alias (env_exchange env) address))"

definition regenerate_inbound_email :: "app_env \<Rightarrow> draws \<Rightarrow> application \<Rightarrow> world \<Rightarrow> world \<times> save_outcome" where
  "regenerate_inbound_email env dr a w =
     (case save_application env dr (a\<lparr>inbound_email_alias := [], inbound_email_suffix := []\<rparr>) w of
        ((s1, calls1), Saved b) \<Rightarrow>
          if inbound_email_alias a \<noteq> [] \<and> inbound_email_alias a \<noteq> inbound_email_alias b then
            (case deprovision env (inbound_email_alias a) calls1 of
               (calls2, e) \<Rightarrow> ((s1, calls2), saved_or_raised b e))
          else ((s1, calls1), Saved b)
      | other \<Rightarrow> other)"

section \<open>Deletion\<close>

text \<open>
  The rows that belong to the application go with it (quiet periods, send tokens with their reveals,
  links, templates, notifications with their deliveries); the journal keeps its rows without it.
\<close>

definition delete_application_rows :: "pk \<Rightarrow> db \<Rightarrow> db" where
  "delete_application_rows app s =
     (let s1 = delete_notifications (\<lambda>n. ntf_application n = app) s;
          toks = map tok_id (filter (\<lambda>t. tok_application t = app) (send_tokens s)) in
      s1\<lparr>applications := filter (\<lambda>a. app_id a \<noteq> app) (applications s),
         app_quiet_periods := filter (\<lambda>q. qp_parent q \<noteq> app) (app_quiet_periods s),
         send_tokens := filter (\<lambda>t. tok_application t \<noteq> app) (send_tokens s),
         reveals := filter (\<lambda>v. rev_token v \<notin> set toks) (reveals s),
         links := filter (\<lambda>l. link_application l \<noteq> app) (links s),
         templates := filter (\<lambda>t. tpl_application t \<noteq> app) (templates s),
         inbound_logs := update_where (\<lambda>l. log_application l = Some app) (\<lambda>l. l\<lparr>log_application := None\<rparr>) (inbound_logs s1)\<rparr>)"

definition delete_application :: "app_env \<Rightarrow> application \<Rightarrow> world \<Rightarrow> world \<times> string option" where
  "delete_application env a w =
     (let s1 = delete_application_rows (app_id a) (fst w) in
      if inbound_email_alias a \<noteq> [] then
        (case deprovision env (inbound_email_alias a) (snd w) of (calls, e) \<Rightarrow> ((s1, calls), e))
      else ((s1, snd w), None))"

section \<open>What a client may write\<close>

text \<open>
  Each field absent or present. \<open>url_ok\<close> is the framework's URL validator. The verdict of
  \<open>validate_webhook_url\<close> stands for its message; a URL it cannot split raises an exception that is not
  a validation error, and the request fails as a whole (None).
\<close>

record application_request =
  rq_name :: "string option"
  rq_description :: "string option"
  rq_webhook_url :: "string option"
  rq_mode :: "string option"
  rq_allowlist :: "string list option"
  rq_blocklist :: "string list option"
  rq_notify_email :: "bool option"
  rq_notify_push :: "bool option"
  rq_reply :: "bool option"

record field_env =
  webhook_net :: resolver
  url_ok :: "string \<Rightarrow> bool"
  email_ok :: "string \<Rightarrow> bool"

definition url_messages :: "field_env \<Rightarrow> url_verdict \<Rightarrow> string \<Rightarrow> string list" where
  "url_messages fe verdict t =
     (case verdict of Unsafe why \<Rightarrow> [why] | _ \<Rightarrow> []) @
     (if 500 < length t then [''Ensure this field has no more than 500 characters.''] else []) @
     (if url_ok fe t then [] else [''Enter a valid URL.''])"

definition url_field :: "field_env \<Rightarrow> string \<Rightarrow> (string list + string) option" where
  "url_field fe v =
     (let t = strip v in
      if t = [] then Some (Inr [])
      else case validate_webhook_url (webhook_net fe) t of
        Url_Error \<Rightarrow> None
      | verdict \<Rightarrow> (let msgs = url_messages fe verdict t in Some (if msgs = [] then Inr t else Inl msgs)))"

definition add_errors :: "string \<Rightarrow> string list \<Rightarrow> field_errors \<Rightarrow> field_errors" where
  "add_errors field msgs errs = fold (\<lambda>m e. add_error e field m) msgs errs"

definition blank_ok :: "string \<Rightarrow> string + string" where
  "blank_ok v = Inr (strip v)"

definition mode_field :: "string \<Rightarrow> string + string" where
  "mode_field v =
     (if v \<in> {''owner'', ''anyone''} then Inr v
      else Inl (CHR 0x22 # v @ CHR 0x22 # '' is not a valid choice.''))"

definition mode_of :: "string \<Rightarrow> sender_mode" where
  "mode_of v = (if v = ''anyone'' then Mode_Anyone else Mode_Owner)"

definition list_field :: "field_env \<Rightarrow> string \<Rightarrow> string list option \<Rightarrow> field_errors \<Rightarrow> field_errors \<times> string list option" where
  "list_field fe field v errs =
     (case v of
        None \<Rightarrow> (errs, None)
      | Some xs \<Rightarrow> (case normalize_entries (email_ok fe) (map strip xs) of
          Inl msgs \<Rightarrow> (add_errors field msgs errs, None)
        | Inr es \<Rightarrow> (errs, Some es)))"

definition webhook_field :: "field_env \<Rightarrow> string option \<Rightarrow> field_errors \<Rightarrow> (field_errors \<times> string option) option" where
  "webhook_field fe v errs =
     (case v of
        None \<Rightarrow> Some (errs, None)
      | Some x \<Rightarrow> (case url_field fe x of
          None \<Rightarrow> None
        | Some (Inl msgs) \<Rightarrow> Some (add_errors ''webhook_url'' msgs errs, None)
        | Some (Inr t) \<Rightarrow> Some (errs, Some t)))"

text \<open>
  \<open>ApplicationCreateSerializer\<close> reads the first three fields and requires the name;
  \<open>ApplicationUpdateSerializer\<close> reads them all and requires none.
\<close>

definition validate_application :: "field_env \<Rightarrow> bool \<Rightarrow> application_request \<Rightarrow> (field_errors + application_request) option" where
  "validate_application fe upd r =
     (let (e1, n) = run_field ''name'' (char_field (Some 120)) (rq_name r) (required upd ''name'' (rq_name r) []);
          (e2, d) = run_field ''description'' blank_ok (rq_description r) e1
      in case webhook_field fe (rq_webhook_url r) e2 of
           None \<Rightarrow> None
         | Some (e3, w) \<Rightarrow>
             (let (e4, m) = (if upd then run_field ''inbound_sender_mode'' mode_field (rq_mode r) e3 else (e3, None));
                  (e5, al) = (if upd then list_field fe ''inbound_sender_allowlist'' (rq_allowlist r) e4 else (e4, None));
                  (e6, bl) = (if upd then list_field fe ''inbound_sender_blocklist'' (rq_blocklist r) e5 else (e5, None))
              in Some (if e6 \<noteq> [] then Inl e6
                  else Inr \<lparr>rq_name = n, rq_description = d, rq_webhook_url = w, rq_mode = m, rq_allowlist = al, rq_blocklist = bl,
                    rq_notify_email = (if upd then rq_notify_email r else None),
                    rq_notify_push = (if upd then rq_notify_push r else None),
                    rq_reply = (if upd then rq_reply r else None)\<rparr>)))"

text \<open>\<open>create\<close> builds the application from the name and the description; \<open>webhook_url\<close> is not read.\<close>

definition new_application :: "pk \<Rightarrow> application_request \<Rightarrow> instant \<Rightarrow> application" where
  "new_application owner v now =
     \<lparr>app_id = 0, app_owner = owner, app_name = the (rq_name v),
      app_description = (case rq_description v of None \<Rightarrow> [] | Some d \<Rightarrow> d),
      app_token_prefix = [], app_token_hash = [], enrolment_code = [], enrolment_code_rotated_at = None,
      legacy_send_last_used_at = None, inbound_email_alias = [], inbound_email_suffix = [],
      webhook_url = [], webhook_secret = [], inbound_sender_mode = Mode_Owner,
      inbound_sender_allowlist = [], inbound_sender_blocklist = [], inbound_rejection_notify_email = True,
      inbound_rejection_notify_push = False, inbound_rejection_reply_to_sender = False,
      app_is_active = True, app_revoked_at = None, app_last_used_at = None, app_icon = [], app_logo = [],
      app_created_at = now\<rparr>"

definition or_keep :: "'a option \<Rightarrow> 'a \<Rightarrow> 'a" where
  "or_keep v old = (case v of None \<Rightarrow> old | Some x \<Rightarrow> x)"

definition apply_request :: "application_request \<Rightarrow> application \<Rightarrow> application" where
  "apply_request v a =
     a\<lparr>app_name := or_keep (rq_name v) (app_name a), app_description := or_keep (rq_description v) (app_description a),
       webhook_url := or_keep (rq_webhook_url v) (webhook_url a),
       inbound_sender_mode := (case rq_mode v of None \<Rightarrow> inbound_sender_mode a | Some m \<Rightarrow> mode_of m),
       inbound_sender_allowlist := or_keep (rq_allowlist v) (inbound_sender_allowlist a),
       inbound_sender_blocklist := or_keep (rq_blocklist v) (inbound_sender_blocklist a),
       inbound_rejection_notify_email := or_keep (rq_notify_email v) (inbound_rejection_notify_email a),
       inbound_rejection_notify_push := or_keep (rq_notify_push v) (inbound_rejection_notify_push a),
       inbound_rejection_reply_to_sender := or_keep (rq_reply v) (inbound_rejection_reply_to_sender a)\<rparr>"

section \<open>What a client may read\<close>

text \<open>\<open>ApplicationReadSerializer\<close> and \<open>ApplicationCreateSerializer\<close>: never the hash of a token nor the signing secret.\<close>

record application_view =
  av_id :: pk
  av_name :: string
  av_description :: string
  av_token_prefix :: string
  av_enrolment_code :: string
  av_code_rotated_at :: "instant option"
  av_legacy_send_last_used_at :: "instant option"
  av_email_alias :: string
  av_email_address :: string
  av_webhook_url :: string
  av_sender_mode :: sender_mode
  av_sender_allowlist :: "string list"
  av_sender_blocklist :: "string list"
  av_notify_email :: bool
  av_notify_push :: bool
  av_reply_to_sender :: bool
  av_logo :: string
  av_is_active :: bool
  av_revoked_at :: "instant option"
  av_last_used_at :: "instant option"
  av_created_at :: instant

definition read_application :: "config \<Rightarrow> application \<Rightarrow> application_view" where
  "read_application cfg a =
     \<lparr>av_id = app_id a, av_name = app_name a, av_description = app_description a, av_token_prefix = app_token_prefix a,
      av_enrolment_code = enrolment_code a, av_code_rotated_at = enrolment_code_rotated_at a,
      av_legacy_send_last_used_at = legacy_send_last_used_at a, av_email_alias = inbound_email_alias a,
      av_email_address = inbound_email_address cfg a, av_webhook_url = webhook_url a, av_sender_mode = inbound_sender_mode a,
      av_sender_allowlist = inbound_sender_allowlist a, av_sender_blocklist = inbound_sender_blocklist a,
      av_notify_email = inbound_rejection_notify_email a, av_notify_push = inbound_rejection_notify_push a,
      av_reply_to_sender = inbound_rejection_reply_to_sender a, av_logo = app_logo a, av_is_active = app_is_active a,
      av_revoked_at = app_revoked_at a, av_last_used_at = app_last_used_at a, av_created_at = app_created_at a\<rparr>"

record created_view =
  cv_id :: pk
  cv_name :: string
  cv_description :: string
  cv_webhook_url :: string
  cv_token_prefix :: string
  cv_enrolment_code :: string
  cv_email_alias :: string
  cv_email_address :: string
  cv_app_token :: string
  cv_logo :: string
  cv_is_active :: bool
  cv_revoked_at :: "instant option"
  cv_last_used_at :: "instant option"
  cv_created_at :: instant

definition read_created :: "config \<Rightarrow> string \<Rightarrow> application \<Rightarrow> created_view" where
  "read_created cfg raw a =
     \<lparr>cv_id = app_id a, cv_name = app_name a, cv_description = app_description a, cv_webhook_url = webhook_url a,
      cv_token_prefix = app_token_prefix a, cv_enrolment_code = enrolment_code a, cv_email_alias = inbound_email_alias a,
      cv_email_address = inbound_email_address cfg a, cv_app_token = raw, cv_logo = app_logo a, cv_is_active = app_is_active a,
      cv_revoked_at = app_revoked_at a, cv_last_used_at = app_last_used_at a, cv_created_at = app_created_at a\<rparr>"

section \<open>The views\<close>

text \<open>An exception the views do not catch is answered 500; what was written stays written.\<close>

definition not_found :: "'a response" where
  "not_found = Refuse 404 ''application_not_found''"

definition internal_error :: "'a response" where
  "internal_error = Refuse 500 ''internal_error''"

definition application_list :: "config \<Rightarrow> pk \<Rightarrow> page_query \<Rightarrow> db \<Rightarrow> application_view listing response" where
  "application_list cfg u q s =
     paginate_queryset q (map (read_application cfg) (rev (sort_key app_id (filter (\<lambda>a. app_owner a = u) (applications s)))))"

definition application_create ::
    "app_env \<Rightarrow> field_env \<Rightarrow> draws \<Rightarrow> instant \<Rightarrow> user \<Rightarrow> application_request \<Rightarrow> world \<Rightarrow> world \<times> created_view response" where
  "application_create env fe dr now u r w =
     (case quota_required (env_config env) (fst w) now u of
        Some refusal \<Rightarrow> (w, refusal)
      | None \<Rightarrow>
          (case validate_application fe False r of
             None \<Rightarrow> (w, internal_error)
           | Some (Inl e) \<Rightarrow> (w, Invalid e)
           | Some (Inr v) \<Rightarrow>
               (let a = set_new_app_token (env_secrets env) (token_draw dr) (new_application (user_id u) v now) in
                case save_application env dr a w of
                  (w1, Saved b) \<Rightarrow> (w1, Reply 201 (read_created (env_config env) (generate_raw_app_token (token_draw dr)) b))
                | (w1, _) \<Rightarrow> (w1, internal_error))))"

definition application_retrieve :: "config \<Rightarrow> pk \<Rightarrow> pk \<Rightarrow> db \<Rightarrow> application_view response" where
  "application_retrieve cfg u app s =
     (case own_application s u app of None \<Rightarrow> not_found | Some a \<Rightarrow> Reply 200 (read_application cfg a))"

definition application_patch ::
    "app_env \<Rightarrow> field_env \<Rightarrow> draws \<Rightarrow> pk \<Rightarrow> pk \<Rightarrow> application_request \<Rightarrow> world \<Rightarrow> world \<times> application_view response" where
  "application_patch env fe dr u app r w =
     (case own_application (fst w) u app of
        None \<Rightarrow> (w, not_found)
      | Some a \<Rightarrow>
          (case validate_application fe True r of
             None \<Rightarrow> (w, internal_error)
           | Some (Inl e) \<Rightarrow> (w, Invalid e)
           | Some (Inr v) \<Rightarrow>
               (case save_application env dr (apply_request v a) w of
                  (w1, Saved b) \<Rightarrow> (w1, Reply 200 (read_application (env_config env) b))
                | (w1, _) \<Rightarrow> (w1, internal_error))))"

definition application_destroy :: "app_env \<Rightarrow> pk \<Rightarrow> pk \<Rightarrow> world \<Rightarrow> world \<times> unit response" where
  "application_destroy env u app w =
     (case own_application (fst w) u app of
        None \<Rightarrow> (w, not_found)
      | Some a \<Rightarrow> (case delete_application env a w of
          (w1, None) \<Rightarrow> (w1, Reply 204 ()) | (w1, Some _) \<Rightarrow> (w1, internal_error)))"

definition application_regenerate_email ::
    "app_env \<Rightarrow> draws \<Rightarrow> pk \<Rightarrow> pk \<Rightarrow> world \<Rightarrow> world \<times> (pk \<times> string \<times> string) response" where
  "application_regenerate_email env dr u app w =
     (case own_application (fst w) u app of
        None \<Rightarrow> (w, not_found)
      | Some a \<Rightarrow> (case regenerate_inbound_email env dr a w of
          (w1, Saved b) \<Rightarrow> (w1, Reply 200 (app_id b, inbound_email_alias b, inbound_email_address (env_config env) b))
        | (w1, _) \<Rightarrow> (w1, internal_error)))"

definition application_alias_status :: "app_env \<Rightarrow> pk \<Rightarrow> pk \<Rightarrow> db \<Rightarrow> (string \<times> alias_state) response" where
  "application_alias_status env u app s =
     (case own_application s u app of
        None \<Rightarrow> not_found
      | Some a \<Rightarrow>
          (let address = inbound_email_address (env_config env) a in
           case alias_status (env_exchange env) address of
             Inl _ \<Rightarrow> internal_error | Inr st \<Rightarrow> Reply 200 (address, st)))"

text \<open>
  \<open>save(update_fields=...)\<close> of an application that has its address: the columns named are written,
  unless a unique one is taken.
\<close>

definition write_fields :: "application \<Rightarrow> db \<Rightarrow> db \<times> bool" where
  "write_fields a s =
     (if list_ex (clashes a) (applications s) then (s, False)
      else (put_applications (\<lambda>r. app_id r = app_id a) (\<lambda>_. a) s, True))"

definition edit_own :: "pk \<Rightarrow> pk \<Rightarrow> (application \<Rightarrow> application) \<Rightarrow> (application \<Rightarrow> 'a) \<Rightarrow> db \<Rightarrow> db \<times> 'a response" where
  "edit_own u app f reply s =
     (case own_application s u app of
        None \<Rightarrow> (s, not_found)
      | Some a \<Rightarrow> (case write_fields (f a) s of
          (s1, True) \<Rightarrow> (s1, Reply 200 (reply (f a))) | (s1, False) \<Rightarrow> (s1, internal_error)))"

definition application_regenerate_token :: "app_env \<Rightarrow> draws \<Rightarrow> pk \<Rightarrow> pk \<Rightarrow> db \<Rightarrow> db \<times> (pk \<times> string \<times> string) response" where
  "application_regenerate_token env dr u app =
     edit_own u app (set_new_app_token (env_secrets env) (token_draw dr))
       (\<lambda>a. (app_id a, app_token_prefix a, generate_raw_app_token (token_draw dr)))"

definition application_activate :: "pk \<Rightarrow> pk \<Rightarrow> db \<Rightarrow> db \<times> (pk \<times> bool) response" where
  "application_activate u app = edit_own u app (\<lambda>a. a\<lparr>app_is_active := True\<rparr>) (\<lambda>a. (app_id a, app_is_active a))"

definition application_deactivate :: "pk \<Rightarrow> pk \<Rightarrow> db \<Rightarrow> db \<times> (pk \<times> bool) response" where
  "application_deactivate u app = edit_own u app (\<lambda>a. a\<lparr>app_is_active := False\<rparr>) (\<lambda>a. (app_id a, app_is_active a))"

definition application_revoke_token :: "instant \<Rightarrow> pk \<Rightarrow> pk \<Rightarrow> db \<Rightarrow> db \<times> (pk \<times> instant option) response" where
  "application_revoke_token now u app =
     edit_own u app (\<lambda>a. a\<lparr>app_revoked_at := Some now\<rparr>) (\<lambda>a. (app_id a, app_revoked_at a))"

definition application_rotate_code :: "draws \<Rightarrow> instant \<Rightarrow> pk \<Rightarrow> pk \<Rightarrow> db \<Rightarrow> db \<times> (pk \<times> string \<times> instant option) response" where
  "application_rotate_code dr now u app =
     edit_own u app (rotate_enrolment_code (code_draw dr) now)
       (\<lambda>a. (app_id a, enrolment_code a, enrolment_code_rotated_at a))"

text \<open>The QR codes; the answer stands for the text the image encodes.\<close>

definition application_qr :: "pk \<Rightarrow> pk \<Rightarrow> db \<Rightarrow> string response" where
  "application_qr u app s =
     (case own_application s u app of None \<Rightarrow> not_found | Some a \<Rightarrow> Reply 200 (enrolment_code a))"

definition application_legacy_qr :: "app_env \<Rightarrow> pk \<Rightarrow> pk \<Rightarrow> string \<Rightarrow> db \<Rightarrow> string response" where
  "application_legacy_qr env u app given_token s =
     (case own_application s u app of
        None \<Rightarrow> not_found
      | Some a \<Rightarrow>
          (let raw = strip given_token in
           if raw = [] \<or> \<not> check_app_token (env_secrets env) a raw then Refuse 404 ''app_token_invalid'' else Reply 200 raw))"

section \<open>The logo\<close>

text \<open>
  An upload, and what the image library says of it: the framework's own refusal, if any, and the
  format and size it decodes to (None when it cannot). \<open>available_name\<close> is the storage's choice of a
  name for a new file. The storage is the list of the files it holds.
\<close>

record upload =
  up_name :: string
  up_size :: nat
  up_content :: string

record image_env =
  image_field_error :: "upload \<Rightarrow> string option"
  decode_image :: "upload \<Rightarrow> (string \<times> nat \<times> nat) option"
  available_name :: "string list \<Rightarrow> string \<Rightarrow> string"

definition logo_max_bytes :: nat where "logo_max_bytes = 2 * 1024 * 1024"
definition logo_max_dimension :: nat where "logo_max_dimension = 2048"
definition logo_allowed_formats :: "string list" where "logo_allowed_formats = [''PNG'', ''JPEG'', ''WEBP'']"

definition validate_logo :: "image_env \<Rightarrow> upload \<Rightarrow> string option" where
  "validate_logo ie up =
     (if logo_max_bytes < up_size up then Some ''Logo file is too large (max 2 MB).''
      else case decode_image ie up of
        None \<Rightarrow> Some ''Could not read the image file.''
      | Some (fmt, w, h) \<Rightarrow>
          if fmt \<notin> set logo_allowed_formats then Some ''Unsupported image format. Use PNG, JPEG, or WebP.''
          else if logo_max_dimension < w \<or> logo_max_dimension < h
            then Some ''Logo dimensions are too large (max 2048x2048 px).''
          else None)"

text \<open>\<open>os.path.splitext\<close>: the last dot of the base name, unless only dots precede it.\<close>

definition file_extension :: "string \<Rightarrow> string" where
  "file_extension name =
     (let base = (if CHR ''/'' \<in> set name then after_last CHR ''/'' name else name) in
      if CHR ''.'' \<in> set base \<and> list_ex (\<lambda>c. c \<noteq> CHR ''.'') (before_last CHR ''.'' base)
      then CHR ''.'' # after_last CHR ''.'' base else [])"

definition logo_filename :: "secrets \<Rightarrow> application \<Rightarrow> upload \<Rightarrow> string" where
  "logo_filename x a up =
     decimal (app_id a) @ CHR ''-'' # take 16 (sha256 x (up_content up)) @
     (let ext = lower (file_extension (up_name up)) in if ext = [] then ''.png'' else ext)"

text \<open>\<open>store_logo\<close> answers the row, the view what a client may read of it.\<close>

definition store_logo ::
    "secrets \<Rightarrow> image_env \<Rightarrow> pk \<Rightarrow> pk \<Rightarrow> upload \<Rightarrow> db \<times> string list \<Rightarrow> (db \<times> string list) \<times> application response" where
  "store_logo x ie u app up st =
     (case own_application (fst st) u app of
        None \<Rightarrow> (st, not_found)
      | Some a \<Rightarrow>
          (case (case image_field_error ie up of Some m \<Rightarrow> Some m | None \<Rightarrow> validate_logo ie up) of
             Some m \<Rightarrow> (st, Invalid [(''logo'', [m])])
           | None \<Rightarrow>
               (let path = ''app_logo/'' @ logo_filename x a up; previous = app_logo a in
                if previous = path then (st, Reply 200 a)
                else (let name = available_name ie (snd st) path;
                          files = snd st @ [name];
                          s1 = put_applications (\<lambda>r. app_id r = app_id a) (\<lambda>r. r\<lparr>app_logo := name\<rparr>) (fst st)
                      in ((s1, if previous \<noteq> [] then filter (\<lambda>f. f \<noteq> previous) files else files),
                          Reply 200 (a\<lparr>app_logo := name\<rparr>))))))"

definition logo_upload ::
    "config \<Rightarrow> secrets \<Rightarrow> image_env \<Rightarrow> pk \<Rightarrow> pk \<Rightarrow> upload \<Rightarrow> db \<times> string list \<Rightarrow> (db \<times> string list) \<times> application_view response" where
  "logo_upload cfg x ie u app up st =
     (case store_logo x ie u app up st of
        (st1, Reply k a) \<Rightarrow> (st1, Reply k (read_application cfg a))
      | (st1, Refuse k c) \<Rightarrow> (st1, Refuse k c)
      | (st1, Invalid e) \<Rightarrow> (st1, Invalid e))"

definition logo_delete :: "pk \<Rightarrow> pk \<Rightarrow> db \<times> string list \<Rightarrow> (db \<times> string list) \<times> unit response" where
  "logo_delete u app st =
     (case own_application (fst st) u app of
        None \<Rightarrow> (st, not_found)
      | Some a \<Rightarrow>
          (if app_logo a \<noteq> [] then
             ((put_applications (\<lambda>r. app_id r = app_id a) (\<lambda>r. r\<lparr>app_logo := []\<rparr>) (fst st),
               filter (\<lambda>f. f \<noteq> app_logo a) (snd st)), Reply 204 ())
           else (st, Reply 204 ())))"

section \<open>Unique columns\<close>

definition apps_ok :: "db \<Rightarrow> bool" where
  "apps_ok s \<longleftrightarrow> 0 < next_pk s \<and> distinct (map app_id (applications s)) \<and>
     (\<forall>a \<in> set (applications s). 0 < app_id a \<and> app_id a < next_pk s \<and> inbound_email_alias a \<noteq> []) \<and>
     (\<forall>a \<in> set (applications s). \<forall>b \<in> set (applications s). \<not> clashes a b)"

lemma clashes_sym: "clashes a b \<longleftrightarrow> clashes b a"
  by (auto simp: clashes_def)

lemma put_row_set:
  "set (applications (put_applications (\<lambda>r. app_id r = i) (\<lambda>_. a) s)) \<subseteq> insert a {r \<in> set (applications s). app_id r \<noteq> i}"
  by (auto simp: put_applications_def update_where_def)

lemma put_row_ids:
  "app_id a = i \<Longrightarrow> map app_id (applications (put_applications (\<lambda>r. app_id r = i) (\<lambda>_. a) s)) = map app_id (applications s)"
  by (auto simp: put_applications_def update_where_def)

lemma apps_ok_put:
  assumes "apps_ok s" "app_id a = i" "inbound_email_alias a \<noteq> []" "\<not> list_ex (clashes a) (applications s)"
  shows "apps_ok (put_applications (\<lambda>r. app_id r = i) (\<lambda>_. a) s)"
proof (cases "i \<in> app_id ` set (applications s)")
  case True
  then have i: "0 < i" "i < next_pk s" using assms(1) by (auto simp: apps_ok_def)
  have nc: "\<not> clashes a b" if "b \<in> set (applications s)" for b using assms(4) that by (auto simp: list_ex_iff)
  have self: "\<not> clashes a a" by (simp add: clashes_def)
  have nx: "next_pk (put_applications (\<lambda>r. app_id r = i) (\<lambda>_. a) s) = next_pk s" by (simp add: put_applications_def)
  note sub = subsetD[OF put_row_set]
  show ?thesis unfolding apps_ok_def nx put_row_ids[OF assms(2)]
    using assms(1,2,3) i nc self clashes_sym unfolding apps_ok_def by (blast dest!: sub)
next
  case False
  then have "applications (put_applications (\<lambda>r. app_id r = i) (\<lambda>_. a) s) = applications s"
    by (auto simp: put_applications_def update_where_def image_iff intro!: map_idI)
  then show ?thesis using assms(1) by (simp add: apps_ok_def put_applications_def)
qed

lemma apps_ok_write:
  assumes "apps_ok s" "inbound_email_alias a \<noteq> []"
  shows "apps_ok (fst (write_application a s))"
proof (cases "list_ex (clashes a) (applications s)")
  case True
  then show ?thesis using assms(1) by (auto simp: write_application_def apps_ok_def less_SucI)
next
  case False
  show ?thesis
  proof (cases "app_id a = 0")
    case new: True
    let ?row = "a\<lparr>app_id := next_pk s\<rparr>"
    have nc: "\<not> clashes ?row b" "\<not> clashes b ?row" if "b \<in> set (applications s)" for b
    proof -
      have "app_id b \<noteq> 0" "\<not> clashes a b" using assms(1) that False by (auto simp: apps_ok_def list_ex_iff)
      then show "\<not> clashes ?row b" "\<not> clashes b ?row" using new by (auto simp: clashes_def)
    qed
    have self: "\<not> clashes ?row ?row" by (simp add: clashes_def)
    have fresh: "next_pk s \<notin> app_id ` set (applications s)" using assms(1) by (auto simp: apps_ok_def)
    have s': "fst (write_application a s) = s\<lparr>applications := applications s @ [?row], next_pk := Suc (next_pk s)\<rparr>"
      using False new by (simp add: write_application_def Let_def)
    show ?thesis unfolding s' apps_ok_def using assms fresh nc self
      by (auto simp: apps_ok_def less_SucI)
  qed (use assms False apps_ok_put[of s a "app_id a"] in \<open>simp add: write_application_def\<close>)
qed

section \<open>Allocation of an address\<close>

definition accepted :: "app_env \<Rightarrow> draws \<Rightarrow> application \<Rightarrow> db \<Rightarrow> nat \<Rightarrow> bool" where
  "accepted env dr a s i \<longleftrightarrow> \<not> is_mailbox (env_config env) (candidate env dr a i) \<and>
     \<not> list_ex (clashes (candidate env dr a i)) (applications s)"

abbreviation consumed :: "nat \<Rightarrow> db \<Rightarrow> db" where
  "consumed n s \<equiv> s\<lparr>next_pk := next_pk s + n\<rparr>"

lemma candidate_simps [simp]:
  "app_id (candidate env dr a i) = app_id a" "app_owner (candidate env dr a i) = app_owner a"
  by (simp_all add: candidate_def Let_def)

lemma candidate_alias: "inbound_email_alias (candidate env dr a i) \<noteq> []"
proof -
  obtain w where "generate_alias (env_config env) (slugify env (app_name a)) (alias_draw dr i) =
      w @ CHR ''-'' # alias_draw dr i @ alias_suffix (env_config env)" by (rule generate_alias_shape)
  then show ?thesis by (simp add: candidate_def Let_def)
qed

lemma write_refused:
  "list_ex (clashes a) (applications s) \<Longrightarrow> \<exists>n \<le> 1. write_application a s = (consumed n s, None)"
  by (cases "app_id a = 0") (auto simp: write_application_def intro: exI[of _ "0::nat"] exI[of _ "1::nat"])

lemma write_accepted:
  "\<not> list_ex (clashes a) (applications s) \<Longrightarrow> write_application a s =
     (if app_id a = 0 then (s\<lparr>applications := applications s @ [a\<lparr>app_id := next_pk s\<rparr>], next_pk := Suc (next_pk s)\<rparr>, Some (a\<lparr>app_id := next_pk s\<rparr>))
      else (put_applications (\<lambda>r. app_id r = app_id a) (\<lambda>_. a) s, Some a))"
  by (simp add: write_application_def Let_def)

definition allocated :: "app_env \<Rightarrow> draws \<Rightarrow> application \<Rightarrow> nat option \<Rightarrow> db \<Rightarrow> alias_call list \<Rightarrow> world \<times> save_outcome \<Rightarrow> bool" where
  "allocated env dr a choice s calls r =
     (case choice of
        None \<Rightarrow> \<exists>e. r = ((s, calls), Not_Saved e)
      | Some j \<Rightarrow> \<exists>row s'. write_application (candidate env dr a j) s = (s', Some row) \<and>
          r = ((s', calls @ [Attach (inbound_email_address (env_config env) row)]),
               saved_or_raised row (provision_alias (env_exchange env) (inbound_email_address (env_config env) row))))"

definition allocation :: "app_env \<Rightarrow> draws \<Rightarrow> application \<Rightarrow> nat list \<Rightarrow> world \<Rightarrow> world \<times> save_outcome \<Rightarrow> bool" where
  "allocation env dr a attempts w r \<longleftrightarrow>
     (\<exists>n \<le> length attempts. allocated env dr a (List.find (accepted env dr a (fst w)) attempts) (consumed n (fst w)) (snd w) r)"

lemma accepted_consumed: "accepted env dr a (consumed n s) = accepted env dr a s"
  by (simp add: accepted_def fun_eq_iff)

lemma allocation_step:
  assumes "allocation env dr a js (consumed n s, calls) r" "n \<le> 1" "\<not> accepted env dr a s i"
  shows "allocation env dr a (i # js) (s, calls) r"
proof -
  obtain m where m: "m \<le> length js" "allocated env dr a (List.find (accepted env dr a s) js) (consumed m (consumed n s)) calls r"
    using assms(1) unfolding allocation_def fst_conv snd_conv accepted_consumed by blast
  moreover have "consumed m (consumed n s) = consumed (n + m) s" by (simp add: add.assoc)
  moreover have "n + m \<le> length (i # js)" using m(1) assms(2) by simp
  ultimately show ?thesis unfolding allocation_def fst_conv snd_conv using assms(3) by (intro exI[of _ "n + m"]) (simp add: add.assoc)
qed

lemma allocate_allocation: "allocation env dr a [i..<i + k] (s, calls) (allocate env dr a i k refused (s, calls))"
proof (induction k arbitrary: i refused s)
  case 0
  then show ?case by (simp add: allocation_def allocated_def)
next
  case (Suc k)
  have js: "[i..<i + Suc k] = i # [Suc i..<Suc i + k]" by (simp add: upt_conv_Cons)
  let ?b = "candidate env dr a i"
  show ?case
  proof (cases "accepted env dr a s i")
    case True
    then obtain s1 row where w: "write_application ?b s = (s1, Some row)" "\<not> is_mailbox (env_config env) ?b"
      unfolding accepted_def using write_accepted by (metis (no_types, lifting))
    then have "allocate env dr a i (Suc k) refused (s, calls) =
        ((s1, calls @ [Attach (inbound_email_address (env_config env) row)]),
         saved_or_raised row (provision_alias (env_exchange env) (inbound_email_address (env_config env) row)))"
      by (simp add: Let_def)
    then have "allocated env dr a (Some i) (consumed 0 s) calls (allocate env dr a i (Suc k) refused (s, calls))"
      using w(1) by (simp add: allocated_def del: allocate.simps)
    then show ?thesis unfolding js allocation_def using True by (auto simp del: allocate.simps intro!: exI[of _ "0::nat"])
  next
    case False
    obtain n f where n: "n \<le> 1" " allocate env dr a i (Suc k) refused (s, calls) = allocate env dr a (Suc i) k f (consumed n s, calls)"
    proof (cases "is_mailbox (env_config env) ?b")
      case True
      then show ?thesis by (intro that[of 0 refused]) (simp_all add: Let_def)
    next
      case not: False
      then obtain n where "n \<le> 1" "write_application ?b s = (consumed n s, None)"
        using False write_refused unfolding accepted_def by blast
      then show ?thesis using not by (intro that[of n True]) (simp_all add: Let_def)
    qed
    show ?thesis unfolding js n(2) by (rule allocation_step[OF Suc.IH n(1) False])
  qed
qed

section \<open>Who may change which row\<close>

definition foreign :: "pk \<Rightarrow> db \<Rightarrow> application list" where
  "foreign u s = filter (\<lambda>a. app_owner a \<noteq> u) (applications s)"

definition apart :: "pk \<Rightarrow> db \<Rightarrow> db \<Rightarrow> bool" where
  "apart u s s' \<longleftrightarrow> (apps_ok s \<longrightarrow> apps_ok s' \<and> foreign u s' = foreign u s)"

lemma apart_refl [simp]: "apart u s s"
  by (simp add: apart_def)

lemma apart_trans: "apart u s1 s2 \<Longrightarrow> apart u s2 s3 \<Longrightarrow> apart u s1 s3"
  by (auto simp: apart_def)

lemma apart_consumed [simp]: "apart u s (consumed n s)"
  by (auto simp: apart_def apps_ok_def foreign_def)

definition mine :: "pk \<Rightarrow> application \<Rightarrow> db \<Rightarrow> bool" where
  "mine u a s \<longleftrightarrow> app_owner a = u \<and> (\<forall>r \<in> set (applications s). app_id r = app_id a \<longrightarrow> app_owner r = u)"

lemma foreign_put:
  assumes "app_owner a = u" "\<And>r. r \<in> set (applications s) \<Longrightarrow> app_id r = i \<Longrightarrow> app_owner r = u"
  shows "foreign u (put_applications (\<lambda>r. app_id r = i) (\<lambda>_. a) s) = foreign u s"
proof -
  have "filter (\<lambda>a. app_owner a \<noteq> u) (update_where (\<lambda>r. app_id r = i) (\<lambda>_. a) rs) = filter (\<lambda>a. app_owner a \<noteq> u) rs"
    if "\<And>r. r \<in> set rs \<Longrightarrow> app_id r = i \<Longrightarrow> app_owner r = u" for rs
    using that assms(1) by (induction rs) (auto simp: update_where_def)
  then show ?thesis using assms(2) by (simp add: foreign_def put_applications_def)
qed

lemma apart_write:
  assumes "mine u a s" "inbound_email_alias a \<noteq> []"
  shows "apart u s (fst (write_application a s))"
proof -
  have "foreign u (fst (write_application a s)) = foreign u s"
  proof (cases "list_ex (clashes a) (applications s)")
    case True
    then show ?thesis by (simp add: write_application_def foreign_def)
  next
    case False
    then show ?thesis unfolding write_accepted[OF False] using assms(1) foreign_put[of a u s "app_id a"]
      by (simp add: mine_def foreign_def)
  qed
  then show ?thesis using apps_ok_write assms(2) by (simp add: apart_def)
qed

lemma apart_allocate:
  assumes "mine u a s"
  shows "apart u s (fst (fst (allocate env dr a i k f (s, calls))))"
proof -
  let ?r = "allocate env dr a i k f (s, calls)"
  obtain n where r: "allocated env dr a (List.find (accepted env dr a s) [i..<i + k]) (consumed n s) calls ?r"
    using allocate_allocation[of env dr a i k s calls f] unfolding allocation_def fst_conv snd_conv by blast
  show ?thesis
  proof (cases "List.find (accepted env dr a s) [i..<i + k]")
    case None
    then show ?thesis using r by (auto simp: allocated_def)
  next
    case (Some j)
    then obtain row s' where w: "write_application (candidate env dr a j) (consumed n s) = (s', Some row)" "fst (fst ?r) = s'"
      using r by (auto simp: allocated_def)
    have "mine u (candidate env dr a j) (consumed n s)" using assms by (simp add: mine_def)
    from apart_write[OF this candidate_alias] show ?thesis using w apart_trans[OF apart_consumed[of u s n]] by simp
  qed
qed

lemma fill_defaults_keeps [simp]:
  "app_id (fill_defaults env dr a) = app_id a" "app_owner (fill_defaults env dr a) = app_owner a"
  "inbound_email_alias (fill_defaults env dr a) = inbound_email_alias a" "app_name (fill_defaults env dr a) = app_name a"
  by (simp_all add: fill_defaults_def set_new_app_token_def Let_def)

lemma apart_save:
  assumes "mine u a (fst w)"
  shows "apart u (fst w) (fst (fst (save_application env dr a w)))"
proof -
  obtain s calls where w: "w = (s, calls)" by (cases w)
  let ?a = "fill_defaults env dr a"
  have m: "mine u ?a s" using assms w by (simp add: mine_def)
  show ?thesis
  proof (cases "inbound_email_alias a = []")
    case True
    then show ?thesis using apart_allocate[OF m] by (simp add: save_application_def Let_def w)
  next
    case False
    let ?b = "if inbound_email_suffix ?a = []
      then ?a\<lparr>inbound_email_suffix := random_part_of (env_config env) (inbound_email_alias ?a)\<rparr> else ?a"
    have b: "mine u ?b s" "inbound_email_alias ?b \<noteq> []" using m False by (auto simp: mine_def)
    have "fst (fst (save_application env dr a w)) = fst (write_application ?b s)"
      using False by (simp add: save_application_def Let_def w split: prod.splits option.splits)
    then show ?thesis using apart_write[OF b] by (simp add: w)
  qed
qed

section \<open>The steps of a user\<close>

inductive app_step :: "app_env \<Rightarrow> field_env \<Rightarrow> user \<Rightarrow> world \<Rightarrow> world \<Rightarrow> bool" for env fe u where
  created: "application_create env fe dr now u r w = (w', x) \<Longrightarrow> app_step env fe u w w'"
| patched: "application_patch env fe dr (user_id u) app r w = (w', y) \<Longrightarrow> app_step env fe u w w'"
| destroyed: "application_destroy env (user_id u) app w = (w', z) \<Longrightarrow> app_step env fe u w w'"
| readdressed: "application_regenerate_email env dr (user_id u) app w = (w', v) \<Longrightarrow> app_step env fe u w w'"
| retokened: "application_regenerate_token env dr (user_id u) app s = (s', t) \<Longrightarrow> app_step env fe u (s, calls) (s', calls)"
| activated: "application_activate (user_id u) app s = (s', p) \<Longrightarrow> app_step env fe u (s, calls) (s', calls)"
| deactivated: "application_deactivate (user_id u) app s = (s', q) \<Longrightarrow> app_step env fe u (s, calls) (s', calls)"
| revoked: "application_revoke_token now (user_id u) app s = (s', k) \<Longrightarrow> app_step env fe u (s, calls) (s', calls)"
| rotated: "application_rotate_code dr now (user_id u) app s = (s', c) \<Longrightarrow> app_step env fe u (s, calls) (s', calls)"

inductive_cases app_stepE: "app_step env fe u w w'"

lemma own_application_props:
  assumes "own_application s u app = Some a"
  shows "a \<in> set (applications s)" "app_id a = app" "app_owner a = u"
  using assms by (auto simp: own_application_def dest: find_SomeD)

lemma mine_own:
  assumes "own_application s u app = Some a" "apps_ok s" "app_id b = app_id a" "app_owner b = app_owner a"
  shows "mine u b s"
proof -
  have "r = a" if "r \<in> set (applications s)" "app_id r = app_id a" for r
    using assms(2) own_application_props(1)[OF assms(1)] that by (auto simp: apps_ok_def distinct_map inj_on_def)
  then show ?thesis using assms(3,4) own_application_props(3)[OF assms(1)] by (auto simp: mine_def)
qed

lemma apartI: "(apps_ok s \<Longrightarrow> apart u s s') \<Longrightarrow> apart u s s'"
  by (simp add: apart_def)

lemma apart_edit_own:
  assumes "\<And>a. app_id (f a) = app_id a" "\<And>a. app_owner (f a) = app_owner a" "\<And>a. inbound_email_alias (f a) = inbound_email_alias a"
  shows "apart u s (fst (edit_own u app f reply s))"
proof (rule apartI)
  assume ok: "apps_ok s"
  show ?thesis
  proof (cases "own_application s u app")
    case (Some a)
    show ?thesis
    proof (cases "list_ex (clashes (f a)) (applications s)")
      case False
      have "inbound_email_alias (f a) \<noteq> []" using ok own_application_props(1)[OF Some] assms(3) by (auto simp: apps_ok_def)
      moreover have "app_id (f a) \<noteq> 0" using ok own_application_props(1)[OF Some] assms(1) by (auto simp: apps_ok_def)
      moreover have "mine u (f a) s" using mine_own[OF Some ok] assms by simp
      ultimately have "apart u s (fst (write_application (f a) s))" "app_id (f a) \<noteq> 0" using apart_write by simp_all
      then show ?thesis using False by (simp add: edit_own_def write_fields_def write_accepted Some)
    qed (simp add: edit_own_def write_fields_def Some)
  qed (simp add: edit_own_def)
qed

lemma apart_create: "apart (user_id u) (fst w) (fst (fst (application_create env fe dr now u r w)))"
proof (cases "quota_required (env_config env) (fst w) now u :: created_view response option")
  case None
  show ?thesis
  proof (cases "validate_application fe False r")
    case (Some y)
    then show ?thesis
    proof (cases y)
      case (Inr v)
      let ?a = "set_new_app_token (env_secrets env) (token_draw dr) (new_application (user_id u) v now)"
      have a: "apps_ok (fst w) \<Longrightarrow> mine (user_id u) ?a (fst w)"
        by (auto simp: mine_def set_new_app_token_def new_application_def Let_def apps_ok_def)
      have "fst (fst (application_create env fe dr now u r w)) = fst (fst (save_application env dr ?a w))"
        using None Some Inr by (simp add: application_create_def Let_def split: prod.split save_outcome.split)
      then show ?thesis using apart_save[OF a] by (auto intro: apartI)
    qed (simp add: application_create_def None)
  qed (simp add: application_create_def None)
qed (simp add: application_create_def)

lemma apart_patch: "apart u (fst w) (fst (fst (application_patch env fe dr u app r w)))"
proof (rule apartI)
  assume ok: "apps_ok (fst w)"
  show ?thesis
  proof (cases "own_application (fst w) u app")
    case own: (Some a)
    show ?thesis
    proof (cases "validate_application fe True r")
      case (Some y)
      then show ?thesis
      proof (cases y)
        case (Inr v)
        have "mine u (apply_request v a) (fst w)" by (rule mine_own[OF own ok]) (simp_all add: apply_request_def)
        moreover have "fst (fst (application_patch env fe dr u app r w)) = fst (fst (save_application env dr (apply_request v a) w))"
          using own Some Inr by (simp add: application_patch_def Let_def split: prod.split save_outcome.split)
        ultimately show ?thesis using apart_save by simp
      qed (simp add: application_patch_def own)
    qed (simp add: application_patch_def own)
  qed (simp add: application_patch_def)
qed

lemma apart_delete:
  assumes "apps_ok s" "own_application s u app = Some a"
  shows "apart u s (delete_application_rows app s)"
proof -
  have apps: "applications (delete_application_rows app s) = filter (\<lambda>a. app_id a \<noteq> app) (applications s)"
    "next_pk (delete_application_rows app s) = next_pk s"
    by (simp_all add: delete_application_rows_def delete_notifications_def Let_def)
  have owned: "mine u a s" by (rule mine_own[OF assms(2,1)]) simp_all
  have "foreign u (delete_application_rows app s) = foreign u s"
    unfolding foreign_def apps filter_filter using owned own_application_props(2)[OF assms(2)]
    by (auto simp: mine_def intro!: filter_cong)
  moreover have "apps_ok (delete_application_rows app s)"
    using assms(1) unfolding apps_ok_def apps by (auto simp: distinct_map_filter)
  ultimately show ?thesis by (simp add: apart_def)
qed

lemma apart_destroy: "apart u (fst w) (fst (fst (application_destroy env u app w)))"
proof (rule apartI)
  assume ok: "apps_ok (fst w)"
  show ?thesis
  proof (cases "own_application (fst w) u app")
    case (Some a)
    have "fst (fst (application_destroy env u app w)) = delete_application_rows app (fst w)"
      using Some own_application_props(2)[OF Some]
      by (simp add: application_destroy_def delete_application_def deprovision_def Let_def split: prod.split option.split)
    then show ?thesis using apart_delete[OF ok Some] by simp
  qed (simp add: application_destroy_def)
qed

lemma regenerate_db: "fst (fst (regenerate_inbound_email env dr a w)) =
    fst (fst (save_application env dr (a\<lparr>inbound_email_alias := [], inbound_email_suffix := []\<rparr>) w))"
proof -
  obtain s1 c1 o1 where "save_application env dr (a\<lparr>inbound_email_alias := [], inbound_email_suffix := []\<rparr>) w = ((s1, c1), o1)"
    by (metis surj_pair)
  then show ?thesis by (cases o1) (simp_all add: regenerate_inbound_email_def deprovision_def Let_def)
qed

lemma apart_readdress: "apart u (fst w) (fst (fst (application_regenerate_email env dr u app w)))"
proof (rule apartI)
  assume ok: "apps_ok (fst w)"
  show ?thesis
  proof (cases "own_application (fst w) u app")
    case (Some a)
    have "mine u (a\<lparr>inbound_email_alias := [], inbound_email_suffix := []\<rparr>) (fst w)"
      by (rule mine_own[OF Some ok]) simp_all
    moreover have "fst (fst (application_regenerate_email env dr u app w)) = fst (fst (regenerate_inbound_email env dr a w))"
      using Some by (simp add: application_regenerate_email_def split: prod.split save_outcome.split)
    ultimately show ?thesis using apart_save regenerate_db by simp
  qed (simp add: application_regenerate_email_def)
qed

lemma apart_step: "app_step env fe u w w' \<Longrightarrow> apart (user_id u) (fst w) (fst w')"
proof (induction rule: app_step.induct)
  case (created dr now r w w' x)
  then show ?case using apart_create[of u w env fe dr now r] by simp
next
  case (patched dr app r w w' y)
  then show ?case using apart_patch[of "user_id u" w env fe dr app r] by simp
next
  case (destroyed app w w' z)
  then show ?case using apart_destroy[of "user_id u" w env app] by simp
next
  case (readdressed dr app w w' v)
  then show ?case using apart_readdress[of "user_id u" w env dr app] by simp
next
  case (retokened dr app s s' t calls)
  have "apart (user_id u) s (fst (application_regenerate_token env dr (user_id u) app s))"
    unfolding application_regenerate_token_def by (rule apart_edit_own) (simp_all add: set_new_app_token_def Let_def)
  then show ?case using retokened by simp
next
  case (activated app s s' p calls)
  have "apart (user_id u) s (fst (application_activate (user_id u) app s))"
    unfolding application_activate_def by (rule apart_edit_own) simp_all
  then show ?case using activated by simp
next
  case (deactivated app s s' p calls)
  have "apart (user_id u) s (fst (application_deactivate (user_id u) app s))"
    unfolding application_deactivate_def by (rule apart_edit_own) simp_all
  then show ?case using deactivated by simp
next
  case (revoked now app s s' k calls)
  have "apart (user_id u) s (fst (application_revoke_token now (user_id u) app s))"
    unfolding application_revoke_token_def by (rule apart_edit_own) simp_all
  then show ?case using revoked by simp
next
  case (rotated dr now app s s' c calls)
  have "apart (user_id u) s (fst (application_rotate_code dr now (user_id u) app s))"
    unfolding application_rotate_code_def by (rule apart_edit_own) (simp_all add: rotate_enrolment_code_def)
  then show ?case using rotated by simp
qed

section \<open>Properties\<close>

lemma save_allocates:
  assumes "inbound_email_alias a = []"
  shows "\<exists>n \<le> 12. allocated env dr (fill_defaults env dr a) (List.find (accepted env dr (fill_defaults env dr a) s) [0..<12])
    (consumed n s) calls (save_application env dr a (s, calls))"
proof -
  let ?a = "fill_defaults env dr a"
  have save: "save_application env dr a (s, calls) = allocate env dr ?a 0 max_alias_attempts False (s, calls)"
    using assms by (simp add: save_application_def Let_def)
  have "allocation env dr ?a [0..<0 + max_alias_attempts] (s, calls) (save_application env dr a (s, calls))"
    unfolding save by (rule allocate_allocation)
  moreover have "[0..<0 + max_alias_attempts] = [0..<12]" "length [0..<12::nat] = 12" by (simp_all add: max_alias_attempts_def)
  ultimately show ?thesis unfolding allocation_def fst_conv snd_conv by metis
qed

text \<open>
  C12. Giving an application its address ends: the loop stops at the first of its twelve draws that is
  neither the address of the polled mailbox nor refused by a unique column, writes the row with that
  address and attaches it to the mailbox exactly once; when all twelve are unacceptable nothing is
  stored (at most twelve numbers of the sequence are used up) and an error is raised.
\<close>

theorem alias_allocation_ends:
  assumes "inbound_email_alias a = []"
  shows "\<exists>n \<le> 12. case List.find (accepted env dr (fill_defaults env dr a) s) [0..<12] of
      None \<Rightarrow> \<exists>e. save_application env dr a (s, calls) = ((consumed n s, calls), Not_Saved e)
    | Some j \<Rightarrow> \<exists>row s'. write_application (candidate env dr (fill_defaults env dr a) j) (consumed n s) = (s', Some row) \<and>
        inbound_email_alias row = generate_alias (env_config env) (slugify env (app_name a)) (alias_draw dr j) \<and>
        save_application env dr a (s, calls) =
          ((s', calls @ [Attach (inbound_email_address (env_config env) row)]),
           saved_or_raised row (provision_alias (env_exchange env) (inbound_email_address (env_config env) row)))"
proof -
  let ?a = "fill_defaults env dr a"
  obtain n where n: "n \<le> 12" "allocated env dr ?a (List.find (accepted env dr ?a s) [0..<12]) (consumed n s) calls
      (save_application env dr a (s, calls))"
    using save_allocates[OF assms] by blast
  show ?thesis
  proof (cases "List.find (accepted env dr ?a s) [0..<12]")
    case None
    then have "\<exists>e. save_application env dr a (s, calls) = ((consumed n s, calls), Not_Saved e)"
      using n(2) by (simp add: allocated_def)
    then show ?thesis using n(1) None by auto
  next
    case (Some j)
    then obtain row s' where w: "write_application (candidate env dr ?a j) (consumed n s) = (s', Some row)"
      and out: "save_application env dr a (s, calls) =
          ((s', calls @ [Attach (inbound_email_address (env_config env) row)]),
           saved_or_raised row (provision_alias (env_exchange env) (inbound_email_address (env_config env) row)))"
      using n(2) by (auto simp: allocated_def)
    have row: "inbound_email_alias row = generate_alias (env_config env) (slugify env (app_name a)) (alias_draw dr j)"
      using w by (auto simp: write_application_def candidate_def Let_def split: if_splits)
    show ?thesis using n(1) Some w out row by auto
  qed
qed

lemma apart_steps:
  assumes "(\<lambda>w w'. \<exists>u \<in> U. app_step env fe u w w')\<^sup>*\<^sup>* w w'" "apps_ok (fst w)"
  shows "apps_ok (fst w') \<and> filter (\<lambda>a. app_owner a \<notin> user_id ` U) (applications (fst w')) =
    filter (\<lambda>a. app_owner a \<notin> user_id ` U) (applications (fst w))"
  using assms
proof (induction rule: rtranclp_induct)
  case base
  then show ?case by simp
next
  case (step y z)
  then obtain u where u: "u \<in> U" "app_step env fe u y z" by blast
  have a: "apps_ok (fst z)" "foreign (user_id u) (fst z) = foreign (user_id u) (fst y)"
    using apart_step[OF u(2)] step by (auto simp: apart_def)
  have "filter (\<lambda>a. app_owner a \<notin> user_id ` U) xs = filter (\<lambda>a. app_owner a \<notin> user_id ` U) (filter (\<lambda>a. app_owner a \<noteq> user_id u) xs)" for xs
    using u(1) by (auto intro!: filter_cong)
  then have "filter (\<lambda>a. app_owner a \<notin> user_id ` U) (applications (fst z)) = filter (\<lambda>a. app_owner a \<notin> user_id ` U) (applications (fst y))"
    using a(2) unfolding foreign_def by metis
  then show ?case using step a(1) by simp
qed

text \<open>
  C6. Applications stay apart: whatever sequence of requests (creations, edits, deletions, new
  addresses, tokens and codes) a group of users makes, keys, token hashes, enrolment codes, addresses
  and suffixes stay unique and addresses are never empty, and the applications of everybody else are
  exactly what they were.
\<close>

theorem applications_stay_apart:
  assumes "apps_ok (fst w)" and "(\<lambda>w w'. \<exists>u \<in> U. app_step env fe u w w')\<^sup>*\<^sup>* w w'"
  shows "apps_ok (fst w') \<and>
    filter (\<lambda>a. app_owner a \<notin> user_id ` U) (applications (fst w')) = filter (\<lambda>a. app_owner a \<notin> user_id ` U) (applications (fst w))"
  by (rule apart_steps[OF assms(2,1)])

text \<open>The references of the rows an application owns, beside those of \<open>references_ok\<close>.\<close>

definition belongings_ok :: "db \<Rightarrow> bool" where
  "belongings_ok s \<longleftrightarrow>
     (\<forall>q \<in> set (app_quiet_periods s). qp_parent q \<in> app_id ` set (applications s)) \<and>
     (\<forall>t \<in> set (send_tokens s). tok_application t \<in> app_id ` set (applications s)) \<and>
     (\<forall>t \<in> set (templates s). tpl_application t \<in> app_id ` set (applications s)) \<and>
     (\<forall>v \<in> set (reveals s). rev_token v \<in> tok_id ` set (send_tokens s)) \<and>
     (\<forall>l \<in> set (inbound_logs s). \<forall>i. log_application l = Some i \<longrightarrow> i \<in> app_id ` set (applications s))"

text \<open>The rows the other applications own: nothing of them may be lost.\<close>

definition belongs :: "db \<Rightarrow> pk \<Rightarrow> delivery \<Rightarrow> bool" where
  "belongs s app d \<longleftrightarrow> list_ex (\<lambda>n. ntf_id n = dlv_notification d \<and> ntf_application n = app) (notifications s)"

lemma delete_rows_simps [simp]:
  "applications (delete_application_rows app s) = filter (\<lambda>a. app_id a \<noteq> app) (applications s)"
  "notifications (delete_application_rows app s) = filter (\<lambda>n. ntf_application n \<noteq> app) (notifications s)"
  "links (delete_application_rows app s) = filter (\<lambda>l. link_application l \<noteq> app) (links s)"
  "devices (delete_application_rows app s) = devices s"
  "device_quiet_periods (delete_application_rows app s) = device_quiet_periods s"
  "app_quiet_periods (delete_application_rows app s) = filter (\<lambda>q. qp_parent q \<noteq> app) (app_quiet_periods s)"
  "send_tokens (delete_application_rows app s) = filter (\<lambda>t. tok_application t \<noteq> app) (send_tokens s)"
  "templates (delete_application_rows app s) = filter (\<lambda>t. tpl_application t \<noteq> app) (templates s)"
  by (simp_all add: delete_application_rows_def delete_notifications_def Let_def)

lemma delete_rows_deliveries:
  "set (deliveries (delete_application_rows app s)) = {d \<in> set (deliveries s). \<not> belongs s app d}"
  unfolding delete_application_rows_def delete_notifications_def Let_def belongs_def list_ex_iff by (simp add: image_iff) metis

lemma delete_rows_reveals:
  "set (reveals (delete_application_rows app s)) =
     {v \<in> set (reveals s). \<forall>t \<in> set (send_tokens s). tok_id t = rev_token v \<longrightarrow> tok_application t \<noteq> app}"
  unfolding delete_application_rows_def Let_def by (simp add: image_iff) metis

lemma delete_rows_logs:
  "inbound_logs (delete_application_rows app s) = map (\<lambda>l0.
     let l = (if (case log_notification l0 of None \<Rightarrow> False | Some i \<Rightarrow> i \<in> ntf_id ` {n \<in> set (notifications s). ntf_application n = app})
              then l0\<lparr>log_notification := None\<rparr> else l0)
     in if log_application l = Some app then l\<lparr>log_application := None\<rparr> else l) (inbound_logs s)"
  by (simp add: delete_application_rows_def delete_notifications_def Let_def update_where_def o_def split: option.split)

lemma delete_rows_log:
  assumes "l \<in> set (inbound_logs (delete_application_rows app s))"
  obtains l0 where "l0 \<in> set (inbound_logs s)"
    "log_application l = log_application l0 \<and> log_application l0 \<noteq> Some app \<or> log_application l = None"
    "log_notification l = log_notification l0 \<and> (case log_notification l0 of None \<Rightarrow> True
       | Some i \<Rightarrow> i \<notin> ntf_id ` {n \<in> set (notifications s). ntf_application n = app}) \<or> log_notification l = None"
proof -
  let ?g = "ntf_id ` {n \<in> set (notifications s). ntf_application n = app}"
  obtain l0 where l0: "l0 \<in> set (inbound_logs s)"
    "l = (let l = (if (case log_notification l0 of None \<Rightarrow> False | Some i \<Rightarrow> i \<in> ?g) then l0\<lparr>log_notification := None\<rparr> else l0)
     in if log_application l = Some app then l\<lparr>log_application := None\<rparr> else l)"
    using assms unfolding delete_rows_logs set_map by blast
  show thesis
    by (rule that[OF l0(1)]) (simp_all add: l0(2) Let_def split: option.split)
qed

lemma filtered_key:
  assumes "i \<in> k ` set rs" "\<forall>r \<in> set rs. k r = i \<longrightarrow> P r"
  shows "i \<in> k ` set (filter P rs)"
  using assms by auto


lemma lower_generated:
  assumes "lower slugified = slugified" "lower hex = hex"
  shows "lower (generate_alias cfg slugified hex) = generate_alias cfg slugified hex"
proof -
  obtain w where g: "generate_alias cfg slugified hex = w @ CHR ''-'' # hex @ alias_suffix cfg"
    and w: "set w \<subseteq> set slugified \<union> set ''app''" by (rule generate_alias_shape)
  have "lower_char c = c" if "c \<in> set w" for c
  proof -
    consider "c \<in> set slugified" | "c \<in> set ''app''" using w \<open>c \<in> set w\<close> by blast
    then show ?thesis
    proof cases
      case 1
      then show ?thesis using assms(1) by (simp add: lower_id_iff)
    next
      case 2
      have "\<forall>c \<in> set ''app''. lower_char c = c" by code_simp
      then show ?thesis using 2 by blast
    qed
  qed
  then have "lower w = w" by (simp add: lower_id_iff)
  moreover have "lower (alias_suffix cfg) = alias_suffix cfg" by (simp add: alias_suffix_def)
  moreover have "lower_char CHR ''-'' = CHR ''-''" by code_simp
  ultimately show ?thesis unfolding g by (simp add: lower_append lower_Cons assms(2))
qed

lemma generated_is_alias:
  assumes "alias_suffix cfg \<noteq> []" "lower local = generate_alias cfg slugified hex"
  shows "is_alias_local_part cfg local"
proof -
  obtain w where g: "generate_alias cfg slugified hex = w @ CHR ''-'' # hex @ alias_suffix cfg" by (rule generate_alias_shape)
  have "ends_with ((w @ CHR ''-'' # hex) @ alias_suffix cfg) (alias_suffix cfg)" by (simp add: ends_with_iff)
  then show ?thesis using assms g by (simp add: is_alias_local_part_def is_current_format_def)
qed

text \<open>The lookup of the routing, when addresses are stored in lower case and unique.\<close>

lemma routed:
  assumes "apps_ok s" "\<forall>b \<in> set (applications s). lower (inbound_email_alias b) = inbound_email_alias b"
    and "b \<in> set (applications s)" "lower local = inbound_email_alias b" "is_alias_local_part cfg local"
    and "recipient \<notin> set (mailbox_addresses cfg)" "app_is_active b" "app_revoked_at b = None"
  shows "application_of_alias cfg s local recipient = Some b"
proof -
  let ?P = "\<lambda>a. lower (inbound_email_alias a) = lower local \<and> app_is_active a \<and> app_revoked_at a = None"
  have u: "a = b" if "a \<in> set (applications s)" "?P a" for a
  proof -
    have "inbound_email_alias a = inbound_email_alias b" using that assms(2,3,4) by auto
    then have "app_id a = app_id b" using assms(1,3) that(1) unfolding apps_ok_def clashes_def by metis
    then show ?thesis using assms(1,3) that(1) by (auto simp: apps_ok_def distinct_map inj_on_def)
  qed
  have pb: "?P b" using assms(2,3,4,7,8) by auto
  obtain a where a: "List.find ?P (applications s) = Some a"
    using pb assms(3) by (cases "List.find ?P (applications s)") (auto simp: find_None_iff)
  then have "a = b" using u find_SomeD[OF a] by blast
  then show ?thesis using a assms(5,6) by (simp add: application_of_alias_def)
qed

lemma unrouted:
  assumes "\<forall>b \<in> set (applications s). lower (inbound_email_alias b) \<noteq> lower local"
  shows "application_of_alias cfg s local recipient = None"
  using assms by (auto simp: application_of_alias_def find_None_iff)

lemma readdressed_row:
  assumes ok: "apps_ok s" and own: "own_application s u app = Some a"
    and done_: "application_regenerate_email env dr u app (s, calls) = ((s', calls'), Reply 200 (i, ali, address))"
  obtains row j n where "i = app" "app_id row = app" "inbound_email_alias row = ali" "address = inbound_email_address (env_config env) row"
    "ali = generate_alias (env_config env) (slugify env (app_name a)) (alias_draw dr j)"
    "app_is_active row = app_is_active a" "app_revoked_at a = None \<longrightarrow> app_revoked_at row = None"
    "s' = put_applications (\<lambda>r. app_id r = app) (\<lambda>_. row) (consumed n s)"
    "\<not> list_ex (clashes row) (applications s)"
    "calls' = calls @ [Attach address] @ (if inbound_email_alias a \<noteq> ali then [Detach (inbound_email_alias a @ CHR ''@'' # inbound_email_domain (env_config env))] else [])"
proof -
  let ?a = "a\<lparr>inbound_email_alias := [], inbound_email_suffix := []\<rparr>"
  let ?f = "fill_defaults env dr ?a"
  note props = own_application_props[OF own]
  have id: "app_id ?f \<noteq> 0" "inbound_email_alias a \<noteq> []" using ok props(1) by (auto simp: apps_ok_def)
  obtain n where n: "case List.find (accepted env dr ?f s) [0..<12] of
      None \<Rightarrow> \<exists>e. save_application env dr ?a (s, calls) = ((consumed n s, calls), Not_Saved e)
    | Some j \<Rightarrow> \<exists>row s'. write_application (candidate env dr ?f j) (consumed n s) = (s', Some row) \<and>
        inbound_email_alias row = generate_alias (env_config env) (slugify env (app_name ?a)) (alias_draw dr j) \<and>
        save_application env dr ?a (s, calls) =
          ((s', calls @ [Attach (inbound_email_address (env_config env) row)]),
           saved_or_raised row (provision_alias (env_exchange env) (inbound_email_address (env_config env) row)))"
    using alias_allocation_ends[of ?a env dr s calls] by auto
  have "List.find (accepted env dr ?f s) [0..<12] \<noteq> None"
  proof
    assume "List.find (accepted env dr ?f s) [0..<12] = None"
    then obtain e where "save_application env dr ?a (s, calls) = ((consumed n s, calls), Not_Saved e)" using n by auto
    then show False using done_ own by (simp add: application_regenerate_email_def regenerate_inbound_email_def internal_error_def)
  qed
  then obtain j row s1 where w: "write_application (candidate env dr ?f j) (consumed n s) = (s1, Some row)"
    "inbound_email_alias row = generate_alias (env_config env) (slugify env (app_name a)) (alias_draw dr j)"
    and save: "save_application env dr ?a (s, calls) =
          ((s1, calls @ [Attach (inbound_email_address (env_config env) row)]),
           saved_or_raised row (provision_alias (env_exchange env) (inbound_email_address (env_config env) row)))"
    using n by auto
  have row: "row = candidate env dr ?f j" "s1 = put_applications (\<lambda>r. app_id r = app) (\<lambda>_. row) (consumed n s)"
    "\<not> list_ex (clashes row) (applications s)"
    using w(1) id(1) props(2) by (auto simp: write_application_def split: if_splits)
  have keep: "app_id row = app" "app_is_active row = app_is_active a" "app_revoked_at a = None \<longrightarrow> app_revoked_at row = None"
    using props(2) by (simp_all add: row(1) candidate_def fill_defaults_def set_new_app_token_def Let_def)
  have saved: "provision_alias (env_exchange env) (inbound_email_address (env_config env) row) = None"
    using done_ own save by (cases "provision_alias (env_exchange env) (inbound_email_address (env_config env) row)")
      (auto simp: application_regenerate_email_def regenerate_inbound_email_def internal_error_def saved_or_raised_def)
  have out: "i = app_id row" "ali = inbound_email_alias row" "address = inbound_email_address (env_config env) row" "s' = s1"
    "calls' = calls @ [Attach address] @ (if inbound_email_alias a \<noteq> ali then [Detach (inbound_email_alias a @ CHR ''@'' # inbound_email_domain (env_config env))] else [])"
    using done_ own save saved id(2)
    by (auto simp: application_regenerate_email_def regenerate_inbound_email_def saved_or_raised_def deprovision_def
        internal_error_def Let_def split: option.splits if_splits)
  show thesis
    by (rule that[of row j n]) (use out keep row w(2) in simp_all)
qed

text \<open>
  A new address replaces the old one: after it has been drawn, mail to the new address in any
  case of its letters routes to the application and mail to the old one to no application at all,
  addresses are still unique and in lower case, and the mailbox was told to attach the new and then
  to detach the old, once each.
\<close>

theorem new_address_replaces_the_old:
  assumes "apps_ok s" and "\<forall>b \<in> set (applications s). lower (inbound_email_alias b) = inbound_email_alias b"
    and "own_application s u app = Some a" and "app_is_active a" and "app_revoked_at a = None"
    and "lower (slugify env (app_name a)) = slugify env (app_name a)" and "\<forall>j. lower (alias_draw dr j) = alias_draw dr j"
    and "alias_suffix (env_config env) \<noteq> []" and "recipient \<notin> set (mailbox_addresses (env_config env))"
    and "application_regenerate_email env dr u app (s, calls) = ((s', calls'), Reply 200 (i, ali, address))"
    and "ali \<noteq> inbound_email_alias a"
  shows "apps_ok s' \<and> (\<forall>b \<in> set (applications s'). lower (inbound_email_alias b) = inbound_email_alias b) \<and>
    (lower local = ali \<longrightarrow> map_option app_id (application_of_alias (env_config env) s' local recipient) = Some app) \<and>
    (lower local = inbound_email_alias a \<longrightarrow> application_of_alias (env_config env) s' local recipient = None) \<and>
    calls' = calls @ [Attach address, Detach (inbound_email_alias a @ CHR ''@'' # inbound_email_domain (env_config env))]"
proof -
  let ?cfg = "env_config env"
  note props = own_application_props[OF assms(3)]
  obtain row j n where "i = app" and row1: "app_id row = app" "inbound_email_alias row = ali"
    and "address = inbound_email_address ?cfg row" and row2: "ali = generate_alias ?cfg (slugify env (app_name a)) (alias_draw dr j)"
    "app_is_active row = app_is_active a" "app_revoked_at a = None \<longrightarrow> app_revoked_at row = None"
    and s': "s' = put_applications (\<lambda>r. app_id r = app) (\<lambda>_. row) (consumed n s)"
    and "\<not> list_ex (clashes row) (applications s)"
    and calls: "calls' = calls @ [Attach address] @ (if inbound_email_alias a \<noteq> ali then [Detach (inbound_email_alias a @ CHR ''@'' # inbound_email_domain ?cfg)] else [])"
    by (rule readdressed_row[OF assms(1,3,10)])
  note row = row1 row2
  have low: "lower ali = ali" unfolding row(3) by (rule lower_generated) (use assms(6,7) in auto)
  have "fst (fst (application_regenerate_email env dr u app (s, calls))) = s'" using assms(10) by simp
  then have ok: "apps_ok s'" using apart_readdress[of u "(s, calls)" env dr app] assms(1) by (simp add: apart_def)
  have rows: "b = row \<or> (b \<in> set (applications s) \<and> app_id b \<noteq> app)" if "b \<in> set (applications s')" for b
    using that put_row_set[of app row "consumed n s"] unfolding s' by auto
  have mem: "row \<in> set (applications s')"
    using props by (force simp: s' put_applications_def update_where_def image_iff)
  have lows: "\<forall>b \<in> set (applications s'). lower (inbound_email_alias b) = inbound_email_alias b"
    using rows low row(2) assms(2) by blast
  have new: "application_of_alias ?cfg s' local recipient = Some row" if "lower local = ali"
    by (rule routed[OF ok lows mem _ _ assms(9)])
      (use that row assms(4,5) generated_is_alias[OF assms(8)] in auto)
  have old: "application_of_alias ?cfg s' local recipient = None" if l: "lower local = inbound_email_alias a"
  proof (rule unrouted, rule ballI)
    fix b
    assume b: "b \<in> set (applications s')"
    consider "b = row" | "b \<in> set (applications s)" "app_id b \<noteq> app" using rows[OF b] by blast
    then show "lower (inbound_email_alias b) \<noteq> lower local"
    proof cases
      case 1
      then show ?thesis using l row(2) low assms(11) by simp
    next
      case 2
      have "\<not> clashes a b" using assms(1) props(1) 2(1) by (auto simp: apps_ok_def)
      then have "inbound_email_alias b \<noteq> inbound_email_alias a" using 2(2) props(2) by (auto simp: clashes_def)
      then show ?thesis using l assms(2) 2(1) by auto
    qed
  qed
  show ?thesis using ok lows new old calls row(1) assms(11) by simp
qed

text \<open>
  Without a PowerShell interpreter on a server where the integration is switched on, the creation
  of an application fails after it has happened: the row is stored under the hash of the token drawn,
  the answer is an internal error, and the token, which is shown only in the answer of the creation,
  is handed to nobody.
\<close>

theorem missing_powershell_loses_the_token:
  fixes fe :: field_env and r :: application_request and now :: instant and u :: user
  assumes "quota_required (env_config env) s now u = (None :: created_view response option)"
    and "validate_application fe False r = Some (Inr v)" and "sha256 (env_secrets env) (generate_raw_app_token (token_draw dr)) \<noteq> []"
    and "obj = fill_defaults env dr (set_new_app_token (env_secrets env) (token_draw dr) (new_application (user_id u) v now))"
    and "List.find (accepted env dr obj s) [0..<12] = Some j"
    and "provision_alias (env_exchange env) (inbound_email_address (env_config env) (candidate env dr obj j)) = Some e"
    and "application_create env fe dr now u r (s, calls) = ((s', calls'), x)"
  shows "x = internal_error \<and> (\<exists>b. applications s' = applications s @ [b] \<and> app_owner b = user_id u \<and>
      app_token_hash b = sha256 (env_secrets env) (generate_raw_app_token (token_draw dr)))"
proof -
  let ?a = "set_new_app_token (env_secrets env) (token_draw dr) (new_application (user_id u) v now)"
  have a: "inbound_email_alias ?a = []" "app_id obj = 0" "app_owner obj = user_id u"
    "app_token_hash obj = sha256 (env_secrets env) (generate_raw_app_token (token_draw dr))"
    using assms(3) by (simp_all add: assms(4) set_new_app_token_def new_application_def fill_defaults_def Let_def)
  have out: "((s', calls'), x) = (case save_application env dr ?a (s, calls) of
      (w1, Saved b) \<Rightarrow> (w1, Reply 201 (read_created (env_config env) (generate_raw_app_token (token_draw dr)) b)) | (w1, _) \<Rightarrow> (w1, internal_error))"
    using assms(1,2,7) by (simp add: application_create_def Let_def)
  obtain n row s1 where w: "write_application (candidate env dr obj j) (consumed n s) = (s1, Some row)"
    and save: "save_application env dr ?a (s, calls) =
          ((s1, calls @ [Attach (inbound_email_address (env_config env) row)]),
           saved_or_raised row (provision_alias (env_exchange env) (inbound_email_address (env_config env) row)))"
    using alias_allocation_ends[OF a(1), of env dr s calls] unfolding assms(4)[symmetric] assms(5) option.case by blast
  have row: "row = (candidate env dr obj j)\<lparr>app_id := next_pk (consumed n s)\<rparr>" "applications s1 = applications s @ [row]"
    using w a(2) by (auto simp: write_application_def Let_def split: if_splits)
  have "inbound_email_address (env_config env) row = inbound_email_address (env_config env) (candidate env dr obj j)"
    by (simp add: row(1) inbound_email_address_def)
  then have "save_application env dr ?a (s, calls) =
      ((s1, calls @ [Attach (inbound_email_address (env_config env) row)]), Saved_Then_Raised row e)"
    using save assms(6) by (simp add: saved_or_raised_def)
  then have "x = internal_error" "s' = s1" using out by simp_all
  moreover have "app_owner row = user_id u" "app_token_hash row = sha256 (env_secrets env) (generate_raw_app_token (token_draw dr))"
    using a(3,4) by (simp_all add: row(1) candidate_def Let_def)
  ultimately show ?thesis using row(2) by blast
qed

section \<open>Logos\<close>

definition logos_ok :: "db \<times> string list \<Rightarrow> bool" where
  "logos_ok st \<longleftrightarrow> distinct (map app_id (applications (fst st))) \<and> distinct (snd st) \<and>
     distinct (filter (\<lambda>f. f \<noteq> []) (map app_logo (applications (fst st)))) \<and>
     (\<forall>a \<in> set (applications (fst st)). app_logo a \<noteq> [] \<longrightarrow> app_logo a \<in> set (snd st))"

lemma logo_of:
  "logos_ok st \<Longrightarrow> a \<in> set (applications (fst st)) \<Longrightarrow> b \<in> set (applications (fst st)) \<Longrightarrow> app_logo a \<noteq> [] \<Longrightarrow>
   app_logo a = app_logo b \<Longrightarrow> a = b"
proof -
  have "distinct (filter (\<lambda>f. f \<noteq> []) (map g xs)) \<Longrightarrow> a \<in> set xs \<Longrightarrow> b \<in> set xs \<Longrightarrow> g a \<noteq> [] \<Longrightarrow> g a = g b \<Longrightarrow> a = b"
    for g :: "application \<Rightarrow> string" and xs
    by (induction xs) (auto split: if_splits simp: image_iff)
  then show "logos_ok st \<Longrightarrow> a \<in> set (applications (fst st)) \<Longrightarrow> b \<in> set (applications (fst st)) \<Longrightarrow> app_logo a \<noteq> [] \<Longrightarrow>
   app_logo a = app_logo b \<Longrightarrow> a = b" unfolding logos_ok_def by blast
qed

lemma distinct_set_logo:
  assumes "distinct (filter (\<lambda>f. f \<noteq> []) (map app_logo xs))" "distinct (map app_id xs)" "name \<notin> app_logo ` set xs"
  shows "distinct (filter (\<lambda>f. f \<noteq> []) (map app_logo (update_where (\<lambda>r. app_id r = i) (\<lambda>r. r\<lparr>app_logo := name\<rparr>) xs)))"
  using assms
proof (induction xs)
  case (Cons x xs)
  have ids: "map app_id (update_where (\<lambda>r. app_id r = i) (\<lambda>r. r\<lparr>app_logo := name\<rparr>) xs) = map app_id xs"
    by (auto simp: update_where_def)
  have IH: "distinct (filter (\<lambda>f. f \<noteq> []) (map app_logo (update_where (\<lambda>r. app_id r = i) (\<lambda>r. r\<lparr>app_logo := name\<rparr>) xs)))"
    using Cons by (auto split: if_splits)
  show ?case
  proof (cases "app_id x = i")
    case True
    have other: "app_id r \<noteq> i" if "r \<in> set xs" for r
    proof
      assume "app_id r = i"
      then have "app_id x \<in> app_id ` set xs" using True that by (metis image_eqI)
      then show False using Cons.prems(2) by simp
    qed
    have "update_where (\<lambda>r. app_id r = i) (\<lambda>r. r\<lparr>app_logo := name\<rparr>) xs = xs"
      unfolding update_where_def by (rule map_idI) (simp add: other)
    then show ?thesis using True Cons.prems by (auto simp: update_where_def split: if_splits)
  next
    case False
    have "app_logo x \<notin> app_logo ` set (update_where (\<lambda>r. app_id r = i) (\<lambda>r. r\<lparr>app_logo := name\<rparr>) xs)" if "app_logo x \<noteq> []"
      using that Cons.prems(1,3) by (auto simp: update_where_def split: if_splits)
    then show ?thesis using False IH by (auto simp: update_where_def)
  qed
qed (simp add: update_where_def)

lemma find_own_logo:
  "List.find (\<lambda>a. app_id a = app \<and> app_owner a = u) (update_where (\<lambda>r. app_id r = app) (\<lambda>r. r\<lparr>app_logo := name\<rparr>) xs) =
   map_option (\<lambda>r. r\<lparr>app_logo := name\<rparr>) (List.find (\<lambda>a. app_id a = app \<and> app_owner a = u) xs)"
  by (induction xs) (auto simp: update_where_def)

lemma logos_ok_set:
  assumes ok: "logos_ok (s, files)" and a: "a \<in> set (applications s)" and name: "name \<notin> set files" "name \<noteq> []"
  shows "logos_ok (put_applications (\<lambda>r. app_id r = app_id a) (\<lambda>r. r\<lparr>app_logo := name\<rparr>) s,
    if app_logo a \<noteq> [] then filter (\<lambda>f. f \<noteq> app_logo a) (files @ [name]) else files @ [name])"
    (is "logos_ok (?s, ?files)")
proof -
  have logos: "\<forall>b \<in> set (applications s). app_logo b \<noteq> [] \<longrightarrow> app_logo b \<in> set files"
    "distinct (filter (\<lambda>f. f \<noteq> []) (map app_logo (applications s)))" "distinct (map app_id (applications s))" "distinct files"
    using ok by (simp_all add: logos_ok_def)
  have ids: "map app_id (applications ?s) = map app_id (applications s)" by (auto simp: put_applications_def update_where_def)
  have "name \<notin> app_logo ` set (applications s)" using logos(1) name by auto
  then have d: "distinct (filter (\<lambda>f. f \<noteq> []) (map app_logo (applications ?s)))"
    using distinct_set_logo logos(2,3) by (simp add: put_applications_def)
  have files: "distinct ?files" using logos(4) name(1) by simp
  have mem: "app_logo b \<in> set ?files" if b: "b \<in> set (applications ?s)" "app_logo b \<noteq> []" for b
  proof -
    have "name \<noteq> app_logo a \<or> app_logo a = []" using logos(1) a name(1) by auto
    consider "app_logo b = name" | "b \<in> set (applications s)" "app_id b \<noteq> app_id a"
      using b(1) by (auto simp: put_applications_def update_where_def split: if_splits)
    then show ?thesis
    proof cases
      case 1
      then show ?thesis using \<open>name \<noteq> app_logo a \<or> app_logo a = []\<close> name by auto
    next
      case 2
      then have "app_logo b \<noteq> app_logo a" using logo_of[OF ok, of b a] a b(2) by auto
      then show ?thesis using logos(1) 2(1) b(2) by auto
    qed
  qed
  show ?thesis unfolding logos_ok_def fst_conv snd_conv ids using logos(3) d files mem by blast
qed

text \<open>
  Logos: an accepted upload is a PNG, JPEG or WebP image of at most 2 MB and 2048 pixels a side;
  the application then names a file that exists and whose name carries the digest of the content, the
  file it named before is gone from the storage, no two applications share a file and none names a
  missing one, and a second upload of the same image changes nothing.
\<close>

theorem logos_follow_their_content:
  assumes "logos_ok (s, files)" and "\<forall>fs n. n \<noteq> [] \<longrightarrow> available_name ie fs n \<notin> insert [] (set fs)"
    and "\<forall>fs n. n \<notin> set fs \<longrightarrow> available_name ie fs n = n"
    and "own_application s u app = Some a" and "''app_logo/'' @ logo_filename x a up \<notin> set files"
    and "store_logo x ie u app up (s, files) = ((s', files'), Reply 200 a')"
  shows "logos_ok (s', files') \<and> app_logo a' = ''app_logo/'' @ logo_filename x a up \<and> app_logo a' \<in> set files' \<and>
    (app_logo a \<noteq> [] \<longrightarrow> app_logo a \<notin> set files') \<and>
    up_size up \<le> 2 * 1024 * 1024 \<and> (\<exists>fmt w h. decode_image ie up = Some (fmt, w, h) \<and> fmt \<in> {''PNG'', ''JPEG'', ''WEBP''} \<and> w \<le> 2048 \<and> h \<le> 2048) \<and>
    own_application s' u app = Some a' \<and>
    store_logo x ie u app up (s', files') = ((s', files'), Reply 200 a')"
proof -
  let ?path = "''app_logo/'' @ logo_filename x a up"
  note props = own_application_props[OF assms(4)]
  have checks: "image_field_error ie up = None" "validate_logo ie up = None"
    using assms(4,6) by (auto simp: store_logo_def split: option.splits)
  have name: "available_name ie files ?path = ?path" "?path \<notin> set files" using assms(3,5) by blast+
  have prev: "app_logo a \<noteq> ?path"
  proof
    assume "app_logo a = ?path"
    then show False using assms(1,5) props(1) by (fastforce simp: logos_ok_def)
  qed
  have out: "s' = put_applications (\<lambda>r. app_id r = app_id a) (\<lambda>r. r\<lparr>app_logo := ?path\<rparr>) s"
    "files' = (if app_logo a \<noteq> [] then filter (\<lambda>f. f \<noteq> app_logo a) (files @ [?path]) else files @ [?path])"
    "a' = a\<lparr>app_logo := ?path\<rparr>"
    using assms(4,6) checks prev name(1) by (auto simp: store_logo_def Let_def)
  have ok: "logos_ok (s', files')" unfolding out by (rule logos_ok_set[OF assms(1) props(1) name(2)]) simp
  have limits: "up_size up \<le> 2 * 1024 * 1024"
    "\<exists>fmt w h. decode_image ie up = Some (fmt, w, h) \<and> fmt \<in> {''PNG'', ''JPEG'', ''WEBP''} \<and> w \<le> 2048 \<and> h \<le> 2048"
    using checks(2) by (auto simp: validate_logo_def logo_max_bytes_def logo_max_dimension_def logo_allowed_formats_def
        split: if_splits option.splits)
  have own: "own_application s' u app = Some a'"
  proof -
    have "List.find (\<lambda>a. app_id a = app \<and> app_owner a = u) (applications s') =
        map_option (\<lambda>r. r\<lparr>app_logo := ?path\<rparr>) (List.find (\<lambda>a. app_id a = app \<and> app_owner a = u) (applications s))"
      unfolding out(1) props(2) put_applications_def by (simp add: find_own_logo del: append.simps)
    then show ?thesis using assms(4) unfolding own_application_def out(3) by simp
  qed
  have same: "logo_filename x a' up = logo_filename x a up" by (simp add: logo_filename_def out(3))
  have "store_logo x ie u app up (s', files') = ((s', files'), Reply 200 a')"
    using own checks same by (simp add: store_logo_def Let_def out(3))
  then show ?thesis using ok limits own prev by (auto simp: out)
qed

section \<open>A concrete server\<close>

text \<open>
  Two owners with an application each; the first random part drawn is the one of the first
  application. \<open>idle_server\<close> has no mailbox integration, \<open>bare_server\<close> has one but no PowerShell.
\<close>

definition idle_server :: exchange_env where
  "idle_server = bare_server\<lparr>ps_script_path := []\<rparr>"

definition life_env :: app_env where
  "life_env = \<lparr>env_config = default_config, env_secrets = demo_secrets, slugify = (\<lambda>n. n), env_exchange = idle_server\<rparr>"

definition life_draws :: draws where
  "life_draws = \<lparr>token_draw = ''t'', code_draw = ''c-0'', secret_draw = ''w'', alias_draw = (\<lambda>i. if i = 0 then ''00'' else ''a1'')\<rparr>"

definition first_app :: application where
  "first_app = blank_application\<lparr>app_token_hash := ''#1'', enrolment_code := ''apk_1'', webhook_secret := ''whs_1'',
     inbound_email_alias := ''a-00.pushit'', inbound_email_suffix := ''00''\<rparr>"

definition second_app :: application where
  "second_app = blank_application\<lparr>app_id := 2, app_owner := 2, app_token_hash := ''#2'', enrolment_code := ''apk_2'', webhook_secret := ''whs_2'',
     inbound_email_alias := ''b-02.pushit'', inbound_email_suffix := ''02''\<rparr>"

definition life_db :: db where
  "life_db = empty_db\<lparr>applications := [first_app, second_app], next_pk := 3\<rparr>"

definition any_field :: field_env where
  "any_field = \<lparr>webhook_net = \<lparr>urlsplit = (\<lambda>_. None), ip_address = (\<lambda>_. None), getaddrinfo = (\<lambda>_. None)\<rparr>, url_ok = (\<lambda>_. True), email_ok = (\<lambda>_. True)\<rparr>"

lemma life_ok: "apps_ok life_db" by code_simp

theorem alias_allocation_ends_witness:
  "\<exists>row s'. save_application life_env life_draws (blank_application\<lparr>app_id := 0\<rparr>) (life_db, []) =
     ((s', [Attach (inbound_email_address default_config row)]), Saved row) \<and> inbound_email_alias row = ''a-a1.pushit''"
proof -
  have a: "inbound_email_alias (blank_application\<lparr>app_id := 0\<rparr>) = []" by code_simp
  have f: "List.find (accepted life_env life_draws (fill_defaults life_env life_draws (blank_application\<lparr>app_id := 0\<rparr>)) life_db) [0..<12] = Some 1"
    by code_simp
  have g: "generate_alias default_config (slugify life_env (app_name (blank_application\<lparr>app_id := 0\<rparr>))) (alias_draw life_draws 1) = ''a-a1.pushit''"
    by code_simp
  have p: "provision_alias (env_exchange life_env) x = None" for x
    by (simp add: life_env_def provision_alias_def exchange_configured_def idle_server_def)
  have c: "env_config life_env = default_config" by (simp add: life_env_def)
  show ?thesis using alias_allocation_ends[OF a, of life_env life_draws life_db "[]"]
    unfolding f option.case g p saved_or_raised_def c append_Nil by blast
qed

theorem applications_stay_apart_witness:
  "apps_ok (fst (application_deactivate 1 1 life_db)) \<and>
   filter (\<lambda>a. app_owner a \<noteq> 1) (applications (fst (application_deactivate 1 1 life_db))) = [second_app] \<and>
   fst (application_deactivate 1 1 life_db) \<noteq> life_db"
proof -
  let ?w' = "(fst (application_deactivate 1 1 life_db), [] :: alias_call list)"
  have u: "user_id blank_user = 1" by code_simp
  have "app_step life_env any_field blank_user (life_db, []) ?w'"
    using app_step.deactivated[where u = blank_user and app = 1 and s = life_db and env = life_env and fe = any_field and calls = "[]", OF surjective_pairing] u by simp
  then have "(\<lambda>w w'. \<exists>u \<in> {blank_user}. app_step life_env any_field u w w')\<^sup>*\<^sup>* (life_db, []) ?w'" by blast
  from applications_stay_apart[OF _ this] life_ok u
  have "apps_ok (fst (application_deactivate 1 1 life_db)) \<and> filter (\<lambda>a. app_owner a \<noteq> 1) (applications (fst (application_deactivate 1 1 life_db))) =
      filter (\<lambda>a. app_owner a \<noteq> 1) (applications life_db)" by simp
  moreover have "filter (\<lambda>a. app_owner a \<noteq> 1) (applications life_db) = [second_app]" by code_simp
  moreover have "map app_is_active (applications (fst (application_deactivate 1 1 life_db))) \<noteq> map app_is_active (applications life_db)" by code_simp
  ultimately show ?thesis by auto
qed

definition busy_db :: db where
  "busy_db = life_db\<lparr>notifications := [blank_notification, blank_notification\<lparr>ntf_id := 2, ntf_application := 2\<rparr>],
     devices := [blank_device], links := [blank_link], deliveries := [blank_delivery, blank_delivery\<lparr>dlv_id := 2, dlv_notification := 2\<rparr>]\<rparr>"


definition other_draws :: draws where
  "other_draws = life_draws\<lparr>alias_draw := (\<lambda>_. ''a1'')\<rparr>"

definition readdressed :: "world \<times> (pk \<times> string \<times> string) response" where
  "readdressed = application_regenerate_email life_env other_draws 1 1 (life_db, [])"

theorem new_address_replaces_the_old_witness:
  "map_option app_id (application_of_alias default_config (fst (fst readdressed)) ''A-A1.PushIT'' ''x@y'') = Some 1"
proof -
  let ?s' = "fst (fst readdressed)" and ?c' = "snd (fst readdressed)"
  have ok: "apps_ok life_db" by (rule life_ok)
  have low: "\<forall>b \<in> set (applications life_db). lower (inbound_email_alias b) = inbound_email_alias b" by code_simp
  have own: "own_application life_db 1 1 = Some first_app" "app_is_active first_app" "app_revoked_at first_app = None" by code_simp+
  have slug: "lower (slugify life_env (app_name first_app)) = slugify life_env (app_name first_app)" by code_simp
  have draws: "\<forall>j. lower (alias_draw other_draws j) = alias_draw other_draws j"
  proof
    fix j
    have "lower ''a1'' = ''a1''" by code_simp
    then show "lower (alias_draw other_draws j) = alias_draw other_draws j" by (simp add: other_draws_def)
  qed
  have cfg: "alias_suffix (env_config life_env) \<noteq> []" "''x@y'' \<notin> set (mailbox_addresses (env_config life_env))" by code_simp+
  have snd_r: "(case snd readdressed of Reply k v \<Rightarrow> k = 200 \<and> fst v = 1 \<and> fst (snd v) = ''a-a1.pushit'' | _ \<Rightarrow> False)" by code_simp
  then obtain address where r: "snd readdressed = Reply 200 (1, ''a-a1.pushit'', address)"
    by (cases "snd readdressed") auto
  have "application_regenerate_email life_env other_draws 1 1 (life_db, []) = ((?s', ?c'), Reply 200 (1, ''a-a1.pushit'', address))"
    using r by (simp add: readdressed_def prod_eq_iff)
  from new_address_replaces_the_old[OF ok low own slug draws cfg this, of "''A-A1.PushIT''"]
  have "''a-a1.pushit'' \<noteq> inbound_email_alias first_app \<Longrightarrow> lower ''A-A1.PushIT'' = ''a-a1.pushit'' \<Longrightarrow>
     map_option app_id (application_of_alias (env_config life_env) ?s' ''A-A1.PushIT'' ''x@y'') = Some 1" by blast
  moreover have "''a-a1.pushit'' \<noteq> inbound_email_alias first_app" "lower ''A-A1.PushIT'' = ''a-a1.pushit''" by code_simp+
  moreover have "env_config life_env = default_config" by (simp add: life_env_def)
  ultimately show ?thesis by simp
qed

definition bare_env :: app_env where
  "bare_env = life_env\<lparr>env_exchange := bare_server\<rparr>"

definition create_request :: application_request where
  "create_request = \<lparr>rq_name = Some ''n'', rq_description = None, rq_webhook_url = None, rq_mode = None, rq_allowlist = None,
     rq_blocklist = None, rq_notify_email = None, rq_notify_push = None, rq_reply = None\<rparr>"

theorem missing_powershell_loses_the_token_witness:
  "snd (application_create bare_env any_field life_draws 0 blank_user create_request (life_db, [])) = internal_error \<and>
   (\<exists>b. applications (fst (fst (application_create bare_env any_field life_draws 0 blank_user create_request (life_db, [])))) = [first_app, second_app, b] \<and>
     app_token_hash b = ''#apt_t'')"
proof -
  let ?r = "application_create bare_env any_field life_draws 0 blank_user create_request (life_db, [])"
  define obj where "obj = fill_defaults bare_env life_draws (set_new_app_token (env_secrets bare_env) (token_draw life_draws)
    (new_application (user_id blank_user) create_request 0))"
  have q: "quota_required (env_config bare_env) life_db 0 blank_user = (None :: created_view response option)"
    by (simp add: bare_env_def life_env_def quota_required_def billing_configured_def default_config_def)
  have v: "validate_application any_field False create_request = Some (Inr create_request)" by code_simp
  have h: "sha256 (env_secrets bare_env) (generate_raw_app_token (token_draw life_draws)) = ''#apt_t''" by code_simp
  have j: "List.find (accepted bare_env life_draws obj life_db) [0..<12] = Some 1" unfolding obj_def by code_simp
  have p: "provision_alias (env_exchange bare_env) (inbound_email_address (env_config bare_env) (candidate bare_env life_draws obj 1)) = Some ''FileNotFoundError''"
    unfolding obj_def by code_simp
  have "?r = ((fst (fst ?r), snd (fst ?r)), snd ?r)" by simp
  from missing_powershell_loses_the_token[OF q v _ obj_def j p this] h
  have "snd ?r = internal_error \<and> (\<exists>b. applications (fst (fst ?r)) = applications life_db @ [b] \<and> app_token_hash b = ''#apt_t'')" by auto
  then show ?thesis by (simp add: life_db_def)
qed

definition logo_env :: image_env where
  "logo_env = \<lparr>image_field_error = (\<lambda>_. None), decode_image = (\<lambda>_. Some (''PNG'', 8, 8)),
     available_name = (\<lambda>fs n. if n \<in> set fs then CHR ''z'' # concat fs else n)\<rparr>"

definition logo_file :: upload where
  "logo_file = \<lparr>up_name = ''l.png'', up_size = 9, up_content = ''c''\<rparr>"

definition logo_db :: db where
  "logo_db = life_db\<lparr>applications := [first_app\<lparr>app_logo := ''app_logo/old''\<rparr>, second_app]\<rparr>"

lemma fresh_name: "CHR ''z'' # concat fs \<notin> set fs"
proof
  have "length x \<le> length (concat fs)" if "x \<in> set fs" for x :: string
    using that by (induction fs) auto
  moreover assume "CHR ''z'' # concat fs \<in> set fs"
  ultimately show False by (metis impossible_Cons)
qed

theorem logos_follow_their_content_witness:
  "logos_ok (fst (store_logo demo_secrets logo_env 1 1 logo_file (logo_db, [''app_logo/old'']))) \<and>
   ''app_logo/old'' \<notin> set (snd (fst (store_logo demo_secrets logo_env 1 1 logo_file (logo_db, [''app_logo/old'']))))"
proof -
  let ?r = "store_logo demo_secrets logo_env 1 1 logo_file (logo_db, [''app_logo/old''])"
  let ?a = "first_app\<lparr>app_logo := ''app_logo/old''\<rparr>"
  have ok: "logos_ok (logo_db, [''app_logo/old''])" by code_simp
  have av: "\<forall>fs n. n \<noteq> [] \<longrightarrow> available_name logo_env fs n \<notin> insert [] (set fs)" using fresh_name by (auto simp: logo_env_def)
  have id: "\<forall>fs n. n \<notin> set fs \<longrightarrow> available_name logo_env fs n = n" by (simp add: logo_env_def)
  have own: "own_application logo_db 1 1 = Some ?a" by code_simp
  have path: "''app_logo/'' @ logo_filename demo_secrets ?a logo_file \<notin> set [''app_logo/old'']" by code_simp
  have v: "validate_logo logo_env logo_file = None" "image_field_error logo_env logo_file = None"
    by (simp_all add: validate_logo_def logo_env_def logo_file_def logo_max_bytes_def logo_max_dimension_def logo_allowed_formats_def)
  have c: "case snd ?r of Reply k _ \<Rightarrow> k = 200 | _ \<Rightarrow> False" by (simp add: store_logo_def own v Let_def del: One_nat_def)
  obtain s' files' x where r: "?r = ((s', files'), x)" by (metis surj_pair)
  obtain a' where "x = Reply 200 a'" using c unfolding r snd_conv by (cases x) simp_all
  note r' = r[unfolded this]
  from logos_follow_their_content[OF ok av id own path r']
  have "logos_ok (s', files') \<and> (app_logo ?a \<noteq> [] \<longrightarrow> app_logo ?a \<notin> set files')" by blast
  then show ?thesis unfolding r fst_conv snd_conv by simp
qed

end
