(* ===== verification/Accounts.thy ===== *)
theory Accounts
  imports Lifecycle
begin

text \<open>
  Accounts: registration and the links sent by mail (\<open>accounts/magic_link.py\<close>,
  \<open>accounts/password_reset.py\<close>, \<open>accounts/email_confirmation.py\<close>), the change of a password
  (\<open>accounts/password_change.py\<close>), the captcha (\<open>accounts/turnstile.py\<close>), the refresh cookie
  (\<open>accounts/refresh_cookie.py\<close>), the deletion of an account (\<open>accounts/deletion.py\<close>), the staff
  console (\<open>accounts/api_staff_views.py\<close>), and the views and serializers in front of them. Throttling
  is left out: it belongs to the framework.
\<close>

section \<open>Sessions\<close>

text \<open>
  The token library keeps one row per refresh token minted and a list of those that are revoked. A
  refresh token carries its identifier, its user and the claim \<open>persist\<close>; how it is printed and read
  (signature and expiry), the access token derived from it and the rotation of a presented one are
  the library's.
\<close>

record refresh_token =
  rt_id :: string
  rt_user :: pk
  rt_persist :: bool

record outstanding_token =
  ot_id :: string
  ot_user :: "pk option"

record account_world =
  aw_db :: db
  aw_outstanding :: "outstanding_token list"
  aw_blacklist :: "string list"

text \<open>The answer of the captcha service: no answer, or a status with the verdict of its JSON body, if it is one.\<close>

datatype siteverify = Captcha_Unreachable | Captcha_Answer nat "bool option"

text \<open>
  The outside of the accounts: settings; SHA-256; the two token generators of the framework, for the
  user as the row stands; the printing of a key in a link; the hasher and the validators of
  passwords; the captcha service; the printing of tokens.
\<close>

record account_env =
  acc_config :: config
  acc_secrets :: secrets
  graph_client_id :: string
  magic_link_ttl_minutes :: int
  turnstile_secret_key :: string
  cors_allowed_origins :: "string list"
  reset_make_token :: "user \<Rightarrow> string"
  reset_check_token :: "user \<Rightarrow> string \<Rightarrow> bool"
  confirm_make_token :: "user \<Rightarrow> string"
  confirm_check_token :: "user \<Rightarrow> string \<Rightarrow> bool"
  uid_encode :: "pk \<Rightarrow> string"
  uid_decode :: "string \<Rightarrow> pk option"
  make_password :: "string \<Rightarrow> string"
  password_errors :: "user option \<Rightarrow> string \<Rightarrow> string list"
  valid_email :: "string \<Rightarrow> bool"
  ask_siteverify :: "string \<Rightarrow> string option \<Rightarrow> siteverify"
  print_refresh :: "refresh_token \<Rightarrow> string"
  print_access :: "refresh_token \<Rightarrow> string"
  read_refresh :: "instant \<Rightarrow> string \<Rightarrow> refresh_token option"
  read_unverified :: "string \<Rightarrow> refresh_token option"

text \<open>\<open>RefreshToken.for_user\<close> with the identifier drawn, and \<open>BlacklistedToken\<close> rows for all tokens of a user.\<close>

definition mint :: "string \<Rightarrow> pk \<Rightarrow> bool \<Rightarrow> account_world \<Rightarrow> account_world \<times> refresh_token" where
  "mint jti u persist w =
     (w\<lparr>aw_outstanding := aw_outstanding w @ [\<lparr>ot_id = jti, ot_user = Some u\<rparr>]\<rparr>, \<lparr>rt_id = jti, rt_user = u, rt_persist = persist\<rparr>)"

definition add_to_blacklist :: "string list \<Rightarrow> account_world \<Rightarrow> account_world" where
  "add_to_blacklist ids w =
     w\<lparr>aw_blacklist := aw_blacklist w @ filter (\<lambda>i. i \<notin> set (aw_blacklist w)) (remdups ids)\<rparr>"

definition revoke_refresh_tokens :: "pk \<Rightarrow> account_world \<Rightarrow> account_world" where
  "revoke_refresh_tokens u w =
     add_to_blacklist (map ot_id (filter (\<lambda>t. ot_user t = Some u) (aw_outstanding w))) w"

text \<open>\<open>RefreshToken(raw)\<close>: None is the library's \<open>TokenError\<close>.\<close>

definition open_refresh :: "account_env \<Rightarrow> instant \<Rightarrow> string \<Rightarrow> account_world \<Rightarrow> refresh_token option" where
  "open_refresh x now raw w =
     (case read_refresh x now raw of
        None \<Rightarrow> None
      | Some t \<Rightarrow> if rt_id t \<in> set (aw_blacklist w) then None else Some t)"

section \<open>The refresh cookie\<close>

record http_request =
  auth_mode :: string
  origin :: "string option"
  refresh_cookie :: string
  forwarded_for :: string
  remote_addr :: "string option"

datatype cookie_action = Keep_Cookie | Set_Cookie string bool | Clear_Cookie

definition wants_cookie :: "http_request \<Rightarrow> bool" where
  "wants_cookie r \<longleftrightarrow> lower (strip (auth_mode r)) = ''cookie''"

definition origin_allowed :: "account_env \<Rightarrow> http_request \<Rightarrow> bool" where
  "origin_allowed x r \<longleftrightarrow> (case origin r of None \<Rightarrow> False | Some ori \<Rightarrow> ori \<noteq> [] \<and> ori \<in> set (cors_allowed_origins x))"

definition cookie_origin_guard :: "account_env \<Rightarrow> http_request \<Rightarrow> 'a response option" where
  "cookie_origin_guard x r =
     (if wants_cookie r \<and> \<not> origin_allowed x r then Some (Refuse 403 ''origin_not_allowed'') else None)"

definition persists :: "account_env \<Rightarrow> string \<Rightarrow> bool" where
  "persists x raw = (case read_unverified x raw of None \<Rightarrow> True | Some t \<Rightarrow> rt_persist t)"

record user_view =
  uv_id :: pk
  uv_email :: string
  uv_userkey :: string
  uv_is_active :: bool
  uv_email_confirmed :: bool
  uv_language :: string
  uv_is_staff :: bool
  uv_is_superuser :: bool

definition user_me :: "user \<Rightarrow> user_view" where
  "user_me u = \<lparr>uv_id = user_id u, uv_email = user_email u, uv_userkey = userkey u, uv_is_active = user_is_active u,
     uv_email_confirmed = email_confirmed u, uv_language = language u, uv_is_staff = user_is_staff u, uv_is_superuser = user_is_superuser u\<rparr>"

record session_view =
  sv_access :: string
  sv_refresh :: "string option"
  sv_user :: "user_view option"

text \<open>
  An answer with what it does to the cookie. \<open>deliver_tokens\<close> moves the refresh token of a body into
  the cookie; the cookie outlives the browser exactly when the token says so.
\<close>

type_synonym 'a answer = "'a response \<times> cookie_action"

definition deliver_tokens :: "account_env \<Rightarrow> http_request \<Rightarrow> session_view response \<Rightarrow> session_view answer" where
  "deliver_tokens x r resp =
     (if \<not> wants_cookie r then (resp, Keep_Cookie)
      else case resp of
        Reply k v \<Rightarrow>
          (case sv_refresh v of
             None \<Rightarrow> (resp, Keep_Cookie)
           | Some raw \<Rightarrow> if raw = [] then (resp, Keep_Cookie)
                         else (Reply k (v\<lparr>sv_refresh := None\<rparr>), Set_Cookie raw (persists x raw)))
      | _ \<Rightarrow> (resp, Keep_Cookie))"

definition build_token_response :: "account_env \<Rightarrow> string \<Rightarrow> user \<Rightarrow> bool \<Rightarrow> account_world \<Rightarrow> account_world \<times> session_view response" where
  "build_token_response x jti u persist w =
     (case mint jti (user_id u) persist w of
        (w1, t) \<Rightarrow> (w1, Reply 200 \<lparr>sv_access = print_access x t, sv_refresh = Some (print_refresh x t), sv_user = Some (user_me u)\<rparr>))"

definition sign_in :: "account_env \<Rightarrow> http_request \<Rightarrow> string \<Rightarrow> user \<Rightarrow> bool \<Rightarrow> account_world \<Rightarrow> account_world \<times> session_view answer" where
  "sign_in x r jti u persist w = (case build_token_response x jti u persist w of (w1, resp) \<Rightarrow> (w1, deliver_tokens x r resp))"

section \<open>The captcha\<close>

definition turnstile_enabled :: "account_env \<Rightarrow> bool" where
  "turnstile_enabled x \<longleftrightarrow> turnstile_secret_key x \<noteq> []"

definition verify_turnstile_token :: "account_env \<Rightarrow> string \<Rightarrow> string option \<Rightarrow> bool" where
  "verify_turnstile_token x token ip =
     (if token = [] then False
      else if turnstile_secret_key x = [] then False
      else case ask_siteverify x token ip of
        Captcha_Unreachable \<Rightarrow> False
      | Captcha_Answer status verdict \<Rightarrow> status = 200 \<and> verdict = Some True)"

definition get_remote_ip :: "http_request \<Rightarrow> string option" where
  "get_remote_ip r =
     (if forwarded_for r \<noteq> []
      then Some (strip (if CHR '','' \<in> set (forwarded_for r) then after_last CHR '','' (forwarded_for r) else forwarded_for r))
      else remote_addr r)"

definition captcha_gate :: "account_env \<Rightarrow> http_request \<Rightarrow> string option \<Rightarrow> 'a response option" where
  "captcha_gate x r token =
     (if turnstile_enabled x \<and> \<not> verify_turnstile_token x (case token of None \<Rightarrow> [] | Some t \<Rightarrow> t) (get_remote_ip r)
      then Some (Refuse 400 ''captcha_failed'') else None)"

section \<open>Mails with a link\<close>

text \<open>The mail client sends nothing without its configuration and swallows its failures.\<close>

definition send_email :: "account_env \<Rightarrow> string \<Rightarrow> string \<Rightarrow> string \<Rightarrow> account_world \<Rightarrow> account_world" where
  "send_email x recipient subj body w =
     (if graph_client_id x = [] then w
      else w\<lparr>aw_db := send_mail \<lparr>mail_to = recipient, mail_subject = subj, mail_body = body\<rparr> (aw_db w)\<rparr>)"

definition frontend_link :: "account_env \<Rightarrow> string \<Rightarrow> string" where
  "frontend_link x path = rev (dropWhile (\<lambda>c. c = CHR ''/'') (rev (frontend_base_url (acc_config x)))) @ path"

text \<open>\<open>email__iexact\<close> and \<open>first()\<close>: the first row, by key, of the users that match.\<close>

definition user_by_email :: "string \<Rightarrow> (user \<Rightarrow> bool) \<Rightarrow> db \<Rightarrow> user option" where
  "user_by_email email ok s =
     List.find (\<lambda>u. lower (user_email u) = lower (strip email) \<and> ok u) (sort_key user_id (users s))"

definition put_user :: "pk \<Rightarrow> (user \<Rightarrow> user) \<Rightarrow> account_world \<Rightarrow> account_world" where
  "put_user i f w = w\<lparr>aw_db := (aw_db w)\<lparr>users := update_where (\<lambda>u. user_id u = i) f (users (aw_db w))\<rparr>\<rparr>"

section \<open>Sign-in links\<close>

text \<open>The bodies of the mails; a typographic dash is written \<open>--\<close>.\<close>

definition mail_text :: "string list \<Rightarrow> string" where
  "mail_text ls = join_lines ls @ newline"

text \<open>\<open>request_magic_link\<close>, for the token drawn: only its hash is stored.\<close>

definition request_magic_link :: "account_env \<Rightarrow> instant \<Rightarrow> string \<Rightarrow> string \<Rightarrow> account_world \<Rightarrow> account_world" where
  "request_magic_link x now raw email w =
     (case user_by_email email (\<lambda>u. user_is_active u \<and> email_confirmed u) (aw_db w) of
        None \<Rightarrow> w
      | Some u \<Rightarrow>
          (let s = aw_db w;
               row = \<lparr>ml_id = next_pk s, ml_user = user_id u, ml_token_hash = sha256 (acc_secrets x) raw, ml_created_at = now,
                      ml_expires_at = now + magic_link_ttl_minutes x * minute, ml_used_at = None\<rparr>
           in send_email x (user_email u) ''Your PushIT sign-in link''
                (mail_text [''Hello,'', [],
                   ''Use the link below to sign in to PushIT (valid for '' @ str_int (magic_link_ttl_minutes x) @ '' minutes, single use):'', [],
                   frontend_link x (''/auth/magic-link/'' @ raw), [],
                   ''If you didn't request this, you can safely ignore this email.''])
                (w\<lparr>aw_db := s\<lparr>magic_links := magic_links s @ [row], next_pk := Suc (next_pk s)\<rparr>\<rparr>)))"

text \<open>
  \<open>verify_magic_link\<close> reads the row, then consumes it with a conditional update; other requests may come
  between the two. \<open>find_magic_link\<close> is the first half, \<open>consume_magic_link\<close> the second.
\<close>

definition ml_is_valid :: "instant \<Rightarrow> magic_link_token \<Rightarrow> bool" where
  "ml_is_valid now m \<longleftrightarrow> ml_used_at m = None \<and> now < ml_expires_at m"

definition find_magic_link :: "account_env \<Rightarrow> instant \<Rightarrow> string \<Rightarrow> db \<Rightarrow> magic_link_token option" where
  "find_magic_link x now raw s =
     (case List.find (\<lambda>m. ml_token_hash m = sha256 (acc_secrets x) raw) (magic_links s) of
        None \<Rightarrow> None | Some m \<Rightarrow> if ml_is_valid now m then Some m else None)"

definition consume_magic_link :: "instant \<Rightarrow> magic_link_token \<Rightarrow> db \<Rightarrow> db \<times> bool" where
  "consume_magic_link now m s =
     (let hit = (\<lambda>r. ml_id r = ml_id m \<and> ml_used_at r = None \<and> now < ml_expires_at r) in
      (s\<lparr>magic_links := update_where hit (\<lambda>r. r\<lparr>ml_used_at := Some now\<rparr>) (magic_links s)\<rparr>,
       count_where hit (magic_links s) = 1))"

definition verify_magic_link :: "account_env \<Rightarrow> instant \<Rightarrow> string \<Rightarrow> db \<Rightarrow> db \<times> user option" where
  "verify_magic_link x now raw s =
     (case find_magic_link x now raw s of
        None \<Rightarrow> (s, None)
      | Some m \<Rightarrow> (case consume_magic_link now m s of
          (s1, True) \<Rightarrow> (s1, get_user s (ml_user m)) | (s1, False) \<Rightarrow> (s1, None)))"

section \<open>Password reset\<close>

definition request_password_reset :: "account_env \<Rightarrow> string \<Rightarrow> account_world \<Rightarrow> account_world" where
  "request_password_reset x email w =
     (case user_by_email email user_is_active (aw_db w) of
        None \<Rightarrow> w
      | Some u \<Rightarrow> send_email x (user_email u) ''Reset your PushIT password''
          (mail_text [''Hello,'', [],
             ''We received a request to reset your PushIT password. Open the link below to choose a new one:'', [],
             frontend_link x (''/reset-password/'' @ uid_encode x (user_id u) @ ''/'' @ reset_make_token x u), [],
             ''If you didn't request this, you can safely ignore this email -- your password won't change.'']) w)"

datatype reset_result = Reset_Done | Reset_Link_Invalid | Reset_Weak "string list"

definition set_password :: "account_env \<Rightarrow> pk \<Rightarrow> string \<Rightarrow> account_world \<Rightarrow> account_world" where
  "set_password x i new = put_user i (\<lambda>u. u\<lparr>user_password := make_password x new\<rparr>)"

definition confirm_password_reset :: "account_env \<Rightarrow> string \<Rightarrow> string \<Rightarrow> string \<Rightarrow> account_world \<Rightarrow> account_world \<times> reset_result" where
  "confirm_password_reset x uid token new w =
     (case (case uid_decode x uid of None \<Rightarrow> None | Some i \<Rightarrow> get_user (aw_db w) i) of
        None \<Rightarrow> (w, Reset_Link_Invalid)
      | Some u \<Rightarrow>
          if \<not> user_is_active u \<or> \<not> reset_check_token x u token then (w, Reset_Link_Invalid)
          else if password_errors x (Some u) new \<noteq> [] then (w, Reset_Weak (password_errors x (Some u) new))
          else (revoke_refresh_tokens (user_id u) (set_password x (user_id u) new w), Reset_Done))"

section \<open>Confirmation of an address\<close>

definition send_confirmation_email :: "account_env \<Rightarrow> user \<Rightarrow> account_world \<Rightarrow> account_world" where
  "send_confirmation_email x u w =
     send_email x (user_email u) ''Confirm your PushIT email''
       (mail_text [''Welcome to PushIT!'', [],
          ''Please confirm your email address to activate your account by opening the link below:'', [],
          frontend_link x (''/auth/confirm-email/'' @ uid_encode x (user_id u) @ ''/'' @ confirm_make_token x u), [],
          ''If you didn't create a PushIT account, you can safely ignore this email.'']) w"

definition send_duplicate_registration_email :: "account_env \<Rightarrow> user \<Rightarrow> account_world \<Rightarrow> account_world" where
  "send_duplicate_registration_email x u w =
     send_email x (user_email u) ''Someone tried to register with your PushIT email''
       (mail_text [''Hello,'', [],
          ''Someone just tried to create a PushIT account using this email address, but an account already exists for it.'', [],
          ''If this was you, there's nothing to do -- simply sign in with your existing password, or use \"forgot password\" if you don't remember it.'', [],
          ''If this wasn't you, you can safely ignore this email; no changes were made to your account.'']) w"

definition resend_confirmation_email :: "account_env \<Rightarrow> string \<Rightarrow> account_world \<Rightarrow> account_world" where
  "resend_confirmation_email x email w =
     (case user_by_email email (\<lambda>u. user_is_active u \<and> \<not> email_confirmed u) (aw_db w) of
        None \<Rightarrow> w | Some u \<Rightarrow> send_confirmation_email x u w)"

definition confirm_email :: "account_env \<Rightarrow> string \<Rightarrow> string \<Rightarrow> account_world \<Rightarrow> account_world \<times> user option" where
  "confirm_email x uid token w =
     (case (case uid_decode x uid of None \<Rightarrow> None | Some i \<Rightarrow> get_user (aw_db w) i) of
        None \<Rightarrow> (w, None)
      | Some u \<Rightarrow>
          if \<not> user_is_active u \<or> email_confirmed u \<or> \<not> confirm_check_token x u token then (w, None)
          else if \<not> list_ex (\<lambda>r. user_id r = user_id u \<and> \<not> email_confirmed r) (users (aw_db w)) then (w, None)
          else (put_user (user_id u) (\<lambda>r. r\<lparr>email_confirmed := True\<rparr>) w, Some (u\<lparr>email_confirmed := True\<rparr>)))"

section \<open>Registration\<close>

definition user_languages :: "string list" where
  "user_languages = [''FR'', ''NL'', ''EN'', ''IT'', ''ES'']"

record register_request =
  rg_email :: "string option"
  rg_password :: "string option"
  rg_turnstile :: "string option"
  rg_language :: "string option"

definition email_value :: "account_env \<Rightarrow> string \<Rightarrow> string + string" where
  "email_value x v =
     (if strip v = [] then Inl ''This field may not be blank.''
      else if \<not> valid_email x (strip v) then Inl ''Enter a valid email address.'' else Inr (strip v))"

definition validate_language :: "string \<Rightarrow> string + string" where
  "validate_language v =
     (let code = upper (strip v) in
      if code \<in> set user_languages then Inr code
      else Inl (''Unsupported language. Choose one of: '' @ join '', '' user_languages @ ''.''))"

definition min_length_8 :: "string \<Rightarrow> string + string" where
  "min_length_8 v = (if length v < 8 then Inl ''Ensure this field has at least 8 characters.'' else Inr v)"

text \<open>The password of a registration is stripped by its field, then judged by the validators.\<close>

definition register_password :: "account_env \<Rightarrow> string \<Rightarrow> field_errors \<Rightarrow> field_errors \<times> string option" where
  "register_password x v errs =
     (case then_check (char_field None) min_length_8 v of
        Inl m \<Rightarrow> (add_error errs ''password'' m, None)
      | Inr p \<Rightarrow> (case password_errors x None p of [] \<Rightarrow> (errs, Some p)
          | ms \<Rightarrow> (fold (\<lambda>m e. add_error e ''password'' m) ms errs, None)))"

definition validate_register :: "account_env \<Rightarrow> register_request \<Rightarrow> field_errors + (string \<times> string \<times> string option)" where
  "validate_register x r =
     (let (e1, em) = run_field ''email'' (then_check (email_value x) (\<lambda>v. Inr (lower (strip v)))) (rg_email r)
            (required False ''email'' (rg_email r) []);
          e2 = required False ''password'' (rg_password r) e1;
          (e3, pw) = (case rg_password r of None \<Rightarrow> (e2, None) | Some v \<Rightarrow> register_password x v e2);
          (e4, lang) = run_field ''language'' (then_check (char_field (Some 2)) validate_language) (rg_language r) e3
      in case (em, pw) of
           (Some m, Some p) \<Rightarrow> if e4 = [] then Inr (m, p, lang) else Inl e4
         | _ \<Rightarrow> Inl e4)"

text \<open>\<open>create_user\<close>: the column of the address holds 254 characters, and \<open>key\<close> is the random user key drawn.\<close>

definition create_user :: "account_env \<Rightarrow> string \<Rightarrow> string \<Rightarrow> string \<Rightarrow> string option \<Rightarrow> account_world \<Rightarrow> (account_world \<times> user) option" where
  "create_user x key email password lang w =
     (let s = aw_db w;
          u = \<lparr>user_id = next_pk s, user_email = email, user_is_active = True, email_confirmed = False,
               subscription_bypass = False, bypass_note = [], bypass_granted_at = None, user_is_staff = False,
               user_is_superuser = False, user_password = make_password x password, userkey = key,
               language = (case lang of None \<Rightarrow> ''FR'' | Some l \<Rightarrow> l)\<rparr>
      in if 254 < length email \<or> list_ex (\<lambda>r. user_email r = email \<or> userkey r = key) (users s) then None
         else Some (w\<lparr>aw_db := s\<lparr>users := users s @ [u], next_pk := Suc (next_pk s)\<rparr>\<rparr>, u))"

definition register_view :: "account_env \<Rightarrow> http_request \<Rightarrow> string \<Rightarrow> register_request \<Rightarrow> account_world \<Rightarrow> account_world \<times> string response" where
  "register_view x req key r w =
     (case validate_register x r of
        Inl e \<Rightarrow> (w, Invalid e)
      | Inr (email, password, lang) \<Rightarrow>
          (case captcha_gate x req (rg_turnstile r) of
             Some refusal \<Rightarrow> (w, refusal)
           | None \<Rightarrow>
               (case List.find (\<lambda>u. user_email u = email) (users (aw_db w)) of
                  Some u \<Rightarrow> (send_duplicate_registration_email x u w, Reply 201 email)
                | None \<Rightarrow>
                    (case create_user x key email password lang w of
                       None \<Rightarrow> (w, Refuse 500 ''internal_error'')
                     | Some (w1, u) \<Rightarrow> (send_confirmation_email x u w1, Reply 201 email)))))"

section \<open>The views\<close>

definition stripped :: "string option \<Rightarrow> string \<Rightarrow> field_errors + string" where
  "stripped v field =
     (case v of
        None \<Rightarrow> Inl [(field, [''This field is required.''])]
      | Some t \<Rightarrow> (case char_field None t of Inl m \<Rightarrow> Inl [(field, [m])] | Inr y \<Rightarrow> Inr y))"

definition email_only :: "account_env \<Rightarrow> string option \<Rightarrow> field_errors + string" where
  "email_only x v =
     (case v of
        None \<Rightarrow> Inl [(''email'', [''This field is required.''])]
      | Some t \<Rightarrow> (case email_value x t of Inl m \<Rightarrow> Inl [(''email'', [m])] | Inr y \<Rightarrow> Inr y))"

text \<open>The three requests that mail a link answer the same whatever they did.\<close>

definition link_request ::
    "account_env \<Rightarrow> http_request \<Rightarrow> bool \<Rightarrow> string option \<Rightarrow> string option \<Rightarrow> (string \<Rightarrow> account_world \<Rightarrow> account_world) \<Rightarrow>
     account_world \<Rightarrow> account_world \<times> unit response" where
  "link_request x req captcha email token act w =
     (case email_only x email of
        Inl e \<Rightarrow> (w, Invalid e)
      | Inr em \<Rightarrow>
          (case (if captcha then captcha_gate x req token else None) of
             Some refusal \<Rightarrow> (w, refusal)
           | None \<Rightarrow> (act em w, Reply 200 ())))"

definition forgot_password_view :: "account_env \<Rightarrow> http_request \<Rightarrow> string option \<Rightarrow> string option \<Rightarrow> account_world \<Rightarrow> account_world \<times> unit response" where
  "forgot_password_view x req email token = link_request x req True email token (request_password_reset x)"

definition magic_link_view :: "account_env \<Rightarrow> http_request \<Rightarrow> instant \<Rightarrow> string \<Rightarrow> string option \<Rightarrow> string option \<Rightarrow> account_world \<Rightarrow> account_world \<times> unit response" where
  "magic_link_view x req now raw email token = link_request x req True email token (request_magic_link x now raw)"

definition resend_view :: "account_env \<Rightarrow> http_request \<Rightarrow> string option \<Rightarrow> account_world \<Rightarrow> account_world \<times> unit response" where
  "resend_view x req email = link_request x req False email None (resend_confirmation_email x)"

definition confirm_email_view ::
    "account_env \<Rightarrow> http_request \<Rightarrow> string \<Rightarrow> string option \<Rightarrow> string option \<Rightarrow> account_world \<Rightarrow> account_world \<times> session_view answer" where
  "confirm_email_view x req jti uid token w =
     (case cookie_origin_guard x req of
        Some refusal \<Rightarrow> (w, refusal, Keep_Cookie)
      | None \<Rightarrow>
          (case (stripped uid ''uid'', stripped token ''token'') of
             (Inr i, Inr t) \<Rightarrow>
               (case confirm_email x i t w of
                  (w1, None) \<Rightarrow> (w1, Refuse 400 ''confirmation_link_invalid'', Keep_Cookie)
                | (w1, Some u) \<Rightarrow> sign_in x req jti u True w1)
           | (Inl e, Inr _) \<Rightarrow> (w, Invalid e, Keep_Cookie)
           | (Inr _, Inl e) \<Rightarrow> (w, Invalid e, Keep_Cookie)
           | (Inl e, Inl f) \<Rightarrow> (w, Invalid (e @ f), Keep_Cookie)))"

definition magic_link_verify_view ::
    "account_env \<Rightarrow> http_request \<Rightarrow> instant \<Rightarrow> string \<Rightarrow> string option \<Rightarrow> account_world \<Rightarrow> account_world \<times> session_view answer" where
  "magic_link_verify_view x req now jti token w =
     (case cookie_origin_guard x req of
        Some refusal \<Rightarrow> (w, refusal, Keep_Cookie)
      | None \<Rightarrow>
          (case stripped token ''token'' of
             Inl e \<Rightarrow> (w, Invalid e, Keep_Cookie)
           | Inr t \<Rightarrow>
               (case verify_magic_link x now t (aw_db w) of
                  (s1, None) \<Rightarrow> (w\<lparr>aw_db := s1\<rparr>, Refuse 400 ''magic_link_invalid'', Keep_Cookie)
                | (s1, Some u) \<Rightarrow> sign_in x req jti u True (w\<lparr>aw_db := s1\<rparr>))))"

definition reset_password_view ::
    "account_env \<Rightarrow> string option \<Rightarrow> string option \<Rightarrow> string option \<Rightarrow> account_world \<Rightarrow> account_world \<times> unit response" where
  "reset_password_view x uid token password w =
     (case (stripped uid ''uid'', stripped token ''token'',
            case stripped password ''password'' of Inl e \<Rightarrow> Inl e
            | Inr p \<Rightarrow> (case min_length_8 p of Inl m \<Rightarrow> Inl [(''password'', [m])] | Inr q \<Rightarrow> Inr q)) of
        (Inr i, Inr t, Inr p) \<Rightarrow>
          (case confirm_password_reset x i t p w of
             (w1, Reset_Done) \<Rightarrow> (w1, Reply 200 ())
           | (w1, Reset_Link_Invalid) \<Rightarrow> (w1, Refuse 400 ''reset_link_invalid'')
           | (w1, Reset_Weak ms) \<Rightarrow> (w1, Refuse 400 ''password_invalid''))
      | (a, b, c) \<Rightarrow> (w, Invalid ((case a of Inl e \<Rightarrow> e | _ \<Rightarrow> []) @ (case b of Inl e \<Rightarrow> e | _ \<Rightarrow> []) @ (case c of Inl e \<Rightarrow> e | _ \<Rightarrow> []))))"

text \<open>
  The login strips both fields, then asks the two backends: \<open>EmailBackend\<close>, and the model backend of the
  framework, which looks the user up by the same address.
\<close>

definition authenticate_login :: "account_env \<Rightarrow> string \<Rightarrow> string \<Rightarrow> db \<Rightarrow> user option" where
  "authenticate_login x email password s =
     (case email_backend (acc_secrets x) s (Some email) (Some password) of
        Some u \<Rightarrow> Some u
      | None \<Rightarrow> model_backend (acc_secrets x) s email password)"

definition login_view ::
    "account_env \<Rightarrow> http_request \<Rightarrow> string \<Rightarrow> string option \<Rightarrow> string option \<Rightarrow> bool \<Rightarrow> account_world \<Rightarrow> account_world \<times> session_view answer" where
  "login_view x req jti email password remember_me w =
     (case cookie_origin_guard x req of
        Some refusal \<Rightarrow> (w, refusal, Keep_Cookie)
      | None \<Rightarrow>
          (case (email_only x email, stripped password ''password'') of
             (Inr em, Inr p) \<Rightarrow>
               (case authenticate_login x (lower (strip em)) p (aw_db w) of
                  None \<Rightarrow> (w, Invalid [(''non_field_errors'', [''Invalid credentials.''])], Keep_Cookie)
                | Some u \<Rightarrow>
                    if \<not> email_confirmed u then (w, Refuse 403 ''email_not_verified'', Keep_Cookie)
                    else sign_in x req jti u (remember_me \<or> \<not> wants_cookie req) w)
           | (Inl e, Inr _) \<Rightarrow> (w, Invalid e, Keep_Cookie)
           | (Inr _, Inl e) \<Rightarrow> (w, Invalid e, Keep_Cookie)
           | (Inl e, Inl f) \<Rightarrow> (w, Invalid (e @ f), Keep_Cookie)))"

text \<open>\<open>user\<close> is the caller, if the request is authenticated. In cookie mode signing out always succeeds.\<close>

definition logout_view ::
    "account_env \<Rightarrow> http_request \<Rightarrow> instant \<Rightarrow> user option \<Rightarrow> string option \<Rightarrow> account_world \<Rightarrow> account_world \<times> unit answer" where
  "logout_view x req now user refresh w =
     (if \<not> wants_cookie req \<and> user = None then (w, Refuse 401 ''not_authenticated'', Keep_Cookie)
      else case cookie_origin_guard x req of
        Some refusal \<Rightarrow> (w, refusal, Keep_Cookie)
      | None \<Rightarrow>
          (case (case refresh of None \<Rightarrow> Inr [] | Some v \<Rightarrow> char_field None v) of
             Inl m \<Rightarrow> (w, Invalid [(''refresh'', [m])], Keep_Cookie)
           | Inr body \<Rightarrow>
               if wants_cookie req
               then (let raw = (if body = [] then refresh_cookie req else body) in
                     case (if raw = [] then None else open_refresh x now raw w) of
                       None \<Rightarrow> (w, Reply 204 (), Clear_Cookie)
                     | Some t \<Rightarrow> (add_to_blacklist [rt_id t] w, Reply 204 (), Clear_Cookie))
               else if body = [] then (w, Refuse 400 ''refresh_token_required'', Keep_Cookie)
               else (case open_refresh x now body w of
                       None \<Rightarrow> (w, Refuse 400 ''refresh_token_invalid'', Keep_Cookie)
                     | Some t \<Rightarrow> (add_to_blacklist [rt_id t] w, Reply 204 (), Keep_Cookie))))"

text \<open>
  A token the library refuses raises its \<open>InvalidToken\<close>, an exception with two texts: the code of the
  answer is the print of the dictionary of their codes (see the theory \<open>Operations\<close>).
\<close>

definition token_not_valid :: string where
  "token_not_valid = ''{'detail': 'token_not_valid', 'code': 'token_not_valid'}''"

text \<open>
  \<open>rot\<close> is the library's serializer: None for a token it refuses, else the tokens of the rotated
  session. It also serves the requests that do not want the cookie.
\<close>

definition refresh_view ::
    "account_env \<Rightarrow> (string \<Rightarrow> account_world \<Rightarrow> (account_world \<times> session_view) option) \<Rightarrow> http_request \<Rightarrow> string option \<Rightarrow>
     account_world \<Rightarrow> account_world \<times> session_view answer" where
  "refresh_view x rot req body w =
     (if \<not> wants_cookie req then
        (case stripped body ''refresh'' of
           Inl e \<Rightarrow> (w, Invalid e, Keep_Cookie)
         | Inr raw \<Rightarrow> (case rot raw w of
             None \<Rightarrow> (w, Refuse 401 token_not_valid, Keep_Cookie)
           | Some (w1, v) \<Rightarrow> (w1, Reply 200 v, Keep_Cookie)))
      else case cookie_origin_guard x req of
        Some refusal \<Rightarrow> (w, refusal, Keep_Cookie)
      | None \<Rightarrow>
          (let raw = (case body of None \<Rightarrow> refresh_cookie req | Some b \<Rightarrow> if b = [] then refresh_cookie req else b) in
           if raw = [] then (w, Refuse 401 ''refresh_cookie_missing'', Keep_Cookie)
           else (case stripped (Some raw) ''refresh'' of
             Inl e \<Rightarrow> (w, Invalid e, Keep_Cookie)
           | Inr t \<Rightarrow> (case rot t w of
               None \<Rightarrow> (w, Refuse 401 token_not_valid, Keep_Cookie)
             | Some (w1, v) \<Rightarrow> (w1, deliver_tokens x req (Reply 200 v))))))"

section \<open>The profile\<close>

definition me_view :: "user \<Rightarrow> user_view response" where
  "me_view u = Reply 200 (user_me u)"

definition me_patch_view :: "user \<Rightarrow> string option \<Rightarrow> account_world \<Rightarrow> account_world \<times> user_view response" where
  "me_patch_view u lang w =
     (case lang of
        None \<Rightarrow> (w, Invalid [(''language'', [''This field is required.''])])
      | Some l \<Rightarrow>
          if l \<notin> set user_languages then (w, Invalid [(''language'', [CHR 0x22 # l @ CHR 0x22 # '' is not a valid choice.''])])
          else (put_user (user_id u) (\<lambda>r. r\<lparr>language := l\<rparr>) w, Reply 200 (user_me (u\<lparr>language := l\<rparr>))))"

text \<open>
  \<open>PasswordChangeApiView\<close> takes both passwords as they are typed. Whether the cookie session lasts is
  read from the cookie the request carries.
\<close>

definition untrimmed :: "string option \<Rightarrow> string \<Rightarrow> field_errors + string" where
  "untrimmed v field =
     (case v of
        None \<Rightarrow> Inl [(field, [''This field is required.''])]
      | Some t \<Rightarrow> if t = [] then Inl [(field, [''This field may not be blank.''])] else Inr t)"

definition cookie_session_persists :: "account_env \<Rightarrow> http_request \<Rightarrow> instant \<Rightarrow> account_world \<Rightarrow> bool" where
  "cookie_session_persists x req now w =
     (if \<not> wants_cookie req then True
      else if refresh_cookie req = [] then True
      else case open_refresh x now (refresh_cookie req) w of None \<Rightarrow> True | Some t \<Rightarrow> rt_persist t)"

definition change_password_and_rotate_sessions :: "account_env \<Rightarrow> string \<Rightarrow> user \<Rightarrow> string \<Rightarrow> bool \<Rightarrow> account_world \<Rightarrow> account_world \<times> refresh_token" where
  "change_password_and_rotate_sessions x jti u new persist w =
     mint jti (user_id u) persist (revoke_refresh_tokens (user_id u) (set_password x (user_id u) new w))"

definition password_change_view ::
    "account_env \<Rightarrow> http_request \<Rightarrow> instant \<Rightarrow> string \<Rightarrow> user \<Rightarrow> string option \<Rightarrow> string option \<Rightarrow> account_world \<Rightarrow> account_world \<times> session_view answer" where
  "password_change_view x req now jti u current new w =
     (case cookie_origin_guard x req of
        Some refusal \<Rightarrow> (w, refusal, Keep_Cookie)
      | None \<Rightarrow>
          (case (untrimmed current ''current_password'', untrimmed new ''new_password'') of
             (Inr c, Inr n) \<Rightarrow>
               if \<not> check_password (acc_secrets x) (user_password u) c then (w, Refuse 400 ''current_password_invalid'', Keep_Cookie)
               else if n = c then (w, Refuse 400 ''password_unchanged'', Keep_Cookie)
               else if password_errors x (Some u) n \<noteq> []
                 then (w, Invalid [(''new_password'', password_errors x (Some u) n)], Keep_Cookie)
               else (case change_password_and_rotate_sessions x jti u n (cookie_session_persists x req now w) w of
                  (w1, t) \<Rightarrow> (w1, deliver_tokens x req (Reply 200 \<lparr>sv_access = print_access x t, sv_refresh = Some (print_refresh x t),
                     sv_user = Some (user_me u)\<rparr>)))
           | (Inl e, Inr _) \<Rightarrow> (w, Invalid e, Keep_Cookie)
           | (Inr _, Inl e) \<Rightarrow> (w, Invalid e, Keep_Cookie)
           | (Inl e, Inl f) \<Rightarrow> (w, Invalid (e @ f), Keep_Cookie)))"

section \<open>Erasing an account\<close>

text \<open>
  \<open>delete_user_account\<close>. The rows of the owned applications go with the user row, those of the journal
  are deleted rather than orphaned; the devices of the user go with their rows; subscriptions and
  sign-in links go with the user; the journals of bypasses and reveals and the tokens of the library
  keep their rows without the user. After the commit the addresses are detached (an exception ends
  that) and the images removed.
\<close>

definition delete_owned_applications :: "pk \<Rightarrow> db \<Rightarrow> db" where
  "delete_owned_applications u s =
     (let apps = map app_id (filter (\<lambda>a. app_owner a = u) (applications s));
          s1 = delete_notifications (\<lambda>n. ntf_application n \<in> set apps) s;
          toks = map tok_id (filter (\<lambda>t. tok_application t \<in> set apps) (send_tokens s)) in
      s1\<lparr>applications := filter (\<lambda>a. app_owner a \<noteq> u) (applications s),
         app_quiet_periods := filter (\<lambda>q. qp_parent q \<notin> set apps) (app_quiet_periods s),
         send_tokens := filter (\<lambda>t. tok_application t \<notin> set apps) (send_tokens s),
         reveals := filter (\<lambda>v. rev_token v \<notin> set toks) (reveals s),
         links := filter (\<lambda>l. link_application l \<notin> set apps) (links s),
         templates := filter (\<lambda>t. tpl_application t \<notin> set apps) (templates s)\<rparr>)"

definition delete_user_row :: "pk \<Rightarrow> db \<Rightarrow> db" where
  "delete_user_row u s =
     (let s1 = delete_owned_applications u s in
      s1\<lparr>users := filter (\<lambda>r. user_id r \<noteq> u) (users s),
         reveals := update_where (\<lambda>v. rev_actor v = Some u) (\<lambda>v. v\<lparr>rev_actor := None\<rparr>) (reveals s1),
         subscriptions := filter (\<lambda>b. sub_user b \<noteq> u) (subscriptions s),
         magic_links := filter (\<lambda>m. ml_user m \<noteq> u) (magic_links s),
         bypass_logs := map (\<lambda>l. l\<lparr>bgl_actor := (if bgl_actor l = Some u then None else bgl_actor l),
            bgl_target := (if bgl_target l = Some u then None else bgl_target l)\<rparr>) (bypass_logs s)\<rparr>)"

definition drop_owned_logs :: "pk \<Rightarrow> db \<Rightarrow> db" where
  "drop_owned_logs u s =
     s\<lparr>inbound_logs := filter (\<lambda>l. case log_application l of None \<Rightarrow> True
        | Some a \<Rightarrow> a \<notin> app_id ` {r \<in> set (applications s). app_owner r = u}) (inbound_logs s)\<rparr>"

fun detach_all :: "exchange_env \<Rightarrow> string list \<Rightarrow> string option" where
  "detach_all e [] = None"
| "detach_all e (a # as) = (case deprovision_alias e a of None \<Rightarrow> detach_all e as | Some err \<Rightarrow> Some err)"

record erasure =
  er_aliases :: "string list"
  er_images :: "string list"

definition erasure_of :: "config \<Rightarrow> pk \<Rightarrow> db \<Rightarrow> erasure" where
  "erasure_of cfg u s =
     (let apps = filter (\<lambda>a. app_owner a = u) (applications s) in
      \<lparr>er_aliases = map (inbound_email_address cfg) (filter (\<lambda>a. inbound_email_alias a \<noteq> []) apps),
       er_images = map image (filter (\<lambda>n. ntf_application n \<in> app_id ` set apps \<and> image n \<noteq> []) (notifications s))\<rparr>)"

text \<open>The images removed, and the exception that ends the work after the commit.\<close>

definition after_commit :: "exchange_env \<Rightarrow> erasure \<Rightarrow> string list \<times> string option" where
  "after_commit e er = (case detach_all e (er_aliases er) of None \<Rightarrow> (er_images er, None) | Some err \<Rightarrow> ([], Some err))"

definition delete_user_account :: "account_env \<Rightarrow> exchange_env \<Rightarrow> pk \<Rightarrow> account_world \<Rightarrow> account_world \<times> string list \<times> string option" where
  "delete_user_account x e u w =
     (let w1 = revoke_refresh_tokens u w;
          s = aw_db w;
          s1 = delete_user_row u (delete_devices (\<lambda>d. dev_user d = Some u) (drop_owned_logs u s))
      in (w1\<lparr>aw_db := s1,
             aw_outstanding := map (\<lambda>t. if ot_user t = Some u then t\<lparr>ot_user := None\<rparr> else t) (aw_outstanding w)\<rparr>,
          after_commit e (erasure_of (acc_config x) u s)))"

text \<open>The view: the password, the billing service first, then the account.\<close>

definition me_delete_view ::
    "account_env \<Rightarrow> exchange_env \<Rightarrow> http_request \<Rightarrow> 'j http_outcome \<Rightarrow> user \<Rightarrow> string option \<Rightarrow> account_world \<Rightarrow>
     (account_world \<times> string list) \<times> unit answer" where
  "me_delete_view x e req central u password w =
     (case stripped password ''current_password'' of
        Inl err \<Rightarrow> ((w, []), Invalid err, Keep_Cookie)
      | Inr p \<Rightarrow>
          if \<not> check_password (acc_secrets x) (user_password u) p then ((w, []), Refuse 400 ''current_password_invalid'', Keep_Cookie)
          else if billing_configured (acc_config x) \<and> erase_user central \<noteq> Billing_Ok ()
            then ((w, []), Refuse 503 ''billing_unavailable'', Keep_Cookie)
          else (case delete_user_account x e (user_id u) w of
                  (w1, images, None) \<Rightarrow> ((w1, images), Reply 204 (), if wants_cookie req then Clear_Cookie else Keep_Cookie)
                | (w1, images, Some _) \<Rightarrow> ((w1, images), Refuse 500 ''internal_error'', Keep_Cookie)))"

section \<open>The staff console\<close>

definition search_limit :: nat where "search_limit = 50"

record staff_view =
  st_id :: pk
  st_email :: string
  st_userkey :: string
  st_is_active :: bool
  st_email_confirmed :: bool
  st_bypass :: bool
  st_note :: string
  st_granted_at :: "instant option"

definition staff_view_of :: "user \<Rightarrow> staff_view" where
  "staff_view_of u = \<lparr>st_id = user_id u, st_email = user_email u, st_userkey = userkey u, st_is_active = user_is_active u,
     st_email_confirmed = email_confirmed u, st_bypass = subscription_bypass u, st_note = bypass_note u, st_granted_at = bypass_granted_at u\<rparr>"

text \<open>\<open>by_email\<close> is the order the database gives to addresses.\<close>

definition staff_user_list :: "(user list \<Rightarrow> user list) \<Rightarrow> user \<Rightarrow> string \<Rightarrow> db \<Rightarrow> staff_view list response" where
  "staff_user_list by_email caller q s =
     (if \<not> user_is_superuser caller then Refuse 403 ''permission_denied''
      else (let t = strip q;
                hits = (if t \<noteq> [] then filter (\<lambda>u. contains (lower (user_email u)) (lower t) \<or> contains (lower (userkey u)) (lower t)) (users s)
                        else filter subscription_bypass (users s))
            in Reply 200 (map staff_view_of (take search_limit (by_email hits)))))"

definition staff_user_patch :: "instant \<Rightarrow> user \<Rightarrow> pk \<Rightarrow> bool option \<Rightarrow> string option \<Rightarrow> db \<Rightarrow> db \<times> staff_view response" where
  "staff_user_patch now caller i bypass note s =
     (if \<not> user_is_superuser caller then (s, Refuse 403 ''permission_denied'')
      else case get_user s i of
        None \<Rightarrow> (s, Refuse 404 ''error'')
      | Some u \<Rightarrow>
          if (case note of None \<Rightarrow> False | Some t \<Rightarrow> 200 < length (strip t))
          then (s, Invalid [(''bypass_note'', [''Ensure this field has no more than 200 characters.''])])
          else (let u1 = u\<lparr>subscription_bypass := (case bypass of None \<Rightarrow> subscription_bypass u | Some b \<Rightarrow> b),
                           bypass_note := (case note of None \<Rightarrow> bypass_note u | Some t \<Rightarrow> strip t)\<rparr>;
                    u2 = (if subscription_bypass u1 \<and> \<not> subscription_bypass u then u1\<lparr>bypass_granted_at := Some now\<rparr> else u1);
                    entry = \<lparr>bgl_actor = Some (user_id caller), bgl_actor_label = user_email caller, bgl_target = Some i,
                             bgl_target_label = user_email u2, bgl_granted = subscription_bypass u2, bgl_note = bypass_note u2, bgl_created_at = now\<rparr>
                in (s\<lparr>users := update_where (\<lambda>r. user_id r = i) (\<lambda>_. u2) (users s),
                      bypass_logs := (if subscription_bypass u2 \<noteq> subscription_bypass u then bypass_logs s @ [entry] else bypass_logs s)\<rparr>,
                    Reply 200 (staff_view_of u2))))"

section \<open>What a stranger learns\<close>

text \<open>
  C17. A stranger cannot tell whether an address has an account: whatever two databases hold, asking for
  a registration, a reset, a sign-in link or another confirmation mail is answered in the same way, as
  long as the random key drawn for a new account is free in both.
\<close>

theorem answers_do_not_reveal_accounts:
  assumes "\<forall>u \<in> set (users (aw_db w)) \<union> set (users (aw_db w')). length (user_email u) \<le> 254 \<and> userkey u \<noteq> key"
  shows "snd (register_view x req key r w) = snd (register_view x req key r w') \<and>
    snd (forgot_password_view x req email token w) = snd (forgot_password_view x req email token w') \<and>
    snd (magic_link_view x req now raw email token w) = snd (magic_link_view x req now raw email token w') \<and>
    snd (resend_view x req email w) = snd (resend_view x req email w')"
proof -
  have link: "snd (link_request x req c email t act v) = snd (link_request x req c email t act v')" for c t act v v'
    by (simp add: link_request_def split: sum.split option.split)
  have reg: "snd (register_view x req key r v) =
      (case validate_register x r of Inl e \<Rightarrow> Invalid e
       | Inr (em, p, l) \<Rightarrow> (case captcha_gate x req (rg_turnstile r) of Some refusal \<Rightarrow> refusal
           | None \<Rightarrow> if 254 < length em then Refuse 500 ''internal_error'' else Reply 201 em))"
    if v: "\<forall>u \<in> set (users (aw_db v)). length (user_email u) \<le> 254 \<and> userkey u \<noteq> key" for v
  proof (cases "validate_register x r")
    case (Inr y)
    obtain em p l where y: "y = (em, p, l)" by (metis surj_pair)
    show ?thesis
    proof (cases "captcha_gate x req (rg_turnstile r) :: string response option")
      case None
      show ?thesis
      proof (cases "List.find (\<lambda>u. user_email u = em) (users (aw_db v))")
        case (Some u)
        then have "length em \<le> 254" using find_SomeD[OF Some] v by auto
        then show ?thesis using Inr y None Some by (simp add: register_view_def)
      next
        case free: None
        then have "\<not> list_ex (\<lambda>q. user_email q = em \<or> userkey q = key) (users (aw_db v))"
          using v by (auto simp: list_ex_iff find_None_iff)
        then show ?thesis using Inr y None free by (simp add: register_view_def create_user_def Let_def)
      qed
    qed (simp add: register_view_def Inr y)
  qed (simp add: register_view_def)
  show ?thesis using reg[of w] reg[of w'] assms link
    unfolding forgot_password_view_def magic_link_view_def resend_view_def by auto
qed

section \<open>Racing for a sign-in link\<close>

text \<open>
  Several requests verify links at the same time: each reads the row at one moment (\<open>look\<close>) and consumes
  it at another (\<open>take\<close>); other requests for links come in between (\<open>ask\<close>). A session is the key of the
  link it was opened with.
\<close>

record race =
  rc_world :: account_world
  rc_seen :: "nat \<Rightarrow> magic_link_token option"
  rc_sessions :: "pk list"

inductive race_step :: "account_env \<Rightarrow> race \<Rightarrow> race \<Rightarrow> bool" for x where
  look: "race_step x c (c\<lparr>rc_seen := (rc_seen c)(i := find_magic_link x now raw (aw_db (rc_world c)))\<rparr>)"
| win: "rc_seen c i = Some m \<Longrightarrow> consume_magic_link now m (aw_db (rc_world c)) = (s', True) \<Longrightarrow>
    race_step x c (c\<lparr>rc_world := (rc_world c)\<lparr>aw_db := s'\<rparr>, rc_seen := (rc_seen c)(i := None), rc_sessions := rc_sessions c @ [ml_id m]\<rparr>)"
| lose: "rc_seen c i = Some m \<Longrightarrow> consume_magic_link now m (aw_db (rc_world c)) = (s', False) \<Longrightarrow>
    race_step x c (c\<lparr>rc_world := (rc_world c)\<lparr>aw_db := s'\<rparr>, rc_seen := (rc_seen c)(i := None)\<rparr>)"
| ask: "race_step x c (c\<lparr>rc_world := request_magic_link x now raw email (rc_world c)\<rparr>)"

inductive_cases race_stepE: "race_step x c c'"

definition race_ok :: "race \<Rightarrow> bool" where
  "race_ok c \<longleftrightarrow> (let s = aw_db (rc_world c) in
     distinct (map ml_id (magic_links s)) \<and> (\<forall>m \<in> set (magic_links s). ml_id m < next_pk s) \<and>
     distinct (rc_sessions c) \<and>
     (\<forall>i \<in> set (rc_sessions c). \<exists>m \<in> set (magic_links s). ml_id m = i \<and> ml_used_at m \<noteq> None))"

lemma send_email_links [simp]: "magic_links (aw_db (send_email x r sb b w)) = magic_links (aw_db w)"
  "next_pk (aw_db (send_email x r sb b w)) = next_pk (aw_db w)"
  by (simp_all add: send_email_def send_mail_def)

lemma race_ok_ask:
  assumes "race_ok c"
  shows "race_ok (c\<lparr>rc_world := request_magic_link x now raw email (rc_world c)\<rparr>)"
proof (cases "user_by_email email (\<lambda>u. user_is_active u \<and> email_confirmed u) (aw_db (rc_world c))")
  case (Some u)
  let ?s = "aw_db (rc_world c)" and ?w' = "request_magic_link x now raw email (rc_world c)"
  obtain row where row: "magic_links (aw_db ?w') = magic_links ?s @ [row]" "ml_id row = next_pk ?s" "next_pk (aw_db ?w') = Suc (next_pk ?s)"
    using Some by (auto simp: request_magic_link_def Let_def)
  then show ?thesis using assms unfolding race_ok_def Let_def by (auto simp: less_SucI)
qed (use assms in \<open>simp add: request_magic_link_def\<close>)

lemma race_ok_consume:
  assumes "race_ok c" "consume_magic_link now m (aw_db (rc_world c)) = (s', won)"
  shows "race_ok (c\<lparr>rc_world := (rc_world c)\<lparr>aw_db := s'\<rparr>, rc_seen := f, rc_sessions := rc_sessions c @ (if won then [ml_id m] else [])\<rparr>)"
proof -
  let ?s = "aw_db (rc_world c)"
  let ?hit = "\<lambda>r. ml_id r = ml_id m \<and> ml_used_at r = None \<and> now < ml_expires_at r"
  have s': "s' = ?s\<lparr>magic_links := update_where ?hit (\<lambda>r. r\<lparr>ml_used_at := Some now\<rparr>) (magic_links ?s)\<rparr>"
    and won: "won \<longleftrightarrow> count_where ?hit (magic_links ?s) = 1"
    using assms(2) by (auto simp: consume_magic_link_def Let_def)
  have ids: "map ml_id (magic_links s') = map ml_id (magic_links ?s)" by (simp add: s' map_update_where)
  have used: "\<exists>q \<in> set (magic_links s'). ml_id q = i \<and> ml_used_at q \<noteq> None"
    if "\<exists>q \<in> set (magic_links ?s). ml_id q = i \<and> ml_used_at q \<noteq> None" for i
    using that by (force simp: s' update_where_def)
  have fresh: "ml_id m \<notin> set (rc_sessions c) \<and> (\<exists>q \<in> set (magic_links s'). ml_id q = ml_id m \<and> ml_used_at q \<noteq> None)" if won
  proof -
    have "filter ?hit (magic_links ?s) \<noteq> []" using won that by (auto simp: count_where_def)
    then obtain r where r: "r \<in> set (magic_links ?s)" "?hit r" by (auto simp: filter_empty_conv)
    have "ml_id m \<notin> set (rc_sessions c)"
    proof
      assume "ml_id m \<in> set (rc_sessions c)"
      then obtain q where q: "q \<in> set (magic_links ?s)" "ml_id q = ml_id m" "ml_used_at q \<noteq> None"
        using assms(1) unfolding race_ok_def Let_def by blast
      have "q = r" using assms(1) q(1,2) r unfolding race_ok_def Let_def distinct_map inj_on_def by metis
      then show False using q(3) r(2) by simp
    qed
    moreover have "r\<lparr>ml_used_at := Some now\<rparr> \<in> set (magic_links s')" using r by (force simp: s' update_where_def)
    moreover have "ml_id (r\<lparr>ml_used_at := Some now\<rparr>) = ml_id m" using r(2) by simp
    ultimately show ?thesis by (metis magic_link_token.select_convs(6) magic_link_token.surjective magic_link_token.update_convs(6) option.distinct(1))
  qed
  have lt: "\<forall>q \<in> set (magic_links s'). ml_id q < next_pk ?s"
  proof
    fix q
    assume "q \<in> set (magic_links s')"
    then have "ml_id q \<in> set (map ml_id (magic_links ?s))" unfolding ids[symmetric] by simp
    then show "ml_id q < next_pk ?s" using assms(1) unfolding race_ok_def Let_def by auto
  qed
  have nx: "next_pk s' = next_pk ?s" by (simp add: s')
  show ?thesis
  proof (cases won)
    case True
    then show ?thesis using assms(1) ids lt nx used fresh[OF True] unfolding race_ok_def Let_def by auto
  next
    case False
    then show ?thesis using assms(1) ids lt nx used unfolding race_ok_def Let_def by auto
  qed
qed

lemma race_ok_step: "race_step x c c' \<Longrightarrow> race_ok c \<Longrightarrow> race_ok c'"
proof (erule race_stepE)
  fix i now raw
  assume "race_ok c" "c' = c\<lparr>rc_seen := (rc_seen c)(i := find_magic_link x now raw (aw_db (rc_world c)))\<rparr>"
  then show "race_ok c'" by (simp add: race_ok_def)
next
  fix i m now s'
  assume "race_ok c" "consume_magic_link now m (aw_db (rc_world c)) = (s', True)"
    "c' = c\<lparr>rc_world := (rc_world c)\<lparr>aw_db := s'\<rparr>, rc_seen := (rc_seen c)(i := None), rc_sessions := rc_sessions c @ [ml_id m]\<rparr>"
  then show "race_ok c'" using race_ok_consume[of c now m s' True "(rc_seen c)(i := None)"] by simp
next
  fix i m now s'
  assume "race_ok c" "consume_magic_link now m (aw_db (rc_world c)) = (s', False)"
    "c' = c\<lparr>rc_world := (rc_world c)\<lparr>aw_db := s'\<rparr>, rc_seen := (rc_seen c)(i := None)\<rparr>"
  then show "race_ok c'" using race_ok_consume[of c now m s' False "(rc_seen c)(i := None)"] by simp
next
  fix now raw email
  assume "race_ok c" "c' = c\<lparr>rc_world := request_magic_link x now raw email (rc_world c)\<rparr>"
  then show "race_ok c'" using race_ok_ask by simp
qed


section \<open>Ending sessions\<close>

lemma blacklist_props:
  "set (aw_blacklist (add_to_blacklist ids w)) = set (aw_blacklist w) \<union> set ids"
  "aw_db (add_to_blacklist ids w) = aw_db w" "aw_outstanding (add_to_blacklist ids w) = aw_outstanding w"
  by (auto simp: add_to_blacklist_def)

lemma put_user_simps [simp]:
  "aw_outstanding (put_user i f w) = aw_outstanding w" "aw_blacklist (put_user i f w) = aw_blacklist w"
  "users (aw_db (put_user i f w)) = update_where (\<lambda>u. user_id u = i) f (users (aw_db w))"
  by (simp_all add: put_user_def)

definition tokens_of_user :: "pk \<Rightarrow> account_world \<Rightarrow> string set" where
  "tokens_of_user u w = ot_id ` {t \<in> set (aw_outstanding w). ot_user t = Some u}"

text \<open>What ending the sessions of a user with a new password comes to.\<close>

definition sessions_ended :: "account_env \<Rightarrow> pk \<Rightarrow> string \<Rightarrow> account_world \<Rightarrow> account_world \<Rightarrow> bool" where
  "sessions_ended x u new w w' \<longleftrightarrow>
     set (aw_blacklist w') = set (aw_blacklist w) \<union> tokens_of_user u w \<and>
     users (aw_db w') = map (\<lambda>r. if user_id r = u then r\<lparr>user_password := make_password x new\<rparr> else r) (users (aw_db w))"

lemma ended: "sessions_ended x u new w (revoke_refresh_tokens u (set_password x u new w))"
  by (auto simp: sessions_ended_def revoke_refresh_tokens_def set_password_def blacklist_props tokens_of_user_def update_where_def)

lemma ended_mint: "sessions_ended x u new w v \<Longrightarrow> sessions_ended x u new w (fst (mint jti i p v))"
  by (simp add: sessions_ended_def mint_def)

lemma deliver_replies: "\<exists>v' c. deliver_tokens x req (Reply k v) = (Reply k v', c)"
  by (cases "sv_refresh v") (simp_all add: deliver_tokens_def)

text \<open>
  C15. Changing or resetting a password ends every other session: on success each refresh token ever
  minted for the user is revoked, nobody else's is, only this user's password changes, and the one
  session that survives a change is the new one; on any failure nothing changes at all.
\<close>

theorem new_password_ends_other_sessions:
  assumes "\<forall>t \<in> set (aw_outstanding w). ot_id t \<noteq> jti" and "jti \<notin> set (aw_blacklist w)"
  shows "(case password_change_view x req now jti u current new w of
       (w', Reply k v, c) \<Rightarrow> (\<exists>n. new = Some n \<and> sessions_ended x (user_id u) n w w') \<and> jti \<notin> set (aw_blacklist w') \<and>
          aw_outstanding w' = aw_outstanding w @ [\<lparr>ot_id = jti, ot_user = Some (user_id u)\<rparr>]
     | (w', other, c) \<Rightarrow> w' = w) \<and>
    (case confirm_password_reset x uid token pw w of
       (w', Reset_Done) \<Rightarrow> (\<exists>i r. uid_decode x uid = Some i \<and> get_user (aw_db w) i = Some r \<and> user_is_active r \<and> reset_check_token x r token \<and>
          sessions_ended x i pw w w')
     | (w', other) \<Rightarrow> w' = w)"
proof
  show "case password_change_view x req now jti u current new w of
       (w', Reply k v, c) \<Rightarrow> (\<exists>n. new = Some n \<and> sessions_ended x (user_id u) n w w') \<and> jti \<notin> set (aw_blacklist w') \<and>
          aw_outstanding w' = aw_outstanding w @ [\<lparr>ot_id = jti, ot_user = Some (user_id u)\<rparr>]
     | (w', other, c) \<Rightarrow> w' = w"
  proof (cases "cookie_origin_guard x req :: session_view response option")
    case None
    show ?thesis
    proof (cases "untrimmed current ''current_password''")
      case c: (Inr c)
      show ?thesis
      proof (cases "untrimmed new ''new_password''")
        case n: (Inr n)
        then have new: "new = Some n" by (auto simp: untrimmed_def split: option.splits if_splits)
        show ?thesis
        proof (cases "check_password (acc_secrets x) (user_password u) c \<and> n \<noteq> c \<and> password_errors x (Some u) n = []")
          case True
          let ?p = "cookie_session_persists x req now w"
          obtain w1 t where t: "change_password_and_rotate_sessions x jti u n ?p w = (w1, t)" by (metis surj_pair)
          then have w1: "w1 = fst (mint jti (user_id u) ?p (revoke_refresh_tokens (user_id u) (set_password x (user_id u) n w)))"
            unfolding change_password_and_rotate_sessions_def by simp
          have e: "sessions_ended x (user_id u) n w w1" unfolding w1 by (rule ended_mint[OF ended])
          have o1: "aw_outstanding w1 = aw_outstanding w @ [\<lparr>ot_id = jti, ot_user = Some (user_id u)\<rparr>]"
            by (simp add: w1 mint_def revoke_refresh_tokens_def blacklist_props set_password_def)
          have j: "jti \<notin> set (aw_blacklist w1)" using e assms by (auto simp: sessions_ended_def tokens_of_user_def)
          have "password_change_view x req now jti u current new w = (w1, deliver_tokens x req (Reply 200
              \<lparr>sv_access = print_access x t, sv_refresh = Some (print_refresh x t), sv_user = Some (user_me u)\<rparr>))"
            using None c n True t by (simp add: password_change_view_def)
          then obtain v ck where "password_change_view x req now jti u current new w = (w1, Reply 200 v, ck)"
            using deliver_replies by metis
          then show ?thesis using e o1 j new by simp
        next
          case False
          then show ?thesis using None c n by (auto simp: password_change_view_def)
        qed
      qed (use None c in \<open>simp add: password_change_view_def\<close>)
    next
      case (Inl e)
      then show ?thesis using None by (simp add: password_change_view_def split: sum.split)
    qed
  next
    case (Some refusal)
    then have "\<exists>k m. refusal = Refuse k m" by (auto simp: cookie_origin_guard_def split: if_splits)
    then show ?thesis using Some by (auto simp: password_change_view_def)
  qed
next
  show "case confirm_password_reset x uid token pw w of
       (w', Reset_Done) \<Rightarrow> (\<exists>i r. uid_decode x uid = Some i \<and> get_user (aw_db w) i = Some r \<and> user_is_active r \<and> reset_check_token x r token \<and>
          sessions_ended x i pw w w')
     | (w', other) \<Rightarrow> w' = w"
  proof (cases "uid_decode x uid")
    case (Some i)
    show ?thesis
    proof (cases "get_user (aw_db w) i")
      case r: (Some r)
      then have "user_id r = i" by (auto simp: get_user_def dest: find_SomeD)
      then show ?thesis using Some r ended[of x i pw w] by (auto simp: confirm_password_reset_def)
    qed (simp add: confirm_password_reset_def Some)
  qed (simp add: confirm_password_reset_def)
qed

lemma stripped_strip: "stripped p f = Inr q \<Longrightarrow> strip q = q"
  by (auto simp: stripped_def char_field_def Let_def split: option.splits if_splits)

text \<open>
  A password that starts or ends with a space locks its owner out: it may be chosen when a password
  is changed, where it is stored as typed, but the login strips what is typed, so that no input at all
  signs the user in with a password, nor confirms the deletion of the account.
\<close>

theorem password_with_spaces_locks_out:
  assumes "\<forall>p q. check_password (acc_secrets x) (make_password x q) p \<longleftrightarrow> p = q"
    and "strip n \<noteq> n" and "user_password u = make_password x n"
    and "List.find (\<lambda>r. user_email r = lower (strip em)) (users (aw_db w)) = Some u"
  shows "fst (login_view x req jti (Some em) typed remember w) = w \<and>
    (\<forall>k v c. snd (login_view x req jti (Some em) typed remember w) \<noteq> (Reply k v, c)) \<and>
    fst (fst (me_delete_view x e req central u typed w)) = w \<and>
    (\<forall>k v c. snd (me_delete_view x e req central u typed w) \<noteq> (Reply k v, c))"
proof -
  have wrong: "\<not> check_password (acc_secrets x) (user_password u) q" if q: "stripped typed f = Inr q" for q f
  proof
    assume "check_password (acc_secrets x) (user_password u) q"
    then have "q = n" using assms(1,3) by simp
    then show False using stripped_strip[OF q] assms(2) by simp
  qed
  have refusal: "\<exists>k m. r = Refuse k m" if "cookie_origin_guard x req = Some r" for r :: "session_view response"
    using that by (auto simp: cookie_origin_guard_def split: if_splits)
  have "fst (login_view x req jti (Some em) typed remember w) = w \<and>
      (\<forall>k v c. snd (login_view x req jti (Some em) typed remember w) \<noteq> (Reply k v, c))"
  proof (cases "cookie_origin_guard x req :: session_view response option")
    case None
    show ?thesis
    proof (cases "email_only x (Some em)")
      case em: (Inr a)
      then have a: "lower (strip a) = lower (strip em)" by (auto simp: email_only_def email_value_def split: sum.splits if_splits)
      show ?thesis
      proof (cases "stripped typed ''password''")
        case (Inr q)
        have "authenticate_login x (lower (strip a)) q (aw_db w) = None"
          using assms(4) wrong[OF Inr] by (simp add: authenticate_login_def model_backend_def email_backend_def a)
        then show ?thesis using None em Inr by (simp add: login_view_def)
      qed (use None em in \<open>simp add: login_view_def\<close>)
    next
      case (Inl e)
      then show ?thesis using None by (simp add: login_view_def split: sum.split)
    qed
  next
    case (Some r)
    then show ?thesis using refusal[OF Some] by (auto simp: login_view_def)
  qed
  moreover have "fst (fst (me_delete_view x e req central u typed w)) = w \<and>
    (\<forall>k v c. snd (me_delete_view x e req central u typed w) \<noteq> (Reply k v, c))"
  proof (cases "stripped typed ''current_password''")
    case (Inr q)
    then show ?thesis using wrong[OF Inr] by (simp add: me_delete_view_def)
  qed (simp add: me_delete_view_def)
  ultimately show ?thesis by blast
qed

section \<open>The refresh token and scripts of the page\<close>

definition cookie_safe :: "account_env \<Rightarrow> http_request \<Rightarrow> session_view answer \<Rightarrow> bool" where
  "cookie_safe x req ans \<longleftrightarrow>
     (case ans of (Reply k v, c) \<Rightarrow> origin_allowed x req \<and> sv_refresh v \<in> {None, Some []} | _ \<Rightarrow> True)"

lemma cookie_safe_simps [simp]:
  "cookie_safe x req (Refuse k m, c)" "cookie_safe x req (Invalid e, c)"
  by (simp_all add: cookie_safe_def)

lemma cookie_safe_deliver:
  assumes "wants_cookie req" "origin_allowed x req"
  shows "cookie_safe x req (deliver_tokens x req (Reply k v))"
  using assms by (cases "sv_refresh v") (simp_all add: deliver_tokens_def cookie_safe_def)

lemma cookie_safe_sign_in: "wants_cookie req \<Longrightarrow> origin_allowed x req \<Longrightarrow> cookie_safe x req (snd (sign_in x req jti u p w))"
  by (simp add: sign_in_def build_token_response_def cookie_safe_deliver split: prod.split)

lemma guard_cases:
  assumes "wants_cookie req"
  obtains "cookie_origin_guard x req = (None :: 'a response option)" "origin_allowed x req"
  | "cookie_origin_guard x req = (Some (Refuse 403 ''origin_not_allowed'') :: 'a response option)"
  using assms by (cases "origin_allowed x req") (auto simp: cookie_origin_guard_def)

text \<open>
  C16. In cookie mode no script of a page ever sees a refresh token: whatever view opens, renews or
  replaces a session (login, confirmation of an address, sign-in link, change of password, refresh),
  a successful answer was asked for from an allowed origin and has no refresh token in its body.
\<close>

theorem cookie_mode_hides_the_refresh_token:
  assumes "wants_cookie req"
  shows "cookie_safe x req (snd (login_view x req jti email password remember w)) \<and>
    cookie_safe x req (snd (confirm_email_view x req jti uid token w)) \<and>
    cookie_safe x req (snd (magic_link_verify_view x req now jti token w)) \<and>
    cookie_safe x req (snd (password_change_view x req now jti u current new w)) \<and>
    cookie_safe x req (snd (refresh_view x rot req body w))"
proof (rule guard_cases[OF assms, where x = x and 'a = session_view])
  assume g: "cookie_origin_guard x req = (None :: session_view response option)" "origin_allowed x req"
  note safe = cookie_safe_sign_in[OF assms g(2)] cookie_safe_deliver[OF assms g(2)]
  have "cookie_safe x req (snd (login_view x req jti email password remember w))"
    by (simp add: login_view_def g(1) safe split: sum.split option.split)
  moreover have "cookie_safe x req (snd (confirm_email_view x req jti uid token w))"
    by (simp add: confirm_email_view_def g(1) safe split: sum.split option.split prod.split)
  moreover have "cookie_safe x req (snd (magic_link_verify_view x req now jti token w))"
    by (simp add: magic_link_verify_view_def g(1) safe split: sum.split option.split prod.split)
  moreover have "cookie_safe x req (snd (password_change_view x req now jti u current new w))"
    by (simp add: password_change_view_def g(1) safe split: sum.split prod.split)
  moreover have "cookie_safe x req (snd (refresh_view x rot req body w))"
    by (simp add: refresh_view_def g(1) assms safe Let_def split: sum.split option.split)
  ultimately show ?thesis by blast
next
  assume g: "cookie_origin_guard x req = (Some (Refuse 403 ''origin_not_allowed'') :: session_view response option)"
  show ?thesis by (simp add: login_view_def confirm_email_view_def magic_link_verify_view_def password_change_view_def refresh_view_def g assms)
qed

section \<open>The journal of free accounts\<close>

text \<open>Requests of the console, one after another: the time, the caller, the account and the fields.\<close>

type_synonym bypass_edit = "instant \<times> user \<times> pk \<times> bool option \<times> string option"

definition apply_edit :: "bypass_edit \<Rightarrow> db \<Rightarrow> db" where
  "apply_edit ed s = (case ed of (now, caller, i, b, n) \<Rightarrow> fst (staff_user_patch now caller i b n s))"

definition journal_state :: "bypass_grant_log list \<Rightarrow> pk \<Rightarrow> bool \<Rightarrow> bool" where
  "journal_state ls i start =
     (case filter (\<lambda>l. bgl_target l = Some i) ls of [] \<Rightarrow> start | xs \<Rightarrow> bgl_granted (last xs))"

lemma journal_snoc:
  "journal_state (ls @ [l]) i start = (if bgl_target l = Some i then bgl_granted l else journal_state ls i start)"
  by (cases "filter (\<lambda>l. bgl_target l = Some i) ls") (auto simp: journal_state_def)

definition bypass_of :: "db \<Rightarrow> pk \<Rightarrow> bool option" where
  "bypass_of s i = map_option subscription_bypass (get_user s i)"

lemma get_user_update:
  assumes "user_id v = i"
  shows "List.find (\<lambda>r. user_id r = j) (update_where (\<lambda>r. user_id r = i) (\<lambda>_. v) us) =
    (if j = i then map_option (\<lambda>_. v) (List.find (\<lambda>r. user_id r = i) us) else List.find (\<lambda>r. user_id r = j) us)"
  using assms by (induction us) (auto simp: update_where_def)

lemma patch_cases:
  obtains (same) "fst (staff_user_patch now caller i b n s) = s"
  | (set) u v where "user_is_superuser caller" "get_user s i = Some u" "user_id v = i"
      "users (fst (staff_user_patch now caller i b n s)) = update_where (\<lambda>r. user_id r = i) (\<lambda>_. v) (users s)"
      "subscription_bypass v = subscription_bypass u" "bypass_logs (fst (staff_user_patch now caller i b n s)) = bypass_logs s"
  | (flip) u v l where "user_is_superuser caller" "get_user s i = Some u" "user_id v = i"
      "users (fst (staff_user_patch now caller i b n s)) = update_where (\<lambda>r. user_id r = i) (\<lambda>_. v) (users s)"
      "subscription_bypass v \<noteq> subscription_bypass u" "bypass_logs (fst (staff_user_patch now caller i b n s)) = bypass_logs s @ [l]"
      "bgl_target l = Some i" "bgl_granted l = subscription_bypass v" "bgl_actor l = Some (user_id caller)"
proof (cases "user_is_superuser caller")
  case sup: True
  show thesis
  proof (cases "get_user s i")
    case (Some u)
    then have id: "user_id u = i" by (auto simp: get_user_def dest: find_SomeD)
    show thesis
    proof (cases "case n of None \<Rightarrow> False | Some t \<Rightarrow> 200 < length (strip t)")
      case True
      then show thesis using same sup Some by (simp add: staff_user_patch_def)
    next
      case False
      define u1 where "u1 = u\<lparr>subscription_bypass := (case b of None \<Rightarrow> subscription_bypass u | Some b \<Rightarrow> b),
        bypass_note := (case n of None \<Rightarrow> bypass_note u | Some t \<Rightarrow> strip t)\<rparr>"
      define v where "v = (if subscription_bypass u1 \<and> \<not> subscription_bypass u then u1\<lparr>bypass_granted_at := Some now\<rparr> else u1)"
      define l where "l = \<lparr>bgl_actor = Some (user_id caller), bgl_actor_label = user_email caller, bgl_target = Some i,
        bgl_target_label = user_email v, bgl_granted = subscription_bypass v, bgl_note = bypass_note v, bgl_created_at = now\<rparr>"
      have out: "fst (staff_user_patch now caller i b n s) = s\<lparr>users := update_where (\<lambda>r. user_id r = i) (\<lambda>_. v) (users s),
          bypass_logs := (if subscription_bypass v \<noteq> subscription_bypass u then bypass_logs s @ [l] else bypass_logs s)\<rparr>"
        using sup Some False unfolding staff_user_patch_def l_def v_def u1_def Let_def by simp
      have vid: "user_id v = i" using id by (simp add: v_def u1_def)
      show thesis
      proof (cases "subscription_bypass v = subscription_bypass u")
        case True
        then show thesis using set[OF sup Some vid] out by simp
      next
        case changed: False
        then show thesis using flip[OF sup Some vid, of l] out by (simp add: l_def)
      qed
    qed
  qed (use same sup in \<open>simp add: staff_user_patch_def\<close>)
qed (use same in \<open>simp add: staff_user_patch_def\<close>)

lemma journal_step:
  "\<exists>ls. bypass_logs (apply_edit ed s) = bypass_logs s @ ls \<and>
     (\<forall>i. bypass_of (apply_edit ed s) i = map_option (journal_state ls i) (bypass_of s i)) \<and>
     (\<forall>l \<in> set ls. user_is_superuser (fst (snd ed)) \<and> bgl_actor l = Some (user_id (fst (snd ed))))"
proof -
  obtain now caller j b n where ed: "ed = (now, caller, j, b, n)" by (metis surj_pair)
  let ?s' = "fst (staff_user_patch now caller j b n s)"
  have none: "map_option (journal_state [] i) q = q" for i q by (cases q) (simp_all add: journal_state_def)
  have "\<exists>ls. bypass_logs ?s' = bypass_logs s @ ls \<and> (\<forall>i. bypass_of ?s' i = map_option (journal_state ls i) (bypass_of s i)) \<and>
     (\<forall>l \<in> set ls. user_is_superuser caller \<and> bgl_actor l = Some (user_id caller))"
  proof (cases rule: patch_cases[of now caller j b n s])
    case same
    then show ?thesis by (intro exI[of _ "[]"]) (simp add: none)
  next
    case (set u v)
    have "bypass_of ?s' i = bypass_of s i" for i
      using set(2,4,5) get_user_update[OF set(3), of i "users s"] by (simp add: bypass_of_def get_user_def)
    then show ?thesis using set by (intro exI[of _ "[]"]) (simp add: none)
  next
    case (flip u v l)
    have "bypass_of ?s' i = map_option (journal_state [l] i) (bypass_of s i)" for i
      using flip(2,4,7,8) get_user_update[OF flip(3), of i "users s"] journal_snoc[of "[]" l i]
      by (cases "List.find (\<lambda>r. user_id r = i) (users s)") (auto simp: bypass_of_def get_user_def journal_state_def)
    then show ?thesis using flip by (intro exI[of _ "[l]"]) simp
  qed
  then show ?thesis by (simp add: ed apply_edit_def)
qed

lemma journal_append: "journal_state (ks @ ls) i st = journal_state ls i (journal_state ks i st)"
proof (induction ls rule: rev_induct)
  case Nil
  then show ?case by (simp add: journal_state_def)
next
  case (snoc l ls)
  then show ?case unfolding append_assoc[symmetric] journal_snoc by simp
qed

text \<open>
  The journal accounts for every free account: whatever the console is asked for and by whom, the
  journal only grows, the last entry about an account says whether it is free now (an account without
  an entry is as it was), and every entry names a superuser who asked.
\<close>

theorem journal_accounts_for_free_access:
  "\<exists>ls. bypass_logs (fold apply_edit es s) = bypass_logs s @ ls \<and>
     (\<forall>i. bypass_of (fold apply_edit es s) i = map_option (journal_state ls i) (bypass_of s i)) \<and>
     list_all (\<lambda>l. list_ex (\<lambda>ed. user_is_superuser (fst (snd ed)) \<and> bgl_actor l = Some (user_id (fst (snd ed)))) es) ls"
proof (induction es arbitrary: s)
  case Nil
  have "map_option (journal_state [] i) q = q" for i q by (cases q) (simp_all add: journal_state_def)
  then show ?case by (intro exI[of _ "[]"]) simp
next
  case (Cons ed es)
  obtain ks where ks: "bypass_logs (apply_edit ed s) = bypass_logs s @ ks"
    "\<And>i. bypass_of (apply_edit ed s) i = map_option (journal_state ks i) (bypass_of s i)"
    "\<forall>l \<in> set ks. user_is_superuser (fst (snd ed)) \<and> bgl_actor l = Some (user_id (fst (snd ed)))"
    using journal_step[of ed s] by blast
  obtain ls where ls: "bypass_logs (fold apply_edit es (apply_edit ed s)) = bypass_logs (apply_edit ed s) @ ls"
    "\<And>i. bypass_of (fold apply_edit es (apply_edit ed s)) i = map_option (journal_state ls i) (bypass_of (apply_edit ed s) i)"
    "list_all (\<lambda>l. list_ex (\<lambda>ed. user_is_superuser (fst (snd ed)) \<and> bgl_actor l = Some (user_id (fst (snd ed)))) es) ls"
    using Cons.IH[of "apply_edit ed s"] by blast
  have "map_option (journal_state ls i) (map_option (journal_state ks i) q) = map_option (journal_state (ks @ ls) i) q" for i q
    by (cases q) (simp_all add: journal_append)
  then show ?case using ks ls by (intro exI[of _ "ks @ ls"]) (auto simp: list_all_iff)
qed

section \<open>An erased account\<close>

lemma delete_owned_simps [simp]:
  "applications (delete_owned_applications u s) = filter (\<lambda>a. app_owner a \<noteq> u) (applications s)"
  "notifications (delete_owned_applications u s) =
     filter (\<lambda>n. ntf_application n \<notin> app_id ` {a \<in> set (applications s). app_owner a = u}) (notifications s)"
  "devices (delete_owned_applications u s) = devices s"
  "users (delete_owned_applications u s) = users s"
  "device_quiet_periods (delete_owned_applications u s) = device_quiet_periods s"
  by (simp_all add: delete_owned_applications_def delete_notifications_def Let_def)

lemma delete_user_row_simps [simp]:
  "applications (delete_user_row u s) = applications (delete_owned_applications u s)"
  "notifications (delete_user_row u s) = notifications (delete_owned_applications u s)"
  "deliveries (delete_user_row u s) = deliveries (delete_owned_applications u s)"
  "links (delete_user_row u s) = links (delete_owned_applications u s)"
  "devices (delete_user_row u s) = devices s"
  "device_quiet_periods (delete_user_row u s) = device_quiet_periods s"
  "inbound_logs (delete_user_row u s) = inbound_logs (delete_owned_applications u s)"
  "users (delete_user_row u s) = filter (\<lambda>r. user_id r \<noteq> u) (users s)"
  "app_quiet_periods (delete_user_row u s) = app_quiet_periods (delete_owned_applications u s)"
  "send_tokens (delete_user_row u s) = send_tokens (delete_owned_applications u s)"
  "templates (delete_user_row u s) = templates (delete_owned_applications u s)"
  by (simp_all add: delete_user_row_def Let_def)

definition owned :: "pk \<Rightarrow> db \<Rightarrow> pk set" where
  "owned u s = app_id ` {a \<in> set (applications s). app_owner a = u}"

lemma kept_application: "i \<in> app_id ` set (applications s) \<Longrightarrow> i \<notin> owned u s \<Longrightarrow>
    i \<in> app_id ` set (filter (\<lambda>a. app_owner a \<noteq> u) (applications s))"
  by (auto simp: owned_def)

lemma owned_references:
  assumes "references_ok s" and "belongings_ok s" and "\<forall>l \<in> set (inbound_logs s). \<forall>i. log_application l = Some i \<longrightarrow> i \<notin> owned u s"
  shows "references_ok (delete_owned_applications u s) \<and> belongings_ok (delete_owned_applications u s)"
proof -
  let ?P = "\<lambda>n. ntf_application n \<in> owned u s"
  let ?s1 = "delete_notifications ?P s" and ?s' = "delete_owned_applications u s"
  have r1: "references_ok ?s1" by (rule references_delete_notifications[OF assms(1)])
  have P: "(\<lambda>n. ntf_application n \<in> set (map app_id (filter (\<lambda>a. app_owner a = u) (applications s)))) = ?P"
    by (simp add: owned_def)
  have same: "set (deliveries ?s') = set (deliveries ?s1)" "inbound_logs ?s' = inbound_logs ?s1"
    "notifications ?s' = notifications ?s1" "devices ?s' = devices ?s1"
    "links ?s' = filter (\<lambda>l. link_application l \<notin> owned u s) (links s)"
    "applications ?s1 = applications s" "links ?s1 = links s" "device_quiet_periods ?s' = device_quiet_periods ?s1"
    unfolding delete_owned_applications_def Let_def P by (simp_all add: delete_notifications_def Let_def owned_def)
  have apps: "applications ?s' = filter (\<lambda>a. app_owner a \<noteq> u) (applications s)" by simp
  have ntf: "ntf_application n \<in> app_id ` set (applications ?s')" if "n \<in> set (notifications ?s')" for n
    unfolding apps by (rule kept_application) (use that assms(1) in \<open>auto simp: references_ok_def owned_def\<close>)
  have lnk: "link_application l \<in> app_id ` set (applications ?s')" if "l \<in> set (links ?s')" for l
    unfolding apps by (rule kept_application) (use that assms(1) in \<open>auto simp: references_ok_def same(5)\<close>)
  have "references_ok ?s'"
    unfolding references_ok_def same(1,2,4,8) using ntf lnk r1 unfolding references_ok_def same(3)[symmetric] same(5) same(7) by auto
  moreover have "belongings_ok ?s'"
  proof -
    have own: "qp_parent q \<notin> owned u s" if "q \<in> set (app_quiet_periods ?s')" for q
      using that by (auto simp: delete_owned_applications_def Let_def owned_def)
    have tok: "tok_application t \<notin> owned u s" "t \<in> set (send_tokens s)" if "t \<in> set (send_tokens ?s')" for t
      using that by (auto simp: delete_owned_applications_def Let_def owned_def)
    have tpl: "tpl_application t \<notin> owned u s" "t \<in> set (templates s)" if "t \<in> set (templates ?s')" for t
      using that by (auto simp: delete_owned_applications_def Let_def owned_def)
    have qps: "q \<in> set (app_quiet_periods s)" if "q \<in> set (app_quiet_periods ?s')" for q
      using that by (auto simp: delete_owned_applications_def Let_def)
    have revs: "rev_token v \<in> tok_id ` set (send_tokens ?s')" if v: "v \<in> set (reveals ?s')" for v
    proof -
      have "v \<in> set (reveals s)" "rev_token v \<notin> tok_id ` {t \<in> set (send_tokens s). tok_application t \<in> owned u s}"
        using v by (auto simp: delete_owned_applications_def delete_notifications_def Let_def owned_def)
      moreover have "send_tokens ?s' = filter (\<lambda>t. tok_application t \<notin> owned u s) (send_tokens s)"
        by (simp add: delete_owned_applications_def Let_def owned_def)
      ultimately show ?thesis using assms(2) unfolding belongings_ok_def by fastforce
    qed
    have logs: "i \<in> app_id ` set (applications ?s')" if l: "l \<in> set (inbound_logs ?s')" "log_application l = Some i" for l i
    proof -
      obtain l0 where "l0 \<in> set (inbound_logs s)" "log_application l0 = log_application l"
        using l(1) unfolding same(2) by (auto simp: delete_notifications_def Let_def update_where_def split: if_splits)
      then show ?thesis unfolding apps using assms(2,3) l(2) by (intro kept_application) (auto simp: belongings_ok_def)
    qed
    have "qp_parent q \<in> app_id ` set (applications ?s')" if "q \<in> set (app_quiet_periods ?s')" for q
      unfolding apps by (rule kept_application) (use own[OF that] qps[OF that] assms(2) in \<open>simp_all add: belongings_ok_def\<close>)
    moreover have "tok_application t \<in> app_id ` set (applications ?s')" if "t \<in> set (send_tokens ?s')" for t
      unfolding apps by (rule kept_application) (use tok[OF that] assms(2) in \<open>simp_all add: belongings_ok_def\<close>)
    moreover have "tpl_application t \<in> app_id ` set (applications ?s')" if "t \<in> set (templates ?s')" for t
      unfolding apps by (rule kept_application) (use tpl[OF that] assms(2) in \<open>simp_all add: belongings_ok_def\<close>)
    ultimately show ?thesis unfolding belongings_ok_def using revs logs by blast
  qed
  ultimately show ?thesis by blast
qed

lemma user_row_refs:
  "references_ok (delete_user_row u s) = references_ok (delete_owned_applications u s)"
  "belongings_ok (delete_user_row u s) = belongings_ok (delete_owned_applications u s)"
proof -
  let ?r = "\<lambda>s. rev_token ` set (reveals s)"
  have toks: "?r (delete_user_row u s) = ?r (delete_owned_applications u s)"
    by (simp add: delete_user_row_def Let_def map_update_where flip: set_map)
  have rv: "(\<forall>v \<in> set (reveals (delete_user_row u s)). rev_token v \<in> X) \<longleftrightarrow>
      (\<forall>v \<in> set (reveals (delete_owned_applications u s)). rev_token v \<in> X)" for X
  proof -
    have "?r (delete_user_row u s) \<subseteq> X \<longleftrightarrow> ?r (delete_owned_applications u s) \<subseteq> X" unfolding toks ..
    then show ?thesis by (simp add: image_subset_iff)
  qed
  show "belongings_ok (delete_user_row u s) = belongings_ok (delete_owned_applications u s)"
    unfolding belongings_ok_def rv delete_user_row_simps ..
qed (simp add: references_ok_def)

lemma dropped_logs:
  "references_ok s \<Longrightarrow> references_ok (drop_owned_logs u s)"
  "belongings_ok s \<Longrightarrow> belongings_ok (drop_owned_logs u s)"
  "l \<in> set (inbound_logs (drop_owned_logs u s)) \<Longrightarrow> log_application l = Some i \<Longrightarrow> i \<notin> owned u s"
  by (auto simp: drop_owned_logs_def references_ok_def belongings_ok_def owned_def)

lemma device_step:
  "belongings_ok (delete_devices P s) = belongings_ok s" "owned u (delete_devices P s) = owned u s"
  "inbound_logs (delete_devices P s) = inbound_logs s"
  by (simp_all add: belongings_ok_def delete_devices_def Let_def owned_def)

lemma detach_all_images: "after_commit e er = (imgs, None) \<Longrightarrow> imgs = er_images er"
  by (auto simp: after_commit_def split: option.splits)


section \<open>Concrete accounts\<close>

definition demo_user_row :: user where
  "demo_user_row = blank_user\<lparr>user_password := ''h:ab cd ''\<rparr>"

definition demo_account_env :: account_env where
  "demo_account_env = \<lparr>acc_config = default_config, acc_secrets = demo_secrets\<lparr>check_password := (\<lambda>h p. h = ''h:'' @ p)\<rparr>, graph_client_id = [], magic_link_ttl_minutes = 15, turnstile_secret_key = [],
     cors_allowed_origins = [''https://s''], reset_make_token = (\<lambda>_. ''t''),
     reset_check_token = (\<lambda>_ t. t = ''t''), confirm_make_token = (\<lambda>_. ''c''), confirm_check_token = (\<lambda>_ t. t = ''c''),
     uid_encode = (\<lambda>_. ''1''), uid_decode = (\<lambda>v. if v = ''1'' then Some 1 else None), make_password = (\<lambda>p. ''h:'' @ p),
     password_errors = (\<lambda>_ _. []), valid_email = (\<lambda>_. True),
     ask_siteverify = (\<lambda>_ _. Captcha_Unreachable), print_refresh = (\<lambda>t. CHR ''r'' # rt_id t), print_access = (\<lambda>t. CHR ''a'' # rt_id t),
     read_refresh = (\<lambda>_ _. None), read_unverified = (\<lambda>_. None)\<rparr>"

definition demo_account_world :: account_world where
  "demo_account_world = \<lparr>aw_db = busy_db\<lparr>users := [demo_user_row]\<rparr>, aw_outstanding = [\<lparr>ot_id = ''j0'', ot_user = Some 1\<rparr>], aw_blacklist = []\<rparr>"

definition demo_http :: http_request where
  "demo_http = \<lparr>auth_mode = ''Cookie'', origin = Some ''https://s'', refresh_cookie = [], forwarded_for = [], remote_addr = None\<rparr>"

theorem answers_do_not_reveal_accounts_witness:
  "snd (register_view demo_account_env demo_http ''k'' \<lparr>rg_email = Some ''o@x.io'', rg_password = Some ''abcdefgh'', rg_turnstile = None, rg_language = None\<rparr> demo_account_world) =
   snd (register_view demo_account_env demo_http ''k'' \<lparr>rg_email = Some ''o@x.io'', rg_password = Some ''abcdefgh'', rg_turnstile = None, rg_language = None\<rparr>
     (demo_account_world\<lparr>aw_db := empty_db\<rparr>))"
proof -
  have "\<forall>u \<in> set (users (aw_db demo_account_world)) \<union> set (users (aw_db (demo_account_world\<lparr>aw_db := empty_db\<rparr>))).
      length (user_email u) \<le> 254 \<and> userkey u \<noteq> ''k''"
    by (simp add: demo_account_world_def demo_user_row_def blank_rows empty_db_def)
  from answers_do_not_reveal_accounts[OF this] show ?thesis by blast
qed


theorem new_password_ends_other_sessions_witness:
  "map ot_id (aw_outstanding (fst (password_change_view demo_account_env demo_http 0 ''j1'' demo_user_row (Some ''ab cd '') (Some ''newpass12'') demo_account_world))) = [''j0'', ''j1''] \<and>
   aw_blacklist (fst (password_change_view demo_account_env demo_http 0 ''j1'' demo_user_row (Some ''ab cd '') (Some ''newpass12'') demo_account_world)) = [''j0'']"
proof
  let ?r = "password_change_view demo_account_env demo_http 0 ''j1'' demo_user_row (Some ''ab cd '') (Some ''newpass12'') demo_account_world"
  have out: "map ot_id (aw_outstanding demo_account_world) = [''j0'']" "aw_blacklist demo_account_world = []"
    by (simp_all add: demo_account_world_def)
  obtain w' a c where r: "?r = (w', a, c)" by (metis surj_pair)
  have "\<not> (case fst (snd ?r) of Reply k v \<Rightarrow> False | _ \<Rightarrow> True)" by code_simp
  then obtain k v where a: "a = Reply k v" unfolding r by (cases a) auto
  have free: "\<forall>t \<in> set (aw_outstanding demo_account_world). ot_id t \<noteq> ''j1''" "''j1'' \<notin> set (aw_blacklist demo_account_world)"
    by (simp_all add: demo_account_world_def)
  have "aw_outstanding w' = aw_outstanding demo_account_world @ [\<lparr>ot_id = ''j1'', ot_user = Some (user_id demo_user_row)\<rparr>]"
    using new_password_ends_other_sessions[OF free, where x = demo_account_env and req = demo_http and now = 0 and u = demo_user_row and current = "Some ''ab cd ''" and new = "Some ''newpass12''"]
    unfolding r a by simp
  then show "map ot_id (aw_outstanding (fst ?r)) = [''j0'', ''j1'']" unfolding r using out by simp
  show "aw_blacklist (fst ?r) = [''j0'']" by code_simp
qed

theorem password_with_spaces_locks_out_witness:
  "fst (login_view demo_account_env demo_http ''j1'' (Some ''o@x.io'') (Some ''ab cd '') True demo_account_world) = demo_account_world \<and>
   check_password (acc_secrets demo_account_env) (user_password demo_user_row) ''ab cd ''"
proof
  have "\<forall>p q. check_password (acc_secrets demo_account_env) (make_password demo_account_env q) p \<longleftrightarrow> p = q"
    by (auto simp: demo_account_env_def)
  moreover have "strip ''ab cd '' \<noteq> ''ab cd ''" by code_simp
  moreover have "user_password demo_user_row = make_password demo_account_env ''ab cd ''"
    by (simp add: demo_user_row_def demo_account_env_def)
  moreover have "List.find (\<lambda>r. user_email r = lower (strip ''o@x.io'')) (users (aw_db demo_account_world)) = Some demo_user_row" by code_simp
  ultimately show "fst (login_view demo_account_env demo_http ''j1'' (Some ''o@x.io'') (Some ''ab cd '') True demo_account_world) = demo_account_world"
    by (rule password_with_spaces_locks_out[THEN conjunct1])
  show "check_password (acc_secrets demo_account_env) (user_password demo_user_row) ''ab cd ''" by code_simp
qed

theorem cookie_mode_hides_the_refresh_token_witness:
  "cookie_safe demo_account_env demo_http (snd (magic_link_verify_view demo_account_env demo_http 0 ''j1'' (Some ''raw'')
     (request_magic_link demo_account_env 0 ''raw'' ''o@x.io'' demo_account_world)))"
proof -
  have "wants_cookie demo_http" by code_simp
  from cookie_mode_hides_the_refresh_token[OF this] show ?thesis by blast
qed


end
