(* ===== verification/History.thy ===== *)
theory History
  imports Fleet Lifecycle Accounts
begin

text \<open>
  Histories of the whole system. Every request that writes notifications, deliveries, devices or
  links, and every beat task, is shown to keep the rows the workers rely on (the interface
  \<open>row_keeping\<close>); the steps of the workers (\<open>Fleet\<close>), the beat tasks and the requests then
  interleave freely, and the pushes handed to the provider are followed over such a history.
\<close>

section \<open>The requests\<close>

definition safe :: "db \<Rightarrow> db \<Rightarrow> bool" where
  "safe s s' \<longleftrightarrow> keeps s s' \<and> holds UNIV s s'"

lemma safe_refl [simp]: "store_ok s \<Longrightarrow> safe s s"
  by (simp add: safe_def keeps_holds_refl)

lemma safe_trans: "store_ok s \<Longrightarrow> safe s s1 \<Longrightarrow> safe s1 s2 \<Longrightarrow> safe s s2"
  unfolding safe_def by (rule keeps_holds_trans)

lemma safe_ok: "safe s s' \<Longrightarrow> store_ok s'"
  unfolding safe_def using keepsD(1) by blast

text \<open>
  The interface between the workers and the rest of the program: an operation that, on consistent
  tables, keeps the rows the workers rely on. Any such operation may run between two steps of the
  workers.
\<close>

locale row_keeping =
  fixes act :: "db \<Rightarrow> db"
  assumes act_safe: "store_ok s \<Longrightarrow> safe s (act s)"
begin

lemma act_ok: "store_ok s \<Longrightarrow> store_ok (act s)"
  using act_safe safe_ok by blast

lemma act_log: "store_ok s \<Longrightarrow> provider_log (act s) = provider_log s"
  using act_safe keepsD(2) unfolding safe_def by blast

lemma act_crew: "crew_ok s ws \<Longrightarrow> crew_ok (act s) ws"
  using crew_ok_kept act_safe holds_mono unfolding safe_def crew_ok_def by blast

end

text \<open>Operations run one after the other.\<close>

lemma safe_fold:
  assumes "store_ok s" "\<And>x t. store_ok t \<Longrightarrow> safe t (f x t)"
  shows "safe s (fold f xs s)"
  using assms(1)
proof (induction xs arbitrary: s)
  case (Cons x xs)
  have "safe s (f x s)" by (rule assms(2)[OF Cons.prems])
  then show ?case using safe_trans[OF Cons.prems] Cons.IH[OF safe_ok] by simp
qed simp

lemma safe_same_tables: "same_tables s s' \<Longrightarrow> store_ok s \<Longrightarrow> safe s s'"
  by (simp add: safe_def keeps_same_tables)

lemma same_tables_submit [simp]: "same_tables s (submit t s)"
  by (simp add: same_tables_def)

lemma safe_submit: "store_ok s \<Longrightarrow> safe s (submit t s)"
  by (rule safe_same_tables) simp

lemma safe_put_notifications:
  assumes "store_ok s" "ntf_keyed f"
    "\<And>n. n \<in> set (notifications s) \<Longrightarrow> P n \<Longrightarrow> ntf_status n = Processing \<Longrightarrow>
       ntf_status (f n) = Processing \<and> processing_started_at (f n) = processing_started_at n"
  shows "safe s (put_notifications P f s)"
  unfolding safe_def using keeps_put_notifications[OF assms(1,2)] holds_put_notifications[OF assms(3,2)] by simp

lemma safe_put_deliveries:
  assumes "store_ok s" "keyed f" "\<And>r. is_sent (f r) = is_sent r"
  shows "safe s (put_deliveries P f s)"
  unfolding safe_def using keeps_put_deliveries[OF assms(1,2)] assms(3) by (simp add: holds_same_notifications)

text \<open>Deletions take the deliveries of what they delete, and no other.\<close>

lemma same_notification:
  "store_ok s \<Longrightarrow> m \<in> set (notifications s) \<Longrightarrow> n \<in> set (notifications s) \<Longrightarrow> ntf_id m = ntf_id n \<Longrightarrow> m = n"
  unfolding store_ok_def by (elim conjE) (rule key_unique)

lemma safe_shrink:
  assumes ok: "store_ok s"
    and tables: "notifications s' = filter P (notifications s)" "devices s' = filter Q (devices s)"
      "deliveries s' = filter R (deliveries s)" "links s' = filter L (links s)"
      "next_pk s' = next_pk s" "provider_log s' = provider_log s"
    and lost: "\<And>d. d \<in> set (deliveries s) \<Longrightarrow> \<not> R d \<Longrightarrow> dlv_notification d \<notin> ntf_ids s' \<or> dlv_device d \<notin> dev_ids s'"
    and left: "\<And>d. d \<in> set (deliveries s) \<Longrightarrow> R d \<Longrightarrow> dlv_device d \<in> dev_ids s'"
  shows "safe s s'"
proof -
  have sub: "ntf_ids s' \<subseteq> ntf_ids s" "dev_ids s' \<subseteq> dev_ids s" by (auto simp: ntf_ids_def dev_ids_def tables)
  have "devices_ok s'"
    using ok left unfolding store_ok_def devices_ok_def deliveries_ok_def links_ok_def tables
    by (auto simp: distinct_map_filter dev_ids_def tables)
  moreover have "keys_ok s'"
  proof -
    have "filter (\<lambda>n. idempotency_key n \<noteq> []) (filter P (notifications s)) =
        filter P (filter (\<lambda>n. idempotency_key n \<noteq> []) (notifications s))" by (simp add: conj_commute)
    then show ?thesis using ok by (auto simp: store_ok_def keys_ok_def tables distinct_map_filter simp del: filter_filter)
  qed
  ultimately have "store_ok s'" using ok by (auto simp: store_ok_def tables)
  moreover have "row_kept s' d" if "d \<in> set (deliveries s)" for d
    using that lost[OF that] by (cases "R d") (auto simp: row_kept_def tables)
  moreover have "row_known s d" if "d \<in> set (deliveries s')" for d
    using that by (auto simp: row_known_def tables)
  moreover have "new_or_old (ntf_ids s) (next_pk s) (ntf_ids s')" "new_or_old (dev_ids s) (next_pk s) (dev_ids s')"
    using sub by (auto simp: new_or_old_def)
  moreover have "holds UNIV s s'"
  proof -
    have "ntf_id n \<notin> ntf_ids s' \<or> n \<in> set (notifications s')" if n: "n \<in> set (notifications s)" for n
    proof (cases "ntf_id n \<in> ntf_ids s'")
      case True
      then obtain m where m: "m \<in> set (notifications s)" "P m" "ntf_id m = ntf_id n" by (auto simp: ntf_ids_def tables)
      then have "m = n" using same_notification[OF ok m(1) n] by blast
      then show ?thesis using m n by (simp add: tables)
    qed simp
    then show ?thesis unfolding holds_def by (intro ballI impI) (elim conjE, blast)
  qed
  ultimately show ?thesis by (simp add: safe_def keeps_def tables)
qed

lemma device_of_delivery: "store_ok s \<Longrightarrow> d \<in> set (deliveries s) \<Longrightarrow> dlv_device d \<in> dev_ids s"
  by (auto simp: store_ok_def devices_ok_def deliveries_ok_def dev_ids_def)

lemma safe_delete_notifications:
  assumes "store_ok s" and "links s' = filter L (links s)" "notifications s' = notifications (delete_notifications P s)"
    "deliveries s' = deliveries (delete_notifications P s)" "devices s' = devices s" "next_pk s' = next_pk s"
    "provider_log s' = provider_log s"
  shows "safe s s'"
proof (rule safe_shrink[OF assms(1), where P = "\<lambda>n. \<not> P n" and Q = "\<lambda>_. True" and L = L
      and R = "\<lambda>d. dlv_notification d \<notin> set (map ntf_id (filter P (notifications s)))"])
  fix d
  assume d: "d \<in> set (deliveries s)"
  show "dlv_device d \<in> dev_ids s'" using device_of_delivery[OF assms(1) d] assms(5) by (simp add: dev_ids_def)
  assume "\<not> dlv_notification d \<notin> set (map ntf_id (filter P (notifications s)))"
  then obtain n where n: "n \<in> set (notifications s)" "P n" "ntf_id n = dlv_notification d" by auto
  have "m = n" if "m \<in> set (notifications s)" "ntf_id m = ntf_id n" for m
    using same_notification[OF assms(1) that(1) n(1) that(2)] .
  note same = this
  have "dlv_notification d \<notin> ntf_ids s'"
  proof
    assume "dlv_notification d \<in> ntf_ids s'"
    then obtain m where "m \<in> set (notifications s)" "\<not> P m" "ntf_id m = dlv_notification d"
      unfolding ntf_ids_def assms(3) by (auto simp: delete_notifications_def Let_def)
    then show False using same[of m] n by simp
  qed
  then show "dlv_notification d \<notin> ntf_ids s' \<or> dlv_device d \<notin> dev_ids s'" ..
qed (use assms in \<open>simp_all add: delete_notifications_def Let_def\<close>)

lemma safe_delete_devices:
  assumes ok: "store_ok s"
  shows "safe s (delete_devices P s)"
proof -
  let ?s' = "delete_devices P s"
  have gone: "v \<in> dev_ids ?s' \<longleftrightarrow> v \<in> dev_ids s \<and> v \<notin> set (map dev_id (filter P (devices s)))" for v
  proof -
    have "d = e" if "d \<in> set (devices s)" "e \<in> set (devices s)" "dev_id d = dev_id e" for d e
      using device_by_id[OF _ that] ok by (simp add: store_ok_def)
    then show ?thesis by (auto simp: dev_ids_def delete_devices_def Let_def)
  qed
  show ?thesis
  proof (rule safe_shrink[OF ok, where P = "\<lambda>_. True" and Q = "\<lambda>d. \<not> P d"
      and R = "\<lambda>d. dlv_device d \<notin> set (map dev_id (filter P (devices s)))"
      and L = "\<lambda>l. link_device l \<notin> set (map dev_id (filter P (devices s)))"])
    fix d
    assume d: "d \<in> set (deliveries s)"
    show "dlv_device d \<in> dev_ids ?s'" if "dlv_device d \<notin> set (map dev_id (filter P (devices s)))"
      using that device_of_delivery[OF ok d] gone by blast
    assume "\<not> dlv_device d \<notin> set (map dev_id (filter P (devices s)))"
    then show "dlv_notification d \<notin> ntf_ids ?s' \<or> dlv_device d \<notin> dev_ids ?s'" using gone by blast
  qed (simp_all add: delete_devices_def Let_def)
qed

section \<open>Creation and queueing\<close>

lemma store_ok_insert:
  assumes "store_ok s" "insert_notification app ttl msg sched key fp now s = (s1, r)"
  shows "store_ok s1"
proof -
  have "devices_ok s1" using assms devices_ok_frame[of s s1]
    by (auto simp: store_ok_def insert_notification_def Let_def split: if_splits)
  moreover have "\<forall>d \<in> set (deliveries s1). dlv_notification d < next_pk s1"
    using assms by (fastforce simp: store_ok_def insert_notification_def Let_def split: if_splits)
  ultimately show ?thesis using keys_ok_insert assms by (auto simp: store_ok_def)
qed

lemma safe_insert:
  assumes "store_ok s" "insert_notification app ttl msg sched key fp now s = (s1, r)"
  shows "safe s s1"
proof -
  have "keeps s s1"
  proof (rule keepsI_rows[OF store_ok_insert[OF assms]])
    show "new_or_old (ntf_ids s) (next_pk s) (ntf_ids s1)"
      using assms(2) by (auto simp: new_or_old_def ntf_ids_def insert_notification_def new_notification_def Let_def split: if_splits)
  qed (use assms(2) in \<open>auto simp: insert_notification_def Let_def dev_ids_def new_or_old_def split: if_splits\<close>)
  moreover have "set (notifications s) \<subseteq> set (notifications s1)"
    using assms(2) by (auto simp: insert_notification_def Let_def split: if_splits)
  then have "holds UNIV s s1" by (auto simp: holds_def)
  ultimately show ?thesis by (simp add: safe_def)
qed

lemma safe_sqlite_attempts:
  "store_ok s \<Longrightarrow> sqlite_attempts ks env app ttl msg sched key fp now s = Some (s1, r) \<Longrightarrow> safe s s1"
  by (induction ks) (auto split: option.splits if_splits prod.splits intro: safe_insert)

lemma safe_read_back: "read_back app key fp s = (s1, r) \<Longrightarrow> s1 = s"
  by (auto simp: read_back_def split: list.splits)

lemma safe_create_with_savepoint:
  "store_ok s \<Longrightarrow> create_with_savepoint env app ttl msg sched key fp now s = (s1, r) \<Longrightarrow> safe s s1"
  by (auto simp: create_with_savepoint_def dest: safe_read_back split: option.splits if_splits prod.splits intro: safe_insert)

lemma safe_create:
  assumes "store_ok s" "create_notification_with_optional_idempotency env app ttl msg sched key fp now s = (s1, r)"
  shows "safe s s1"
  using assms unfolding create_notification_with_optional_idempotency_def
  by (auto split: option.splits if_splits prod.splits intro: safe_insert safe_create_with_savepoint safe_sqlite_attempts
      simp del: sqlite_attempts.simps)

lemma create_rows:
  assumes "distinct is" "\<And>d. d \<in> set (deliveries s) \<Longrightarrow> dlv_notification d = nid \<Longrightarrow> dlv_device d \<notin> set is"
  shows "fold (\<lambda>i t. t\<lparr>deliveries := deliveries t @ [new_delivery (next_pk t) nid i], next_pk := Suc (next_pk t)\<rparr>) is s =
    fold (create_delivery nid) is s"
  using assms
proof (induction "is" arbitrary: s)
  case (Cons i "is")
  have "create_delivery nid i s = s\<lparr>deliveries := deliveries s @ [new_delivery (next_pk s) nid i], next_pk := Suc (next_pk s)\<rparr>"
    using Cons.prems(2) by (auto simp: create_delivery_def list_ex_iff)
  moreover have "dlv_device d \<notin> set is" if "d \<in> set (deliveries (create_delivery nid i s))" "dlv_notification d = nid" for d
  proof (cases "d \<in> set (deliveries s)")
    case True
    then show ?thesis using Cons.prems(2)[OF True that(2)] by simp
  next
    case False
    then have "dlv_device d = i" using that(1) by (auto simp: create_delivery_def new_delivery_def split: if_splits)
    then show ?thesis using Cons.prems(1) by simp
  qed
  ultimately show ?case using Cons.IH[of "create_delivery nid i s"] Cons.prems(1) by simp
qed simp

lemma safe_create_notification:
  assumes ok: "store_ok s" and v: "validate_create s u now r = Inr v" and run: "create_notification now v s = (s', n)"
  shows "safe s s'"
proof -
  note V = validate_create_ok[OF v]
  let ?a = "app_id (cv_application v)" and ?nid = "next_pk s"
  obtain s1 o1 where ins: "insert_notification ?a (cv_title v) (cv_message v) (cv_scheduled_for v) [] [] now s = (s1, o1)"
    by fastforce
  then have s1: "s1 = s\<lparr>notifications := notifications s @ [new_notification ?nid ?a (cv_title v) (cv_message v) (cv_scheduled_for v) [] [] now],
      next_pk := Suc ?nid\<rparr>" by (auto simp: insert_notification_def Let_def)
  have safe1: "safe s s1" by (rule safe_insert[OF ok ins])
  have "set (cv_device_ids v) \<subseteq> dev_ids s1"
  proof
    fix i assume "i \<in> set (cv_device_ids v)"
    then have "target_device s ?a i" using V by blast
    then show "i \<in> dev_ids s1" by (auto simp: dev_ids_def s1 target_device_def list_ex_iff)
  qed
  then have k: "keeps s1 (fold (create_delivery ?nid) (cv_device_ids v) s1)"
    using keeps_create_deliveries[OF safe_ok[OF safe1]] by (simp add: s1)
  have "fold (\<lambda>i t. t\<lparr>deliveries := deliveries t @ [new_delivery (next_pk t) ?nid i], next_pk := Suc (next_pk t)\<rparr>) (cv_device_ids v) s1
      = fold (create_delivery ?nid) (cv_device_ids v) s1"
    using V ok by (intro create_rows) (auto simp: s1 store_ok_def)
  moreover have "s' = fold (\<lambda>i t. t\<lparr>deliveries := deliveries t @ [new_delivery (next_pk t) ?nid i], next_pk := Suc (next_pk t)\<rparr>)
      (cv_device_ids v) s1"
    using run by (auto simp: create_notification_def Let_def s1 new_notification_def)
  ultimately have s': "s' = fold (create_delivery ?nid) (cv_device_ids v) s1" by simp
  have "notifications (fold (create_delivery j) is t) = notifications t" for j "is" t
    by (induction "is" arbitrary: t) simp_all
  then have "holds UNIV s1 s'" unfolding s' by (rule holds_same_notifications)
  then show ?thesis using safe_trans[OF ok safe1] k by (simp add: safe_def s')
qed

lemma safe_try_queue:
  assumes ok: "store_ok s" and run: "try_queue_notification env act sel n s = (s', n', r)"
  shows "safe s s'"
proof -
  have keys: "keys_ok s" using ok by (simp add: store_ok_def)
  show ?thesis
    using keys run
  proof (cases rule: try_queue_cases)
    case (queued m)
    have "s\<lparr>notifications := map (\<lambda>x. if x = m then x\<lparr>ntf_status := Queued\<rparr> else x) (notifications s)\<rparr> =
        put_notifications (\<lambda>x. x = m) (\<lambda>x. x\<lparr>ntf_status := Queued\<rparr>) s"
      by (simp add: put_notifications_def update_where_def)
    moreover have "ntf_status m \<noteq> Processing" using queued(3,6) by (auto simp: allowed_statuses_to_queue_def)
    then have "safe s (put_notifications (\<lambda>x. x = m) (\<lambda>x. x\<lparr>ntf_status := Queued\<rparr>) s)"
      by (intro safe_put_notifications[OF ok]) (auto simp: ntf_keyed_def)
    ultimately show ?thesis unfolding queued(11) using safe_trans[OF ok] safe_submit safe_ok by metis
  qed (use ok in simp_all)
qed

lemma safe_bulk: "store_ok (bs_db b) \<Longrightarrow> safe (bs_db b) (bs_db (bulk_one env sel i b))"
  by (auto simp: bulk_one_def Let_def split: option.split prod.split queue_result.split intro: safe_try_queue)

lemma safe_bulk_send:
  assumes "store_ok s"
  shows "safe s (bs_db (bulk_send env sel guard ids s))"
proof -
  have "safe (bs_db b) (bs_db (fold (bulk_one env guard) is b))" if "store_ok (bs_db b)" for b "is"
    using that
  proof (induction "is" arbitrary: b)
    case (Cons i "is")
    note one = safe_bulk[OF Cons.prems, of env guard i]
    show ?case using safe_trans[OF Cons.prems one Cons.IH[OF safe_ok[OF one]]] by simp
  qed simp
  from this[of "\<lparr>bs_db = s, bs_found = f, bs_queued = [], bs_errors = []\<rparr>" for f] assms show ?thesis
    by (simp add: bulk_send_def)
qed

text \<open>The endpoints are operations of the interface.\<close>

interpretation console_create: row_keeping "\<lambda>s. fst (notification_create cfg clk now u r s)" for cfg clk now u r
  by unfold_locales (auto simp: notification_create_def split: option.split sum.split prod.split intro: safe_create_notification)

interpretation console_send: row_keeping "\<lambda>s. fst (notification_send cfg env u i s)" for cfg env u i
  by unfold_locales (auto simp: notification_send_def split: option.split prod.split queue_result.split intro: safe_try_queue)

interpretation console_send_now: row_keeping "\<lambda>s. fst (notification_send_now cfg clk env u r s)" for cfg clk env u r
  by unfold_locales
    (auto simp: notification_send_now_def Let_def split: option.split sum.split prod.split queue_result.split
      intro: safe_trans[OF _ safe_create_notification safe_try_queue] safe_ok[OF safe_create_notification])

interpretation console_bulk: row_keeping "\<lambda>s. fst (notification_bulk_send cfg env u ids s)" for cfg env u ids
  by unfold_locales (auto simp: notification_bulk_send_def bulk_response_def safe_bulk_send split: option.split)

interpretation token_create: row_keeping "\<lambda>s. fst (notification_create_with_app_token cfg clk we fp now a r h s)"
  for cfg clk we fp now a r h
  by unfold_locales
    (auto simp: notification_create_with_app_token_def split: option.split sum.split prod.split intro: safe_create)

interpretation token_send: row_keeping "\<lambda>s. fst (notification_send_with_app_token cfg clk we env fp a r h s)"
  for cfg clk we env fp a r h
  by unfold_locales
    (auto simp: notification_send_with_app_token_def Let_def split: option.split sum.split prod.split
      intro: safe_create safe_trans[OF _ safe_create safe_try_queue] safe_ok[OF safe_create])

interpretation token_bulk: row_keeping "\<lambda>s. fst (notification_bulk_send_with_app_token cfg env a ids s)" for cfg env a ids
  by unfold_locales (auto simp: notification_bulk_send_with_app_token_def bulk_response_def safe_bulk_send split: option.split)

interpretation creating: row_keeping "\<lambda>s. fst (create_notification_with_optional_idempotency we app t m d k fp now s)"
  for we app t m d k fp now
  by unfold_locales (auto simp: prod.collapse intro: safe_create[OF _ prod.collapse[symmetric]])

interpretation queueing: row_keeping "\<lambda>s. fst (try_queue_notification env act sel n s)" for env act sel n
proof
  fix s :: db
  assume ok: "store_ok s"
  obtain s1 n1 r where "try_queue_notification env act sel n s = (s1, n1, r)" by (metis surj_pair)
  then show "safe s (fst (try_queue_notification env act sel n s))" using safe_try_queue[OF ok] by simp
qed

section \<open>Edits, receipts and deletions\<close>

lemma safe_save_future:
  assumes "store_ok s" "\<And>n. n \<in> set (notifications s) \<Longrightarrow> ntf_id n = ntf_id m \<Longrightarrow> ntf_status n \<noteq> Processing"
  shows "safe s (save_future m s)"
  unfolding save_future_def using assms by (intro safe_put_notifications) (auto simp: ntf_keyed_def)

lemma update_future_id: "update_future a n = Inr m \<Longrightarrow> ntf_id m = ntf_id n"
  by (auto simp: update_future_def Let_def split: option.splits if_splits)

interpretation future_edit: row_keeping "\<lambda>s. fst (future_update clk now u i a s)" for clk now u i a
proof
  fix s :: db
  assume ok: "store_ok s"
  show "safe s (fst (future_update clk now u i a s))"
  proof (cases "future_object s u now i")
    case None
    then show ?thesis using ok by (simp add: future_update_def)
  next
    case (Some n)
    then have n: "n \<in> set (notifications s)" "ntf_status n = Scheduled"
      by (auto simp: future_object_def future_of_def dest: find_SomeD)
    have "safe s (save_future m s)" if "update_future b n = Inr m" for b m
    proof (rule safe_save_future[OF ok])
      fix x
      assume x: "x \<in> set (notifications s)" "ntf_id x = ntf_id m"
      have "x = n" using same_notification[OF ok x(1) n(1)] x(2) update_future_id[OF that] by simp
      then show "ntf_status x \<noteq> Processing" using n(2) by simp
    qed
    then show ?thesis using ok Some by (auto simp: future_update_def Let_def split: sum.split option.split)
  qed
qed

interpretation future_removal: row_keeping "\<lambda>s. fst (future_delete now u i s)" for now u i
proof
  fix s :: db
  assume ok: "store_ok s"
  have "safe s (delete_notifications (\<lambda>m. ntf_id m = i) s)"
    by (rule safe_delete_notifications[OF ok _ refl refl, where L = "\<lambda>_. True"]) (simp_all add: delete_notifications_def Let_def)
  then show "safe s (fst (future_delete now u i s))" using ok by (simp add: future_delete_def split: option.split)
qed

interpretation hiding: row_keeping "\<lambda>s. fst (notification_destroy u i s)" for u i
  by unfold_locales
    (auto simp: notification_destroy_def Let_def pending_statuses_def ntf_keyed_def intro!: safe_put_notifications)

interpretation receipt: row_keeping "\<lambda>s. fst (opened_receipt now u i tok s)" for now u i tok
  by unfold_locales
    (auto simp: opened_receipt_def Let_def keyed_def is_sent_def split: option.split intro!: safe_put_deliveries)

interpretation application_deletion: row_keeping "delete_application_rows a" for a
proof
  fix s :: db
  assume ok: "store_ok s"
  show "safe s (delete_application_rows a s)"
    by (rule safe_delete_notifications[OF ok, where L = "\<lambda>l. link_application l \<noteq> a" and P = "\<lambda>n. ntf_application n = a"])
      (simp_all add: delete_application_rows_def delete_notifications_def Let_def)
qed

interpretation account_deletion: row_keeping "\<lambda>s. delete_user_row u (delete_devices (\<lambda>d. dev_user d = Some u) (drop_owned_logs u s))" for u
proof
  fix s :: db
  assume ok: "store_ok s"
  let ?s1 = "drop_owned_logs u s"
  let ?s2 = "delete_devices (\<lambda>d. dev_user d = Some u) ?s1"
  have s1: "safe s ?s1" by (rule safe_same_tables[OF _ ok]) (simp add: same_tables_def drop_owned_logs_def)
  have s2: "safe ?s1 ?s2" by (rule safe_delete_devices[OF safe_ok[OF s1]])
  have s3: "safe ?s2 (delete_user_row u ?s2)"
    by (rule safe_delete_notifications[OF safe_ok[OF s2],
          where L = "\<lambda>l. link_application l \<notin> set (map app_id (filter (\<lambda>a. app_owner a = u) (applications ?s2)))"
            and P = "\<lambda>n. ntf_application n \<in> set (map app_id (filter (\<lambda>a. app_owner a = u) (applications ?s2)))"])
       (simp_all add: delete_user_row_def delete_owned_applications_def delete_notifications_def Let_def)
  show "safe s (delete_user_row u ?s2)" by (rule safe_trans[OF ok s1 safe_trans[OF safe_ok[OF s1] s2 s3]])
qed

section \<open>Devices and links\<close>

lemma store_ok_devices:
  assumes "store_ok s" "devices_ok s'" "notifications s' = notifications s" "next_pk s \<le> next_pk s'"
    "\<And>d. d \<in> set (deliveries s') \<Longrightarrow> dlv_notification d < next_pk s'"
  shows "store_ok s'"
  using assms by (fastforce simp: store_ok_def keys_ok_def)

lemma safe_devices_rows:
  assumes ok: "store_ok s" and "devices_ok s'" "notifications s' = notifications s" "deliveries s' = deliveries s"
    "provider_log s' = provider_log s" "next_pk s \<le> next_pk s'" "new_or_old (dev_ids s) (next_pk s) (dev_ids s')"
  shows "safe s s'"
proof -
  have "store_ok s'"
    using store_ok_devices[OF ok assms(2,3,6)] assms(4,6) store_ok_ids(5)[OF ok] by (auto intro: order_less_le_trans)
  then have "keeps s s'" using assms by (intro keepsI_rows) (simp_all add: ntf_ids_def)
  then show ?thesis using assms(3) by (simp add: safe_def holds_same_notifications)
qed

lemma safe_put_links:
  assumes "store_ok s" "\<And>l. link_id (f l) = link_id l" "\<And>l. link_device (f l) = link_device l"
    "\<And>l. link_application (f l) = link_application l"
  shows "safe s (put_links P f s)"
  using assms by (intro safe_devices_rows devices_ok_put_links) (simp_all add: store_ok_def)

lemma safe_put_devices:
  assumes "store_ok s" "devices_ok (put_devices P f s)" "\<And>d. dev_id (f d) = dev_id d"
  shows "safe s (put_devices P f s)"
proof (rule safe_devices_rows[OF assms(1,2)])
  have "dev_ids (put_devices P f s) = dev_ids s"
    by (simp add: dev_ids_def put_devices_def map_update_where assms(3) flip: set_map)
  then show "new_or_old (dev_ids s) (next_pk s) (dev_ids (put_devices P f s))" by simp
qed simp_all

lemma safe_take_over: "store_ok s \<Longrightarrow> safe s (take_over now u d s)"
  by (simp add: take_over_def safe_put_links)

lemma safe_refresh:
  assumes ok: "store_ok s" and d: "d \<in> set (devices s)" "push_token d = dq_push_token r"
    and run: "refresh_device now u r d s = (s', d')"
  shows "safe s s'"
proof -
  let ?t = "take_over now u d s"
  have t: "safe s ?t" by (rule safe_take_over[OF ok])
  have "devices_ok s'" using refreshed[OF _ d run] ok by (simp add: store_ok_def)
  moreover have "s' = put_devices (\<lambda>x. dev_id x = dev_id d) (device_fields now u r) ?t"
    using run by (auto simp: refresh_device_def)
  ultimately have "safe ?t s'" using safe_put_devices[OF safe_ok[OF t]] by simp
  then show ?thesis by (rule safe_trans[OF ok t])
qed

text \<open>A merge drops the rows of the source: they move to the target, or go with the source.\<close>

lemma merge_rows:
  assumes "d \<in> set (merge_deliveries src t s)"
  shows "\<exists>r \<in> set (deliveries s). dlv_id d = dlv_id r \<and> dlv_notification d = dlv_notification r \<and> is_sent d = is_sent r"
  using assms unfolding merge_deliveries_def by (auto simp: set_update_where is_sent_def)

lemma safe_merge:
  assumes ok: "store_ok s" and src: "source \<in> set (devices s)" and tgt: "target \<in> set (devices s)"
    and ne: "dev_id source \<noteq> dev_id target"
  shows "safe s (merge_device_into source target s)"
proof -
  let ?s' = "merge_device_into source target s"
  have dok: "devices_ok ?s'" using devices_ok_merge[OF _ src tgt ne] ok by (simp add: store_ok_def)
  note M = merge_state[OF src, of target]
  have rows: "deliveries ?s' = merge_deliveries (dev_id source) (dev_id target) s" by (simp add: M)
  have ids: "dev_ids ?s' = dev_ids s - {dev_id source}" by (auto simp: M dev_ids_def)
  have same: "notifications ?s' = notifications s" "next_pk ?s' = next_pk s" "provider_log ?s' = provider_log s"
    by (simp_all add: M)
  have "store_ok ?s'"
  proof (rule store_ok_devices[OF ok dok])
    fix d
    assume "d \<in> set (deliveries ?s')"
    then show "dlv_notification d < next_pk ?s'"
      using merge_rows[of d] store_ok_ids(5)[OF ok] unfolding rows same by metis
  qed (simp_all add: same)
  moreover have "row_kept ?s' d" if d: "d \<in> set (deliveries s)" for d
  proof (cases "dlv_device d = dev_id source")
    case True
    then show ?thesis by (simp add: row_kept_def ids)
  next
    case False
    then have "d \<in> set (deliveries ?s')" using d unfolding rows merge_deliveries_def by (auto simp: set_update_where)
    then show ?thesis by (auto simp: row_kept_def)
  qed
  moreover have "row_known s d" if "d \<in> set (deliveries ?s')" for d
    using merge_rows[OF that[unfolded rows]] by (auto simp: row_known_def)
  ultimately have "keeps s ?s'" using ids by (simp add: keeps_def same new_or_old_def ntf_ids_def)
  then show ?thesis by (simp add: safe_def holds_same_notifications[OF same(1)])
qed

lemma safe_rotated:
  assumes "store_ok t" "devices_ok (rotated now u r old t)"
  shows "safe t (rotated now u r old t)"
  using assms unfolding rotated_def by (intro safe_put_devices) simp_all

lemma safe_rotate:
  assumes ok: "store_ok s" and run: "rotate_push_token now u r s = Some (s', d)"
  shows "safe s s'"
proof -
  have dok: "devices_ok s" "devices_ok s'" using ok rotate_ok[OF _ run] by (simp_all add: store_ok_def)
  from run show ?thesis
  proof (cases rule: rotate_cases)
    case (1 old)
    from 1(6) show ?thesis
    proof
      assume a: "(\<forall>c \<in> set (devices s). push_token c \<noteq> dq_push_token r) \<and> s' = rotated now u r old s"
      then show ?thesis using safe_rotated[OF ok] dok(2) by simp
    next
      assume "\<exists>c. c \<in> set (devices s) \<and> push_token c = dq_push_token r \<and> s' = rotated now u r old (merge_device_into c old s)"
      then obtain c where c: "c \<in> set (devices s)" "push_token c = dq_push_token r" "s' = rotated now u r old (merge_device_into c old s)"
        by blast
      have "dev_id c \<noteq> dev_id old" using device_by_id[OF dok(1) c(1) 1(1)] c(2) 1(4) by blast
      then have m: "safe s (merge_device_into c old s)" by (rule safe_merge[OF ok c(1) 1(1)])
      have "safe (merge_device_into c old s) s'" using safe_rotated[OF safe_ok[OF m]] dok(2) unfolding c(3) by blast
      then show ?thesis by (rule safe_trans[OF ok m])
    qed
  qed
qed

lemma safe_new_device:
  assumes ok: "store_ok s" and free: "\<And>x. x \<in> set (devices s) \<Longrightarrow> push_token x \<noteq> push_token d" and d: "dev_id d = next_pk s"
  shows "safe s (s\<lparr>devices := devices s @ [d], next_pk := Suc (next_pk s)\<rparr>)"
proof -
  let ?t = "s\<lparr>devices := devices s @ [d], next_pk := Suc (next_pk s)\<rparr>"
  have dok: "devices_ok s" using ok by (simp add: store_ok_def)
  then have lt: "x \<in> set (devices s) \<Longrightarrow> dev_id x < next_pk s" for x by (simp add: devices_ok_def)
  have "dev_id d \<notin> dev_id ` set (devices s)" using lt d by force
  moreover have "push_token d \<notin> push_token ` set (devices s)" using free by force
  ultimately have "devices_ok ?t"
    using dok d lt unfolding devices_ok_def deliveries_ok_def links_ok_def by (auto simp: less_SucI)
  then show ?thesis using d by (intro safe_devices_rows[OF ok]) (auto simp: dev_ids_def new_or_old_def)
qed

lemma safe_upsert:
  assumes ok: "store_ok s" and race: "\<And>t. store_ok t \<Longrightarrow> safe t (race t)"
    and run: "upsert_authenticated_device now race u r s = (s', d, created)"
  shows "safe s s'"
proof (cases "rotate_push_token now u r s")
  case (Some p)
  then obtain s1 d1 where "rotate_push_token now u r s = Some (s1, d1)" by (cases p) simp
  then show ?thesis using run safe_rotate[OF ok] by (auto simp: upsert_authenticated_device_def)
next
  case no: None
  show ?thesis
  proof (cases "select_existing_device s (dq_push_token r)")
    case (Some x)
    obtain s1 d1 where f: "refresh_device now u r x s = (s1, d1)" by fastforce
    then have "s' = s1" using run no Some by (simp add: upsert_authenticated_device_def)
    then show ?thesis using safe_refresh[OF ok _ _ f] select_existing(1)[OF Some] by simp
  next
    case None
    have r1: "safe s (race s)" by (rule race[OF ok])
    note ok1 = safe_ok[OF r1]
    show ?thesis
    proof (cases "select_existing_device (race s) (dq_push_token r)")
      case (Some x)
      obtain s1 d1 where f: "refresh_device now u r x (race s) = (s1, d1)" by fastforce
      then have "s' = s1" using run no None Some by (simp add: upsert_authenticated_device_def Let_def)
      then show ?thesis using safe_trans[OF ok r1 safe_refresh[OF ok1 _ _ f]] select_existing(1)[OF Some] by simp
    next
      case free: None
      have s': "s' = (race s)\<lparr>devices := devices (race s) @ [device_fields now u r (new_device (next_pk (race s)) (dq_push_token r) now)],
          next_pk := Suc (next_pk (race s))\<rparr>"
        using run no None free by (auto simp: upsert_authenticated_device_def Let_def)
      have "safe (race s) s'" unfolding s'
        using select_existing(2)[OF free] by (intro safe_new_device[OF ok1]) (simp_all add: new_device_def)
      then show ?thesis by (rule safe_trans[OF ok r1])
    qed
  qed
qed

lemma safe_enrolment:
  "store_ok s \<Longrightarrow> get_application_for_enrolment x now raw s = (s', a) \<Longrightarrow> safe s s'"
  by (rule safe_same_tables)
    (auto simp: get_application_for_enrolment_def legacy_application_def same_tables_def put_applications_def
      split: option.splits if_splits list.splits)

lemma safe_link_device:
  assumes ok: "store_ok s"
  shows "safe s (fst (link_device_to now d a s))"
proof (cases "link_of s d a")
  case None
  let ?l = "\<lparr>link_id = next_pk s, link_device = d, link_application = a, link_is_active = True, linked_at = now,
    unlinked_at = None, unlink_source = None\<rparr>"
  have lok: "links_ok s" "devices_ok s" using ok by (simp_all add: store_ok_def devices_ok_def)
  have "next_pk s \<notin> link_id ` set (links s)" using lok(1) by (force simp: links_ok_def)
  moreover have "(d, a) \<notin> (\<lambda>l. (link_device l, link_application l)) ` set (links s)"
    using None by (auto simp: link_of_def find_None_iff)
  ultimately have "devices_ok (s\<lparr>links := links s @ [?l], next_pk := Suc (next_pk s)\<rparr>)"
    using lok unfolding devices_ok_def deliveries_ok_def links_ok_def by (auto simp: less_SucI)
  then show ?thesis unfolding link_device_to_def None option.case fst_conv
    by (intro safe_devices_rows[OF ok]) (simp_all add: dev_ids_def)
next
  case (Some l)
  then show ?thesis using ok by (simp add: link_device_to_def safe_put_links)
qed

lemma safe_cut_link: "store_ok s \<Longrightarrow> safe s (cut_link now src l s)"
  by (simp add: cut_link_def safe_put_links)

lemma safe_unlink_own: "store_ok s \<Longrightarrow> unlink_own_device now src u tok a s = (s', d, b) \<Longrightarrow> safe s s'"
  by (auto simp: unlink_own_device_def safe_cut_link split: option.splits)

lemma safe_identify:
  assumes "store_ok s" "\<And>t. store_ok t \<Longrightarrow> safe t (race t)"
  shows "safe s (fst (device_identify now race u r s))"
  using assms(1) safe_upsert[OF assms(1,2)] by (auto simp: device_identify_def split: sum.split prod.split)

lemma safe_link:
  assumes ok: "store_ok s" and race: "\<And>t. store_ok t \<Longrightarrow> safe t (race t)"
  shows "safe s (fst (device_link_with_app_token x now race u r s))"
proof (cases "validate_device r")
  case (Inl e)
  then show ?thesis using ok by (simp add: device_link_with_app_token_def)
next
  case (Inr v)
  obtain s1 g where g: "get_application_for_enrolment x now (dq_app_token v) s = (s1, g)" by fastforce
  have e: "safe s s1" by (rule safe_enrolment[OF ok g])
  show ?thesis
  proof (cases g)
    case (Granted a)
    obtain s2 d created where up: "upsert_authenticated_device now race u v s1 = (s2, d, created)" by (metis surj_pair)
    have up': "safe s1 s2" by (rule safe_upsert[OF safe_ok[OF e] race up])
    have "fst (device_link_with_app_token x now race u r s) = fst (link_device_to now (dev_id d) (app_id a) s2)"
      using Inr g Granted up by (simp add: device_link_with_app_token_def split: prod.split)
    then show ?thesis
      using safe_trans[OF ok e safe_trans[OF safe_ok[OF e] up' safe_link_device[OF safe_ok[OF up']]]] by simp
  qed (use Inr g e in \<open>simp add: device_link_with_app_token_def\<close>)
qed

interpretation device_unlinking: row_keeping "\<lambda>s. fst (device_unlink_with_app_token x now u code tok s)" for x now u code tok
  by unfold_locales
    (auto simp: device_unlink_with_app_token_def Let_def split: prod.split auth.split
      intro: safe_enrolment safe_trans[OF _ safe_enrolment safe_unlink_own] safe_ok[OF safe_enrolment])

interpretation inbox_unlinking: row_keeping "\<lambda>s. fst (device_unlink_by_application now u tok a s)" for now u tok a
  by unfold_locales (auto simp: device_unlink_by_application_def split: prod.split intro: safe_unlink_own)

interpretation eviction: row_keeping "\<lambda>s. fst (device_evict now u a d s)" for now u a d
  by unfold_locales (auto simp: device_evict_def safe_cut_link split: option.split)

interpretation device_removal: row_keeping "\<lambda>s. fst (device_destroy u i s)" for u i
  by unfold_locales (auto simp: device_destroy_def safe_delete_devices split: option.split)

lemma devices_ok_put_fields:
  assumes ok: "devices_ok s" and f: "\<And>d. dev_id (f d) = dev_id d" "\<And>d. push_token (f d) = push_token d"
  shows "devices_ok (put_devices P f s)"
proof -
  let ?u = "update_where P f (devices s)"
  have m: "map dev_id ?u = map dev_id (devices s)" "map push_token ?u = map push_token (devices s)"
    by (rule map_update_where, simp add: f)+
  have ids: "dev_id ` set ?u = dev_id ` set (devices s)" using arg_cong[OF m(1), of set] by (simp only: set_map)
  have "\<forall>d \<in> set ?u. dev_id d < next_pk s" using ok by (auto simp: devices_ok_def set_update_where f)
  then show ?thesis using ok m ids unfolding devices_ok_def deliveries_ok_def links_ok_def put_devices_def by (simp del: set_map)
qed

lemma device_objectD: "device_object s u b i = Some d \<Longrightarrow> d \<in> set (devices s) \<and> dev_id d = i"
  by (auto simp: device_object_def dest: find_SomeD)

interpretation device_edit: row_keeping "\<lambda>s. fst (device_update u i c s)" for u i c
proof
  fix s :: db
  assume ok: "store_ok s"
  show "safe s (fst (device_update u i c s))"
  proof (cases "device_object s u True i")
    case None
    then show ?thesis using ok by (simp add: device_update_def)
  next
    case (Some d)
    note d = device_objectD[OF Some]
    have dok: "devices_ok s" using ok by (simp add: store_ok_def)
    have one: "x = d" if "x \<in> set (devices s)" "dev_id x = i" for x
      by (rule device_by_id[OF dok that(1) conjunct1[OF d]]) (simp add: that(2) d)
    have same: "put_devices (\<lambda>x. dev_id x = i) (\<lambda>_. device_changed c d) s = put_devices (\<lambda>x. dev_id x = dev_id d) (device_changed c) s"
    proof -
      have "update_where (\<lambda>x. dev_id x = i) (\<lambda>_. device_changed c d) (devices s) =
          update_where (\<lambda>x. dev_id x = i) (device_changed c) (devices s)"
      proof (rule update_where_cong_rows)
        fix x
        assume "x \<in> set (devices s)" "dev_id x = i"
        then have "x = d" by (rule one)
        then show "device_changed c d = device_changed c x" by simp
      qed
      then show ?thesis using d by (simp add: put_devices_def)
    qed
    have "devices_ok (put_devices (\<lambda>x. dev_id x = dev_id d) (device_changed c) s)"
      by (rule devices_ok_put_fields[OF dok]) (simp_all add: device_changed_def)
    then have "safe s (put_devices (\<lambda>x. dev_id x = dev_id d) (device_changed c) s)"
      by (intro safe_put_devices[OF ok]) (simp_all add: device_changed_def)
    then show ?thesis using ok Some by (simp add: device_update_def same Let_def)
  qed
qed

section \<open>The periodic tasks\<close>

interpretation retries: row_keeping "retry_pending_deliveries_task now" for now
  by unfold_locales (simp add: retry_pending_deliveries_task_def safe_fold safe_submit)

lemma safe_dispatch_one:
  assumes ok: "store_ok (fst st)"
  shows "safe (fst st) (fst (dispatch_one locked now i st))"
proof -
  have "safe (fst st) (submit t (set_notification i (\<lambda>n. n\<lparr>ntf_status := Queued\<rparr>) (fst st)))"
    if n: "get_notification (fst st) i = Some n" "ntf_status n = Scheduled" for n t
  proof -
    have m: "n \<in> set (notifications (fst st))" "ntf_id n = i" using n(1) by (auto simp: get_notification_def dest: find_SomeD)
    have "safe (fst st) (set_notification i (\<lambda>n. n\<lparr>ntf_status := Queued\<rparr>) (fst st))"
      unfolding set_notification_def
    proof (rule safe_put_notifications[OF ok])
      fix x
      assume x: "x \<in> set (notifications (fst st))" "ntf_id x = i" "ntf_status x = Processing"
      then have "x = n" using same_notification[OF ok x(1) m(1)] m(2) by simp
      then show "ntf_status (x\<lparr>ntf_status := Queued\<rparr>) = Processing \<and>
          processing_started_at (x\<lparr>ntf_status := Queued\<rparr>) = processing_started_at x" using x(3) n(2) by simp
    qed (simp add: ntf_keyed_def)
    then show ?thesis using safe_trans[OF ok] safe_submit safe_ok by blast
  qed
  then show ?thesis using ok by (auto simp: dispatch_one_def Let_def split: option.split)
qed

interpretation dispatching: row_keeping "\<lambda>s. fst (dispatch_scheduled_notifications_task locked start now s)" for locked start now
proof
  fix s :: db
  assume ok: "store_ok s"
  have "safe (fst st) (fst (fold (dispatch_one locked now) is st))" if "store_ok (fst st)" for st "is"
    using that
  proof (induction "is" arbitrary: st)
    case (Cons i "is")
    note one = safe_dispatch_one[OF Cons.prems, of locked now i]
    show ?case using safe_trans[OF Cons.prems one Cons.IH[OF safe_ok[OF one]]] by simp
  qed simp
  from this[of "(s, 0)"] ok show "safe s (fst (dispatch_scheduled_notifications_task locked start now s))"
    by (simp add: dispatch_scheduled_notifications_task_def)
qed

interpretation purging: row_keeping "\<lambda>s. fst (purge_expired_personal_data cfg now s)" for cfg now
proof
  fix s :: db
  assume ok: "store_ok s"
  let ?s1 = "delete_notifications (expired_notification cfg now) s"
  let ?s2 = "?s1\<lparr>inbound_logs := filter (\<lambda>l. \<not> expired_log cfg now l) (inbound_logs ?s1)\<rparr>"
  have s1: "safe s ?s1"
    by (rule safe_delete_notifications[OF ok _ refl refl, where L = "\<lambda>_. True"]) (simp_all add: delete_notifications_def Let_def)
  have s2: "safe ?s1 ?s2" by (rule safe_same_tables[OF _ safe_ok[OF s1]]) (simp add: same_tables_def)
  have "safe ?s2 (delete_devices (expired_device cfg now) ?s2)" by (rule safe_delete_devices[OF safe_ok[OF s2]])
  then show "safe s (fst (purge_expired_personal_data cfg now s))"
    using safe_trans[OF ok s1 safe_trans[OF safe_ok[OF s1] s2]] by (simp add: purge_expired_personal_data_def Let_def)
qed

lemma watchdog_other_tables:
  "deliveries (fst (fold (requeue_one cutoff) is st)) = deliveries (fst st) \<and>
   devices (fst (fold (requeue_one cutoff) is st)) = devices (fst st) \<and>
   links (fst (fold (requeue_one cutoff) is st)) = links (fst st) \<and>
   next_pk (fst (fold (requeue_one cutoff) is st)) = next_pk (fst st) \<and>
   provider_log (fst (fold (requeue_one cutoff) is st)) = provider_log (fst st)"
  by (induction "is" arbitrary: st) (simp_all add: requeue_one_def Let_def)

lemma watchdog_holds:
  assumes ok: "store_ok s" and run: "requeue_stuck_processing_notifications_task cfg now s = (s', k)"
    and fresh: "\<And>n. n \<in> set (notifications s) \<Longrightarrow> ntf_id n \<in> I \<Longrightarrow> \<not> stuck (processing_cutoff cfg now) n"
  shows "keeps s s' \<and> holds I s s'"
proof -
  let ?f = "\<lambda>n. n\<lparr>ntf_status := Queued, processing_started_at := None\<rparr>"
  let ?P = "stuck (processing_cutoff cfg now)"
  have d: "distinct (map ntf_id (notifications s))" using ok by (simp add: store_ok_def keys_ok_def)
  have rows: "notifications s' = update_where ?P ?f (notifications s)"
    using watchdog.sweep_all[OF d run[unfolded requeue_stuck_processing_notifications_task_def]] by simp
  have "same_tables (put_notifications ?P ?f s) s'"
    using watchdog_other_tables[of "processing_cutoff cfg now" _ "(s, 0)"] run rows
    by (auto simp: same_tables_def requeue_stuck_processing_notifications_task_def put_notifications_def)
       (metis fst_conv)+
  moreover have p: "keeps s (put_notifications ?P ?f s) \<and> holds I s (put_notifications ?P ?f s)"
    using keeps_put_notifications[OF ok] holds_put_notifications[where P = ?P and f = ?f and s = s and I = I] fresh
    by (auto simp: ntf_keyed_def)
  ultimately show ?thesis
    using keeps_holds_trans[OF ok p] keeps_same_tables keepsD(1) by blast
qed

text \<open>
  The requests that write notifications, deliveries, devices or links, each endpoint with whatever
  arguments; \<open>elsewhere\<close> stands for all the code that writes other tables only, \<open>stored\<close> and
  \<open>queued\<close> for what the mailbox poll does to notifications. What a race commits in the middle of
  an identification is itself a request.
\<close>

inductive request :: "db \<Rightarrow> db \<Rightarrow> bool" where
  console_create: "request s (fst (notification_create cfg clk now u r s))"
| console_send: "request s (fst (notification_send cfg env u i s))"
| console_send_now: "request s (fst (notification_send_now cfg clk env u r s))"
| console_bulk: "request s (fst (notification_bulk_send cfg env u ids s))"
| token_create: "request s (fst (notification_create_with_app_token cfg clk we fp now a r h s))"
| token_send: "request s (fst (notification_send_with_app_token cfg clk we env fp a r h s))"
| token_bulk: "request s (fst (notification_bulk_send_with_app_token cfg env a ids s))"
| stored: "request s (fst (create_notification_with_optional_idempotency we app t m d k fp now s))"
| queued: "request s (fst (try_queue_notification env act sel n s))"
| future_edit: "request s (fst (future_update clk now u i a s))"
| future_removal: "request s (fst (future_delete now u i s))"
| hiding: "request s (fst (notification_destroy u i s))"
| receipt: "request s (fst (opened_receipt now u i tok s))"
| application_deletion: "request s (delete_application_rows a s)"
| account_deletion: "request s (delete_user_row u (delete_devices (\<lambda>d. dev_user d = Some u) (drop_owned_logs u s)))"
| identification: "(\<And>t. request t (race t)) \<Longrightarrow> request s (fst (device_identify now race u r s))"
| linking: "(\<And>t. request t (race t)) \<Longrightarrow> request s (fst (device_link_with_app_token x now race u r s))"
| unlinking: "request s (fst (device_unlink_with_app_token x now u code tok s))"
| inbox_unlinking: "request s (fst (device_unlink_by_application now u tok a s))"
| eviction: "request s (fst (device_evict now u a d s))"
| device_edit: "request s (fst (device_update u i c s))"
| device_removal: "request s (fst (device_destroy u i s))"
| elsewhere: "same_tables s s' \<Longrightarrow> request s s'"

lemma request_safe: "request s s' \<Longrightarrow> store_ok s \<Longrightarrow> safe s s'"
proof (induction rule: request.induct)
  case identification
  then show ?case using safe_identify by blast
next
  case linking
  then show ?case using safe_link by blast
next
  case (elsewhere s s')
  then show ?case by (simp add: safe_same_tables)
qed (fact console_create.act_safe console_send.act_safe console_send_now.act_safe console_bulk.act_safe
    token_create.act_safe token_send.act_safe token_bulk.act_safe creating.act_safe queueing.act_safe
    future_edit.act_safe future_removal.act_safe hiding.act_safe receipt.act_safe application_deletion.act_safe
    account_deletion.act_safe device_unlinking.act_safe inbox_unlinking.act_safe eviction.act_safe
    device_edit.act_safe device_removal.act_safe)+

section \<open>Histories\<close>

record fleet =
  fl_now :: instant
  fl_db :: db
  workers :: "worker list"

definition fl_set :: "db \<Rightarrow> worker list \<Rightarrow> fleet \<Rightarrow> fleet" where
  "fl_set s ws f = f\<lparr>fl_db := s, workers := ws\<rparr>"

text \<open>
  What may happen next: time goes on, no run lasting longer than the watchdog's threshold; a worker
  starts a run, which may end at once; a worker pushes one delivery; it closes its run, or dies at
  any point between two iterations; a beat task runs; a request is served.
\<close>

inductive fleet_step :: "config \<Rightarrow> fleet \<Rightarrow> fleet \<Rightarrow> bool" for cfg where
  tick: "fl_now f \<le> t \<Longrightarrow> (\<And>w. w \<in> set (workers f) \<Longrightarrow> t \<le> wk_since w + processing_stuck_minutes cfg * minute) \<Longrightarrow>
    fleet_step cfg f (f\<lparr>fl_now := t\<rparr>)"
| start: "start_run env i (fl_db f) = (s, Inr w) \<Longrightarrow> now_start env = fl_now f \<Longrightarrow>
    fleet_step cfg f (fl_set s (w # workers f) f)"
| pass: "start_run env i (fl_db f) = (s, Inl r) \<Longrightarrow> fleet_step cfg f (fl_set s (workers f) f)"
| deliver: "workers f = us @ w # vs \<Longrightarrow> wk_todo w = dd # dds \<Longrightarrow>
    process_delivery (wk_context w) dd (fl_db f, wk_counts w) = (s, c) \<Longrightarrow>
    fleet_step cfg f (fl_set s (us @ w\<lparr>wk_todo := dds, wk_counts := c\<rparr> # vs) f)"
| finish: "workers f = us @ w # vs \<Longrightarrow> wk_todo w = [] \<Longrightarrow> end_run w (fl_db f) = (s, r) \<Longrightarrow>
    fleet_step cfg f (fl_set s (us @ vs) f)"
| die: "workers f = us @ w # vs \<Longrightarrow> fleet_step cfg f (fl_set (fl_db f) (us @ vs) f)"
| beat_dispatch: "fleet_step cfg f
    (fl_set (fst (dispatch_scheduled_notifications_task locked (fl_now f) (\<lambda>_. fl_now f) (fl_db f))) (workers f) f)"
| beat_retry: "fleet_step cfg f (fl_set (retry_pending_deliveries_task (fl_now f) (fl_db f)) (workers f) f)"
| beat_watchdog: "fleet_step cfg f
    (fl_set (fst (requeue_stuck_processing_notifications_task cfg (fl_now f) (fl_db f))) (workers f) f)"
| beat_purge: "fleet_step cfg f (fl_set (fst (purge_expired_personal_data cfg (fl_now f) (fl_db f))) (workers f) f)"
| serve: "request (fl_db f) s \<Longrightarrow> fleet_step cfg f (fl_set s (workers f) f)"

definition fleet_ok :: "config \<Rightarrow> fleet \<Rightarrow> bool" where
  "fleet_ok cfg f \<longleftrightarrow> crew_ok (fl_db f) (workers f) \<and>
     (\<forall>w \<in> set (workers f). fl_now f \<le> wk_since w + processing_stuck_minutes cfg * minute)"

lemma fleet_ok_set:
  assumes f: "fleet_ok cfg f" and crew: "crew_ok s ws" and same: "wk_since ` set ws \<subseteq> wk_since ` set (workers f)"
  shows "fleet_ok cfg (fl_set s ws f)"
proof -
  have "fl_now f \<le> wk_since w + processing_stuck_minutes cfg * minute" if "w \<in> set ws" for w
  proof -
    have "wk_since w \<in> wk_since ` set (workers f)" using same that by blast
    then obtain x where "x \<in> set (workers f)" "wk_since w = wk_since x" by (rule imageE)
    then show ?thesis using f by (simp add: fleet_ok_def)
  qed
  then show ?thesis using crew by (simp add: fleet_ok_def fl_set_def)
qed

lemma fleet_ok_same_workers: "fleet_ok cfg f \<Longrightarrow> crew_ok s (workers f) \<Longrightarrow> fleet_ok cfg (fl_set s (workers f) f)"
  by (rule fleet_ok_set) simp_all

lemma fleet_ok_crew: "fleet_ok cfg f \<Longrightarrow> crew_ok (fl_db f) (workers f)"
  by (simp add: fleet_ok_def)

lemma crew_store: "crew_ok s ws \<Longrightarrow> store_ok s"
  by (simp add: crew_ok_def)

lemma safe_crew: "crew_ok s ws \<Longrightarrow> safe s s' \<Longrightarrow> crew_ok s' ws"
  unfolding safe_def using crew_ok_kept holds_mono by blast

lemma fleet_ok_watchdog:
  assumes f: "fleet_ok cfg f"
  shows "fleet_ok cfg (fl_set (fst (requeue_stuck_processing_notifications_task cfg (fl_now f) (fl_db f))) (workers f) f)"
proof -
  obtain s k where run: "requeue_stuck_processing_notifications_task cfg (fl_now f) (fl_db f) = (s, k)" by fastforce
  note crew = fleet_ok_crew[OF f]
  have "\<not> stuck (processing_cutoff cfg (fl_now f)) n"
    if n: "n \<in> set (notifications (fl_db f))" "ntf_id n \<in> wk_id ` set (workers f)" for n
  proof -
    obtain w where w: "w \<in> set (workers f)" "ntf_id n = wk_id w" using n(2) by blast
    have "in_hand (fl_db f) w" using crew w(1) by (auto simp: crew_ok_def worker_ok_def)
    moreover have "wk_id w \<in> ntf_ids (fl_db f)" using n(1) w(2) by (force simp: ntf_ids_def)
    ultimately obtain m where m: "m \<in> set (notifications (fl_db f))" "ntf_id m = wk_id w" "ntf_status m = Processing"
      "processing_started_at m = Some (wk_since w)" by (auto simp: in_hand_def)
    have "m = n" using same_notification[OF crew_store[OF crew] m(1) n(1)] m(2) w(2) by simp
    moreover have "fl_now f \<le> wk_since w + processing_stuck_minutes cfg * minute" using f w(1) by (simp add: fleet_ok_def)
    ultimately show ?thesis using m(4) by (auto simp: stuck_def processing_cutoff_def)
  qed
  from watchdog_holds[OF crew_store[OF crew] run this]
  show ?thesis using crew_ok_kept[OF crew] by (intro fleet_ok_same_workers[OF f]) (simp add: run)
qed

lemma fleet_ok_step: "fleet_step cfg f f' \<Longrightarrow> 0 \<le> processing_stuck_minutes cfg \<Longrightarrow> fleet_ok cfg f \<Longrightarrow> fleet_ok cfg f'"
proof (induction rule: fleet_step.induct)
  case (tick f t)
  then show ?case by (simp add: fleet_ok_def)
next
  case (start env i f s w)
  have "crew_ok s (w # workers f)" by (rule crew_ok_start[OF fleet_ok_crew[OF start.prems(2)] start.hyps(1)])
  moreover have "wk_since w = fl_now f"
    using started(2)[OF crew_store[OF fleet_ok_crew[OF start.prems(2)]] start.hyps(1)] start.hyps(2) by simp
  moreover have "0 \<le> processing_stuck_minutes cfg * minute" using start.prems(1) by (simp add: time_units)
  ultimately show ?case using start.prems(2) by (simp add: fleet_ok_def fl_set_def)
next
  case (pass env i f s r)
  have crew: "crew_ok (fl_db f) (workers f)" by (rule fleet_ok_crew[OF pass.prems(2)])
  have "safe (fl_db f) s" unfolding safe_def by (rule start_run_keeps[OF crew_store[OF crew] pass.hyps(1)])
  then show ?case by (intro fleet_ok_same_workers[OF pass.prems(2)] safe_crew[OF crew])
next
  case (deliver f us w vs dd dds s c)
  have "crew_ok s (us @ w\<lparr>wk_todo := dds, wk_counts := c\<rparr> # vs)"
    using crew_ok_deliver[OF _ deliver.hyps(2) refl deliver.hyps(3)] fleet_ok_crew[OF deliver.prems(2)] deliver.hyps(1) by simp
  then show ?case
    by (rule fleet_ok_set[OF deliver.prems(2)]) (auto simp: deliver.hyps(1) wk_since_def)
next
  case (finish f us w vs s r)
  have crew: "crew_ok (fl_db f) (us @ w # vs)" using fleet_ok_crew[OF finish.prems(2)] finish.hyps(1) by simp
  have k: "keeps (fl_db f) s \<and> holds (- {wk_id w}) (fl_db f) s" by (rule end_run_keeps[OF crew_store[OF crew] finish.hyps(3)])
  have "wk_id ` set (us @ vs) \<subseteq> - {wk_id w}" using crew by (auto simp: crew_ok_def)
  then have "crew_ok s (us @ vs)" using crew_ok_kept[OF crew_ok_less[OF crew]] k holds_mono by blast
  then show ?case by (rule fleet_ok_set[OF finish.prems(2)]) (auto simp: finish.hyps(1))
next
  case (die f us w vs)
  have "crew_ok (fl_db f) (us @ vs)" using crew_ok_less fleet_ok_crew[OF die.prems(2)] die.hyps(1) by simp
  then show ?case by (rule fleet_ok_set[OF die.prems(2)]) (auto simp: die.hyps(1))
next
  case (beat_dispatch f locked)
  then show ?case by (intro fleet_ok_same_workers dispatching.act_crew fleet_ok_crew)
next
  case (beat_retry f)
  then show ?case by (intro fleet_ok_same_workers retries.act_crew fleet_ok_crew)
next
  case (beat_watchdog f)
  then show ?case by (intro fleet_ok_watchdog)
next
  case (beat_purge f)
  then show ?case by (intro fleet_ok_same_workers purging.act_crew fleet_ok_crew)
next
  case (serve f s)
  have crew: "crew_ok (fl_db f) (workers f)" by (rule fleet_ok_crew[OF serve.prems(2)])
  show ?case by (intro fleet_ok_same_workers[OF serve.prems(2)] safe_crew[OF crew] request_safe[OF serve.hyps crew_store[OF crew]])
qed


section \<open>A concrete history\<close>

definition history_db :: db where
  "history_db = demo_db\<lparr>devices := [blank_device, blank_device\<lparr>dev_id := 2, push_token := ''other-token''\<rparr>]\<rparr>"

definition first_fleet :: fleet where
  "first_fleet = \<lparr>fl_now = 1000, fl_db = history_db, workers = []\<rparr>"

definition demo_worker :: worker where
  "demo_worker = projr (snd (start_run demo_env 1 history_db))"

definition running_fleet :: fleet where
  "running_fleet = fl_set (fst (start_run demo_env 1 history_db)) [demo_worker] first_fleet"

definition pushed :: "db \<times> counts" where
  "pushed = process_delivery (wk_context demo_worker) (hd (wk_todo demo_worker)) (fl_db running_fleet, wk_counts demo_worker)"

definition pushed_fleet :: fleet where
  "pushed_fleet = fl_set (fst pushed) [demo_worker\<lparr>wk_todo := tl (wk_todo demo_worker), wk_counts := snd pushed\<rparr>] running_fleet"

lemma demo_start: "start_run demo_env 1 history_db = (fst (start_run demo_env 1 history_db), Inr demo_worker)"
proof -
  have "\<not> isl (snd (start_run demo_env 1 history_db))" by code_simp
  then show ?thesis unfolding demo_worker_def by (metis prod.collapse sum.collapse(2))
qed

lemma demo_todo: "wk_todo demo_worker = hd (wk_todo demo_worker) # tl (wk_todo demo_worker)"
proof -
  have "\<not> List.null (wk_todo demo_worker)" by code_simp
  then show ?thesis by (cases "wk_todo demo_worker") simp_all
qed

lemma demo_history: "(fleet_step default_config)\<^sup>*\<^sup>* first_fleet pushed_fleet"
proof -
  have "fleet_step default_config first_fleet running_fleet"
    using fleet_step.start[of demo_env 1 first_fleet "fst (start_run demo_env 1 history_db)" demo_worker default_config] demo_start
    by (simp add: running_fleet_def first_fleet_def demo_env_def)
  moreover have "fleet_step default_config running_fleet pushed_fleet"
    using fleet_step.deliver[of running_fleet "[]" demo_worker "[]", OF _ demo_todo, of "fst pushed" "snd pushed" default_config]
    by (simp add: pushed_fleet_def pushed_def running_fleet_def fl_set_def first_fleet_def)
  ultimately show ?thesis by simp
qed

lemma demo_store: "store_ok history_db" by code_simp


section \<open>An edit that reopens a running notification\<close>

text \<open>
  The edit of a future notification reads the row, and saves four columns without a lock or a
  condition on the status. When the notification falls due in between, the save puts a notification
  that a worker holds back to scheduled: the dispatcher queues it again, a second worker starts, and
  each pushes from the copy it has read.
\<close>

definition at_time :: "instant \<Rightarrow> run_env" where
  "at_time t = demo_env\<lparr>now_start := t, now_delivery := (\<lambda>_. t), now_end := t\<rparr>"

definition due_row :: notification where
  "due_row = blank_notification\<lparr>ntf_status := Scheduled, scheduled_for := Some 10\<rparr>"

definition edited_row :: notification where
  "edited_row = projr (update_future (projr (base_fields 5 \<lparr>at_title = None, at_message = None, at_template_id = None,
     at_variables = [], at_scheduled_for = Some (Some 20)\<rparr>)) due_row)"

definition due_db :: db where
  "due_db = empty_db\<lparr>users := [blank_user], applications := [blank_application], devices := [blank_device],
     links := [blank_link], notifications := [due_row], deliveries := [blank_delivery], next_pk := 2\<rparr>"

definition dispatched :: "instant \<Rightarrow> db \<Rightarrow> db" where
  "dispatched t s = fst (dispatch_scheduled_notifications_task (\<lambda>_. False) t (\<lambda>_. t) s)"

definition begun :: "instant \<Rightarrow> db \<Rightarrow> db \<times> worker" where
  "begun t s = (case start_run (at_time t) 1 s of (s1, r) \<Rightarrow> (s1, projr r))"

definition late_edit :: db where
  "late_edit =
     (let (s1, w1) = begun 11 (dispatched 10 due_db);
          (s2, w2) = begun 21 (dispatched 20 (save_future edited_row s1))
      in fst (loop_run w2 (fst (loop_run w1 s2))))"

lemma late_edit_pushes_twice:
  "store_ok due_db" "future_object due_db 1 5 1 = Some due_row" "ntf_status edited_row = Scheduled"
  "map ntf_status (notifications (fst (begun 11 (dispatched 10 due_db)))) = [Processing]"
  "provider_log due_db = []" "provider_log late_edit = [(1, 1), (1, 1)]"
  by code_simp+

text \<open>
  A run that outlasts the watchdog's threshold has the same effect: no setting bounds the time of a
  task, the watchdog takes the slow worker for dead, and the second worker cannot know what the
  first is about to push.
\<close>

definition slow_run :: db where
  "slow_run =
     (let (s1, w1) = begun 11 (dispatched 10 due_db);
          (s2, w2) = begun (20 * minute)
            (fst (requeue_stuck_processing_notifications_task default_config (20 * minute) s1))
      in fst (loop_run w1 (fst (loop_run w2 s2))))"

lemma slow_run_pushes_twice: "provider_log slow_run = [(1, 1), (1, 1)]"
  by code_simp

end
