(* ===== verification/Subscriptions.thy ===== *)
theory Subscriptions
  imports History
begin

text \<open>
  What the device endpoints do, seen from the users: a map from the known push tokens to their
  holder and the applications they are subscribed to. Each endpoint of \<open>Devices\<close> (identification
  with rotation and merge, linking, unlinking, eviction, deletion) is shown to implement an
  operation on that map alone.
\<close>

section \<open>Subscriptions\<close>

text \<open>A push token that is known: who holds it, and the applications it is subscribed to.\<close>

type_synonym subscriptions_map = "string \<Rightarrow> (pk option \<times> pk set) option"

definition subs_of :: "db \<Rightarrow> subscriptions_map" where
  "subs_of s tok = map_option (\<lambda>d. (dev_user d, {a. actively_linked s (dev_id d) a})) (select_existing_device s tok)"

text \<open>
  The operations a user would state: present a token (taking it over from someone else drops its
  subscriptions, replacing an own token moves them), subscribe it, unsubscribe it, forget it.
\<close>

definition present_token :: "pk \<Rightarrow> string \<Rightarrow> subscriptions_map \<Rightarrow> subscriptions_map" where
  "present_token u tok m =
     m(tok \<mapsto> (case m tok of None \<Rightarrow> (Some u, {}) | Some (w, apps) \<Rightarrow> (Some u, if w = None \<or> w = Some u then apps else {})))"

definition may_replace :: "pk \<Rightarrow> string \<Rightarrow> string \<Rightarrow> subscriptions_map \<Rightarrow> bool" where
  "may_replace u old tok m \<longleftrightarrow> old \<noteq> [] \<and> old \<noteq> tok \<and> map_option fst (m old) = Some (Some u) \<and>
     map_option fst (m tok) \<in> {None, Some None, Some (Some u)}"

definition apps_of :: "(pk option \<times> pk set) option \<Rightarrow> pk set" where
  "apps_of x = (case x of None \<Rightarrow> {} | Some p \<Rightarrow> snd p)"

definition replace_token :: "pk \<Rightarrow> string \<Rightarrow> string \<Rightarrow> subscriptions_map \<Rightarrow> subscriptions_map" where
  "replace_token u old tok m = m(old := None, tok \<mapsto> (Some u, apps_of (m old) \<union> apps_of (m tok)))"

definition identify_token :: "pk \<Rightarrow> string option \<Rightarrow> string \<Rightarrow> subscriptions_map \<Rightarrow> subscriptions_map" where
  "identify_token u prev tok m =
     (case prev of
        Some p \<Rightarrow> if may_replace u (strip p) tok m then replace_token u (strip p) tok m else present_token u tok m
      | None \<Rightarrow> present_token u tok m)"

definition subscribe :: "string \<Rightarrow> pk \<Rightarrow> subscriptions_map \<Rightarrow> subscriptions_map" where
  "subscribe tok app m = m(tok := map_option (\<lambda>(w, apps). (w, insert app apps)) (m tok))"

definition unsubscribe :: "string \<Rightarrow> pk \<Rightarrow> subscriptions_map \<Rightarrow> subscriptions_map" where
  "unsubscribe tok app m = m(tok := map_option (\<lambda>(w, apps). (w, apps - {app})) (m tok))"

definition unsubscribe_own :: "pk \<Rightarrow> string \<Rightarrow> pk \<Rightarrow> subscriptions_map \<Rightarrow> subscriptions_map" where
  "unsubscribe_own u tok app m = (if map_option fst (m tok) = Some (Some u) then unsubscribe tok app m else m)"

lemma subs_of_device:
  assumes "devices_ok s" "d \<in> set (devices s)"
  shows "subs_of s (push_token d) = Some (dev_user d, {a. actively_linked s (dev_id d) a})"
proof -
  have "select_existing_device s (push_token d) = Some d"
  proof (cases "select_existing_device s (push_token d)")
    case None
    then show ?thesis using select_existing(2)[OF None assms(2)] by simp
  next
    case (Some e)
    then show ?thesis using device_by_token[OF assms(1) _ assms(2), of e] select_existing(1)[OF Some] by simp
  qed
  then show ?thesis by (simp add: subs_of_def)
qed

lemma subs_of_unknown: "(\<And>d. d \<in> set (devices s) \<Longrightarrow> push_token d \<noteq> tok) \<Longrightarrow> subs_of s tok = None"
  by (auto simp: subs_of_def select_existing_device_def find_None_iff)

lemma subs_of_NoneD: "subs_of s tok = None \<Longrightarrow> d \<in> set (devices s) \<Longrightarrow> push_token d \<noteq> tok"
  using select_existing(2) by (auto simp: subs_of_def)

lemma subs_of_SomeD:
  assumes "subs_of s tok = Some x"
  obtains d where "d \<in> set (devices s)" "push_token d = tok" "x = (dev_user d, {a. actively_linked s (dev_id d) a})"
  using assms select_existing(1) by (auto simp: subs_of_def)

text \<open>
  How a change of rows is read off: every device has its entry, and no other token has one.
\<close>

lemma subs_eqI:
  assumes ok: "devices_ok s"
    and known: "\<And>d. d \<in> set (devices s) \<Longrightarrow> m (push_token d) = Some (dev_user d, {a. actively_linked s (dev_id d) a})"
    and other: "\<And>tok. (\<And>d. d \<in> set (devices s) \<Longrightarrow> push_token d \<noteq> tok) \<Longrightarrow> m tok = None"
  shows "subs_of s = m"
proof
  fix tok
  show "subs_of s tok = m tok"
  proof (cases "\<exists>d \<in> set (devices s). push_token d = tok")
    case True
    then show ?thesis using subs_of_device[OF ok] known by metis
  next
    case False
    then show ?thesis using subs_of_unknown other by metis
  qed
qed

lemma actively_linked_iff:
  "actively_linked s d a \<longleftrightarrow> (\<exists>l \<in> set (links s). link_device l = d \<and> link_application l = a \<and> link_is_active l)"
  by (auto simp: actively_linked_def list_ex_iff)

lemma linked_take_over:
  "actively_linked (take_over now u d s) e a \<longleftrightarrow> actively_linked s e a \<and> \<not> (changes_hands u d \<and> e = dev_id d)"
  by (auto simp: take_over_def actively_linked_iff lnk.rows_put set_update_where)

lemma linked_put_devices [simp]: "actively_linked (put_devices P f s) = actively_linked s"
  by (simp add: actively_linked_def fun_eq_iff)

lemma subs_refresh:
  assumes ok: "devices_ok s" and d: "d \<in> set (devices s)" "push_token d = dq_push_token r"
    and run: "refresh_device now u r d s = (s', d')"
  shows "subs_of s' = present_token u (dq_push_token r) (subs_of s)"
proof -
  have s': "s' = put_devices (\<lambda>x. dev_id x = dev_id d) (device_fields now u r) (take_over now u d s)"
    using run by (auto simp: refresh_device_def)
  have ok': "devices_ok s'" using refreshed[OF ok d run] by blast
  have rows: "devices s' = update_where (\<lambda>x. dev_id x = dev_id d) (device_fields now u r) (devices s)"
    by (simp add: s' put_devices_def)
  have linked: "actively_linked s' e a \<longleftrightarrow> actively_linked s e a \<and> \<not> (changes_hands u d \<and> e = dev_id d)" for e a
    by (simp add: s' linked_take_over)
  note sd = subs_of_device[OF ok d(1), unfolded d(2)]
  show ?thesis
  proof (rule subs_eqI[OF ok'])
    fix e
    assume "e \<in> set (devices s')"
    then obtain x where x: "x \<in> set (devices s)" "e = (if dev_id x = dev_id d then device_fields now u r x else x)"
      unfolding rows update_where_def by auto
    show "present_token u (dq_push_token r) (subs_of s) (push_token e) = Some (dev_user e, {a. actively_linked s' (dev_id e) a})"
    proof (cases "x = d")
      case True
      then have "push_token e = dq_push_token r" "dev_user e = Some u" "dev_id e = dev_id d"
        using x(2) d(2) by (simp_all add: device_fields_def)
      then show ?thesis using sd by (auto simp: present_token_def linked changes_hands_def)
    next
      case False
      have id: "dev_id x \<noteq> dev_id d" using device_by_id[OF ok x(1) d(1)] False by blast
      have "push_token x \<noteq> dq_push_token r" using device_by_token[OF ok x(1) d(1)] False d(2) by metis
      then show ?thesis using subs_of_device[OF ok x(1)] id x(2) by (simp add: present_token_def linked)
    qed
  next
    fix tok
    assume free: "\<And>e. e \<in> set (devices s') \<Longrightarrow> push_token e \<noteq> tok"
    have "push_token x \<noteq> tok" if "x \<in> set (devices s)" for x
    proof -
      have "(if dev_id x = dev_id d then device_fields now u r x else x) \<in> set (devices s')"
        using that unfolding rows update_where_def by auto
      from free[OF this] show ?thesis by (auto split: if_splits)
    qed
    then have "subs_of s tok = None" "tok \<noteq> dq_push_token r" using subs_of_unknown d by (blast, metis)
    then show "present_token u (dq_push_token r) (subs_of s) tok = None" by (simp add: present_token_def)
  qed
qed

lemma subs_new_device:
  assumes ok: "devices_ok s" and free: "\<And>x. x \<in> set (devices s) \<Longrightarrow> push_token x \<noteq> push_token d"
    and d: "dev_id d = next_pk s" "dev_user d = Some u"
    and own: "\<And>l. l \<in> set (links s) \<Longrightarrow> link_device l \<noteq> next_pk s"
    and ok': "devices_ok (s\<lparr>devices := devices s @ [d], next_pk := Suc (next_pk s)\<rparr>)"
  shows "subs_of (s\<lparr>devices := devices s @ [d], next_pk := Suc (next_pk s)\<rparr>) = present_token u (push_token d) (subs_of s)"
proof (rule subs_eqI[OF ok'])
  let ?t = "s\<lparr>devices := devices s @ [d], next_pk := Suc (next_pk s)\<rparr>"
  have linked: "actively_linked ?t = actively_linked s" by (simp add: actively_linked_def fun_eq_iff)
  fix e
  assume "e \<in> set (devices ?t)"
  then consider "e = d" | "e \<in> set (devices s)" by auto
  then show "present_token u (push_token d) (subs_of s) (push_token e) = Some (dev_user e, {a. actively_linked ?t (dev_id e) a})"
  proof cases
    case 1
    have "{a. actively_linked s (dev_id d) a} = {}" using own d(1) by (auto simp: actively_linked_iff)
    then show ?thesis using 1 d(2) subs_of_unknown[OF free] by (simp add: present_token_def linked)
  next
    case 2
    then show ?thesis using subs_of_device[OF ok 2] free[OF 2] by (simp add: present_token_def linked)
  qed
next
  fix tok
  assume none: "\<And>e. e \<in> set (devices (s\<lparr>devices := devices s @ [d], next_pk := Suc (next_pk s)\<rparr>)) \<Longrightarrow> push_token e \<noteq> tok"
  then have "subs_of s tok = None" "tok \<noteq> push_token d" by (auto intro!: subs_of_unknown)
  then show "present_token u (push_token d) (subs_of s) tok = None" by (simp add: present_token_def)
qed

text \<open>The links of the other devices are not touched by a merge.\<close>

lemma merge_links_other:
  assumes ok: "links_ok s" and src: "source \<in> set (devices s)" and e: "e \<noteq> dev_id source" "e \<noteq> dev_id target"
  shows "actively_linked (merge_device_into source target s) e a \<longleftrightarrow> actively_linked s e a"
proof -
  define had where "had = links_of_device s (dev_id target)"
  define sl where "sl = links_of_device s (dev_id source)"
  have links': "links (merge_device_into source target s) =
      filter (\<lambda>l. link_device l \<noteq> dev_id source) (map (Devices.merged had (dev_id target) sl) (links s))"
    unfolding merge_state[OF src] had_def sl_def by simp
  have same: "Devices.merged had (dev_id target) sl r = r" if r: "r \<in> set (links s)" "link_device r = e" for r
  proof -
    have "\<not> moved had sl r"
    proof
      assume "moved had sl r"
      then obtain l where "l \<in> set sl" "link_id l = link_id r" by (auto simp: moved_def)
      then show False using link_by_id[OF ok _ r(1), of l] r(2) e(1) by (auto simp: sl_def links_of_device_def)
    qed
    moreover have "\<not> revived had sl r"
    proof
      assume "revived had sl r"
      then obtain l x :: device_link where "List.find (\<lambda>t. link_application t = link_application l) had = Some x" "link_id x = link_id r"
        unfolding revived_def by blast
      then have "x \<in> set had" "link_id x = link_id r" by (auto dest: find_SomeD)
      then show False using link_by_id[OF ok _ r(1), of x] r(2) e(2) by (auto simp: had_def links_of_device_def)
    qed
    ultimately show ?thesis by (simp add: Devices.merged_def)
  qed
  show ?thesis
  proof
    assume "actively_linked (merge_device_into source target s) e a"
    then obtain r where r: "r \<in> set (links s)" "link_device (Devices.merged had (dev_id target) sl r) = e"
        "link_application (Devices.merged had (dev_id target) sl r) = a" "link_is_active (Devices.merged had (dev_id target) sl r)"
      unfolding actively_linked_iff links' by auto
    then have "link_device r = e" using e(2) by (simp split: if_splits)
    then show "actively_linked s e a" using same[OF r(1)] r unfolding actively_linked_iff by auto
  next
    assume "actively_linked s e a"
    then obtain r where r: "r \<in> set (links s)" "link_device r = e" "link_application r = a" "link_is_active r"
      unfolding actively_linked_iff by blast
    have "r \<in> set (links (merge_device_into source target s))"
      unfolding links' using r same[OF r(1,2)] e(1) by (simp add: image_iff) metis
    then show "actively_linked (merge_device_into source target s) e a" unfolding actively_linked_iff using r by blast
  qed
qed

text \<open>The row of a rotation: the old device under the new token, with the links the state below has.\<close>

lemma subs_rotated:
  assumes ok: "devices_ok t" and ok': "devices_ok (rotated now u r old t)" and old: "old \<in> set (devices t)"
    and new: "push_token old \<noteq> dq_push_token r" and free: "\<And>x. x \<in> set (devices t) \<Longrightarrow> push_token x \<noteq> dq_push_token r"
  shows "subs_of (rotated now u r old t) = (subs_of t)(push_token old := None,
    dq_push_token r \<mapsto> (Some u, {a. actively_linked t (dev_id old) a}))"
proof (rule subs_eqI[OF ok'])
  let ?f = "\<lambda>x. device_fields now u r (x\<lparr>push_token := dq_push_token r\<rparr>)"
  let ?m = "(subs_of t)(push_token old := None, dq_push_token r \<mapsto> (Some u, {a. actively_linked t (dev_id old) a}))"
  have rows: "devices (rotated now u r old t) = update_where (\<lambda>x. dev_id x = dev_id old) ?f (devices t)"
    by (simp add: rotated_def put_devices_def)
  have linked: "actively_linked (rotated now u r old t) = actively_linked t" by (simp add: rotated_def)
  { fix e
    assume "e \<in> set (devices (rotated now u r old t))"
    then obtain x where x: "x \<in> set (devices t)" "e = (if dev_id x = dev_id old then ?f x else x)"
      unfolding rows update_where_def by auto
    show "?m (push_token e) = Some (dev_user e, {a. actively_linked (rotated now u r old t) (dev_id e) a})"
    proof (cases "x = old")
      case True
      then show ?thesis using x(2) by (simp add: device_fields_def linked)
    next
      case False
      then have "dev_id x \<noteq> dev_id old" "push_token x \<noteq> push_token old"
        using device_by_id[OF ok x(1) old] device_by_token[OF ok x(1) old] by blast+
      then show ?thesis using x(2) subs_of_device[OF ok x(1)] free[OF x(1)] by (simp add: linked)
    qed }
  fix tok
  assume none: "\<And>e. e \<in> set (devices (rotated now u r old t)) \<Longrightarrow> push_token e \<noteq> tok"
  have img: "(if dev_id x = dev_id old then ?f x else x) \<in> set (devices (rotated now u r old t))" if "x \<in> set (devices t)" for x
    using that unfolding rows update_where_def by auto
  have "push_token (?f old) \<noteq> tok" using none[OF img[OF old]] by simp
  moreover have "tok = push_token old \<or> push_token x \<noteq> tok" if "x \<in> set (devices t)" for x
    using none[OF img[OF that]] device_by_id[OF ok that old] by (auto split: if_splits)
  then have "tok = push_token old \<or> subs_of t tok = None" using subs_of_unknown by metis
  ultimately show "?m tok = None" by auto
qed

lemma subs_merge:
  assumes ok: "devices_ok s" and src: "source \<in> set (devices s)" and tgt: "target \<in> set (devices s)"
    and ne: "dev_id source \<noteq> dev_id target"
  shows "subs_of (merge_device_into source target s) = (subs_of s)(push_token source := None,
    push_token target \<mapsto> (dev_user target, apps_of (subs_of s (push_token target)) \<union> apps_of (subs_of s (push_token source))))"
proof (rule subs_eqI[OF devices_ok_merge[OF ok src tgt ne]])
  let ?s' = "merge_device_into source target s"
  let ?m = "(subs_of s)(push_token source := None, push_token target \<mapsto> (dev_user target,
    apps_of (subs_of s (push_token target)) \<union> apps_of (subs_of s (push_token source))))"
  have lok: "links_ok s" using ok by (simp add: devices_ok_def)
  have rows: "devices ?s' = filter (\<lambda>d. dev_id d \<noteq> dev_id source) (devices s)" unfolding merge_state[OF src] by simp
  { fix e
    assume "e \<in> set (devices ?s')"
    then have e: "e \<in> set (devices s)" "dev_id e \<noteq> dev_id source" unfolding rows by auto
    have ps: "push_token e \<noteq> push_token source" using device_by_token[OF ok e(1) src] e(2) by metis
    show "?m (push_token e) = Some (dev_user e, {a. actively_linked ?s' (dev_id e) a})"
    proof (cases "e = target")
      case True
      then show ?thesis using subs_of_device[OF ok src] subs_of_device[OF ok tgt] merge_links_union[OF lok ne src]
        by (auto simp: apps_of_def)
    next
      case False
      then have "dev_id e \<noteq> dev_id target" "push_token e \<noteq> push_token target"
        using device_by_id[OF ok e(1) tgt] device_by_token[OF ok e(1) tgt] by blast+
      then show ?thesis using ps e(2) subs_of_device[OF ok e(1)] merge_links_other[OF lok src e(2)] by simp
    qed }
  fix tok
  assume none: "\<And>e. e \<in> set (devices ?s') \<Longrightarrow> push_token e \<noteq> tok"
  have "tok \<noteq> push_token target" using none[of target] tgt ne unfolding rows by auto
  moreover have "tok = push_token source \<or> push_token x \<noteq> tok" if "x \<in> set (devices s)" for x
    using none[of x] that device_by_id[OF ok that src] unfolding rows by auto
  then have "tok = push_token source \<or> subs_of s tok = None" using subs_of_unknown by metis
  ultimately show "?m tok = None" by auto
qed

section \<open>Links\<close>

lemma linked_cut:
  assumes ok: "links_ok s" and l: "l \<in> set (links s)"
  shows "actively_linked (cut_link now src l s) d a \<longleftrightarrow>
    actively_linked s d a \<and> \<not> (d = link_device l \<and> a = link_application l)"
proof -
  have same: "m = l" if "m \<in> set (links s)" "link_id m = link_id l" for m using link_by_id[OF ok that(1) l that(2)] .
  have pair: "m = l" if "m \<in> set (links s)" "link_device m = link_device l" "link_application m = link_application l" for m
    using link_by_pair[OF ok that(1) l that(2,3)] .
  show ?thesis
  proof
    assume "actively_linked (cut_link now src l s) d a"
    then obtain m where m: "m \<in> set (links s)" "link_id m \<noteq> link_id l" "link_device m = d" "link_application m = a" "link_is_active m"
      unfolding actively_linked_iff cut_link_def lnk.rows_put set_update_where by auto
    then show "actively_linked s d a \<and> \<not> (d = link_device l \<and> a = link_application l)"
      using pair[OF m(1)] unfolding actively_linked_iff by blast
  next
    assume *: "actively_linked s d a \<and> \<not> (d = link_device l \<and> a = link_application l)"
    then obtain m where m: "m \<in> set (links s)" "link_device m = d" "link_application m = a" "link_is_active m"
      unfolding actively_linked_iff by blast
    then have "link_id m \<noteq> link_id l" using same[OF m(1)] * by blast
    then show "actively_linked (cut_link now src l s) d a"
      unfolding actively_linked_iff cut_link_def lnk.rows_put set_update_where using m by blast
  qed
qed

lemma linked_link_device:
  assumes "links_ok s"
  shows "actively_linked (fst (link_device_to now d app s)) e a \<longleftrightarrow> actively_linked s e a \<or> e = d \<and> a = app"
proof (cases "link_of s d app")
  case None
  then show ?thesis by (auto simp: link_device_to_def actively_linked_def)
next
  case (Some l)
  then have l: "l \<in> set (links s)" "link_device l = d" "link_application l = app" by (auto simp: link_of_def dest: find_SomeD)
  show ?thesis
  proof (cases "link_is_active l")
    case True
    then show ?thesis using Some l by (auto simp: link_device_to_def actively_linked_iff)
  next
    case False
    let ?f = "\<lambda>r. r\<lparr>link_is_active := True, unlinked_at := None, unlink_source := None\<rparr>"
    have rows: "links (fst (link_device_to now d app s)) = update_where (\<lambda>r. link_id r = link_id l) ?f (links s)"
      using Some False by (simp add: link_device_to_def put_links_def)
    show ?thesis
    proof
      assume "actively_linked (fst (link_device_to now d app s)) e a"
      then obtain m where m: "m \<in> set (links s)" "link_device m = e" "link_application m = a" "link_id m = link_id l \<or> link_is_active m"
        unfolding actively_linked_iff rows set_update_where by auto
      then show "actively_linked s e a \<or> e = d \<and> a = app"
        using link_by_id[OF assms m(1) l(1)] l unfolding actively_linked_iff by blast
    next
      assume "actively_linked s e a \<or> e = d \<and> a = app"
      then show "actively_linked (fst (link_device_to now d app s)) e a"
      proof
        assume "actively_linked s e a"
        then obtain m where "m \<in> set (links s)" "link_device m = e" "link_application m = a" "link_is_active m"
          unfolding actively_linked_iff by blast
        then show ?thesis unfolding actively_linked_iff rows set_update_where
          by (intro bexI[of _ "if link_id m = link_id l then ?f m else m"]) auto
      next
        assume "e = d \<and> a = app"
        then show ?thesis unfolding actively_linked_iff rows set_update_where
          using l by (intro bexI[of _ "?f l"]) auto
      qed
    qed
  qed
qed

text \<open>A change of links alone, read off as a change of the sets of applications.\<close>

lemma subs_links:
  assumes ok: "devices_ok s" and same: "devices s' = devices s"
    and m: "\<And>d. d \<in> set (devices s) \<Longrightarrow> m (push_token d) = Some (dev_user d, {a. actively_linked s' (dev_id d) a})"
    and none: "\<And>tok. subs_of s tok = None \<Longrightarrow> m tok = None"
  shows "subs_of s' = m"
proof
  fix tok
  show "subs_of s' tok = m tok"
  proof (cases "select_existing_device s tok")
    case None
    then have "subs_of s tok = None" "subs_of s' tok = None" using same by (simp_all add: subs_of_def select_existing_device_def)
    then show ?thesis using none by simp
  next
    case (Some d)
    then have "select_existing_device s' tok = Some d" using same by (simp add: select_existing_device_def)
    then show ?thesis using m select_existing(1)[OF Some] by (auto simp: subs_of_def)
  qed
qed

lemma subs_same: "devices s' = devices s \<Longrightarrow> links s' = links s \<Longrightarrow> subs_of s' = subs_of s"
  by (simp add: subs_of_def select_existing_device_def actively_linked_def fun_eq_iff cong: map_option_cong)

lemma device_tokens:
  "devices_ok s \<Longrightarrow> d \<in> set (devices s) \<Longrightarrow> e \<in> set (devices s) \<Longrightarrow> push_token d = push_token e \<longleftrightarrow> dev_id d = dev_id e"
  using device_by_id device_by_token by metis

lemma subs_cut:
  assumes ok: "devices_ok s" and d: "d \<in> set (devices s)" and l: "l \<in> set (links s)" "link_device l = dev_id d"
  shows "subs_of (cut_link now src l s) = unsubscribe (push_token d) (link_application l) (subs_of s)"
proof (rule subs_links[OF ok])
  have lok: "links_ok s" using ok by (simp add: devices_ok_def)
  fix e
  assume e: "e \<in> set (devices s)"
  show "unsubscribe (push_token d) (link_application l) (subs_of s) (push_token e) =
      Some (dev_user e, {a. actively_linked (cut_link now src l s) (dev_id e) a})"
    using subs_of_device[OF ok e] device_tokens[OF ok e d] by (auto simp: unsubscribe_def linked_cut[OF lok l(1)] l(2))
qed (auto simp: cut_link_def unsubscribe_def)

lemma subs_link:
  assumes ok: "devices_ok s" and d: "d \<in> set (devices s)"
  shows "subs_of (fst (link_device_to now (dev_id d) app s)) = subscribe (push_token d) app (subs_of s)"
proof (rule subs_links[OF ok])
  have lok: "links_ok s" using ok by (simp add: devices_ok_def)
  fix e
  assume e: "e \<in> set (devices s)"
  show "subscribe (push_token d) app (subs_of s) (push_token e) =
      Some (dev_user e, {a. actively_linked (fst (link_device_to now (dev_id d) app s)) (dev_id e) a})"
    using subs_of_device[OF ok e] device_tokens[OF ok e d] by (auto simp: subscribe_def linked_link_device[OF lok])
qed (auto simp: link_device_to_def subscribe_def split: option.split)

lemma unsubscribe_idle:
  assumes "devices_ok s" "d \<in> set (devices s)" "\<not> actively_linked s (dev_id d) a"
  shows "unsubscribe (push_token d) a (subs_of s) = subs_of s"
  using subs_of_device[OF assms(1,2)] assms(3) by (auto simp: unsubscribe_def fun_eq_iff)

lemma subs_unlink_own:
  assumes ok: "devices_ok s" and run: "unlink_own_device now src u tok app s = (s', x, b)"
  shows "subs_of s' = unsubscribe_own u tok app (subs_of s)"
proof (cases "own_device_with_token s u tok")
  case None
  have "map_option fst (subs_of s tok) \<noteq> Some (Some u)"
  proof
    assume "map_option fst (subs_of s tok) = Some (Some u)"
    then obtain d where "d \<in> set (devices s)" "push_token d = tok" "dev_user d = Some u"
      by (auto elim: subs_of_SomeD)
    then show False using None by (auto simp: own_device_with_token_def find_None_iff)
  qed
  then show ?thesis using run None by (auto simp: unlink_own_device_def unsubscribe_own_def)
next
  case (Some d)
  then have d: "d \<in> set (devices s)" "push_token d = tok" "dev_user d = Some u"
    by (auto simp: own_device_with_token_def dest: find_SomeD)
  have own: "unsubscribe_own u tok app (subs_of s) = unsubscribe tok app (subs_of s)"
    using subs_of_device[OF ok d(1)] d by (simp add: unsubscribe_own_def)
  show ?thesis
  proof (cases "List.find (\<lambda>l. link_application l = app \<and> link_is_active l) (links_of_device s (dev_id d))")
    case None
    then have "\<not> actively_linked s (dev_id d) app"
      by (auto simp: find_None_iff links_of_device_def actively_linked_iff)
    then show ?thesis using run Some None unsubscribe_idle[OF ok d(1)] own d(2) by (auto simp: unlink_own_device_def)
  next
    case (Some l)
    then have "l \<in> set (links s)" "link_device l = dev_id d" "link_application l = app"
      by (auto simp: links_of_device_def dest: find_SomeD)
    then show ?thesis using run \<open>own_device_with_token s u tok = Some d\<close> Some subs_cut[OF ok d(1)] own d(2)
      by (auto simp: unlink_own_device_def)
  qed
qed

lemma subs_evict:
  assumes ok: "devices_ok s" and refs: "\<forall>l \<in> set (links s). link_device l \<in> dev_id ` set (devices s)"
  shows "subs_of (fst (device_evict now u app d s)) =
    (case (own_application s u app, get_device s d) of (Some _, Some v) \<Rightarrow> unsubscribe (push_token v) app (subs_of s) | _ \<Rightarrow> subs_of s)"
proof (cases "own_application s u app")
  case None
  then show ?thesis by (simp add: device_evict_def)
next
  case own: (Some a)
  show ?thesis
  proof (cases "link_of s d app")
    case None
    then have "\<not> actively_linked s d app" by (auto simp: link_of_def find_None_iff actively_linked_iff)
    then have "unsubscribe (push_token v) app (subs_of s) = subs_of s" if "get_device s d = Some v" for v
      using unsubscribe_idle[OF ok, of v app] that by (auto simp: get_device_def dest: find_SomeD)
    then show ?thesis using own None by (simp add: device_evict_def split: option.split)
  next
    case (Some l)
    then have l: "l \<in> set (links s)" "link_device l = d" "link_application l = app" by (auto simp: link_of_def dest: find_SomeD)
    then obtain v where v: "v \<in> set (devices s)" "dev_id v = d" using refs by force
    have g: "get_device s d = Some v" using device_found[of s v] ok v by (simp add: devices_ok_def)
    show ?thesis
    proof (cases "link_is_active l")
      case True
      then show ?thesis using own Some g subs_cut[OF ok v(1) l(1)] l v(2) by (simp add: device_evict_def)
    next
      case False
      have "\<not> actively_linked s (dev_id v) app"
      proof
        assume "actively_linked s (dev_id v) app"
        then obtain m where m: "m \<in> set (links s)" "link_device m = dev_id v" "link_application m = app" "link_is_active m"
          unfolding actively_linked_iff by blast
        have "links_ok s" using ok by (simp add: devices_ok_def)
        from link_by_pair[OF this m(1) l(1)] have "m = l" using m(2,3) l(2,3) v(2) by simp
        then show False using m(4) False by simp
      qed
      then show ?thesis using own Some g False unsubscribe_idle[OF ok v(1)] by (simp add: device_evict_def)
    qed
  qed
qed

lemma subs_delete:
  assumes ok: "devices_ok s" and d: "d \<in> set (devices s)"
  shows "subs_of (delete_devices (\<lambda>x. dev_id x = dev_id d) s) = (subs_of s)(push_token d := None)"
proof -
  let ?s' = "delete_devices (\<lambda>x. dev_id x = dev_id d) s"
  have rows: "devices ?s' = filter (\<lambda>x. dev_id x \<noteq> dev_id d) (devices s)"
    "links ?s' = filter (\<lambda>l. link_device l \<notin> set (map dev_id (filter (\<lambda>x. dev_id x = dev_id d) (devices s)))) (links s)"
    by (simp_all add: delete_devices_def Let_def)
  have linked: "actively_linked ?s' e = actively_linked s e" if "e \<noteq> dev_id d" for e
    unfolding fun_eq_iff actively_linked_iff rows using that by auto
  show ?thesis
  proof
    fix tok
    show "subs_of ?s' tok = ((subs_of s)(push_token d := None)) tok"
    proof (cases "tok = push_token d")
      case True
      have "push_token e \<noteq> tok" if "e \<in> set (devices ?s')" for e
        using that device_tokens[OF ok _ d, of e] True unfolding rows by auto
      then show ?thesis using True subs_of_unknown by auto
    next
      case False
      have find: "List.find P (filter Q xs) = List.find P xs" if "\<And>x. x \<in> set xs \<Longrightarrow> P x \<Longrightarrow> Q x" for P Q and xs :: "device list"
        using that by (induction xs) auto
      have "dev_id x \<noteq> dev_id d" if "x \<in> set (devices s)" "push_token x = tok" for x
        using device_tokens[OF ok that(1) d] that(2) False by simp
      then have "select_existing_device ?s' tok = select_existing_device s tok"
        unfolding select_existing_device_def rows by (intro find) simp
      moreover have "dev_id x \<noteq> dev_id d" if "select_existing_device s tok = Some x" for x
        using select_existing(1)[OF that] device_tokens[OF ok _ d] False by auto
      ultimately show ?thesis using False linked by (cases "select_existing_device s tok") (simp_all add: subs_of_def)
    qed
  qed
qed

section \<open>Identification\<close>

definition subs_ok :: "db \<Rightarrow> bool" where
  "subs_ok s \<longleftrightarrow> devices_ok s \<and> (\<forall>l \<in> set (links s). link_device l \<in> dev_id ` set (devices s))"

lemma subs_rotate:
  assumes ok: "devices_ok s" and run: "rotate_push_token now u r s = Some (s', d)"
  shows "\<exists>p. dq_previous r = Some p \<and> may_replace u (strip p) (dq_push_token r) (subs_of s) \<and>
    subs_of s' = replace_token u (strip p) (dq_push_token r) (subs_of s)"
proof -
  from run obtain p where p: "dq_previous r = Some p" "strip p \<noteq> []" "strip p \<noteq> dq_push_token r"
    by (auto simp: rotate_push_token_def Let_def split: if_splits option.splits)
  then obtain old where old: "select_existing_device s (strip p) = Some old" "dev_user old = Some u"
    using run by (auto simp: rotate_push_token_def Let_def split: if_splits option.splits)
  note o = select_existing(1)[OF old(1)]
  have o1: "old \<in> set (devices s)" and o2: "push_token old = strip p" using o by auto
  have stay: "take_over now u old t = t" for t by (simp add: take_over_def changes_hands_def old(2))
  have so: "subs_of s (strip p) = Some (Some u, {a. actively_linked s (dev_id old) a})"
    using subs_of_device[OF ok o1] o2 old(2) by simp
  have ok': "devices_ok s'" using rotate_ok[OF ok run] by blast
  show ?thesis
  proof (cases "select_existing_device s (dq_push_token r)")
    case None
    have free: "x \<in> set (devices s) \<Longrightarrow> push_token x \<noteq> dq_push_token r" for x by (rule select_existing(2)[OF None])
    have st: "subs_of s (dq_push_token r) = None" using subs_of_unknown free by blast
    have s': "s' = rotated now u r old s" using run p old None by (auto simp: rotate_push_token_def Let_def stay rotated_def)
    have "push_token old \<noteq> dq_push_token r" using o2 p(3) by simp
    from subs_rotated[OF ok ok'[unfolded s'] o1 this free] show ?thesis
      using p so st o2 unfolding s' by (auto simp: may_replace_def replace_token_def apps_of_def)
  next
    case (Some c)
    note c = select_existing(1)[OF Some]
    have c1: "c \<in> set (devices s)" and c2: "push_token c = dq_push_token r" using c by auto
    let ?t = "merge_device_into c old s"
    have s': "s' = rotated now u r old ?t" and cu: "dev_user c = None \<or> dev_user c = Some u"
      using run p old Some by (auto simp: rotate_push_token_def Let_def stay rotated_def split: if_splits)
    have pt: "push_token old \<noteq> dq_push_token r" using o2 p(3) by simp
    have ne: "dev_id c \<noteq> dev_id old" using device_tokens[OF ok c1 o1] c2 pt by simp
    have okt: "devices_ok ?t" by (rule devices_ok_merge[OF ok c1 o1 ne])
    have rows: "devices ?t = filter (\<lambda>d. dev_id d \<noteq> dev_id c) (devices s)" unfolding merge_state[OF c1] by simp
    have oldt: "old \<in> set (devices ?t)" unfolding rows using o1 ne by auto
    have free: "push_token x \<noteq> dq_push_token r" if "x \<in> set (devices ?t)" for x
      using that device_tokens[OF ok _ c1, of x] c2 unfolding rows by auto
    have sc: "subs_of s (dq_push_token r) = Some (dev_user c, {a. actively_linked s (dev_id c) a})"
      using subs_of_device[OF ok c1] c2 by simp
    have apps: "{a. actively_linked ?t (dev_id old) a} = {a. actively_linked s (dev_id old) a} \<union> {a. actively_linked s (dev_id c) a}"
      using merge_links_union[OF _ ne c1] ok by (auto simp: devices_ok_def)
    have m: "subs_of ?t = (subs_of s)(dq_push_token r := None, strip p \<mapsto> (Some u,
        {a. actively_linked s (dev_id old) a} \<union> {a. actively_linked s (dev_id c) a}))"
      using subs_merge[OF ok c1 o1 ne] so sc by (simp add: c2 o2 old(2) apps_of_def)
    show ?thesis
      using subs_rotated[OF okt ok'[unfolded s'] oldt pt free] p cu so sc unfolding s' m apps o2
      by (auto simp: may_replace_def replace_token_def apps_of_def fun_eq_iff)
  qed
qed

lemma no_rotate:
  assumes ok: "devices_ok s" and run: "rotate_push_token now u r s = None" and that: "m = subs_of s"
  shows "identify_token u (dq_previous r) (dq_push_token r) m = present_token u (dq_push_token r) m"
proof (cases "dq_previous r")
  case (Some p)
  have "\<not> may_replace u (strip p) (dq_push_token r) (subs_of s)"
  proof
    assume may: "may_replace u (strip p) (dq_push_token r) (subs_of s)"
    then obtain old where old: "select_existing_device s (strip p) = Some old" "dev_user old = Some u" "strip p \<noteq> []"
      "strip p \<noteq> dq_push_token r" by (auto simp: may_replace_def subs_of_def)
    show False
    proof (cases "select_existing_device s (dq_push_token r)")
      case None
      then show False using run old Some by (simp add: rotate_push_token_def Let_def)
    next
      case c: (Some c)
      then have "dev_user c = None \<or> dev_user c = Some u" using may by (auto simp: may_replace_def subs_of_def)
      then show False using run old Some c by (auto simp: rotate_push_token_def Let_def)
    qed
  qed
  then show ?thesis using Some that by (simp add: identify_token_def)
qed (simp add: identify_token_def)

lemma subs_upsert:
  assumes ok: "subs_ok s" and run: "upsert_authenticated_device now (\<lambda>t. t) u r s = (s', d, created)"
  shows "subs_of s' = identify_token u (dq_previous r) (dq_push_token r) (subs_of s)"
proof (cases "rotate_push_token now u r s")
  case (Some q)
  obtain s1 d1 where q: "q = (s1, d1)" by (cases q)
  then have "s' = s1" using run Some by (auto simp: upsert_authenticated_device_def)
  moreover have "devices_ok s" using ok by (simp add: subs_ok_def)
  ultimately show ?thesis using subs_rotate[of s now u r s1 d1] Some q by (auto simp: identify_token_def)
next
  case None
  have dok: "devices_ok s" using ok by (simp add: subs_ok_def)
  have goal: "identify_token u (dq_previous r) (dq_push_token r) (subs_of s) = present_token u (dq_push_token r) (subs_of s)"
    by (rule no_rotate[OF dok None refl])
  show ?thesis
  proof (cases "select_existing_device s (dq_push_token r)")
    case (Some x)
    obtain s1 d1 where f: "refresh_device now u r x s = (s1, d1)" by fastforce
    then have "s' = s1" using run None Some by (simp add: upsert_authenticated_device_def)
    then show ?thesis using subs_refresh[OF dok _ _ f] select_existing(1)[OF Some] goal by simp
  next
    case free: None
    let ?d = "device_fields now u r (new_device (next_pk s) (dq_push_token r) now)"
    have s': "s' = s\<lparr>devices := devices s @ [?d], next_pk := Suc (next_pk s)\<rparr>"
      using run None free by (auto simp: upsert_authenticated_device_def Let_def)
    have lt: "x \<in> set (devices s) \<Longrightarrow> dev_id x < next_pk s" for x using dok by (simp add: devices_ok_def)
    have own: "link_device l \<noteq> next_pk s" if "l \<in> set (links s)" for l
      using ok that lt by (force simp: subs_ok_def)
    have "dev_id ?d \<notin> dev_id ` set (devices s)" "push_token ?d \<notin> push_token ` set (devices s)"
      using lt select_existing(2)[OF free] by (force simp: new_device_def)+
    then have "devices_ok s'"
      using dok lt unfolding devices_ok_def deliveries_ok_def links_ok_def s' by (auto simp: less_SucI new_device_def)
    moreover have "push_token x \<noteq> push_token ?d" if "x \<in> set (devices s)" for x
      using select_existing(2)[OF free that] by (simp add: new_device_def)
    moreover have "dev_id ?d = next_pk s" "dev_user ?d = Some u" "push_token ?d = dq_push_token r"
      by (simp_all add: new_device_def device_fields_def)
    ultimately show ?thesis using subs_new_device[OF dok, of ?d u] own goal unfolding s' by simp
  qed
qed

section \<open>The endpoints refine the operations on subscriptions\<close>

text \<open>
  Links lead to devices. With the consistency of the tables this is the invariant of the
  refinement, and every endpoint keeps it.
\<close>

definition links_lead :: "db \<Rightarrow> bool" where
  "links_lead s \<longleftrightarrow> (\<forall>l \<in> set (links s). link_device l \<in> dev_ids s)"

definition device_store_ok :: "db \<Rightarrow> bool" where
  "device_store_ok s \<longleftrightarrow> store_ok s \<and> links_lead s"

lemma device_store_subs: "device_store_ok s \<Longrightarrow> subs_ok s \<and> devices_ok s"
  by (auto simp: device_store_ok_def subs_ok_def store_ok_def links_lead_def dev_ids_def)

lemma links_lead_put_links: "links_lead s \<Longrightarrow> (\<And>l. link_device (f l) = link_device l) \<Longrightarrow> links_lead (put_links P f s)"
  by (auto simp: links_lead_def lnk.rows_put set_update_where)

lemma dev_ids_put: "(\<And>d. dev_id (f d) = dev_id d) \<Longrightarrow> dev_ids (put_devices P f s) = dev_ids s"
  by (simp add: dev_ids_def put_devices_def map_update_where flip: set_map)

lemma links_lead_put_devices: "links_lead s \<Longrightarrow> (\<And>d. dev_id (f d) = dev_id d) \<Longrightarrow> links_lead (put_devices P f s)"
  by (simp add: links_lead_def dev_ids_put)

lemma links_lead_take_over: "links_lead s \<Longrightarrow> links_lead (take_over now u d s)"
  by (simp add: take_over_def links_lead_put_links)

lemma links_lead_merge:
  assumes "links_lead s" "source \<in> set (devices s)" "target \<in> set (devices s)" "dev_id source \<noteq> dev_id target"
  shows "links_lead (merge_device_into source target s)"
proof -
  have ids: "dev_ids (merge_device_into source target s) = dev_ids s - {dev_id source}"
    by (auto simp: merge_state[OF assms(2)] dev_ids_def)
  have "dev_id target \<in> dev_ids s" using assms(3) by (simp add: dev_ids_def)
  then show ?thesis using assms(1,4) unfolding links_lead_def ids by (auto simp: merge_state[OF assms(2)] split: if_splits)
qed

lemma links_lead_rotate:
  assumes ok: "devices_ok s" and lead: "links_lead s" and run: "rotate_push_token now u r s = Some (s', d)"
  shows "links_lead s'"
  using run
proof (cases rule: rotate_cases)
  case (1 old)
  have rot: "links_lead (rotated now u r old t)" if "links_lead t" for t
    using that unfolding rotated_def by (rule links_lead_put_devices) simp
  from 1(6) show ?thesis
  proof
    assume "\<exists>c. c \<in> set (devices s) \<and> push_token c = dq_push_token r \<and> s' = rotated now u r old (merge_device_into c old s)"
    then obtain c where c: "c \<in> set (devices s)" "push_token c = dq_push_token r" "s' = rotated now u r old (merge_device_into c old s)"
      by blast
    have "dev_id c \<noteq> dev_id old" using device_tokens[OF ok c(1) 1(1)] c(2) 1(4) by simp
    then show ?thesis using rot links_lead_merge[OF lead c(1) 1(1)] c(3) by simp
  qed (use rot lead in simp)
qed

lemma upserted:
  assumes ok: "device_store_ok s" and run: "upsert_authenticated_device now (\<lambda>t. t) u r s = (s', d, created)"
  shows "device_store_ok s' \<and> d \<in> set (devices s') \<and> push_token d = dq_push_token r"
proof -
  have dok: "devices_ok s" and sok: "store_ok s" and lead: "links_lead s"
    using ok device_store_subs by (auto simp: device_store_ok_def)
  have "store_ok s'" using safe_upsert[OF sok _ run] safe_ok safe_refl by blast
  moreover have "links_lead s' \<and> d \<in> set (devices s') \<and> push_token d = dq_push_token r"
  proof (cases "rotate_push_token now u r s")
    case (Some q)
    obtain s1 d1 where q: "q = (s1, d1)" by (cases q)
    then have "s' = s1" "d = d1" using run Some by (auto simp: upsert_authenticated_device_def)
    then show ?thesis using links_lead_rotate[OF dok lead] rotate_ok[OF dok] Some q by (auto simp: fresh_def)
  next
    case no: None
    show ?thesis
    proof (cases "select_existing_device s (dq_push_token r)")
      case (Some x)
      obtain s1 d1 where f: "refresh_device now u r x s = (s1, d1)" by fastforce
      then have e: "s' = s1" "d = d1" using run no Some by (simp_all add: upsert_authenticated_device_def)
      have "s1 = put_devices (\<lambda>y. dev_id y = dev_id x) (device_fields now u r) (take_over now u x s)"
        using f by (auto simp: refresh_device_def)
      then have "links_lead s1" using links_lead_put_devices[OF links_lead_take_over[OF lead]] by simp
      then show ?thesis using refreshed[OF dok _ _ f] select_existing(1)[OF Some] e by (auto simp: fresh_def)
    next
      case None
      then have "s' = s\<lparr>devices := devices s @ [d], next_pk := Suc (next_pk s)\<rparr>" "push_token d = dq_push_token r"
        using run no by (auto simp: upsert_authenticated_device_def Let_def new_device_def)
      then show ?thesis using lead by (auto simp: links_lead_def dev_ids_def)
    qed
  qed
  ultimately show ?thesis by (simp add: device_store_ok_def)
qed

lemma enrolment_tables: "get_application_for_enrolment x now raw s = (s', a) \<Longrightarrow> same_tables s s'"
  by (auto simp: get_application_for_enrolment_def legacy_application_def same_tables_def put_applications_def
      split: option.splits if_splits list.splits)

lemma same_tables_store: "same_tables s s' \<Longrightarrow> device_store_ok s' = device_store_ok s"
  unfolding device_store_ok_def using store_ok_same_tables[of s s']
  by (simp add: links_lead_def dev_ids_def same_tables_def)

lemma same_tables_subs: "same_tables s s' \<Longrightarrow> subs_of s' = subs_of s"
  by (rule subs_same) (simp_all add: same_tables_def)

datatype device_op =
    Identify pk device_request
  | Link pk device_request
  | Unlink pk string string
  | Unlink_Application pk string pk
  | Evict pk pk pk
  | Delete_Device pk pk

fun serve :: "secrets \<Rightarrow> instant \<Rightarrow> device_op \<Rightarrow> db \<Rightarrow> db" where
  "serve x now (Identify u r) s = fst (device_identify now (\<lambda>t. t) u r s)"
| "serve x now (Link u r) s = fst (device_link_with_app_token x now (\<lambda>t. t) u r s)"
| "serve x now (Unlink u code tok) s = fst (device_unlink_with_app_token x now u code tok s)"
| "serve x now (Unlink_Application u tok app) s = fst (device_unlink_by_application now u tok app s)"
| "serve x now (Evict u app d) s = fst (device_evict now u app d s)"
| "serve x now (Delete_Device u i) s = fst (device_destroy u i s)"

text \<open>
  What each endpoint promises, on subscriptions alone: the request is read, the credential names the
  application, the device the token.
\<close>

definition granted_by :: "secrets \<Rightarrow> instant \<Rightarrow> string option \<Rightarrow> db \<Rightarrow> pk option" where
  "granted_by x now code s = (case snd (get_application_for_enrolment x now code s) of Granted a \<Rightarrow> Some (app_id a) | Denied _ _ \<Rightarrow> None)"

definition unlink_readable :: "string \<Rightarrow> string \<Rightarrow> bool" where
  "unlink_readable code tok \<longleftrightarrow> strip code \<noteq> [] \<and> 20 \<le> length (strip tok) \<and> length (strip tok) \<le> 512"

fun promised :: "secrets \<Rightarrow> instant \<Rightarrow> device_op \<Rightarrow> db \<Rightarrow> subscriptions_map \<Rightarrow> subscriptions_map" where
  "promised x now (Identify u r) s m =
     (case validate_device r of Inl _ \<Rightarrow> m | Inr v \<Rightarrow> identify_token u (dq_previous v) (dq_push_token v) m)"
| "promised x now (Link u r) s m =
     (case validate_device r of Inl _ \<Rightarrow> m
      | Inr v \<Rightarrow> (case granted_by x now (dq_app_token v) s of None \<Rightarrow> m
          | Some a \<Rightarrow> subscribe (dq_push_token v) a (identify_token u (dq_previous v) (dq_push_token v) m)))"
| "promised x now (Unlink u code tok) s m =
     (if \<not> unlink_readable code tok then m
      else case granted_by x now (Some (strip code)) s of None \<Rightarrow> m | Some a \<Rightarrow> unsubscribe_own u (strip tok) a m)"
| "promised x now (Unlink_Application u tok app) s m =
     (if strip tok = [] then m else unsubscribe_own u (strip tok) app m)"
| "promised x now (Evict u app d) s m =
     (case (own_application s u app, get_device s d) of
        (Some _, Some v) \<Rightarrow> unsubscribe (push_token v) app m | _ \<Rightarrow> m)"
| "promised x now (Delete_Device u i) s m =
     (case device_object s u True i of None \<Rightarrow> m | Some v \<Rightarrow> m(push_token v := None))"

lemma unlink_errors:
  "(let e1 = (if strip code = [] then add_error [] ''app_token'' ''This field may not be blank.'' else []);
        e2 = (if strip tok = [] then add_error e1 ''push_token'' ''This field may not be blank.''
              else bounded ''push_token'' 20 512 (strip tok) e1)
    in e2 \<noteq> []) \<longleftrightarrow> \<not> unlink_readable code tok"
  by (auto simp: unlink_readable_def bounded_def Let_def)

lemma cut_link_ok: "device_store_ok s \<Longrightarrow> device_store_ok (cut_link now src l s)"
  unfolding device_store_ok_def
  using safe_ok[OF safe_cut_link, of s now src l] by (simp add: cut_link_def links_lead_put_links)

lemma unlinked_ok: "device_store_ok s \<Longrightarrow> unlink_own_device now src u tok a s = (s', d, b) \<Longrightarrow> device_store_ok s'"
  by (auto simp: unlink_own_device_def cut_link_ok split: option.splits)

lemma linked_ok:
  assumes "device_store_ok s" "d \<in> dev_ids s"
  shows "device_store_ok (fst (link_device_to now d a s))"
proof -
  have "store_ok (fst (link_device_to now d a s))" using safe_ok[OF safe_link_device] assms(1) by (simp add: device_store_ok_def)
  moreover have "links_lead (fst (link_device_to now d a s))"
    using assms by (auto simp: device_store_ok_def links_lead_def link_device_to_def dev_ids_def lnk.rows_put set_update_where
        split: option.split)
  ultimately show ?thesis by (simp add: device_store_ok_def)
qed

lemma deleted_ok:
  assumes "device_store_ok s"
  shows "device_store_ok (delete_devices P s)"
proof -
  have "store_ok (delete_devices P s)" using safe_ok[OF safe_delete_devices] assms by (simp add: device_store_ok_def)
  moreover have "links_lead (delete_devices P s)"
    using assms by (auto simp: device_store_ok_def links_lead_def dev_ids_def delete_devices_def Let_def)
  ultimately show ?thesis by (simp add: device_store_ok_def)
qed

lemma granted_by_cases:
  assumes "get_application_for_enrolment x now code s = (s1, g)"
  shows "granted_by x now code s = (case g of Granted a \<Rightarrow> Some (app_id a) | Denied _ _ \<Rightarrow> None)"
  using assms by (simp add: granted_by_def)

definition refines :: "secrets \<Rightarrow> instant \<Rightarrow> device_op \<Rightarrow> db \<Rightarrow> bool" where
  "refines x now q s \<longleftrightarrow> subs_of (serve x now q s) = promised x now q s (subs_of s) \<and> device_store_ok (serve x now q s)"

lemma refines_identify: "device_store_ok s \<Longrightarrow> refines x now (Identify u r) s"
  using subs_upsert upserted device_store_subs
  by (auto simp: refines_def device_identify_def split: sum.split prod.split)

lemma refines_link:
  assumes ok: "device_store_ok s"
  shows "refines x now (Link u r) s"
proof (cases "validate_device r")
  case (Inl e)
  then show ?thesis using ok by (simp add: refines_def device_link_with_app_token_def)
next
  case (Inr v)
  obtain s1 g where g: "get_application_for_enrolment x now (dq_app_token v) s = (s1, g)" by fastforce
  note same = enrolment_tables[OF g] and grant = granted_by_cases[OF g]
  have ok1: "device_store_ok s1" using same_tables_store[OF same] ok by simp
  have sub1: "subs_of s1 = subs_of s" by (rule same_tables_subs[OF same])
  show ?thesis
  proof (cases g)
    case (Denied k c)
    then show ?thesis using Inr g grant ok1 sub1 by (simp add: refines_def device_link_with_app_token_def)
  next
    case (Granted a)
    obtain s2 d created where up: "upsert_authenticated_device now (\<lambda>t. t) u v s1 = (s2, d, created)" by (metis surj_pair)
    note U = upserted[OF ok1 up]
    have sub2: "subs_of s2 = identify_token u (dq_previous v) (dq_push_token v) (subs_of s)"
      using subs_upsert[OF _ up] device_store_subs[OF ok1] sub1 by simp
    have e: "serve x now (Link u r) s = fst (link_device_to now (dev_id d) (app_id a) s2)"
      using Inr g Granted up by (simp add: device_link_with_app_token_def split: prod.split)
    have "dev_id d \<in> dev_ids s2" using U by (simp add: dev_ids_def)
    then show ?thesis
      using linked_ok U subs_link[of s2 d now "app_id a"] device_store_subs sub2 Inr grant Granted unfolding refines_def e by simp
  qed
qed

lemma refines_unlink:
  assumes ok: "device_store_ok s"
  shows "refines x now (Unlink u code tok) s"
proof (cases "unlink_readable code tok")
  case False
  then show ?thesis using ok unlink_errors[of code tok]
    by (simp add: refines_def device_unlink_with_app_token_def Let_def)
next
  case True
  obtain s1 g where g: "get_application_for_enrolment x now (Some (strip code)) s = (s1, g)" by fastforce
  note same = enrolment_tables[OF g] and grant = granted_by_cases[OF g]
  have ok1: "device_store_ok s1" using same_tables_store[OF same] ok by simp
  have sub1: "subs_of s1 = subs_of s" by (rule same_tables_subs[OF same])
  have e: "serve x now (Unlink u code tok) s = (case g of Denied k c \<Rightarrow> s1
      | Granted a \<Rightarrow> fst (unlink_own_device now Device_Button u (strip tok) (app_id a) s1))"
    using True unlink_errors[of code tok] g
    by (simp add: device_unlink_with_app_token_def Let_def split: auth.split prod.split)
  show ?thesis
  proof (cases g)
    case (Denied k c)
    then show ?thesis using grant True ok1 sub1 unfolding refines_def e by simp
  next
    case (Granted a)
    obtain s2 d b where un: "unlink_own_device now Device_Button u (strip tok) (app_id a) s1 = (s2, d, b)" by (metis surj_pair)
    then show ?thesis
      using subs_unlink_own[OF _ un] unlinked_ok[OF ok1 un] device_store_subs[OF ok1] sub1 grant True Granted
      unfolding refines_def e by simp
  qed
qed

lemma refines_unlink_application: "device_store_ok s \<Longrightarrow> refines x now (Unlink_Application u tok app) s"
  using subs_unlink_own unlinked_ok device_store_subs
  by (auto simp: refines_def device_unlink_by_application_def split: prod.split)

lemma refines_evict:
  assumes ok: "device_store_ok s"
  shows "refines x now (Evict u app d) s"
proof -
  have "subs_ok s" using device_store_subs[OF ok] by blast
  then have "subs_of (fst (device_evict now u app d s)) = promised x now (Evict u app d) s (subs_of s)"
    using subs_evict by (auto simp: subs_ok_def split: option.split)
  moreover have "device_store_ok (fst (device_evict now u app d s))"
    using ok cut_link_ok by (simp add: device_evict_def split: option.split)
  ultimately show ?thesis by (simp add: refines_def)
qed

lemma refines_delete:
  assumes ok: "device_store_ok s"
  shows "refines x now (Delete_Device u i) s"
proof (cases "device_object s u True i")
  case None
  then show ?thesis using ok by (simp add: refines_def device_destroy_def)
next
  case (Some v)
  note v = device_objectD[OF Some]
  have dok: "devices_ok s" using device_store_subs[OF ok] by blast
  show ?thesis using Some v subs_delete[OF dok, of v] deleted_ok[OF ok]
    by (simp add: refines_def device_destroy_def)
qed

text \<open>
  C2. The device endpoints implement operations on subscriptions alone - a map from the known push
  tokens to their holder and the set of applications they are subscribed to. Presenting a token
  takes it over without the subscriptions of a former holder, replacing an own token moves its
  subscriptions and joins those of the new one, linking adds one application, unlinking and eviction
  remove one from the caller's or the owner's, deletion forgets the token; nothing else changes, and
  the tables stay consistent, so any sequence of requests is described this way.
\<close>

theorem devices_refine_subscriptions:
  assumes "device_store_ok s"
  shows "subs_of (serve x now q s) = promised x now q s (subs_of s) \<and> device_store_ok (serve x now q s)"
  using refines_identify refines_link refines_unlink refines_unlink_application refines_evict refines_delete assms
  by (cases q) (auto simp: refines_def simp del: serve.simps promised.simps)

section \<open>A concrete request\<close>

definition two_phones :: db where
  "two_phones = empty_db\<lparr>applications := [blank_application], devices := [blank_device\<lparr>dev_user := Some 7,
       push_token := ''old-token-0123456789''\<rparr>, blank_device\<lparr>dev_id := 2, push_token := ''new-token-0123456789''\<rparr>],
     links := [blank_link], next_pk := 3\<rparr>"

definition new_token_request :: device_request where
  "new_token_request = \<lparr>dq_app_token = None, dq_device_name = None, dq_platform = Android,
     dq_push_token = ''new-token-0123456789'', dq_previous = Some ''old-token-0123456789''\<rparr>"

lemma two_phones_ok: "device_store_ok two_phones" by code_simp

theorem devices_refine_subscriptions_witness:
  "subs_of (serve demo_secrets 5 (Identify 7 new_token_request) two_phones) ''new-token-0123456789'' = Some (Some 7, {1}) \<and>
    subs_of (serve demo_secrets 5 (Identify 7 new_token_request) two_phones) ''old-token-0123456789'' = None"
proof -
  have v: "validate_device new_token_request = Inr new_token_request" by code_simp
  have dok: "devices_ok two_phones" using device_store_subs[OF two_phones_ok] by blast
  let ?a = "blank_device\<lparr>dev_user := Some 7, push_token := ''old-token-0123456789''\<rparr>"
  let ?b = "blank_device\<lparr>dev_id := 2, push_token := ''new-token-0123456789''\<rparr>"
  have a: "subs_of two_phones ''old-token-0123456789'' = Some (Some 7, {1})"
    using subs_of_device[OF dok, of ?a]
    by (auto simp: two_phones_def empty_db_def actively_linked_iff blank_rows)
  have b: "subs_of two_phones ''new-token-0123456789'' = Some (None, {})"
    using subs_of_device[OF dok, of ?b]
    by (auto simp: two_phones_def empty_db_def actively_linked_iff blank_rows)
  have st: "strip ''old-token-0123456789'' = ''old-token-0123456789''" by code_simp
  show ?thesis
    using devices_refine_subscriptions[OF two_phones_ok, of demo_secrets 5 "Identify 7 new_token_request"] v a b
    by (simp add: identify_token_def may_replace_def replace_token_def apps_of_def new_token_request_def st)
qed

section \<open>A merge that repeats a push\<close>

text \<open>
  A notification has reached the phone under its new token and is still pending for the row of the
  old one. The rotation keeps the pending row and drops the sent one with the merged device; the
  next run pushes the notification to the same token again.
\<close>

definition half_sent_db :: db where
  "half_sent_db = two_phones\<lparr>users := [blank_user], notifications := [blank_notification\<lparr>ntf_status := Partial\<rparr>],
     links := [blank_link, blank_link\<lparr>link_id := 2, link_device := 2\<rparr>],
     deliveries := [blank_delivery, blank_delivery\<lparr>dlv_id := 2, dlv_device := 2, dlv_status := D_Sent, opened_at := Some 3\<rparr>],
     provider_log := [(1, 2)]\<rparr>"

definition rotated_db :: db where
  "rotated_db = serve demo_secrets 5 (Identify 7 new_token_request) half_sent_db"

lemma merge_repeats_a_push:
  "device_store_ok half_sent_db" "log_ok half_sent_db"
  "map_option push_token (get_device half_sent_db 2) = map_option push_token (get_device rotated_db 1)"
  "map (\<lambda>d. (dlv_device d, dlv_status d, opened_at d)) (deliveries rotated_db) = [(1, D_Pending, None)]"
  "provider_log (fst (send_notification demo_env 1 rotated_db)) = [(1, 2), (1, 1)]"
  by code_simp+

end
