(* ===== verification/Mailbox.thy ===== *)
theory Mailbox
  imports Exchange Inbound
begin

text \<open>
  The mailbox client (\<open>applications/graph_mail.py\<close>): the text of an HTML mail, the recipient of a
  message, and the messages handed to the poll. The HTTP exchange with Microsoft Graph, the token
  service, the tokenizer of HTML and the parser of addresses are parameters.
\<close>

section \<open>The text of an HTML mail\<close>

text \<open>The events of the HTML tokenizer, tag names in lower case.\<close>

datatype html_event = Start_Tag string | Start_End_Tag string | End_Tag string | Char_Data string

definition block_tags :: "string list" where
  "block_tags = [''address'', ''article'', ''blockquote'', ''br'', ''dd'', ''div'', ''dl'', ''dt'', ''footer'',
     ''h1'', ''h2'', ''h3'', ''h4'', ''h5'', ''h6'', ''header'', ''hr'', ''li'', ''ol'', ''p'', ''pre'',
     ''section'', ''table'', ''tr'', ''ul'']"

definition skip_tags :: "string list" where
  "skip_tags = [''script'', ''style'', ''head'', ''title'', ''noscript'', ''template'']"

definition nl :: char where "nl = CHR 0x0A"

record text_state =
  text_parts :: "string list"
  skip_depth :: nat

definition rstrip_in :: "char list \<Rightarrow> string \<Rightarrow> string" where
  "rstrip_in cs s = rev (dropWhile (\<lambda>c. c \<in> set cs) (rev s))"

text \<open>\<open>_break\<close>: line breaks are counted at the end of the last four parts.\<close>

definition break_lines :: "nat \<Rightarrow> text_state \<Rightarrow> text_state" where
  "break_lines lines st =
     (let ps = text_parts st;
          tail = rstrip_in [CHR '' '', CHR 0x09] (concat (drop (length ps - 4) ps));
          missing = int lines - (int (length tail) - int (length (rstrip_in [nl] tail)))
      in if ps \<noteq> [] \<and> 0 < missing then st\<lparr>text_parts := ps @ [replicate (nat missing) nl]\<rparr> else st)"

definition add_part :: "string \<Rightarrow> text_state \<Rightarrow> text_state" where
  "add_part p st = st\<lparr>text_parts := text_parts st @ [p]\<rparr>"

definition handle_starttag :: "string \<Rightarrow> text_state \<Rightarrow> text_state" where
  "handle_starttag tag st =
     (if tag \<in> set skip_tags then st\<lparr>skip_depth := Suc (skip_depth st)\<rparr>
      else if tag = ''br'' then add_part [nl] st
      else if tag \<in> set block_tags
        then (let st1 = break_lines 1 st in if tag = ''li'' then add_part ''- '' st1 else st1)
      else st)"

definition handle_endtag :: "string \<Rightarrow> text_state \<Rightarrow> text_state" where
  "handle_endtag tag st =
     (if tag \<in> set skip_tags then st\<lparr>skip_depth := skip_depth st - 1\<rparr>
      else if tag \<in> set block_tags \<and> tag \<noteq> ''br'' then break_lines (if tag = ''p'' then 2 else 1) st
      else st)"

fun handle_event :: "html_event \<Rightarrow> text_state \<Rightarrow> text_state" where
  "handle_event (Start_Tag tag) st = handle_starttag tag st"
| "handle_event (Start_End_Tag tag) st = (if tag \<in> set block_tags then handle_starttag tag st else st)"
| "handle_event (End_Tag tag) st = handle_endtag tag st"
| "handle_event (Char_Data d) st = (if skip_depth st = 0 then add_part d st else st)"

definition parsed_text :: "html_event list \<Rightarrow> string" where
  "parsed_text evs = concat (text_parts (fold handle_event evs \<lparr>text_parts = [], skip_depth = 0\<rparr>))"

text \<open>\<open>re.sub\<close> of three line breaks or more by two.\<close>

fun at_most_two :: "string \<Rightarrow> string" where
  "at_most_two (a # b # c # cs) =
     (if a = nl \<and> b = nl \<and> c = nl then at_most_two (b # c # cs) else a # at_most_two (b # c # cs))"
| "at_most_two s = s"

definition text_of_events :: "html_event list \<Rightarrow> string" where
  "text_of_events evs = at_most_two (strip (join [nl] (map squeeze (split_lines (parsed_text evs)))))"

definition html_to_text :: "(string \<Rightarrow> html_event list) \<Rightarrow> string \<Rightarrow> string" where
  "html_to_text tokenize content = text_of_events (tokenize content)"

section \<open>The recipient\<close>

text \<open>A message as the server describes it, absent parts empty; a header is a name and a value.\<close>

record graph_message =
  gm_id :: string
  gm_from :: string
  gm_to :: "string list"
  gm_cc :: "string list"
  gm_subject :: string
  gm_body :: string
  gm_body_type :: string
  gm_internet_id :: string
  gm_headers :: "(string \<times> string) list"

text \<open>
  The outside: the token of the service (or the reason it gives none), the answer to the listing of
  at most so many unread messages (or the exception), the tokenizer and the address list parser.
\<close>

record graph_env =
  graph_token :: "string + string"
  graph_unread :: "nat \<Rightarrow> graph_message list raising"
  tokenize_html :: "string \<Rightarrow> html_event list"
  getaddresses :: "string list \<Rightarrow> string list"

definition recipient_headers :: "string list" where
  "recipient_headers = [''delivered-to'', ''x-original-to'', ''resent-to'']"

definition add_candidate :: "(string \<Rightarrow> string) \<Rightarrow> string \<Rightarrow> string list \<Rightarrow> string list" where
  "add_candidate parse_address v seen =
     (let a = normalize_address parse_address v in
      if a \<noteq> [] \<and> CHR ''@'' \<in> set a \<and> a \<notin> set seen then seen @ [a] else seen)"

definition header_values :: "string \<Rightarrow> graph_message \<Rightarrow> string list" where
  "header_values wanted g = map snd (filter (\<lambda>h. lower (strip (fst h)) = wanted) (gm_headers g))"

definition recipient_candidates :: "graph_env \<Rightarrow> (string \<Rightarrow> string) \<Rightarrow> graph_message \<Rightarrow> string list" where
  "recipient_candidates ge parse_address g =
     fold (add_candidate parse_address)
       (gm_to g @ gm_cc g @ concat (map (\<lambda>wanted. getaddresses ge (header_values wanted g)) recipient_headers)) []"

definition pick_recipient :: "config \<Rightarrow> (string \<Rightarrow> string) \<Rightarrow> string list \<Rightarrow> string" where
  "pick_recipient cfg parse_address candidates =
     (case List.find (is_inbound_alias_address cfg parse_address) candidates of
        Some a \<Rightarrow> a
      | None \<Rightarrow> (case List.find (\<lambda>a. ends_with a (CHR ''@'' # inbound_domain cfg)) candidates of Some a \<Rightarrow> a | None \<Rightarrow> []))"

section \<open>Fetching\<close>

fun header_map :: "(string \<times> string) list \<Rightarrow> (string \<times> string) list \<Rightarrow> (string \<times> string) list" where
  "header_map acc [] = acc"
| "header_map acc ((name, v) # hs) =
     (let n = lower (strip name) in
      header_map (if n \<noteq> [] \<and> n \<notin> fst ` set acc then acc @ [(n, strip v)] else acc) hs)"

definition strip_angles :: "string \<Rightarrow> string" where
  "strip_angles s = rev (dropWhile (\<lambda>c. c \<in> {CHR ''<'', CHR ''>''}) (rev (dropWhile (\<lambda>c. c \<in> {CHR ''<'', CHR ''>''}) s)))"

definition mail_of_message :: "graph_env \<Rightarrow> config \<Rightarrow> (string \<Rightarrow> string) \<Rightarrow> graph_message \<Rightarrow> inbound_mail" where
  "mail_of_message ge cfg parse_address g =
     (let hs = header_map [] (gm_headers g);
          recipients = recipient_candidates ge parse_address g;
          body = (if lower (gm_body_type g) = ''html'' then html_to_text (tokenize_html ge) (gm_body g) else gm_body g)
      in \<lparr>ge_graph_id = gm_id g, ge_sender = normalize_address parse_address (gm_from g),
          ge_recipient = pick_recipient cfg parse_address recipients,
          ge_subject = strip (gm_subject g), ge_text = strip body,
          ge_message_id = strip (strip_angles (strip (gm_internet_id g))),
          ge_authentication_results = (case map_of hs ''authentication-results'' of None \<Rightarrow> [] | Some v \<Rightarrow> v),
          ge_recipients = recipients, ge_headers = hs\<rparr>)"

definition fetch_unread_emails :: "graph_env \<Rightarrow> mail_env \<Rightarrow> nat \<Rightarrow> inbound_mail list raising" where
  "fetch_unread_emails ge e max_count =
     (if me_graph_client_id e = [] then Inr []
      else case graph_token ge of
        Inl _ \<Rightarrow> Inl ''RuntimeError''
      | Inr _ \<Rightarrow> (case graph_unread ge max_count of
          Inl x \<Rightarrow> Inl x
        | Inr gs \<Rightarrow> Inr (map (mail_of_message ge (me_config e) (me_parse_address e)) gs)))"

section \<open>The visible text\<close>

text \<open>What a reader sees: the character data outside the skipped elements, and the bullets.\<close>

fun visible :: "nat \<Rightarrow> html_event list \<Rightarrow> string" where
  "visible d [] = []"
| "visible d (Start_Tag t # es) =
     (if t \<in> set skip_tags then visible (Suc d) es else if t = ''li'' then CHR ''-'' # visible d es else visible d es)"
| "visible d (Start_End_Tag t # es) = (if t = ''li'' then CHR ''-'' # visible d es else visible d es)"
| "visible d (End_Tag t # es) = (if t \<in> set skip_tags then visible (d - 1) es else visible d es)"
| "visible d (Char_Data s # es) = (if d = 0 then s @ visible d es else visible d es)"

definition ink :: "string \<Rightarrow> string" where
  "ink s = filter (\<lambda>c. \<not> is_space c) s"

named_theorems inks \<open>what is left of a text without its white space\<close>

lemma ink_Nil [inks]: "ink [] = []"
  and ink_append [inks]: "ink (s @ t) = ink s @ ink t"
  and ink_concat [inks]: "ink (concat xs) = concat (map ink xs)"
  by (simp_all add: ink_def filter_concat ink_def[abs_def])

lemma space_chars: "is_space nl" "is_space (CHR '' '')" "is_space (CHR 0x09)" "\<not> is_space (CHR ''-'')"
  by code_simp+

lemma ink_spaces: "list_all is_space s \<Longrightarrow> ink s = []"
  by (induction s) (simp_all add: ink_def)

lemma ink_break: "concat (map ink (text_parts (break_lines n st))) = concat (map ink (text_parts st))"
  by (simp add: break_lines_def Let_def ink_spaces space_chars(1) list_all_iff)

lemma break_depth [simp]: "skip_depth (break_lines n st) = skip_depth st"
  by (simp add: break_lines_def Let_def)

lemma tag_lists: "''br'' \<notin> set skip_tags" "''li'' \<notin> set skip_tags" "''li'' \<in> set block_tags" "''br'' \<in> set block_tags" "t \<in> set block_tags \<Longrightarrow> t \<notin> set skip_tags"
proof -
  show "''br'' \<notin> set skip_tags" "''li'' \<notin> set skip_tags" "''li'' \<in> set block_tags" "''br'' \<in> set block_tags" by code_simp+
  have "list_all (\<lambda>t. t \<notin> set skip_tags) block_tags" by code_simp
  then show "t \<in> set block_tags \<Longrightarrow> t \<notin> set skip_tags" by (simp add: list_all_iff)
qed

lemma ink_start:
  "t \<notin> set skip_tags \<Longrightarrow> concat (map ink (text_parts (handle_starttag t st))) =
     concat (map ink (text_parts st)) @ (if t = ''li'' then ''-'' else [])"
  "t \<notin> set skip_tags \<Longrightarrow> skip_depth (handle_starttag t st) = skip_depth st"
proof -
  assume t: "t \<notin> set skip_tags"
  have bullet: "ink ''- '' = ''-''" "ink [nl] = []" by code_simp+
  show "concat (map ink (text_parts (handle_starttag t st))) = concat (map ink (text_parts st)) @ (if t = ''li'' then ''-'' else [])"
    using t tag_lists(3) by (auto simp: handle_starttag_def add_part_def Let_def ink_break bullet)
  show "skip_depth (handle_starttag t st) = skip_depth st"
    using t by (simp add: handle_starttag_def add_part_def Let_def)
qed

lemma ink_end:
  "t \<notin> set skip_tags \<Longrightarrow> concat (map ink (text_parts (handle_endtag t st))) = concat (map ink (text_parts st))"
  "t \<notin> set skip_tags \<Longrightarrow> skip_depth (handle_endtag t st) = skip_depth st"
  by (simp_all add: handle_endtag_def ink_break)

lemma ink_skip:
  "t \<in> set skip_tags \<Longrightarrow> handle_starttag t st = st\<lparr>skip_depth := Suc (skip_depth st)\<rparr>"
  "t \<in> set skip_tags \<Longrightarrow> handle_endtag t st = st\<lparr>skip_depth := skip_depth st - 1\<rparr>"
  by (simp_all add: handle_starttag_def handle_endtag_def)

lemma visible_fold:
  "concat (map ink (text_parts (fold handle_event evs st))) =
     concat (map ink (text_parts st)) @ ink (visible (skip_depth st) evs)"
proof (induction evs arbitrary: st)
  case Nil
  then show ?case by (simp add: inks)
next
  case (Cons ev evs)
  have dash: "ink (CHR ''-'' # s) = CHR ''-'' # ink s" for s by (simp add: ink_def space_chars)
  show ?case
  proof (cases ev)
    case (Start_Tag t)
    then show ?thesis
      by (cases "t \<in> set skip_tags") (use tag_lists(2) in \<open>auto simp: Cons.IH ink_skip ink_start dash\<close>)
  next
    case (Start_End_Tag t)
    have "t = ''li'' \<Longrightarrow> t \<in> set block_tags" using tag_lists(3) by simp
    then show ?thesis using Start_End_Tag tag_lists(5)[of t]
      by (auto simp: Cons.IH ink_start dash)
  next
    case (End_Tag t)
    then show ?thesis by (cases "t \<in> set skip_tags") (auto simp: Cons.IH ink_skip ink_end)
  next
    case (Char_Data d)
    then show ?thesis by (simp add: Cons.IH add_part_def inks)
  qed
qed

lemma ink_parsed: "ink (parsed_text evs) = ink (visible 0 evs)"
  using visible_fold[of evs "\<lparr>text_parts = [], skip_depth = 0\<rparr>"] by (simp add: parsed_text_def inks)

text \<open>The clean-up keeps everything but white space.\<close>

lemma ink_rev: "ink (rev s) = rev (ink s)"
  by (simp add: ink_def rev_filter)

lemma ink_dropWhile: "ink (dropWhile is_space s) = ink s"
  by (induction s) (simp_all add: ink_def)

lemma ink_strip: "ink (strip s) = ink s"
  by (simp add: strip_def ink_rev ink_dropWhile)

lemma ink_words: "list_all (\<lambda>c. \<not> is_space c) acc \<Longrightarrow> concat (words_of acc s) = rev acc @ ink s"
proof (induction acc s rule: words_of.induct)
  case (1 acc)
  then show ?case by (simp add: ink_def)
next
  case (2 acc c cs)
  then show ?case by (cases "is_space c"; cases "acc = []") (simp_all add: ink_def)
qed

lemma words_ok:
  assumes "list_all (\<lambda>c. \<not> is_space c) acc"
  shows "list_all (\<lambda>w. w \<noteq> [] \<and> list_all (\<lambda>c. \<not> is_space c) w) (words_of acc s)"
  using assms
proof (induction acc s rule: words_of.induct)
  case (1 acc)
  then show ?case by simp
next
  case (2 acc c cs)
  then show ?case by (cases "is_space c"; cases "acc = []") simp_all
qed

lemma ink_join: "list_all is_space sep \<Longrightarrow> ink (join sep xs) = concat (map ink xs)"
  by (induction sep xs rule: join.induct) (simp_all add: inks ink_spaces)

lemma ink_squeeze: "ink (squeeze s) = ink s"
proof -
  have "map ink (words_of [] s) = words_of [] s"
    using words_ok[of "[]" s] by (intro map_idI) (simp add: list_all_iff ink_def)
  then have "ink (squeeze s) = concat (words_of [] s)"
    unfolding squeeze_def by (simp add: ink_join space_chars)
  then show ?thesis using ink_words[of "[]" s] by simp
qed

lemma line_ends_are_spaces: "is_line_end c \<Longrightarrow> is_space c"
  by (auto simp: is_line_end_def is_space_def Let_def)

lemma ink_lines: "concat (map ink (split_lines_from acc s)) = ink (rev acc) @ ink s"
proof (induction acc s rule: split_lines_from.induct)
  case (1 acc)
  then show ?case by (simp add: inks)
next
  case (2 acc c cs)
  have cons: "ink (x # xs) = ink [x] @ ink xs" for x xs by (simp add: ink_def)
  have le: "ink [x] = []" if "is_line_end x" for x using line_ends_are_spaces[OF that] by (simp add: ink_def)
  have crlf: "is_line_end (CHR 0x0D)" "is_line_end (CHR 0x0A)" by code_simp+
  consider (a) "c = CHR 0x0D \<and> cs \<noteq> [] \<and> hd cs = CHR 0x0A" | (b) "\<not> (c = CHR 0x0D \<and> cs \<noteq> [] \<and> hd cs = CHR 0x0A)" "is_line_end c"
    | (c) "\<not> (c = CHR 0x0D \<and> cs \<noteq> [] \<and> hd cs = CHR 0x0A)" "\<not> is_line_end c" by blast
  then show ?case
  proof cases
    case a
    then obtain ds where cs: "cs = CHR 0x0A # ds" "c = CHR 0x0D" by (cases cs) auto
    have "concat (map ink (split_lines_from acc (c # cs))) = ink (rev acc) @ ink ds"
      using 2(1)[OF a] cs by (simp add: inks)
    then show ?thesis using cons[of c cs] cons[of "CHR 0x0A" ds] le crlf cs by simp
  next
    case b
    then have "concat (map ink (split_lines_from acc (c # cs))) = ink (rev acc) @ ink cs"
      using 2(2)[OF b] by (auto simp: inks)
    then show ?thesis using cons[of c cs] le[OF b(2)] by simp
  next
    case c
    then have "concat (map ink (split_lines_from acc (c # cs))) = ink (rev (c # acc)) @ ink cs"
      using 2(3)[OF c] by auto
    then show ?thesis using cons[of c cs] by (simp add: inks)
  qed
qed

lemma ink_at_most_two: "ink (at_most_two s) = ink s"
  by (induction s rule: at_most_two.induct) (auto simp: ink_def space_chars)

lemma ink_text: "ink (text_of_events evs) = ink (visible 0 evs)"
proof -
  have "ink \<circ> squeeze = ink" by (simp add: fun_eq_iff ink_squeeze)
  then have "ink (text_of_events evs) = concat (map ink (split_lines (parsed_text evs)))"
    unfolding text_of_events_def by (simp add: ink_at_most_two ink_strip ink_join space_chars)
  then show ?thesis using ink_lines[of "[]" "parsed_text evs"] ink_parsed by (simp add: split_lines_def inks)
qed

section \<open>The layout of the text\<close>

text \<open>White space is a single space or a run of line breaks.\<close>

definition tidy :: "string \<Rightarrow> bool" where
  "tidy s \<longleftrightarrow> list_all (\<lambda>c. is_space c \<longrightarrow> c = CHR '' '' \<or> c = nl) s \<and>
     successively (\<lambda>c d. is_space c \<and> is_space d \<longrightarrow> c = nl \<and> d = nl) s"

definition inky_ends :: "string \<Rightarrow> bool" where
  "inky_ends s \<longleftrightarrow> (s \<noteq> [] \<longrightarrow> \<not> is_space (hd s) \<and> \<not> is_space (last s))"

lemma tidy_append:
  "tidy (s @ t) \<longleftrightarrow> tidy s \<and> tidy t \<and> (s = [] \<or> t = [] \<or> \<not> (is_space (last s) \<and> is_space (hd t)) \<or> (last s = nl \<and> hd t = nl))"
  by (auto simp: tidy_def successively_append_iff)

lemma tidy_simps [simp]: "tidy []" "tidy [nl]" "tidy [CHR '' '']"
  by (simp_all add: tidy_def)

lemma tidy_Cons: "tidy (c # s) \<longleftrightarrow> (is_space c \<longrightarrow> c = CHR '' '' \<or> c = nl) \<and> tidy s \<and>
    (s = [] \<or> \<not> (is_space c \<and> is_space (hd s)) \<or> (c = nl \<and> hd s = nl))"
  using tidy_append[of "[c]" s] by (auto simp: tidy_def)

lemma tidy_word: "list_all (\<lambda>c. \<not> is_space c) w \<Longrightarrow> tidy w"
  by (induction w) (simp_all add: tidy_def successively_Cons)

lemma tidy_join_words:
  "list_all (\<lambda>w. w \<noteq> [] \<and> list_all (\<lambda>c. \<not> is_space c) w) ws \<Longrightarrow>
   tidy (join '' '' ws) \<and> inky_ends (join '' '' ws) \<and> (ws \<noteq> [] \<longrightarrow> join '' '' ws \<noteq> [])"
proof (induction ws rule: induct_list012)
  case (2 w)
  then show ?case by (auto simp: tidy_word inky_ends_def list_all_iff)
next
  case (3 w v ws)
  let ?r = "join '' '' (v # ws)"
  have r: "tidy ?r" "inky_ends ?r" "?r \<noteq> []" using 3 by auto
  have w: "tidy w" "w \<noteq> []" "\<not> is_space (hd w)" "\<not> is_space (last w)"
    using 3(3) by (simp_all add: tidy_word list_all_iff)
  have "join '' '' (w # v # ws) = w @ '' '' @ ?r" by simp
  then show ?case using r w by (simp add: tidy_append tidy_Cons inky_ends_def space_chars del: join.simps)
qed (simp add: inky_ends_def)

lemma tidy_squeeze: "tidy (squeeze s)" "inky_ends (squeeze s)"
  using tidy_join_words[OF words_ok[of "[]" s]] by (simp_all add: squeeze_def)

lemma tidy_join_lines:
  "list_all (\<lambda>l. tidy l \<and> inky_ends l) ls \<Longrightarrow>
   tidy (join [nl] ls) \<and> (join [nl] ls \<noteq> [] \<longrightarrow> is_space (hd (join [nl] ls)) \<longrightarrow> hd (join [nl] ls) = nl)"
proof (induction ls rule: induct_list012)
  case (2 l)
  then show ?case by (auto simp: inky_ends_def)
next
  case (3 l k ls)
  let ?r = "join [nl] (k # ls)"
  have r: "tidy ?r" "?r \<noteq> [] \<Longrightarrow> is_space (hd ?r) \<Longrightarrow> hd ?r = nl" using 3 by auto
  have l: "tidy l" "l \<noteq> [] \<Longrightarrow> \<not> is_space (hd l)" "l \<noteq> [] \<Longrightarrow> \<not> is_space (last l)" using 3(3) by (auto simp: inky_ends_def)
  have j: "join [nl] (l # k # ls) = l @ [nl] @ ?r" by simp
  have "tidy (nl # ?r)" unfolding tidy_Cons using r by blast
  then have "tidy ([nl] @ ?r)" by simp
  then have "tidy (l @ [nl] @ ?r)" using l by (subst tidy_append) auto
  moreover have "is_space (hd (l @ [nl] @ ?r)) \<Longrightarrow> hd (l @ [nl] @ ?r) = nl" using l(2) by (cases l) auto
  ultimately show ?case unfolding j by blast
qed simp

lemma strip_infix: "\<exists>a b. s = a @ strip s @ b"
proof -
  let ?t = "dropWhile is_space s"
  have "?t = rev (takeWhile is_space (rev ?t) @ dropWhile is_space (rev ?t))" by simp
  then have "?t = strip s @ rev (takeWhile is_space (rev ?t))" unfolding strip_def by (metis rev_append)
  then show ?thesis using takeWhile_dropWhile_id[of is_space s] by metis
qed

lemma tidy_strip: "tidy s \<Longrightarrow> tidy (strip s)"
  using strip_infix[of s] by (metis tidy_append)

lemma inky_strip: "inky_ends (strip s)"
proof (cases "strip s = []")
  case False
  have ne: "dropWhile is_space s \<noteq> []"
  proof
    assume "dropWhile is_space s = []"
    then have "strip s = []" unfolding strip_def by (simp only: rev.simps dropWhile.simps)
    then show False using False by blast
  qed
  obtain b where b: "dropWhile is_space s = strip s @ b"
    using takeWhile_dropWhile_id[of is_space "rev (dropWhile is_space s)"] unfolding strip_def
    by (metis rev_append rev_rev_ident)
  have "\<not> is_space (hd (dropWhile is_space s))" using ne by (rule hd_dropWhile)
  then have "\<not> is_space (hd (strip s))" using b False by simp
  then show ?thesis using strip_last[OF False] by (simp add: inky_ends_def)
qed (simp add: inky_ends_def)

text \<open>Blank lines.\<close>

lemma at_most_two_hd: "s \<noteq> [] \<Longrightarrow> at_most_two s \<noteq> [] \<and> hd (at_most_two s) = hd s"
  by (induction s rule: at_most_two.induct) auto

lemma at_most_two_last: "s \<noteq> [] \<Longrightarrow> last (at_most_two s) = last s"
proof (induction s rule: at_most_two.induct)
  case (1 a b c cs)
  have "at_most_two (b # c # cs) \<noteq> []" using at_most_two_hd[of "b # c # cs"] by simp
  then show ?case using 1 by auto
qed auto

lemma at_most_two_step: "\<not> (b = nl \<and> c = nl) \<Longrightarrow> at_most_two (b # c # cs) = b # at_most_two (c # cs)"
  by (cases cs) auto

lemma tidy_at_most_two: "tidy s \<Longrightarrow> tidy (at_most_two s)"
proof (induction s rule: at_most_two.induct)
  case (1 a b c cs)
  let ?r = "at_most_two (b # c # cs)"
  have r: "?r \<noteq> []" "hd ?r = b" using at_most_two_hd[of "b # c # cs"] by auto
  have t: "tidy (b # c # cs)" using 1(3) unfolding tidy_Cons[of a] by blast
  show ?case
  proof (cases "a = nl \<and> b = nl \<and> c = nl")
    case True
    then show ?thesis using 1(1)[OF True t] by simp
  next
    case False
    have "tidy (a # ?r)" using 1(2)[OF False t] 1(3) r unfolding tidy_Cons[of a] by simp
    moreover have "at_most_two (a # b # c # cs) = a # ?r" using False by simp
    ultimately show ?thesis by simp
  qed
qed simp_all

lemma no_triple: "\<not> contains (at_most_two s) [nl, nl, nl]"
proof (induction s rule: at_most_two.induct)
  case (1 a b c cs)
  let ?r = "at_most_two (b # c # cs)"
  show ?case
  proof (cases "a = nl \<and> b = nl \<and> c = nl")
    case True
    then show ?thesis using 1(1)[OF True] by simp
  next
    case False
    have r: "?r \<noteq> []" "hd ?r = b" using at_most_two_hd[of "b # c # cs"] by auto
    have "\<not> starts_with (a # ?r) [nl, nl, nl]"
    proof (cases "b = nl \<and> c = nl")
      case True
      then show ?thesis using False by (simp add: starts_with_def)
    next
      case other: False
      have c: "at_most_two (c # cs) \<noteq> []" "hd (at_most_two (c # cs)) = c" using at_most_two_hd[of "c # cs"] by auto
      then show ?thesis using other by (cases "at_most_two (c # cs)") (auto simp: starts_with_def at_most_two_step[OF other])
    qed
    moreover have "at_most_two (a # b # c # cs) = a # ?r" using False by simp
    ultimately show ?thesis using 1(2)[OF False] by simp
  qed
qed (simp_all add: starts_with_def)


lemma visible_skipped:
  "list_all (\<lambda>e. case e of End_Tag t \<Rightarrow> t \<notin> set skip_tags | Start_Tag t \<Rightarrow> t \<noteq> ''li'' | Start_End_Tag t \<Rightarrow> t \<noteq> ''li'' | _ \<Rightarrow> True) es \<Longrightarrow>
   0 < d \<Longrightarrow> visible d es = []"
  by (induction d es rule: visible.induct) auto

lemma visible_append: "\<exists>d'. \<forall>es. visible d (pre @ es) = visible d pre @ visible d' es"
proof (induction d pre rule: visible.induct)
  case (1 d)
  then show ?case by auto
next
  case (2 d t es)
  then show ?case by (cases "t \<in> set skip_tags"; cases "t = ''li''") auto
qed auto

text \<open>
  A head that is never closed swallows the mail: HTML lets an author leave out the end tag of
  the head, but when a message contains one and no later end tag of a skipped element, nothing that
  follows it reaches the text.
\<close>

theorem unclosed_head_swallows_the_mail:
  assumes "list_all (\<lambda>e. case e of End_Tag t \<Rightarrow> t \<notin> set skip_tags | Start_Tag t \<Rightarrow> t \<noteq> ''li'' | Start_End_Tag t \<Rightarrow> t \<noteq> ''li'' | _ \<Rightarrow> True) rest"
  shows "ink (text_of_events (pre @ Start_Tag ''head'' # rest)) = ink (text_of_events pre)"
proof -
  have h: "''head'' \<in> set skip_tags" by code_simp
  obtain d' where "visible 0 (pre @ Start_Tag ''head'' # rest) = visible 0 pre @ visible d' (Start_Tag ''head'' # rest)"
    using visible_append[of 0 pre] by blast
  moreover have "visible d' (Start_Tag ''head'' # rest) = []" using h visible_skipped[OF assms] by simp
  ultimately show ?thesis by (simp add: ink_text)
qed

section \<open>The recipient of a message\<close>

lemma candidates_ok:
  "distinct (recipient_candidates ge p g) \<and> (\<forall>a \<in> set (recipient_candidates ge p g). CHR ''@'' \<in> set a \<and> (\<exists>v. a = normalize_address p v))"
proof -
  have "distinct (fold (add_candidate p) vs seen) \<and> (\<forall>a \<in> set (fold (add_candidate p) vs seen). CHR ''@'' \<in> set a \<and> (\<exists>v. a = normalize_address p v))"
    if "distinct seen \<and> (\<forall>a \<in> set seen. CHR ''@'' \<in> set a \<and> (\<exists>v. a = normalize_address p v))" for vs seen
    using that
  proof (induction vs arbitrary: seen)
    case (Cons v vs)
    have "distinct (add_candidate p v seen) \<and> (\<forall>a \<in> set (add_candidate p v seen). CHR ''@'' \<in> set a \<and> (\<exists>v. a = normalize_address p v))"
      using Cons.prems unfolding add_candidate_def Let_def by auto
    from Cons.IH[OF this] show ?case by simp
  qed simp
  then have "distinct (fold (add_candidate p) vs []) \<and> (\<forall>a \<in> set (fold (add_candidate p) vs []). CHR ''@'' \<in> set a \<and> (\<exists>v. a = normalize_address p v))" for vs
    by (metis distinct.simps(1) empty_iff list.set(1))
  then show ?thesis unfolding recipient_candidates_def by blast
qed

lemma pick_alias:
  "is_inbound_alias_address cfg p (pick_recipient cfg p cs) \<longleftrightarrow> list_ex (is_inbound_alias_address cfg p) cs"
  if "p [] = []"
proof (cases "List.find (is_inbound_alias_address cfg p) cs")
  case (Some a)
  then show ?thesis using find_SomeD[OF Some] by (auto simp: pick_recipient_def list_ex_iff)
next
  case None
  then have none: "\<not> list_ex (is_inbound_alias_address cfg p) cs" by (auto simp: find_None_iff list_ex_iff)
  have blank: "\<not> is_inbound_alias_address cfg p []" using that by (simp add: is_inbound_alias_address_def normalize_address_def strip_def lower_def)
  show ?thesis
  proof (cases "List.find (\<lambda>a. ends_with a (CHR ''@'' # inbound_domain cfg)) cs")
    case (Some a)
    then show ?thesis using None none find_SomeD[OF Some] by (auto simp: pick_recipient_def list_ex_iff)
  qed (use None none blank in \<open>simp add: pick_recipient_def\<close>)
qed

text \<open>The outcomes of a mail that is handled.\<close>

lemma outcome_rejected: "r \<noteq> Inr ''ignored''" if "reject_sender e now m c reason w = (w', r)"
  using that by (auto simp: reject_sender_def Let_def split: prod.splits sum.splits if_splits)

lemma outcome_content: "r \<noteq> Inr ''ignored''" if "reject_content e now m c w = (w', r)"
  using that by (auto simp: reject_content_def Let_def split: prod.splits sum.splits if_splits)

lemma outcome_accepted: "r \<noteq> Inr ''ignored''" if "accept_mail e now m c a w = (w', r)"
  using that by (auto simp: accept_mail_def Let_def split: prod.splits sum.splits if_splits)

lemma process_ignored:
  "snd (process_email e now m w) = Inr ''ignored'' \<longleftrightarrow> \<not> is_inbound_alias_address (me_config e) (me_parse_address e) (ge_recipient m)"
proof (cases "is_inbound_alias_address (me_config e) (me_parse_address e) (ge_recipient m)")
  case True
  have "snd (process_email e now m w) \<noteq> Inr ''ignored''"
  proof (cases "ic_errors (validate_inbound e now (mw_db w) m) = []")
    case ok: True
    show ?thesis
    proof (cases "ic_application (validate_inbound e now (mw_db w) m)")
      case (Some a)
      obtain w' r where r: "accept_mail e now m (validate_inbound e now (mw_db w) m) a w = (w', r)" by (metis surj_pair)
      then show ?thesis using True ok Some outcome_accepted[OF r] by (simp add: process_email_def Let_def)
    qed (use True ok in \<open>simp add: process_email_def Let_def\<close>)
  next
    case err: False
    show ?thesis
    proof (cases "ic_rejection (validate_inbound e now (mw_db w) m)")
      case None
      obtain w' r where r: "reject_content e now m (validate_inbound e now (mw_db w) m) w = (w', r)" by (metis surj_pair)
      then show ?thesis using True err None outcome_content[OF r] by (simp add: process_email_def Let_def)
    next
      case (Some reason)
      obtain w' r where r: "reject_sender e now m (validate_inbound e now (mw_db w) m) reason w = (w', r)" by (metis surj_pair)
      then show ?thesis using True err Some outcome_rejected[OF r] by (simp add: process_email_def Let_def)
    qed
  qed
  then show ?thesis using True by simp
qed (simp add: process_email_def)

text \<open>
  C29. No alias is missed: of a message fetched from the mailbox, whatever the place the address stands
  in (To, Cc, or the headers a forwarder leaves), the poll ignores it exactly when none of its
  recipients is the address of an application; the recipients are distinct addresses in normal form,
  and the one the mail is handled for is one of them.
\<close>

theorem fetched_mail_reaches_its_application:
  fixes g :: graph_message and ge :: graph_env and e :: mail_env
  assumes "me_parse_address e [] = []"
  defines "cs \<equiv> recipient_candidates ge (me_parse_address e) g"
    and "m \<equiv> mail_of_message ge (me_config e) (me_parse_address e) g"
  shows "(snd (process_email e now m w) = Inr ''ignored'' \<longleftrightarrow>
      \<not> list_ex (is_inbound_alias_address (me_config e) (me_parse_address e)) cs) \<and>
    distinct cs \<and> (\<forall>a \<in> set cs. CHR ''@'' \<in> set a) \<and> (ge_recipient m = [] \<or> ge_recipient m \<in> set cs) \<and> ge_recipients m = cs"
proof -
  have m: "ge_recipient m = pick_recipient (me_config e) (me_parse_address e) cs" "ge_recipients m = cs"
    by (simp_all add: m_def cs_def mail_of_message_def Let_def)
  have "pick_recipient (me_config e) (me_parse_address e) cs = [] \<or> pick_recipient (me_config e) (me_parse_address e) cs \<in> set cs"
    by (auto simp: pick_recipient_def split: option.split dest: find_SomeD)
  then show ?thesis using process_ignored[of e now m w] pick_alias[where p = "me_parse_address e" and cfg = "me_config e" and cs = cs, OF assms(1)] candidates_ok[of ge "me_parse_address e" g] m
    unfolding cs_def[symmetric] by auto
qed

section \<open>A concrete mailbox\<close>

definition letter :: "html_event list" where
  "letter = [Start_Tag ''p'', Char_Data ''a'', Start_Tag ''head'', Char_Data ''b'']"

theorem unclosed_head_swallows_the_mail_witness:
  "text_of_events letter = ''a''"
proof -
  have "ink (text_of_events ([Start_Tag ''p'', Char_Data ''a''] @ Start_Tag ''head'' # [Char_Data ''b''])) =
      ink (text_of_events [Start_Tag ''p'', Char_Data ''a''])"
    by (rule unclosed_head_swallows_the_mail) simp
  moreover have "text_of_events letter = ''a''" by code_simp
  ultimately show ?thesis by simp
qed

definition demo_graph :: graph_env where
  "demo_graph = \<lparr>graph_token = Inr ''t'', graph_unread = (\<lambda>_. Inr []), tokenize_html = (\<lambda>s. [Char_Data s]), getaddresses = (\<lambda>vs. vs)\<rparr>"

definition forwarded :: graph_message where
  "forwarded = \<lparr>gm_id = ''g'', gm_from = ''o@x'', gm_to = [''m@y''], gm_cc = [], gm_subject = ''s'', gm_body = ''b'', gm_body_type = ''text'',
     gm_internet_id = ''<i>'', gm_headers = [(''Delivered-To'', ''a.p@d.io'')]\<rparr>"

theorem fetched_mail_reaches_its_application_witness:
  "snd (process_email mail_demo_env 0 (mail_of_message demo_graph (me_config mail_demo_env) (me_parse_address mail_demo_env) forwarded) mail_demo_world)
     \<noteq> Inr ''ignored''"
proof -
  have p: "me_parse_address mail_demo_env [] = []" by (simp add: mail_demo_env_def)
  have "list_ex (is_inbound_alias_address (me_config mail_demo_env) (me_parse_address mail_demo_env))
      (recipient_candidates demo_graph (me_parse_address mail_demo_env) forwarded)" by code_simp
  then show ?thesis using fetched_mail_reaches_its_application[where e = mail_demo_env and g = forwarded and ge = demo_graph, OF p] by blast
qed

end
