(* ===== verification/Upkeep.thy ===== *)
theory Upkeep
  imports Mailbox Accounts Exchange Billing
begin

text \<open>
  What runs beside the requests, and the small parts around them: the daily flush of expired tokens and
  the removal of images (\<open>notifications/tasks.py\<close>, \<open>retention.py\<close>), users made by hand (\<open>accounts/models.py\<close>), the
  lines of the log (\<open>config/logging_utils.py\<close>), the keys of the throttles, the requests to the central billing
  service and its history (\<open>billing/client.py\<close>, \<open>api_views.py\<close>), those to Graph (\<open>applications/graph_mail.py\<close>), and
  the environment of PowerShell (\<open>exchange/services.py\<close>).
\<close>

section \<open>Expired tokens\<close>

text \<open>
  \<open>flush_expired_tokens_task\<close>: the blacklist first, then the tokens it refers to, then the sign-in links
  that are past or used. \<open>expires\<close> is the column \<open>expires_at\<close> of a token, by its identifier.
\<close>

record flush_result =
  blacklisted_deleted :: nat
  outstanding_deleted :: nat
  magic_links_deleted :: nat

definition spent_link :: "instant \<Rightarrow> magic_link_token \<Rightarrow> bool" where
  "spent_link now m \<longleftrightarrow> ml_expires_at m < now \<or> ml_used_at m \<noteq> None"

definition flush_expired_tokens_task :: "(string \<Rightarrow> instant) \<Rightarrow> instant \<Rightarrow> account_world \<Rightarrow> account_world \<times> flush_result" where
  "flush_expired_tokens_task expires now w =
     (let s = aw_db w in
      (w\<lparr>aw_blacklist := filter (\<lambda>i. \<not> expires i < now) (aw_blacklist w),
         aw_outstanding := filter (\<lambda>t. \<not> expires (ot_id t) < now) (aw_outstanding w),
         aw_db := s\<lparr>magic_links := filter (\<lambda>m. \<not> spent_link now m) (magic_links s)\<rparr>\<rparr>,
       \<lparr>blacklisted_deleted = count_where (\<lambda>i. expires i < now) (aw_blacklist w),
        outstanding_deleted = count_where (\<lambda>t. expires (ot_id t) < now) (aw_outstanding w),
        magic_links_deleted = count_where (spent_link now) (magic_links s)\<rparr>))"

lemma find_link_flushed:
  assumes "distinct (map ml_token_hash ms)" "now \<le> later"
  shows "(case List.find (\<lambda>m. ml_token_hash m = h) (filter (\<lambda>m. \<not> spent_link now m) ms) of
      None \<Rightarrow> None | Some m \<Rightarrow> if ml_is_valid later m then Some m else None) =
    (case List.find (\<lambda>m. ml_token_hash m = h) ms of None \<Rightarrow> None | Some m \<Rightarrow> if ml_is_valid later m then Some m else None)"
  using assms(1)
proof (induction ms)
  case (Cons m ms)
  show ?case
  proof (cases "ml_token_hash m = h \<and> spent_link now m")
    case True
    then have "List.find (\<lambda>m. ml_token_hash m = h) (filter (\<lambda>m. \<not> spent_link now m) ms) = None"
      using Cons.prems by (auto simp: find_None_iff image_iff)
    then show ?thesis using True assms(2) by (auto simp: ml_is_valid_def spent_link_def)
  next
    case False
    then show ?thesis using Cons by auto
  qed
qed simp

text \<open>
  C37. The daily flush changes nothing for anybody: from then on, where the token library refuses
  expired tokens, a refresh token opens the session it would have opened without the flush, a revoked
  one included, which stays refused; and a sign-in link opens what it would have opened.
\<close>

theorem flush_reopens_nothing:
  assumes "\<And>raw t. read_refresh x later raw = Some t \<Longrightarrow> later \<le> expires (rt_id t)"
    and "now \<le> later" and "distinct (map ml_token_hash (magic_links (aw_db w)))"
  defines "v \<equiv> fst (flush_expired_tokens_task expires now w)"
  shows "open_refresh x later raw v = open_refresh x later raw w \<and>
    find_magic_link x later link (aw_db v) = find_magic_link x later link (aw_db w)"
proof
  show "open_refresh x later raw v = open_refresh x later raw w"
  proof (cases "read_refresh x later raw")
    case (Some t)
    then have "\<not> expires (rt_id t) < now" using assms(1)[OF Some] assms(2) by simp
    then show ?thesis using Some by (simp add: open_refresh_def v_def flush_expired_tokens_task_def Let_def)
  qed (simp add: open_refresh_def)
  show "find_magic_link x later link (aw_db v) = find_magic_link x later link (aw_db w)"
    using find_link_flushed[OF assms(3,2)]
    by (simp add: find_magic_link_def v_def flush_expired_tokens_task_def Let_def)
qed

definition flush_env :: account_env where
  "flush_env = demo_account_env\<lparr>read_refresh := (\<lambda>now raw. if raw = ''r'' \<and> now \<le> 9 then Some \<lparr>rt_id = ''j'', rt_user = 1, rt_persist = True\<rparr> else None)\<rparr>"

definition flush_world :: account_world where
  "flush_world = demo_account_world\<lparr>aw_blacklist := [''j'', ''old''],
     aw_outstanding := [\<lparr>ot_id = ''j'', ot_user = Some 1\<rparr>, \<lparr>ot_id = ''old'', ot_user = Some 1\<rparr>]\<rparr>"

theorem flush_reopens_nothing_witness:
  "aw_blacklist (fst (flush_expired_tokens_task (\<lambda>i. if i = ''j'' then 9 else 3) 5 flush_world)) = [''j''] \<and>
   open_refresh flush_env 7 ''r'' (fst (flush_expired_tokens_task (\<lambda>i. if i = ''j'' then 9 else 3) 5 flush_world)) = None"
proof -
  have r: "read_refresh flush_env 7 raw = Some t \<Longrightarrow> 7 \<le> (if rt_id t = ''j'' then 9 else 3 :: instant)" for raw t
    by (auto simp: flush_env_def split: if_splits)
  have l: "distinct (map ml_token_hash (magic_links (aw_db flush_world)))" by code_simp
  have "open_refresh flush_env 7 ''r'' flush_world = None" by code_simp
  moreover have "aw_blacklist (fst (flush_expired_tokens_task (\<lambda>i. if i = ''j'' then 9 else 3) 5 flush_world)) = [''j'']"
    by code_simp
  ultimately show ?thesis using flush_reopens_nothing[where x = flush_env and later = 7 and now = 5 and raw = "''r''" and w = flush_world
        and expires = "\<lambda>i. if i = ''j'' then 9 else 3", OF r _ l] by simp
qed

section \<open>Images of purged notifications\<close>

text \<open>
  \<open>delete_notification_image_files\<close>: \<open>breaks\<close> tells of which files the storage raises when asked to
  delete them; each failure is logged and the next file is tried.
\<close>

definition delete_notification_image_files :: "(string \<Rightarrow> bool) \<Rightarrow> string list \<Rightarrow> string list \<Rightarrow> string list" where
  "delete_notification_image_files breaks names stored =
     fold (\<lambda>name kept. if name = [] \<or> breaks name then kept else filter (\<lambda>f. f \<noteq> name) kept) names stored"

lemma images_deleted:
  "set (delete_notification_image_files breaks names stored) =
   set stored - {f \<in> set names. f \<noteq> [] \<and> \<not> breaks f}"
  by (induction names arbitrary: stored) (auto simp: delete_notification_image_files_def)

section \<open>Users made by hand and what is drawn for a row\<close>

text \<open>\<open>hex_draw\<close> is \<open>uuid4().hex\<close>, \<open>url_draw\<close> \<open>token_urlsafe(32)\<close>, the choices are indices of the alphabet.\<close>

definition generate_userkey :: "string \<Rightarrow> string" where
  "generate_userkey hex_draw = ''usr_'' @ take 12 hex_draw"

definition generate_magic_token :: "string \<Rightarrow> string" where
  "generate_magic_token url_draw = url_draw"

definition base62 :: string where
  "base62 = ''abcdefghijklmnopqrstuvwxyzABCDEFGHIJKLMNOPQRSTUVWXYZ0123456789''"

definition generate_raw :: "nat list \<Rightarrow> string" where
  "generate_raw choices = ''apt_'' @ map (\<lambda>k. base62 ! (k mod 62)) (take 22 choices)"

text \<open>
  \<open>BaseUserManager.normalize_email\<close> lowers the domain: it is the framework's. A flag that is not given
  takes the default of the method, the other fields those of the model; \<open>Inl\<close> is \<open>ValueError\<close>.
\<close>

definition manager_create_row ::
    "(string \<Rightarrow> string) \<Rightarrow> (string option \<Rightarrow> string) \<Rightarrow> string \<Rightarrow> string \<Rightarrow> string option \<Rightarrow> bool \<Rightarrow> bool \<Rightarrow> db \<Rightarrow> string + db" where
  "manager_create_row canonical hash hex_draw email password staff super s =
     (if email = [] then Inl ''The email must be set.''
      else Inr (s\<lparr>users := users s @ [blank_user\<lparr>user_id := next_pk s, user_email := canonical email, user_is_staff := staff,
                   user_is_superuser := super, email_confirmed := False, user_password := hash password, userkey := generate_userkey hex_draw\<rparr>],
                  next_pk := Suc (next_pk s)\<rparr>))"

definition manager_create_user ::
    "(string \<Rightarrow> string) \<Rightarrow> (string option \<Rightarrow> string) \<Rightarrow> string \<Rightarrow> string \<Rightarrow> string option \<Rightarrow> bool option \<Rightarrow> bool option \<Rightarrow> db \<Rightarrow> string + db" where
  "manager_create_user canonical hash hex_draw email password staff super s =
     manager_create_row canonical hash hex_draw email password
       (case staff of None \<Rightarrow> False | Some b \<Rightarrow> b) (case super of None \<Rightarrow> False | Some b \<Rightarrow> b) s"

definition manager_create_superuser ::
    "(string \<Rightarrow> string) \<Rightarrow> (string option \<Rightarrow> string) \<Rightarrow> string \<Rightarrow> string \<Rightarrow> string option \<Rightarrow> bool option \<Rightarrow> bool option \<Rightarrow> db \<Rightarrow> string + db" where
  "manager_create_superuser canonical hash hex_draw email password staff super s =
     (let staff' = (case staff of None \<Rightarrow> True | Some b \<Rightarrow> b); super' = (case super of None \<Rightarrow> True | Some b \<Rightarrow> b) in
      if \<not> staff' then Inl ''Superuser must have is_staff=True.''
      else if \<not> super' then Inl ''Superuser must have is_superuser=True.''
      else manager_create_row canonical hash hex_draw email password staff' super' s)"

section \<open>Lines of the log\<close>

text \<open>
  A record as the \<open>logging\<close> library hands it over: \<open>lr_extra\<close> are the attributes the caller added with
  \<open>extra=\<close>. \<open>context\<close> gives the identifiers of the request in progress.
\<close>

record 'v log_record =
  lr_created :: string
  lr_level :: 'v
  lr_logger :: 'v
  lr_message :: 'v
  lr_extra :: "(string \<times> 'v) list"
  lr_exception :: "'v option"

definition add_missing :: "string \<Rightarrow> 'v \<Rightarrow> 'v log_record \<Rightarrow> 'v log_record" where
  "add_missing k v r = (if map_of (lr_extra r) k = None then r\<lparr>lr_extra := lr_extra r @ [(k, v)]\<rparr> else r)"

definition request_id_filter :: "'v \<Rightarrow> 'v \<Rightarrow> 'v log_record \<Rightarrow> 'v log_record" where
  "request_id_filter context_request context_incident r =
     add_missing ''incident_id'' context_incident (add_missing ''request_id'' context_request r)"

definition logged_keys :: "string list" where
  "logged_keys = [''incident_id'', ''error_code'', ''user_id'', ''application_id'', ''notification_id'', ''device_id'',
     ''task_id'', ''status'', ''target_count'', ''sent_count'', ''failed_count'', ''skipped_count'', ''attempt_count'',
     ''error'', ''path'', ''method'', ''push_provider'', ''push_token_suffix'', ''push_token_length'',
     ''notification_message_length'', ''provider_message_id'', ''sender'', ''sender_domain'', ''auth_reason'',
     ''dmarc_verdict'', ''has_auth_results'']"

text \<open>The object that is printed as JSON, its keys in order.\<close>

definition json_payload :: "(string \<Rightarrow> 'v) \<Rightarrow> 'v \<Rightarrow> 'v log_record \<Rightarrow> (string \<times> 'v) list" where
  "json_payload isoformat context_request r =
     [(''timestamp'', isoformat (lr_created r)), (''level'', lr_level r), (''logger'', lr_logger r), (''event'', lr_message r),
      (''request_id'', case map_of (lr_extra r) ''request_id'' of Some v \<Rightarrow> v | None \<Rightarrow> context_request)] @
     List.map_filter (\<lambda>k. map_option (Pair k) (map_of (lr_extra r) k)) logged_keys @
     (case lr_exception r of None \<Rightarrow> [] | Some t \<Rightarrow> [(''exception'', t)])"

lemma map_filter_cong: "(\<And>k. k \<in> set ks \<Longrightarrow> f k = g k) \<Longrightarrow> List.map_filter f ks = List.map_filter g ks"
  by (induction ks) (auto split: option.split)

text \<open>A line depends on nothing the caller adds under another name, a title or a text of a notification included.\<close>

lemma lines_show_listed_keys_only:
  assumes "\<forall>k \<in> set (''request_id'' # logged_keys). map_of extra k = map_of (lr_extra r) k"
  shows "json_payload isoformat req (r\<lparr>lr_extra := extra\<rparr>) = json_payload isoformat req r"
proof -
  have "List.map_filter (\<lambda>k. map_option (Pair k) (map_of extra k)) logged_keys =
      List.map_filter (\<lambda>k. map_option (Pair k) (map_of (lr_extra r) k)) logged_keys"
    using assms by (intro map_filter_cong) auto
  then show ?thesis using assms by (simp add: json_payload_def)
qed

section \<open>Keys of the throttles\<close>

text \<open>\<open>AppTokenRateThrottle\<close>: the requests of an application share one counter; others are not counted.\<close>

definition throttle_cache_key :: "application option \<Rightarrow> string option" where
  "throttle_cache_key authenticated =
     (case authenticated of None \<Rightarrow> None | Some a \<Rightarrow> Some (''throttle_app_token_'' @ decimal (app_id a)))"

text \<open>\<open>compute_request_fingerprint\<close>: \<open>dump\<close> prints the data as JSON with sorted keys.\<close>

definition compute_request_fingerprint :: "('d \<Rightarrow> string) \<Rightarrow> (string \<Rightarrow> string) \<Rightarrow> 'd \<Rightarrow> string" where
  "compute_request_fingerprint dump sha data = sha (dump data)"

section \<open>Requests to the central service\<close>

fun lstrip_slashes :: "string \<Rightarrow> string" where
  "lstrip_slashes s = dropWhile (\<lambda>c. c = CHR ''/'') s"

fun rstrip_slashes :: "string \<Rightarrow> string" where
  "rstrip_slashes s = rev (dropWhile (\<lambda>c. c = CHR ''/'') (rev s))"

definition central_path :: "string \<Rightarrow> string" where
  "central_path path = ''/api/v1/'' @ lstrip_slashes path"

definition central_url :: "config \<Rightarrow> string \<Rightarrow> string" where
  "central_url cfg path = rstrip_slashes (billing_base_url cfg) @ central_path path"

record central_request =
  cr_method :: string
  cr_url :: string
  cr_body :: string
  cr_content_type :: string
  cr_app :: string
  cr_timestamp :: string
  cr_signature :: string

definition central_request_of :: "hmac \<Rightarrow> config \<Rightarrow> string \<Rightarrow> int \<Rightarrow> string \<Rightarrow> string \<Rightarrow> string \<Rightarrow> central_request" where
  "central_request_of h cfg slug timestamp meth path body =
     \<lparr>cr_method = meth, cr_url = central_url cfg path, cr_body = body, cr_content_type = ''application/json'',
      cr_app = slug, cr_timestamp = str_int timestamp, cr_signature = sign h cfg meth (central_path path) body timestamp\<rparr>"

text \<open>\<open>post\<close> and \<open>get\<close>: \<open>send\<close> is the HTTP library, \<open>json_of\<close> prints the payload.\<close>

definition central_post ::
    "hmac \<Rightarrow> config \<Rightarrow> string \<Rightarrow> int \<Rightarrow> ('j \<Rightarrow> string) \<Rightarrow> ('j \<Rightarrow> string option) \<Rightarrow> (central_request \<Rightarrow> 'j http_outcome) \<Rightarrow>
     string \<Rightarrow> 'j \<Rightarrow> 'j billing_result" where
  "central_post h cfg slug timestamp json_of refusal_code send path payload =
     billing_call refusal_code (send (central_request_of h cfg slug timestamp ''POST'' path (json_of payload)))"

definition central_get ::
    "hmac \<Rightarrow> config \<Rightarrow> string \<Rightarrow> int \<Rightarrow> ('j \<Rightarrow> string option) \<Rightarrow> (central_request \<Rightarrow> 'j http_outcome) \<Rightarrow> string \<Rightarrow> 'j billing_result" where
  "central_get h cfg slug timestamp refusal_code send path =
     billing_call refusal_code (send (central_request_of h cfg slug timestamp ''GET'' path []))"

text \<open>
  What the other side checks: the signature of the path it was asked for. A service mounted at the root
  of a base URL accepts every request the client makes, whatever slashes the settings and the caller add.
\<close>

lemma dropWhile_idle: "xs \<noteq> [] \<Longrightarrow> \<not> P (hd xs) \<Longrightarrow> dropWhile P xs = xs"
  by (cases xs) auto

lemma central_requests_verify:
  assumes "billing_base_url cfg = base @ replicate n (CHR ''/'')" "base \<noteq> []" "last base \<noteq> CHR ''/''"
    and "\<bar>arrival - timestamp\<bar> \<le> 300"
  shows "let r = central_request_of h cfg slug timestamp meth path body in cr_url r = base @ central_path path \<and>
    verify_inbound h cfg arrival (cr_method r) (drop (length base) (cr_url r)) (cr_body r) (Some timestamp) (cr_signature r)"
proof -
  have "dropWhile (\<lambda>c. c = CHR ''/'') (replicate n (CHR ''/'') @ rev base) = rev base"
    using assms(2,3) by (induction n) (simp_all add: dropWhile_idle hd_rev)
  then have "rstrip_slashes (billing_base_url cfg) = base" by (simp add: assms(1))
  then show ?thesis using assms(4)
    by (simp add: Let_def central_request_of_def central_url_def verify_inbound_def sign_def starts_with_def)
qed

section \<open>The billing history\<close>

definition field_or :: "(string \<times> json) list \<Rightarrow> string \<Rightarrow> json \<Rightarrow> json" where
  "field_or obj k dflt = (case map_of obj k of None \<Rightarrow> dflt | Some v \<Rightarrow> v)"

definition history_subscription :: "(string \<times> json) list \<Rightarrow> (string \<times> json) list" where
  "history_subscription s =
     [(''id'', field_or s ''id'' (JSON_Text [])), (''status'', field_or s ''status'' (JSON_Text [])),
      (''plan'', field_or s ''plan'' (JSON_Text [])), (''planName'', field_or s ''plan_name'' (JSON_Text [])),
      (''interval'', field_or s ''interval'' (JSON_Text [])), (''quantity'', field_or s ''quantity'' (JSON_Number 1)),
      (''startedAt'', field_or s ''started_at'' JSON_Null), (''currentPeriodEnd'', field_or s ''current_period_end'' JSON_Null),
      (''canceledAt'', field_or s ''canceled_at'' JSON_Null)]"

definition history_invoice :: "(string \<times> json) list \<Rightarrow> (string \<times> json) list" where
  "history_invoice i =
     [(''id'', field_or i ''id'' (JSON_Text [])), (''number'', field_or i ''number'' (JSON_Text [])),
      (''status'', field_or i ''status'' (JSON_Text [])), (''amountPaid'', field_or i ''amount_paid'' (JSON_Number 0)),
      (''currency'', field_or i ''currency'' (JSON_Text [])), (''createdAt'', field_or i ''created'' JSON_Null),
      (''hostedUrl'', field_or i ''hosted_invoice_url'' (JSON_Text [])), (''pdfUrl'', field_or i ''invoice_pdf'' (JSON_Text []))]"

text \<open>A list of objects; \<open>None\<close> is the exception an entry or a container of another type raises.\<close>

fun objects_of :: "json list \<Rightarrow> (string \<times> json) list list option" where
  "objects_of [] = Some []"
| "objects_of (JSON_Object o1 # rest) = map_option (\<lambda>os. o1 # os) (objects_of rest)"
| "objects_of (_ # rest) = None"

text \<open>Iterating over a dictionary gives its keys, over a text its characters: texts have no \<open>get\<close>.\<close>

fun rows_of :: "json \<Rightarrow> (string \<times> json) list list option" where
  "rows_of (JSON_Array xs) = objects_of xs"
| "rows_of (JSON_Object []) = Some []"
| "rows_of (JSON_Text []) = Some []"
| "rows_of _ = None"

record history_view =
  hv_enabled :: bool
  hv_subscriptions :: "(string \<times> json) list list"
  hv_invoices :: "(string \<times> json) list list"

definition billing_history_get :: "config \<Rightarrow> json billing_result \<Rightarrow> history_view response" where
  "billing_history_get cfg answer =
     (if \<not> billing_configured cfg then Reply 200 \<lparr>hv_enabled = False, hv_subscriptions = [], hv_invoices = []\<rparr>
      else case answer of
        Billing_Unavailable \<Rightarrow> Reply 200 \<lparr>hv_enabled = True, hv_subscriptions = [], hv_invoices = []\<rparr>
      | Billing_Refused st c \<Rightarrow> Reply 200 \<lparr>hv_enabled = True, hv_subscriptions = [], hv_invoices = []\<rparr>
      | Billing_Ok (JSON_Object data) \<Rightarrow>
          (case (rows_of (field_or data ''subscriptions'' (JSON_Array [])), rows_of (field_or data ''invoices'' (JSON_Array []))) of
             (Some subs, Some invs) \<Rightarrow> Reply 200 \<lparr>hv_enabled = True, hv_subscriptions = map history_subscription subs,
                hv_invoices = map history_invoice invs\<rparr>
           | _ \<Rightarrow> Refuse 500 ''internal_error'')
      | _ \<Rightarrow> Refuse 500 ''internal_error'')"

text \<open>The page is there when the central service is not.\<close>

lemma history_survives_outages:
  "answer \<in> {Billing_Unavailable, Billing_Refused st c} \<Longrightarrow> \<exists>v. billing_history_get cfg answer = Reply 200 v"
  by (auto simp: billing_history_get_def)

section \<open>The client of the mailbox\<close>

text \<open>
  The module keeps the client of the authentication library and the tenant it was made for; \<open>client_for\<close> makes
  one for a tenant.
\<close>

type_synonym 'app msal_state = "('app \<times> string) option"

definition get_msal_app :: "(string \<Rightarrow> 'app) \<Rightarrow> string \<Rightarrow> 'app msal_state \<Rightarrow> 'app msal_state \<times> 'app" where
  "get_msal_app client_for tenant m =
     (case m of
        Some (app, t) \<Rightarrow> if t = tenant then (m, app) else (Some (client_for tenant, tenant), client_for tenant)
      | None \<Rightarrow> (Some (client_for tenant, tenant), client_for tenant))"

text \<open>A client is never used for another tenant than its own, whatever the settings were before.\<close>

lemma msal_app_is_of_the_tenant:
  assumes "case m of None \<Rightarrow> True | Some (app, t) \<Rightarrow> app = client_for t"
  shows "snd (get_msal_app client_for tenant m) = client_for tenant \<and>
    (case fst (get_msal_app client_for tenant m) of None \<Rightarrow> False | Some (app, t) \<Rightarrow> app = client_for t \<and> t = tenant)"
  using assms by (auto simp: get_msal_app_def split: option.splits)

text \<open>\<open>acquire\<close> is the call of the library: a token, or the description of the failure.\<close>

datatype graph_error = No_Token string | Http_Failed

definition get_access_token :: "('app \<Rightarrow> string + string) \<Rightarrow> (string \<Rightarrow> 'app) \<Rightarrow> string \<Rightarrow> 'app msal_state \<Rightarrow>
    'app msal_state \<times> (graph_error + string)" where
  "get_access_token acquire client_for tenant m =
     (let (m', app) = get_msal_app client_for tenant m in
      (m', case acquire app of Inl why \<Rightarrow> Inl (No_Token (''Failed to acquire Graph API token: '' @ why)) | Inr t \<Rightarrow> Inr t))"

definition graph_user_url :: "string \<Rightarrow> string \<Rightarrow> string" where
  "graph_user_url mailbox path = ''https://graph.microsoft.com/v1.0/users/'' @ mailbox @ path"

datatype graph_body = Mark_Read | Send_Text string string string

record graph_request =
  gr_method :: string
  gr_url :: string
  gr_authorization :: string
  gr_body :: graph_body

text \<open>
  \<open>mark_email_read\<close> and \<open>send_email\<close>: nothing without a client; else one request, where a token is to be
  had, whose failure is logged and goes no further. The answer is the list of requests made.
\<close>

definition graph_call :: "bool \<Rightarrow> graph_error + string \<Rightarrow> (string \<Rightarrow> graph_request) \<Rightarrow> graph_request list" where
  "graph_call configured token request =
     (if \<not> configured then [] else case token of Inl e \<Rightarrow> [] | Inr t \<Rightarrow> [request (''Bearer '' @ t)])"

definition graph_mark_email_read :: "bool \<Rightarrow> graph_error + string \<Rightarrow> string \<Rightarrow> string \<Rightarrow> graph_request list" where
  "graph_mark_email_read configured token mailbox graph_id = graph_call configured token
     (\<lambda>auth. \<lparr>gr_method = ''PATCH'', gr_url = graph_user_url mailbox (''/messages/'' @ graph_id), gr_authorization = auth,
              gr_body = Mark_Read\<rparr>)"

definition graph_send_email :: "bool \<Rightarrow> graph_error + string \<Rightarrow> string \<Rightarrow> string \<Rightarrow> string \<Rightarrow> string \<Rightarrow> graph_request list" where
  "graph_send_email configured token mailbox to_address subject body = graph_call configured token
     (\<lambda>auth. \<lparr>gr_method = ''POST'', gr_url = graph_user_url mailbox ''/sendMail'', gr_authorization = auth,
              gr_body = Send_Text to_address subject body\<rparr>)"

lemma graph_requests_carry_the_token:
  "r \<in> set (graph_mark_email_read c tok mb i) \<or> r \<in> set (graph_send_email c tok mb t sub b) \<Longrightarrow>
   c \<and> (\<exists>x. tok = Inr x \<and> gr_authorization r = ''Bearer '' @ x)"
  by (auto simp: graph_mark_email_read_def graph_send_email_def graph_call_def split: if_splits sum.splits)

section \<open>The environment of PowerShell\<close>

text \<open>\<open>settings\<close> gives a setting by its name, \<open>os\<close> the environment of the process.\<close>

definition passthrough :: "string list" where
  "passthrough = [''PATH'', ''HOME'', ''USER'', ''USERNAME'', ''USERPROFILE'', ''TEMP'', ''TMP'', ''TMPDIR'', ''PSModulePath'']"

definition forwarded_env_keys :: "string list" where
  "forwarded_env_keys = [''EXCHANGE_APP_ID'', ''EXCHANGE_TENANT'', ''EXCHANGE_CERT_THUMBPRINT'', ''EXCHANGE_CERT_FILE_PATH'',
     ''EXCHANGE_CERT_PASSWORD'']"

definition forwarded_value :: "(string \<Rightarrow> string option) \<Rightarrow> (string \<Rightarrow> string option) \<Rightarrow> string \<Rightarrow> string option" where
  "forwarded_value setting os k =
     (let own = (case setting k of None \<Rightarrow> [] | Some v \<Rightarrow> v);
          v = (if own \<noteq> [] then own else case os k of None \<Rightarrow> [] | Some x \<Rightarrow> x)
      in if v = [] then None else Some v)"

definition build_env :: "(string \<Rightarrow> string option) \<Rightarrow> (string \<Rightarrow> string option) \<Rightarrow> (string \<times> string) list" where
  "build_env setting os =
     List.map_filter (\<lambda>k. map_option (Pair k) (os k)) passthrough @
     List.map_filter (\<lambda>k. map_option (Pair k) (forwarded_value setting os k)) forwarded_env_keys"

text \<open>The constructor: a path is required; None stands for an argument that is not given.\<close>

definition new_exchange_service :: "string option \<Rightarrow> int option \<Rightarrow> exchange_env \<Rightarrow> exchange_failure + exchange_env" where
  "new_exchange_service script_path timeout x =
     (let path = (case script_path of Some p \<Rightarrow> (if p \<noteq> [] then p else ps_script_path x) | None \<Rightarrow> ps_script_path x);
          t = (case timeout of Some n \<Rightarrow> n | None \<Rightarrow> ps_timeout x)
      in if path = [] then Inl (raise_as Exchange_Config ''EXCHANGE_PS_SCRIPT_PATH is not configured.'')
         else Inr (x\<lparr>ps_script_path := path, ps_timeout := t\<rparr>))"

lemma map_filter_keys: "(k, v) \<in> set (List.map_filter (\<lambda>k. map_option (Pair k) (f k)) ks) \<longleftrightarrow> k \<in> set ks \<and> f k = Some v"
  by (induction ks) (auto simp: List.map_filter_def split: option.splits)

lemma map_filter_names: "map fst (List.map_filter (\<lambda>k. map_option (Pair k) (f k)) ks) = filter (\<lambda>k. f k \<noteq> None) ks"
  by (induction ks) (auto split: option.splits)

lemma listed_names: "distinct (passthrough @ forwarded_env_keys) \<and> ''SECRET_KEY'' \<notin> set (passthrough @ forwarded_env_keys)"
  by code_simp

lemma forwarded_value_Some: "forwarded_value setting os k = Some v \<Longrightarrow> setting k = Some v \<or> os k = Some v"
  by (auto simp: forwarded_value_def Let_def split: option.splits if_splits)

text \<open>
  PowerShell runs with the variables it needs and no others: it sees nothing of the environment of
  the server beyond a fixed list of names, so that the secret key, the password of the database and the
  secret of the billing service stay behind; a variable of Exchange that it sees is the setting, or, where
  the setting is empty, that of the process.
\<close>

theorem powershell_sees_listed_variables_only:
  "(\<forall>k v. (k, v) \<in> set (build_env setting os) \<longrightarrow> k \<in> set (passthrough @ forwarded_env_keys) \<and> (setting k = Some v \<or> os k = Some v)) \<and>
   (\<forall>os'. (\<forall>k \<in> set (passthrough @ forwarded_env_keys). os' k = os k) \<longrightarrow> build_env setting os' = build_env setting os) \<and>
   distinct (map fst (build_env setting os)) \<and> ''SECRET_KEY'' \<notin> fst ` set (build_env setting os)"
proof (intro conjI allI impI)
  fix k v assume a: "(k, v) \<in> set (build_env setting os)"
  then show "k \<in> set (passthrough @ forwarded_env_keys)" by (auto simp: build_env_def map_filter_keys)
  show "setting k = Some v \<or> os k = Some v" using a forwarded_value_Some[of setting os k v] by (auto simp: build_env_def map_filter_keys)
next
  fix os' assume same: "\<forall>k \<in> set (passthrough @ forwarded_env_keys). os' k = os k"
  have "forwarded_value setting os' k = forwarded_value setting os k" if "k \<in> set forwarded_env_keys" for k
  proof -
    have eq: "os' k = os k" using same that by simp
    show ?thesis unfolding forwarded_value_def eq ..
  qed
  then show "build_env setting os' = build_env setting os"
    unfolding build_env_def using same by (intro arg_cong2[where f = append] map_filter_cong) simp_all
next
  have names: "map fst (build_env setting os) = filter (\<lambda>k. os k \<noteq> None) passthrough @
      filter (\<lambda>k. forwarded_value setting os k \<noteq> None) forwarded_env_keys"
    by (simp add: build_env_def map_filter_names)
  show "distinct (map fst (build_env setting os))" unfolding names using listed_names by auto
  show "''SECRET_KEY'' \<notin> fst ` set (build_env setting os)"
    using listed_names unfolding set_map[symmetric] names by auto
qed

theorem powershell_variables_example:
  "build_env (\<lambda>_. None) (map_of [(''PATH'', ''/bin''), (''SECRET_KEY'', ''s''), (''EXCHANGE_TENANT'', ''t.io'')]) =
     [(''PATH'', ''/bin''), (''EXCHANGE_TENANT'', ''t.io'')] \<and>
   build_env (\<lambda>_. None) (map_of [(''PATH'', ''/bin''), (''SECRET_KEY'', ''s''), (''EXCHANGE_TENANT'', ''t.io'')]) =
     build_env (\<lambda>_. None) (map_of [(''PATH'', ''/bin''), (''EXCHANGE_TENANT'', ''t.io'')])"
proof
  show "build_env (\<lambda>_. None) (map_of [(''PATH'', ''/bin''), (''SECRET_KEY'', ''s''), (''EXCHANGE_TENANT'', ''t.io'')]) =
     [(''PATH'', ''/bin''), (''EXCHANGE_TENANT'', ''t.io'')]" by code_simp
  have "\<forall>k \<in> set (passthrough @ forwarded_env_keys). map_of [(''PATH'', ''/bin''), (''SECRET_KEY'', ''s''), (''EXCHANGE_TENANT'', ''t.io'')] k =
      map_of [(''PATH'', ''/bin''), (''EXCHANGE_TENANT'', ''t.io'')] k" by code_simp
  then show "build_env (\<lambda>_. None) (map_of [(''PATH'', ''/bin''), (''SECRET_KEY'', ''s''), (''EXCHANGE_TENANT'', ''t.io'')]) =
     build_env (\<lambda>_. None) (map_of [(''PATH'', ''/bin''), (''EXCHANGE_TENANT'', ''t.io'')])"
    using powershell_sees_listed_variables_only[of "\<lambda>_. None" "map_of [(''PATH'', ''/bin''), (''EXCHANGE_TENANT'', ''t.io'')]"] by metis
qed

section \<open>The registry of metrics\<close>

text \<open>With the directory of the processes set, what is exposed is the sum over the processes.\<close>

datatype metrics_registry = Process_Registry | Directory_Registry string

definition build_metrics_registry :: "(string \<Rightarrow> string option) \<Rightarrow> metrics_registry" where
  "build_metrics_registry os =
     (let dir = strip (case os ''PROMETHEUS_MULTIPROC_DIR'' of None \<Rightarrow> [] | Some d \<Rightarrow> d)
      in if dir = [] then Process_Registry else Directory_Registry dir)"

end
