(* ===== verification/Operations.thy ===== *)
theory Operations
  imports Accounts "HOL-Library.Char_ord" "HOL-Library.List_Lexorder"
begin

text \<open>
  What runs around the program: the rendering of errors (\<open>config/exceptions.py\<close>), the middlewares
  (\<open>config/middleware.py\<close>), the counters and gauges (\<open>config/metrics.py\<close>), the probes and the status page
  (\<open>health/views.py\<close>, \<open>health/api_views.py\<close>), the published Android application
  (\<open>devices/api_views_android_app.py\<close>) and the commands of the operators
  (\<open>applications/management/commands\<close>).
\<close>

section \<open>Errors as they are answered\<close>

text \<open>
  The exceptions of the framework by class; what \<open>get_codes\<close> gives is a code, or the codes of a list or
  a dictionary of texts. \<open>Django_Error\<close> is an exception that the framework answers although it is not
  one of its own (\<open>Http404\<close>), \<open>Unhandled\<close> any other. The data of the framework's answer is a
  parameter, with its entry \<open>detail\<close> when it is a dictionary.
\<close>

datatype codes = Code string | Code_List "codes list" | Code_Dict "(string \<times> codes) list"

datatype exception_class =
  X_Throttled | X_Validation | X_Not_Authenticated | X_Authentication_Failed | X_Permission_Denied | X_Not_Found |
  X_Method_Not_Allowed | X_Other

record 'd api_exception =
  x_class :: exception_class
  x_codes :: codes
  x_detail :: string
  x_status :: nat
  x_data :: 'd

datatype 'd raised = Api_Exception "'d api_exception" | Django_Error nat 'd | Unhandled string

record 'd error_body =
  eb_status :: nat
  eb_code :: string
  eb_detail :: string
  eb_errors :: "'d option"
  eb_incident :: "string option"

text \<open>\<open>repr\<close> of a text of printable characters, and \<open>str\<close> of what \<open>get_codes\<close> gives.\<close>

definition repr_string :: "string \<Rightarrow> string" where
  "repr_string v =
     (let q = (if CHR 0x27 \<in> set v \<and> CHR 0x22 \<notin> set v then CHR 0x22 else CHR 0x27)
      in q # concat (map (\<lambda>c. if c = q \<or> c = CHR 0x5C then [CHR 0x5C, c] else [c]) v) @ [q])"

fun repr_codes :: "codes \<Rightarrow> string" where
  "repr_codes (Code v) = repr_string v"
| "repr_codes (Code_List cs) = ''['' @ join '', '' (map repr_codes cs) @ '']''"
| "repr_codes (Code_Dict kvs) = ''{'' @ join '', '' (map (\<lambda>(k, v). repr_string k @ '': '' @ repr_codes v) kvs) @ ''}''"

fun str_codes :: "codes \<Rightarrow> string" where
  "str_codes (Code v) = v"
| "str_codes c = repr_codes c"

fun codes_truthy :: "codes \<Rightarrow> bool" where
  "codes_truthy (Code v) = (v \<noteq> [])"
| "codes_truthy (Code_List cs) = (cs \<noteq> [])"
| "codes_truthy (Code_Dict kvs) = (kvs \<noteq> [])"

definition codes_or :: "codes \<Rightarrow> string \<Rightarrow> string" where
  "codes_or c dflt = (if codes_truthy c then str_codes c else dflt)"

definition fallback_detail :: "('d \<Rightarrow> string option) \<Rightarrow> 'd \<Rightarrow> string" where
  "fallback_detail detail_of d = (case detail_of d of None \<Rightarrow> ''Request failed.'' | Some t \<Rightarrow> if t = [] then ''Request failed.'' else t)"

definition extract_detail_and_code :: "('d \<Rightarrow> string option) \<Rightarrow> 'd api_exception \<Rightarrow> string \<times> string" where
  "extract_detail_and_code detail_of x =
     (case x_class x of
        X_Throttled \<Rightarrow> (''throttled'', x_detail x)
      | X_Validation \<Rightarrow> (''validation_error'', ''Validation error.'')
      | X_Not_Authenticated \<Rightarrow> (codes_or (x_codes x) ''not_authenticated'', x_detail x)
      | X_Authentication_Failed \<Rightarrow> (codes_or (x_codes x) ''authentication_failed'', x_detail x)
      | X_Permission_Denied \<Rightarrow> (codes_or (x_codes x) ''permission_denied'', x_detail x)
      | X_Not_Found \<Rightarrow> (codes_or (x_codes x) ''not_found'', x_detail x)
      | X_Method_Not_Allowed \<Rightarrow> (codes_or (x_codes x) ''method_not_allowed'', x_detail x)
      | X_Other \<Rightarrow> (''error'', fallback_detail detail_of (x_data x)))"

text \<open>The identifiers of the request and of its incident that every log line carries.\<close>

record log_context =
  cx_request :: string
  cx_incident :: string

definition incident_of :: "string \<Rightarrow> string" where
  "incident_of drawn = ''inc_'' @ take 12 drawn"

definition custom_exception_handler ::
    "('d \<Rightarrow> string option) \<Rightarrow> string \<Rightarrow> 'd raised \<Rightarrow> log_context \<Rightarrow> log_context \<times> 'd error_body" where
  "custom_exception_handler detail_of drawn r cx =
     (case r of
        Unhandled _ \<Rightarrow>
          (cx\<lparr>cx_incident := incident_of drawn\<rparr>,
           \<lparr>eb_status = 500, eb_code = ''internal_error'', eb_detail = ''Internal server error.'', eb_errors = None,
            eb_incident = Some (incident_of drawn)\<rparr>)
      | Django_Error status d \<Rightarrow>
          (cx, \<lparr>eb_status = status, eb_code = ''error'', eb_detail = fallback_detail detail_of d, eb_errors = None, eb_incident = None\<rparr>)
      | Api_Exception x \<Rightarrow>
          (case extract_detail_and_code detail_of x of (code, detail) \<Rightarrow>
             (cx, \<lparr>eb_status = x_status x, eb_code = code, eb_detail = detail,
                   eb_errors = (if x_class x = X_Validation then Some (x_data x) else None), eb_incident = None\<rparr>)))"

section \<open>Around every request\<close>

text \<open>
  \<open>RequestIdMiddleware\<close> and \<open>MetricsMiddleware\<close> around a handler, which may raise. The identifiers are
  set for the request and put back whatever happens; an answer carries the identifier and is counted.
\<close>

datatype 'r outcome = Answered 'r | Raised string

definition request_id_middleware ::
    "string option \<Rightarrow> string \<Rightarrow> (string \<Rightarrow> log_context \<Rightarrow> log_context \<times> 'r outcome) \<Rightarrow> log_context \<Rightarrow> log_context \<times> ('r \<times> string) outcome" where
  "request_id_middleware sent_id drawn get_response cx =
     (let rid = (case sent_id of None \<Rightarrow> drawn | Some h \<Rightarrow> if h = [] then drawn else h);
          r = get_response rid (cx\<lparr>cx_request := rid, cx_incident := ''-''\<rparr>);
          after = (fst r)\<lparr>cx_incident := cx_incident cx, cx_request := cx_request cx\<rparr>
      in (after, case snd r of Answered a \<Rightarrow> Answered (a, rid) | Raised e \<Rightarrow> Raised e))"

text \<open>
  The counters, with the labels each was declared with; an increment with other labels, or of an unknown
  metric, is an exception.
\<close>

definition metric_labels :: "(string \<times> string list) list" where
  "metric_labels =
     [(''pushit_http_requests_total'', [''method'', ''route'', ''status'']),
      (''pushit_app_token_auth_total'', [''outcome'']),
      (''pushit_notification_processing_total'', [''outcome'']),
      (''pushit_notification_send_total'', [''outcome'']),
      (''pushit_notification_delivery_total'', [''outcome''])]"

type_synonym counters = "string \<times> string list \<Rightarrow> int"

definition increment_counter :: "string \<Rightarrow> int \<Rightarrow> (string \<times> string) list \<Rightarrow> counters \<Rightarrow> counters option" where
  "increment_counter metric amount labels c =
     (case map_of metric_labels metric of
        None \<Rightarrow> None
      | Some ls \<Rightarrow>
          if set (map fst labels) \<noteq> set ls \<or> amount < 0 then None
          else (let key = (metric, map (\<lambda>l. the (map_of labels l)) ls) in Some (c(key := c key + amount))))"

definition metrics_middleware ::
    "string \<Rightarrow> string option \<Rightarrow> string \<Rightarrow> ('r \<Rightarrow> nat) \<Rightarrow> 'r outcome \<Rightarrow> counters \<Rightarrow> counters option \<times> 'r outcome" where
  "metrics_middleware meth view_name path status r c =
     (case r of
        Raised e \<Rightarrow> (Some c, Raised e)
      | Answered a \<Rightarrow>
          (let route = (case view_name of None \<Rightarrow> path | Some v \<Rightarrow> if v = [] then path else v) in
           (increment_counter ''pushit_http_requests_total'' 1
              [(''method'', meth), (''route'', route), (''status'', decimal (status a))] c, Answered a)))"

section \<open>The exposition of metrics\<close>

text \<open>
  The database orders a status by the text stored for it; \<open>group_counts\<close> is a grouped count ordered by
  its column.
\<close>

fun notification_status_value :: "notification_status \<Rightarrow> string" where
  "notification_status_value Draft = ''draft''"
| "notification_status_value Scheduled = ''scheduled''"
| "notification_status_value Queued = ''queued''"
| "notification_status_value Processing = ''processing''"
| "notification_status_value Sent = ''sent''"
| "notification_status_value Failed = ''failed''"
| "notification_status_value Partial = ''partial''"
| "notification_status_value No_Target = ''no_target''"

fun token_status_value :: "device_token_status \<Rightarrow> string" where
  "token_status_value T_Active = ''active''"
| "token_status_value T_Invalid = ''invalid''"
| "token_status_value T_Revoked = ''revoked''"

lemma notification_status_value_inj: "notification_status_value a = notification_status_value b \<Longrightarrow> a = b"
  by (cases a; cases b) simp_all

lemma token_status_value_inj: "token_status_value a = token_status_value b \<Longrightarrow> a = b"
  by (cases a; cases b) simp_all

instantiation notification_status :: linorder
begin

definition less_eq_notification_status :: "notification_status \<Rightarrow> notification_status \<Rightarrow> bool" where
  "less_eq_notification_status a b \<longleftrightarrow> notification_status_value a \<le> notification_status_value b"

definition less_notification_status :: "notification_status \<Rightarrow> notification_status \<Rightarrow> bool" where
  "less_notification_status a b \<longleftrightarrow> notification_status_value a < notification_status_value b"

instance
  by standard
    (auto simp: less_eq_notification_status_def less_notification_status_def dest: notification_status_value_inj order.antisym)

end

instantiation device_token_status :: linorder
begin

definition less_eq_device_token_status :: "device_token_status \<Rightarrow> device_token_status \<Rightarrow> bool" where
  "less_eq_device_token_status a b \<longleftrightarrow> token_status_value a \<le> token_status_value b"

definition less_device_token_status :: "device_token_status \<Rightarrow> device_token_status \<Rightarrow> bool" where
  "less_device_token_status a b \<longleftrightarrow> token_status_value a < token_status_value b"

instance
  by standard
    (auto simp: less_eq_device_token_status_def less_device_token_status_def dest: token_status_value_inj order.antisym)

end

text \<open>\<open>for status in NotificationStatus\<close> runs through the members in the order of their declaration.\<close>

instantiation notification_status :: enum
begin

definition enum_notification_status :: "notification_status list" where
  "enum_notification_status = [Draft, Scheduled, Queued, Processing, Sent, Failed, Partial, No_Target]"

definition enum_all_notification_status :: "(notification_status \<Rightarrow> bool) \<Rightarrow> bool" where
  "enum_all_notification_status P \<longleftrightarrow> list_all P enum_class.enum"

definition enum_ex_notification_status :: "(notification_status \<Rightarrow> bool) \<Rightarrow> bool" where
  "enum_ex_notification_status P \<longleftrightarrow> list_ex P enum_class.enum"

instance
proof
  have all: "s \<in> set enum_class.enum" for s :: notification_status
    by (cases s) (simp_all add: enum_notification_status_def)
  then show univ: "UNIV = set (enum_class.enum :: notification_status list)" by blast
  show "distinct (enum_class.enum :: notification_status list)" by (simp add: enum_notification_status_def)
  show "enum_class.enum_all P \<longleftrightarrow> Ball UNIV P" for P :: "notification_status \<Rightarrow> bool"
    unfolding univ by (simp add: enum_all_notification_status_def list_all_iff)
  show "enum_class.enum_ex P \<longleftrightarrow> Bex UNIV P" for P :: "notification_status \<Rightarrow> bool"
    unfolding univ by (simp add: enum_ex_notification_status_def list_ex_iff)
qed

end

definition group_counts :: "'k::linorder list \<Rightarrow> ('k \<times> nat) list" where
  "group_counts xs = map (\<lambda>k. (k, count_list xs k)) (remdups (sort xs))"

definition gauge_line :: "string \<Rightarrow> string \<Rightarrow> string \<Rightarrow> nat \<Rightarrow> string" where
  "gauge_line metric label v n = metric @ ''{'' @ label @ ''='' @ CHR 0x22 # v @ CHR 0x22 # ''} '' @ decimal n"

definition help_lines :: "string \<Rightarrow> string \<Rightarrow> string list" where
  "help_lines metric help = [''# HELP '' @ metric @ '' '' @ help, ''# TYPE '' @ metric @ '' gauge'']"

text \<open>\<open>uptime\<close> is the printed time since the start of the process.\<close>

definition collect_database_gauges :: "string \<Rightarrow> db \<Rightarrow> string list" where
  "collect_database_gauges uptime s =
     help_lines ''pushit_process_uptime_seconds'' ''Process uptime in seconds'' @ [''pushit_process_uptime_seconds '' @ uptime] @
     help_lines ''pushit_notifications_total'' ''Total notifications grouped by status'' @
     map (\<lambda>(k, n). gauge_line ''pushit_notifications_total'' ''status'' (notification_status_value k) n)
       (group_counts (map ntf_status (notifications s))) @
     help_lines ''pushit_devices_total'' ''Total devices grouped by push token status'' @
     map (\<lambda>(k, n). gauge_line ''pushit_devices_total'' ''push_token_status'' (token_status_value k) n)
       (group_counts (map push_token_status (devices s))) @
     [''pushit_active_devices_total '' @ decimal (count_where (\<lambda>d. push_token_status d = T_Active \<and> dev_is_active d) (devices s))]"

text \<open>The exposition of the counters is the library's text, already cut into lines.\<close>

definition render_metrics :: "string list \<Rightarrow> string \<Rightarrow> db \<Rightarrow> string" where
  "render_metrics library_lines uptime s = join newline (library_lines @ collect_database_gauges uptime s) @ newline"

section \<open>Health\<close>

definition live_view :: "string response" where
  "live_view = Reply 200 ''ok''"

definition ready_view :: "bool \<Rightarrow> string response" where
  "ready_view database = (if database then Reply 200 ''ok'' else Refuse 503 ''database_unavailable'')"

text \<open>\<open>compare_digest\<close> compares texts of ASCII characters only and raises on any other.\<close>

definition ascii_only :: "string \<Rightarrow> bool" where
  "ascii_only v = list_all (\<lambda>c. (of_char c :: nat) < 128) v"

definition metrics_view :: "bool \<Rightarrow> string \<Rightarrow> string \<Rightarrow> string \<Rightarrow> string response" where
  "metrics_view require_token expected provided payload =
     (if expected = [] \<and> require_token then Refuse 403 ''metrics_disabled''
      else if expected \<noteq> [] \<and> \<not> (ascii_only (strip provided) \<and> ascii_only expected) then Refuse 500 ''internal_error''
      else if expected \<noteq> [] \<and> strip provided \<noteq> expected then Refuse 403 ''metrics_token_invalid''
      else Reply 200 payload)"

section \<open>The status page of the administrators\<close>

text \<open>A dependency answers with a value or fails with a text.\<close>

datatype 'a probe = Works 'a | Fails string

datatype check_status = Check_Ok | Check_Degraded | Check_Error

record check =
  ck_status :: check_status
  ck_detail :: "string option"
  ck_configured :: "bool option"

definition failed_check :: "string \<Rightarrow> check" where
  "failed_check e = \<lparr>ck_status = Check_Error, ck_detail = Some e, ck_configured = None\<rparr>"

definition check_reachable :: "unit probe \<Rightarrow> check" where
  "check_reachable p = (case p of Fails e \<Rightarrow> failed_check e
     | Works _ \<Rightarrow> \<lparr>ck_status = Check_Ok, ck_detail = Some ''reachable'', ck_configured = None\<rparr>)"

definition check_celery_workers :: "nat probe \<Rightarrow> check" where
  "check_celery_workers p = (case p of Fails e \<Rightarrow> failed_check e
     | Works n \<Rightarrow> if n = 0 then \<lparr>ck_status = Check_Degraded, ck_detail = Some ''no workers responded'', ck_configured = None\<rparr>
         else \<lparr>ck_status = Check_Ok, ck_detail = Some (decimal n @ '' worker(s) responded''), ck_configured = None\<rparr>)"

definition check_exchange :: "bool probe \<Rightarrow> check" where
  "check_exchange p = (case p of Fails e \<Rightarrow> failed_check e
     | Works c \<Rightarrow> \<lparr>ck_status = Check_Ok, ck_detail = None, ck_configured = Some c\<rparr>)"

record metrics_view_data =
  mv_applications :: "(nat \<times> nat) probe"
  mv_devices :: "nat probe"
  mv_notifications :: "(notification_status \<times> nat) list probe"
  mv_stuck :: "nat probe"

fun on_probe :: "('a \<Rightarrow> 'b) \<Rightarrow> 'a probe \<Rightarrow> 'b probe" where
  "on_probe f (Works x) = Works (f x)"
| "on_probe f (Fails e) = Fails e"

text \<open>The four queries of the page, each of which may find the database or not.\<close>

record metric_queries =
  q_applications :: "db probe"
  q_devices :: "db probe"
  q_notifications :: "db probe"
  q_stuck :: "db probe"

definition collect_metrics :: "config \<Rightarrow> instant \<Rightarrow> metric_queries \<Rightarrow> metrics_view_data" where
  "collect_metrics cfg now q =
     \<lparr>mv_applications = on_probe (\<lambda>s. (length (applications s), count_where app_is_active (applications s))) (q_applications q),
      mv_devices = on_probe (\<lambda>s. length (devices s)) (q_devices q),
      mv_notifications = on_probe (\<lambda>s. map (\<lambda>st. (st, count_where (\<lambda>n. ntf_status n = st) (notifications s))) enum_class.enum) (q_notifications q),
      mv_stuck = on_probe (\<lambda>s. count_where (stuck (processing_cutoff cfg now)) (notifications s)) (q_stuck q)\<rparr>"

record admin_status =
  as_status :: check_status
  as_checks :: "(string \<times> check) list"
  as_metrics :: metrics_view_data

definition overall :: "check list \<Rightarrow> check_status" where
  "overall cs = (if list_ex (\<lambda>c. ck_status c = Check_Error) cs then Check_Degraded else Check_Ok)"

definition admin_status_view ::
    "config \<Rightarrow> instant \<Rightarrow> user \<Rightarrow> unit probe \<Rightarrow> unit probe \<Rightarrow> nat probe \<Rightarrow> bool probe \<Rightarrow> metric_queries \<Rightarrow> admin_status response" where
  "admin_status_view cfg now caller database broker_link workers exchange q =
     (if \<not> user_is_staff caller then Refuse 403 ''permission_denied''
      else (let checks = [(''database'', check_reachable database), (''celery_broker'', check_reachable broker_link),
                          (''celery_workers'', check_celery_workers workers), (''exchange'', check_exchange exchange)]
            in Reply 200 \<lparr>as_status = overall (map snd checks), as_checks = checks, as_metrics = collect_metrics cfg now q\<rparr>))"

section \<open>The published Android application\<close>

text \<open>
  The file system: what a path holds. The description beside the application is read up to one byte more
  than it may have; \<open>load\<close> is \<open>json.loads\<close>, None when the bytes are not JSON.
\<close>

datatype file_state = No_File | A_Directory | Not_Permitted | A_File string

definition apk_meta_max_bytes :: nat where "apk_meta_max_bytes = 4096"

definition json_field :: "string \<Rightarrow> json \<Rightarrow> json option" where
  "json_field k j = (case j of JSON_Object kvs \<Rightarrow> map_of kvs k | _ \<Rightarrow> None)"

definition read_apk_meta :: "(string \<Rightarrow> json option) \<Rightarrow> file_state \<Rightarrow> (int \<times> string) option" where
  "read_apk_meta load f =
     (case f of
        A_File raw \<Rightarrow>
          if apk_meta_max_bytes < length raw then None
          else (case load raw of
            None \<Rightarrow> None
          | Some data \<Rightarrow>
              (case (json_field ''version_code'' data, json_field ''version_name'' data) of
                 (Some (JSON_Number v), Some (JSON_Text n)) \<Rightarrow>
                   if v < 1 \<or> strip n = [] then None else Some (v, strip n)
               | _ \<Rightarrow> None))
      | _ \<Rightarrow> None)"

definition android_download :: "file_state \<Rightarrow> string response" where
  "android_download apk =
     (case apk of
        A_File content \<Rightarrow> Reply 200 content
      | Not_Permitted \<Rightarrow> Refuse 500 ''internal_error''
      | _ \<Rightarrow> Refuse 404 ''android_app_not_found'')"

text \<open>
  \<open>present\<close> is whether the path of the application is a file, and \<open>found\<close> what is found of it afterwards,
  None when it is gone.
\<close>

definition android_version :: "(string \<Rightarrow> json option) \<Rightarrow> bool \<Rightarrow> file_state \<Rightarrow> nat option \<Rightarrow> (int \<times> string \<times> nat) response" where
  "android_version load present meta found =
     (if \<not> present then Refuse 404 ''android_app_not_found''
      else case read_apk_meta load meta of
        None \<Rightarrow> Refuse 404 ''android_app_not_found''
      | Some (v, n) \<Rightarrow> (case found of None \<Rightarrow> Refuse 404 ''android_app_not_found'' | Some k \<Rightarrow> Reply 200 (v, n, k)))"

section \<open>The commands of the operators\<close>

text \<open>
  \<open>regenerate_inbound_aliases\<close>. The rows are read once; each is emptied, saved (which draws, stores and
  attaches a new address) and its old address is detached. An exception ends the command where it is.
  \<open>drs\<close> gives the values drawn for each application.
\<close>

definition needs_migration :: "config \<Rightarrow> bool \<Rightarrow> string \<Rightarrow> bool" where
  "needs_migration cfg include_app_prefix ali =
     (if is_current_format cfg ali then False else if is_legacy_format ali then include_app_prefix else True)"

definition migrate_one :: "app_env \<Rightarrow> draws \<Rightarrow> application \<Rightarrow> world \<Rightarrow> world \<times> save_outcome" where
  "migrate_one env dr a w =
     (case save_application env dr (a\<lparr>inbound_email_alias := [], inbound_email_suffix := []\<rparr>) w of
        ((s1, calls1), Saved b) \<Rightarrow>
          (case deprovision env (inbound_email_alias a) calls1 of (calls2, e) \<Rightarrow> ((s1, calls2), saved_or_raised b e))
      | other \<Rightarrow> other)"

fun migrate_all :: "app_env \<Rightarrow> (pk \<Rightarrow> draws) \<Rightarrow> application list \<Rightarrow> world \<Rightarrow> world \<times> string option" where
  "migrate_all env drs [] w = (w, None)"
| "migrate_all env drs (a # as) w =
     (case migrate_one env (drs (app_id a)) a w of
        (w1, Saved _) \<Rightarrow> migrate_all env drs as w1
      | (w1, Saved_Then_Raised _ e) \<Rightarrow> (w1, Some e)
      | (w1, Not_Saved e) \<Rightarrow> (w1, Some e))"

definition aliases_to_migrate :: "config \<Rightarrow> bool \<Rightarrow> db \<Rightarrow> application list" where
  "aliases_to_migrate cfg include_app_prefix s =
     filter (\<lambda>a. needs_migration cfg include_app_prefix (inbound_email_alias a)) (sort_key app_id (applications s))"

definition regenerate_inbound_aliases :: "app_env \<Rightarrow> (pk \<Rightarrow> draws) \<Rightarrow> bool \<Rightarrow> bool \<Rightarrow> world \<Rightarrow> world \<times> string option" where
  "regenerate_inbound_aliases env drs dry include_app_prefix w =
     (if dry then (w, None)
      else migrate_all env drs (aliases_to_migrate (env_config env) include_app_prefix (fst w)) w)"

text \<open>\<open>legacy_send_report\<close>: the applications that still send with the legacy token, the latest first (the database decides between equal dates).\<close>

definition legacy_senders :: "instant \<Rightarrow> int option \<Rightarrow> db \<Rightarrow> application list" where
  "legacy_senders now since_days s =
     rev (sort_key (\<lambda>a. the (legacy_send_last_used_at a))
       (filter (\<lambda>a. case legacy_send_last_used_at a of None \<Rightarrow> False
          | Some t \<Rightarrow> (case since_days of None \<Rightarrow> True | Some d \<Rightarrow> now - d * day \<le> t)) (applications s)))"

section \<open>Errors and probes\<close>

lemma str_codes_nonempty: "codes_truthy c \<Longrightarrow> str_codes c \<noteq> []"
  by (cases c) simp_all

lemma codes_or_nonempty: "d \<noteq> [] \<Longrightarrow> codes_or c d \<noteq> []"
  by (simp add: codes_or_def str_codes_nonempty)

lemma extracted_code_nonempty: "fst (extract_detail_and_code detail_of x) \<noteq> []"
  by (simp add: extract_detail_and_code_def codes_or_nonempty split: exception_class.split)

text \<open>
  Every failed request is answered in one shape: a code, a detail, the messages of the fields exactly for
  a refused input and an incident exactly for an exception nobody expected, whose text stays inside.
\<close>

theorem errors_have_one_shape:
  "eb_code (snd (custom_exception_handler detail_of drawn r cx)) \<noteq> [] \<and>
   (eb_errors (snd (custom_exception_handler detail_of drawn r cx)) \<noteq> None \<longleftrightarrow> (\<exists>x. r = Api_Exception x \<and> x_class x = X_Validation)) \<and>
   (eb_incident (snd (custom_exception_handler detail_of drawn r cx)) \<noteq> None \<longleftrightarrow> (\<exists>e. r = Unhandled e)) \<and>
   snd (custom_exception_handler detail_of drawn (Unhandled e) cx) = snd (custom_exception_handler detail_of drawn (Unhandled e') cx)"
proof (cases r)
  case (Api_Exception x)
  then show ?thesis using extracted_code_nonempty[of detail_of x]
    by (cases "extract_detail_and_code detail_of x") (simp add: custom_exception_handler_def)
qed (simp_all add: custom_exception_handler_def)

text \<open>
  The exception of the token library carries a dictionary of two texts, both with its code: what is
  answered as the code is the print of that dictionary. An object that a shortcut does not find is
  answered with the code of an unknown error.
\<close>

theorem token_errors_have_a_printed_code:
  "eb_code (snd (custom_exception_handler detail_of drawn
     (Api_Exception \<lparr>x_class = X_Authentication_Failed, x_codes = Code_Dict [(''detail'', Code ''token_not_valid''), (''code'', Code ''token_not_valid'')],
        x_detail = t, x_status = 401, x_data = d\<rparr>) cx)) = token_not_valid \<and>
   token_not_valid \<noteq> ''token_not_valid'' \<and>
   eb_code (snd (custom_exception_handler detail_of drawn (Django_Error 404 d) cx)) = ''error''"
proof -
  have "codes_or (Code_Dict [(''detail'', Code ''token_not_valid''), (''code'', Code ''token_not_valid'')]) ''authentication_failed'' = token_not_valid"
    by code_simp
  then show ?thesis by (simp add: custom_exception_handler_def extract_detail_and_code_def token_not_valid_def)
qed

text \<open>The identifiers of one request never show in the log lines of the next, even when it fails.\<close>

lemma request_ids_do_not_leak:
  fixes cx :: log_context
  shows "fst (request_id_middleware sent_id drawn get_response cx) = cx"
  by (cases cx; cases "fst (get_response (case sent_id of None \<Rightarrow> drawn | Some h \<Rightarrow> if h = [] then drawn else h)
       (cx\<lparr>cx_request := case sent_id of None \<Rightarrow> drawn | Some h \<Rightarrow> if h = [] then drawn else h, cx_incident := ''-''\<rparr>))")
    (simp add: request_id_middleware_def Let_def)

text \<open>The metrics are answered only to who presents the configured token, once one is required.\<close>

theorem metrics_are_guarded:
  assumes "metrics_view True expected provided payload = Reply k p"
  shows "expected \<noteq> [] \<and> strip provided = expected \<and> p = payload"
  using assms by (auto simp: metrics_view_def split: if_splits)

theorem metrics_are_guarded_witness:
  "metrics_view True ''t'' '' t '' ''m'' = Reply 200 ''m'' \<and> strip '' t '' = ''t''"
proof -
  have "metrics_view True ''t'' '' t '' ''m'' = Reply 200 ''m''" by code_simp
  from metrics_are_guarded[OF this] this show ?thesis by blast
qed

section \<open>Counts\<close>

lemma sum_counts: "set xs \<subseteq> set ks \<Longrightarrow> distinct ks \<Longrightarrow> sum_list (map (count_list xs) ks) = length xs"
  by (simp add: sum_list_distinct_conv_sum_set sum_count_set)

text \<open>A grouped count lists every value once, in order, with a positive count; the counts add up to the rows.\<close>

lemma group_counts_props:
  "sorted_wrt (<) (map fst (group_counts xs))" "set (map fst (group_counts xs)) = set xs"
  "sum_list (map snd (group_counts xs)) = length xs"
proof -
  have ks: "map fst (group_counts xs) = remdups (sort xs)" by (simp add: group_counts_def o_def)
  have d: "distinct (remdups (sort xs))" by simp
  show "sorted_wrt (<) (map fst (group_counts xs))"
    unfolding ks using d by (simp add: strict_sorted_iff sorted_remdups)
  show "set (map fst (group_counts xs)) = set xs" unfolding ks by simp
  have "map snd (group_counts xs) = map (count_list xs) (remdups (sort xs))" by (simp add: group_counts_def o_def)
  then show "sum_list (map snd (group_counts xs)) = length xs" using sum_counts[OF _ d, of xs] by simp
qed

lemma status_counts_sum:
  "sum_list (map (\<lambda>st. count_where (\<lambda>n. f n = st) xs) enum_class.enum) = length xs" for f :: "'r \<Rightarrow> notification_status"
proof -
  have "count_where (\<lambda>n. f n = st) xs = count_list (map f xs) st" for st
    by (induction xs) (simp_all add: count_where_def)
  then have "sum_list (map (\<lambda>st. count_where (\<lambda>n. f n = st) xs) enum_class.enum) = sum_list (map (count_list (map f xs)) enum_class.enum)"
    by simp
  also have "\<dots> = length (map f xs)"
    by (rule sum_counts) (simp_all add: enum_distinct flip: UNIV_enum)
  finally show ?thesis by simp
qed

section \<open>The status page\<close>

text \<open>
  The status page always answers an administrator, says degraded exactly when a dependency failed, and
  counts the work truly: every status once, all notifications accounted for, and as many stuck ones as
  the watchdog would put back in the queue at that moment.
\<close>

theorem status_page_counts_the_work:
  assumes "user_is_staff caller" and "distinct (map ntf_id (notifications s))"
  shows "\<exists>p. admin_status_view cfg now caller database link workers exchange q = Reply 200 p \<and>
    (as_status p = Check_Degraded \<longleftrightarrow> (\<exists>e. database = Fails e) \<or> (\<exists>e. link = Fails e) \<or> (\<exists>e. workers = Fails e) \<or> (\<exists>e. exchange = Fails e)) \<and>
    (q_notifications q = Works s \<longrightarrow> (\<exists>counts. mv_notifications (as_metrics p) = Works counts \<and> distinct (map fst counts) \<and>
       sum_list (map snd counts) = length (notifications s))) \<and>
    (q_stuck q = Works s \<longrightarrow> mv_stuck (as_metrics p) = Works (snd (requeue_stuck_processing_notifications_task cfg now s)))"
proof -
  obtain s' k where w: "requeue_stuck_processing_notifications_task cfg now s = (s', k)" by (metis surj_pair)
  have sweep: "\<exists>ks. distinct ks \<and> length ks = k \<and> set ks = ntf_id ` {n \<in> set (notifications s). stuck (processing_cutoff cfg now) n}"
    using watchdog.sweep_all[OF assms(2) w[unfolded requeue_stuck_processing_notifications_task_def]] by blast
  then have "k = card (ntf_id ` {n \<in> set (notifications s). stuck (processing_cutoff cfg now) n})" by (metis distinct_card)
  also have "\<dots> = length (filter (stuck (processing_cutoff cfg now)) (notifications s))"
  proof -
    have "distinct (map ntf_id (filter (stuck (processing_cutoff cfg now)) (notifications s)))"
      using assms(2) by (simp add: distinct_map inj_on_def)
    then show ?thesis using distinct_card[of "map ntf_id (filter (stuck (processing_cutoff cfg now)) (notifications s))"] by simp
  qed
  finally have stuck: "count_where (stuck (processing_cutoff cfg now)) (notifications s) = k" by (simp add: count_where_def)
  have deg: "overall [check_reachable database, check_reachable link, check_celery_workers workers, check_exchange exchange] = Check_Degraded \<longleftrightarrow>
      (\<exists>e. database = Fails e) \<or> (\<exists>e. link = Fails e) \<or> (\<exists>e. workers = Fails e) \<or> (\<exists>e. exchange = Fails e)"
    by (cases database; cases link; cases workers; cases exchange)
      (simp_all add: overall_def check_reachable_def check_celery_workers_def check_exchange_def failed_check_def)
  have fsts: "map fst (map (\<lambda>st. (st, f st)) xs) = xs" for f :: "notification_status \<Rightarrow> nat" and xs
    by (simp add: o_def)
  have sums: "sum_list (map snd (map (\<lambda>st. (st, count_where (\<lambda>n. ntf_status n = st) (notifications s))) enum_class.enum)) = length (notifications s)"
    using status_counts_sum[of ntf_status "notifications s"] by (simp add: o_def)
  show ?thesis
    using assms(1) stuck w deg fsts[of _ "enum_class.enum"] sums enum_distinct[where 'a = notification_status]
    by (simp add: admin_status_view_def collect_metrics_def)
qed

section \<open>The migration of addresses\<close>

lemma lower_suffix [simp]: "lower (alias_suffix cfg) = alias_suffix cfg"
  by (simp add: alias_suffix_def lower_def)

lemma generated_current:
  assumes "alias_suffix cfg \<noteq> []"
  shows "is_current_format cfg (generate_alias cfg slugified hex)"
proof -
  obtain w where g: "generate_alias cfg slugified hex = w @ CHR ''-'' # hex @ alias_suffix cfg" by (rule generate_alias_shape)
  have low: "lower (generate_alias cfg slugified hex) = (lower w @ lower_char CHR ''-'' # lower hex) @ alias_suffix cfg"
    unfolding g by (simp add: lower_append lower_Cons)
  then have "ends_with (lower (generate_alias cfg slugified hex)) (alias_suffix cfg)" unfolding ends_with_iff by blast
  then show ?thesis using assms by (simp add: is_current_format_def Let_def low)
qed

lemma migrate_one_saved:
  assumes "migrate_one env dr a w = (w', Saved b)" and "app_id a \<noteq> 0" and "alias_suffix (env_config env) \<noteq> []"
  shows "\<exists>r. applications (fst w') = map (\<lambda>x. if app_id x = app_id a then r else x) (applications (fst w)) \<and>
    app_id r = app_id a \<and> app_owner r = app_owner a \<and> is_current_format (env_config env) (inbound_email_alias r)"
proof -
  let ?a = "a\<lparr>inbound_email_alias := [], inbound_email_suffix := []\<rparr>"
  obtain s calls where w: "w = (s, calls)" by (metis surj_pair)
  obtain s1 calls1 c where save: "save_application env dr ?a (s, calls) = ((s1, calls1), Saved c)" and s1: "fst w' = s1"
    using assms(1) unfolding migrate_one_def w by (auto split: prod.splits save_outcome.splits)
  obtain n where n: "allocated env dr (fill_defaults env dr ?a) (List.find (accepted env dr (fill_defaults env dr ?a) s) [0..<12]) (consumed n s) calls
      (save_application env dr ?a (s, calls))"
    using save_allocates[of ?a env dr s calls] by auto
  then obtain j row where row: "write_application (candidate env dr (fill_defaults env dr ?a) j) (consumed n s) = (s1, Some row)"
    using save by (auto simp: allocated_def split: option.splits)
  have "row = candidate env dr (fill_defaults env dr ?a) j"
    "s1 = put_applications (\<lambda>r. app_id r = app_id a) (\<lambda>_. row) (consumed n s)"
    using row assms(2) by (auto simp: write_application_def candidate_def Let_def split: if_splits)
  then have "applications s1 = map (\<lambda>x. if app_id x = app_id a then row else x) (applications s)" "app_id row = app_id a" "app_owner row = app_owner a"
    by (simp_all add: put_applications_def update_where_def candidate_def Let_def)
  moreover have "is_current_format (env_config env) (inbound_email_alias row)"
    unfolding \<open>row = _\<close> candidate_def Let_def by (simp add: generated_current[OF assms(3)])
  ultimately show ?thesis unfolding s1 w fst_conv by blast
qed

lemma migrate_all_done:
  assumes "migrate_all env drs as w = (w', None)" and "\<forall>a \<in> set as. app_id a \<noteq> 0" and "alias_suffix (env_config env) \<noteq> []"
  shows "\<exists>f. applications (fst w') = map f (applications (fst w)) \<and> (\<forall>r. app_id (f r) = app_id r) \<and>
    (\<forall>r. app_id r \<notin> app_id ` set as \<longrightarrow> f r = r) \<and>
    (\<forall>r. app_id r \<in> app_id ` set as \<longrightarrow> is_current_format (env_config env) (inbound_email_alias (f r)))"
  using assms(1,2)
proof (induction as arbitrary: w)
  case Nil
  then show ?case by (intro exI[of _ id]) simp
next
  case (Cons a as)
  obtain w1 r1 where one: "migrate_one env (drs (app_id a)) a w = (w1, r1)" by (metis surj_pair)
  then obtain b where b: "r1 = Saved b" and rest: "migrate_all env drs as w1 = (w', None)"
    using Cons.prems(1) by (cases r1) auto
  obtain r where r: "applications (fst w1) = map (\<lambda>x. if app_id x = app_id a then r else x) (applications (fst w))"
    "app_id r = app_id a" "is_current_format (env_config env) (inbound_email_alias r)"
    using migrate_one_saved[OF one[unfolded b] _ assms(3)] Cons.prems(2) by auto
  obtain f where f: "applications (fst w') = map f (applications (fst w1))" "\<And>x. app_id (f x) = app_id x"
    "\<And>x. app_id x \<notin> app_id ` set as \<Longrightarrow> f x = x"
    "\<And>x. app_id x \<in> app_id ` set as \<Longrightarrow> is_current_format (env_config env) (inbound_email_alias (f x))"
    using Cons.IH[OF rest] Cons.prems(2) by auto
  let ?g = "\<lambda>x. f (if app_id x = app_id a then r else x)"
  have cur: "is_current_format (env_config env) (inbound_email_alias (?g x))" if "app_id x \<in> app_id ` set (a # as)" for x
  proof (cases "app_id x \<in> app_id ` set as")
    case True
    then show ?thesis using f(4)[of x] f(4)[of r] r(2) by auto
  next
    case False
    then have e: "app_id x = app_id a" using that by simp
    then have "f r = r" using False f(3)[of r] r(2) by simp
    then show ?thesis using e r(3) by simp
  qed
  have "applications (fst w') = map ?g (applications (fst w))" unfolding f(1) r(1) by (simp add: o_def)
  moreover have "\<forall>x. app_id (?g x) = app_id x" using f(2) r(2) by simp
  moreover have "\<forall>x. app_id x \<notin> app_id ` set (a # as) \<longrightarrow> ?g x = x" using f(3) by auto
  ultimately show ?case using cur by (intro exI[of _ ?g]) blast
qed

text \<open>
  C40. The migration of addresses is complete and idempotent: a run that ends leaves every application
  with an address that routes and is not due for migration, keeps those that were not due (and the keys
  and the order of all) exactly as they were, and a second run finds nothing to do: it changes no row and
  calls no hook. A dry run never changes anything.
\<close>

theorem alias_migration_is_idempotent:
  assumes "apps_ok (fst w)" and "alias_suffix (env_config env) \<noteq> []"
    and "regenerate_inbound_aliases env drs False prefixed w = (w', None)"
  shows "list_all (\<lambda>a. is_alias_local_part (env_config env) (inbound_email_alias a) \<and>
      \<not> needs_migration (env_config env) prefixed (inbound_email_alias a)) (applications (fst w')) \<and>
    map app_id (applications (fst w')) = map app_id (applications (fst w)) \<and>
    {a \<in> set (applications (fst w)). \<not> needs_migration (env_config env) prefixed (inbound_email_alias a)} \<subseteq> set (applications (fst w')) \<and>
    regenerate_inbound_aliases env drs2 False prefixed w' = (w', None) \<and>
    regenerate_inbound_aliases env drs True prefixed w = (w, None)"
proof -
  let ?cfg = "env_config env" let ?due = "\<lambda>a. needs_migration ?cfg prefixed (inbound_email_alias a)"
  let ?as = "aliases_to_migrate ?cfg prefixed (fst w)"
  have as: "set ?as = {a \<in> set (applications (fst w)). ?due a}" by (auto simp: aliases_to_migrate_def)
  have ids: "distinct (map app_id (applications (fst w)))" "\<And>a. a \<in> set (applications (fst w)) \<Longrightarrow> app_id a \<noteq> 0"
    using assms(1) by (simp_all add: apps_ok_def)
  have nz: "\<forall>a \<in> set ?as. app_id a \<noteq> 0" using ids(2) unfolding as by simp
  have run: "migrate_all env drs ?as w = (w', None)" using assms(3) by (simp add: regenerate_inbound_aliases_def)
  obtain f where f0: "applications (fst w') = map f (applications (fst w)) \<and> (\<forall>r. app_id (f r) = app_id r) \<and>
    (\<forall>r. app_id r \<notin> app_id ` set ?as \<longrightarrow> f r = r) \<and>
    (\<forall>r. app_id r \<in> app_id ` set ?as \<longrightarrow> is_current_format ?cfg (inbound_email_alias (f r)))"
    by (rule exE[OF migrate_all_done[OF run nz assms(2)]])
  note f = f0[THEN conjunct1] f0[THEN conjunct2, THEN conjunct1, rule_format]
    f0[THEN conjunct2, THEN conjunct2, THEN conjunct1, rule_format] f0[THEN conjunct2, THEN conjunct2, THEN conjunct2, rule_format]
  have inj: "a = b" if "a \<in> set (applications (fst w))" "b \<in> set (applications (fst w))" "app_id a = app_id b" for a b
    by (rule inj_onD[OF ids(1)[unfolded distinct_map, THEN conjunct2] that(3,1,2)])
  have kept: "f a = a" if "a \<in> set (applications (fst w))" "\<not> ?due a" for a
  proof (rule f(3))
    show "app_id a \<notin> app_id ` set ?as"
    proof
      assume "app_id a \<in> app_id ` set ?as"
      then obtain b where b: "b \<in> set (applications (fst w))" "?due b" "app_id a = app_id b" unfolding as by blast
      show False using inj[OF that(1) b(1,3)] b(2) that(2) by simp
    qed
  qed
  have routes: "is_alias_local_part ?cfg v" if "\<not> needs_migration ?cfg prefixed v" for v
    using that by (auto simp: needs_migration_def is_alias_local_part_def split: if_splits)
  have fine: "\<not> ?due (f a)" if a: "a \<in> set (applications (fst w))" for a
  proof (cases "?due a")
    case True
    then have "a \<in> set ?as" using a unfolding as by simp
    then have "is_current_format ?cfg (inbound_email_alias (f a))" by (intro f(4) imageI)
    then show ?thesis by (simp add: needs_migration_def)
  next
    case False
    then show ?thesis using kept[OF a] by simp
  qed
  have all: "list_all (\<lambda>a. is_alias_local_part ?cfg (inbound_email_alias a) \<and> \<not> ?due a) (applications (fst w'))"
    unfolding f(1) list_all_iff using fine routes by auto
  then have "aliases_to_migrate ?cfg prefixed (fst w') = []"
    unfolding aliases_to_migrate_def filter_empty_conv by (auto simp: list_all_iff)
  then have "regenerate_inbound_aliases env drs2 False prefixed w' = (w', None)" by (simp add: regenerate_inbound_aliases_def)
  moreover have "{a \<in> set (applications (fst w)). \<not> ?due a} \<subseteq> set (applications (fst w'))"
    unfolding f(1) using kept by force
  moreover have "map app_id (applications (fst w')) = map app_id (applications (fst w))" unfolding f(1) by (simp add: f(2) o_def)
  ultimately show ?thesis using all by (simp add: regenerate_inbound_aliases_def)
qed

section \<open>Concrete operations\<close>

definition legacy_world :: world where
  "legacy_world = (life_db\<lparr>applications := [first_app\<lparr>inbound_email_alias := ''old''\<rparr>, second_app]\<rparr>, [])"

theorem alias_migration_is_idempotent_witness:
  "regenerate_inbound_aliases life_env (\<lambda>_. life_draws) False False
     (fst (regenerate_inbound_aliases life_env (\<lambda>_. life_draws) False False legacy_world)) =
   (fst (regenerate_inbound_aliases life_env (\<lambda>_. life_draws) False False legacy_world), None) \<and>
   aliases_to_migrate (env_config life_env) False (fst legacy_world) \<noteq> []"
proof
  obtain w' e where r: "regenerate_inbound_aliases life_env (\<lambda>_. life_draws) False False legacy_world = (w', e)" by (metis surj_pair)
  have "snd (regenerate_inbound_aliases life_env (\<lambda>_. life_draws) False False legacy_world) = None" by code_simp
  then have e: "e = None" by (simp add: r)
  have "apps_ok (fst legacy_world)" by code_simp
  moreover have "alias_suffix (env_config life_env) \<noteq> []" by code_simp
  ultimately have "regenerate_inbound_aliases life_env (\<lambda>_. life_draws) False False w' = (w', None)"
    using alias_migration_is_idempotent[OF _ _ r[unfolded e]] by blast
  then show "regenerate_inbound_aliases life_env (\<lambda>_. life_draws) False False
     (fst (regenerate_inbound_aliases life_env (\<lambda>_. life_draws) False False legacy_world)) =
   (fst (regenerate_inbound_aliases life_env (\<lambda>_. life_draws) False False legacy_world), None)" unfolding r by simp
  show "aliases_to_migrate (env_config life_env) False (fst legacy_world) \<noteq> []" by code_simp
qed

theorem status_page_counts_the_work_witness:
  "\<exists>p. admin_status_view default_config 0 (blank_user\<lparr>user_is_staff := True\<rparr>) (Works ()) (Works ()) (Works 0) (Fails ''x'')
     \<lparr>q_applications = Works busy_db, q_devices = Works busy_db, q_notifications = Works busy_db, q_stuck = Works busy_db\<rparr> = Reply 200 p \<and>
   as_status p = Check_Degraded"
proof -
  have "user_is_staff (blank_user\<lparr>user_is_staff := True\<rparr>)" "distinct (map ntf_id (notifications busy_db))" by code_simp+
  from status_page_counts_the_work[OF this, of default_config 0 "Works ()" "Works ()" "Works 0" "Fails ''x''"
      "\<lparr>q_applications = Works busy_db, q_devices = Works busy_db, q_notifications = Works busy_db, q_stuck = Works busy_db\<rparr>"]
  show ?thesis by blast
qed

end
