(* ===== verification/Startup.thy ===== *)
theory Startup
  imports Operations Senders Inbound Accounts
begin

text \<open>
  The start of a process (\<open>config/settings/\<close>): which settings are chosen, what each group of variables gives,
  what stops the start, and what the components may rely on once it succeeded.
\<close>

section \<open>The environment of a process\<close>

text \<open>
  \<open>os_environ\<close> is the environment the process is given. \<open>read_env\<close> is the library that adds the lines
  of the file \<open>.env\<close> to it, \<open>read_var\<close> what it finds under a name (\<open>None\<close>: the default holds), and
  the casts are those of the library: of a truth value, of a list, of a number (\<open>None\<close>: \<open>ValueError\<close>).
\<close>

type_synonym variables = "string \<Rightarrow> string option"

record deployment =
  os_environ :: variables
  read_env :: "variables \<Rightarrow> variables"
  read_var :: "variables \<Rightarrow> string \<Rightarrow> string option"
  cast_bool :: "string \<Rightarrow> bool"
  cast_list :: "string \<Rightarrow> string list"
  cast_int :: "string \<Rightarrow> int option"
  cast_float_ok :: "string \<Rightarrow> bool"
  base_dir :: string

datatype start_error = Value_Error string | Overflow_Error string | Improperly_Configured string

definition env_str :: "deployment \<Rightarrow> variables \<Rightarrow> string \<Rightarrow> string \<Rightarrow> string" where
  "env_str d v name dflt = (case read_var d v name of None \<Rightarrow> dflt | Some s \<Rightarrow> s)"

definition env_bool :: "deployment \<Rightarrow> variables \<Rightarrow> string \<Rightarrow> bool \<Rightarrow> bool" where
  "env_bool d v name dflt = (case read_var d v name of None \<Rightarrow> dflt | Some s \<Rightarrow> cast_bool d s)"

definition env_list :: "deployment \<Rightarrow> variables \<Rightarrow> string \<Rightarrow> string list \<Rightarrow> string list" where
  "env_list d v name dflt = (case read_var d v name of None \<Rightarrow> dflt | Some s \<Rightarrow> cast_list d s)"

definition env_int :: "deployment \<Rightarrow> variables \<Rightarrow> string \<Rightarrow> int \<Rightarrow> int option" where
  "env_int d v name dflt = (case read_var d v name of None \<Rightarrow> Some dflt | Some s \<Rightarrow> cast_int d s)"

text \<open>The number of a variable that is known to be readable.\<close>

definition env_number :: "deployment \<Rightarrow> variables \<Rightarrow> string \<Rightarrow> int \<Rightarrow> int" where
  "env_number d v name dflt = (case env_int d v name dflt of None \<Rightarrow> dflt | Some i \<Rightarrow> i)"

text \<open>\<open>str(Path(s))\<close>: empty parts and dots go. \<open>BASE_DIR / s\<close>: an absolute right side wins.\<close>

definition path_text :: "string \<Rightarrow> string" where
  "path_text s =
     (let root = (if starts_with s ''//'' \<and> \<not> starts_with s ''///'' then ''//''
                  else if starts_with s ''/'' then ''/'' else []);
          parts = filter (\<lambda>p. p \<noteq> [] \<and> p \<noteq> ''.'') (split_on CHR ''/'' s)
      in if root = [] \<and> parts = [] then ''.'' else root @ join ''/'' parts)"

definition under :: "string \<Rightarrow> string \<Rightarrow> string" where
  "under base s = path_text (if starts_with s ''/'' then s else base @ ''/'' @ s)"

definition with_name :: "string \<Rightarrow> string \<Rightarrow> string" where
  "with_name p n = (if CHR ''/'' \<in> set p then before_last CHR ''/'' p @ ''/'' @ n else n)"

section \<open>Which settings\<close>

datatype settings_kind = Prod_Settings | Test_Settings | Dev_Settings

definition choose_settings :: "variables \<Rightarrow> settings_kind" where
  "choose_settings os =
     (let settings_env = lower (strip (case os ''DJANGO_ENV'' of None \<Rightarrow> [] | Some s \<Rightarrow> s));
          state = upper (strip (case os ''STATE'' of None \<Rightarrow> ''DEV'' | Some s \<Rightarrow> s))
      in if settings_env = ''prod'' \<or> state = ''PROD'' then Prod_Settings
         else if settings_env = ''test'' then Test_Settings
         else Dev_Settings)"

section \<open>Groups of settings\<close>

record database_settings =
  db_engine :: string
  db_name :: string
  db_host :: string
  db_port :: string
  db_user :: string
  db_password :: string
  db_row_locking :: bool
  db_timeout :: "int option"

definition db_engine_aliases :: "(string \<times> string) list" where
  "db_engine_aliases = [(''sqlite3'', ''django.db.backends.sqlite3''),
     (''postgresql'', ''django.db.backends.postgresql''), (''postgres'', ''django.db.backends.postgresql'')]"

definition engine_of :: "string \<Rightarrow> string" where
  "engine_of raw = (case map_of db_engine_aliases raw of None \<Rightarrow> raw | Some n \<Rightarrow> n)"

definition database_settings_of :: "deployment \<Rightarrow> variables \<Rightarrow> database_settings" where
  "database_settings_of d v =
     (let sqlite_name = path_text (env_str d v ''SQLITE_NAME'' (under (base_dir d) ''db.sqlite3''));
          named = strip (env_str d v ''DB_NAME'' []);
          engine = engine_of (env_str d v ''DB_ENGINE'' ''sqlite3'');
          locking = (\<not> contains engine ''sqlite'')
      in \<lparr>db_engine = engine, db_name = (if named \<noteq> [] then named else sqlite_name),
          db_host = env_str d v ''DB_HOST'' [], db_port = env_str d v ''DB_PORT'' [],
          db_user = env_str d v ''DB_USER'' [], db_password = env_str d v ''DB_PASSWORD'' [],
          db_row_locking = locking,
          db_timeout = (if locking then None else Some (env_number d v ''SQLITE_TIMEOUT'' 5))\<rparr>)"

record sentry_settings =
  sentry_dsn :: string
  sentry_environment :: string
  sentry_sample_rate :: string
  sentry_pii :: bool

definition sentry_label :: "deployment \<Rightarrow> variables \<Rightarrow> string" where
  "sentry_label d v = (let label = env_str d v ''SENTRY_ENVIRONMENT'' [] in
     if label \<noteq> [] then label else env_str d v ''STATE'' ''DEV'')"

text \<open>The gate reads \<open>DJANGO_ENV\<close> of the process once \<open>.env\<close> is loaded, and \<open>STATE\<close> through the library.\<close>

definition sentry_active :: "deployment \<Rightarrow> variables \<Rightarrow> bool" where
  "sentry_active d v \<longleftrightarrow>
     env_str d v ''SENTRY_DSN'' [] \<noteq> [] \<and>
     (lower (strip (case v ''DJANGO_ENV'' of None \<Rightarrow> [] | Some s \<Rightarrow> s)) = ''prod''
      \<or> upper (strip (env_str d v ''STATE'' ''DEV'')) = ''PROD'') \<and>
     upper (strip (sentry_label d v)) \<in> {''PROD'', ''PRODUCTION''}"

definition sentry_of :: "deployment \<Rightarrow> variables \<Rightarrow> sentry_settings option" where
  "sentry_of d v = (if sentry_active d v
     then Some \<lparr>sentry_dsn = env_str d v ''SENTRY_DSN'' [], sentry_environment = sentry_label d v,
                sentry_sample_rate = env_str d v ''SENTRY_TRACES_SAMPLE_RATE'' ''0.0'',
                sentry_pii = env_bool d v ''SENTRY_SEND_PII'' False\<rparr>
     else None)"

text \<open>\<open>before_send\<close>: an event is dropped for a refused host, by its exception or by its logger.\<close>

definition sentry_sends :: "bool \<Rightarrow> string \<Rightarrow> bool" where
  "sentry_sends disallowed_host logger \<longleftrightarrow>
     \<not> disallowed_host \<and> \<not> starts_with logger ''django.security.DisallowedHost''"

text \<open>\<open>[k.strip() for k in raw.split(",") if k.strip()]\<close>\<close>

definition parse_keys :: "string \<Rightarrow> string list" where
  "parse_keys raw = filter (\<lambda>k. k \<noteq> []) (map strip (split_on CHR '','' raw))"

record account_settings =
  cookie_name :: string
  cookie_path :: string
  cookie_secure :: bool
  cors_origins :: "string list"
  cors_headers :: "string list"
  csrf_trusted :: "string list"
  magic_link_minutes :: int
  jwt_access :: int
  jwt_refresh :: int
  turnstile_site :: string
  turnstile_secret :: string
  app_token_keys :: "string list"

definition cors_origins_of :: "deployment \<Rightarrow> variables \<Rightarrow> string list" where
  "cors_origins_of d v =
     env_list d v ''CORS_ALLOWED_ORIGINS'' [''http://localhost:4200'', ''http://127.0.0.1:4200'']"

text \<open>\<open>library_headers\<close> are the request headers the CORS library allows by default.\<close>

definition account_settings_of :: "string list \<Rightarrow> deployment \<Rightarrow> variables \<Rightarrow> account_settings" where
  "account_settings_of library_headers d v =
     \<lparr>cookie_name = env_str d v ''AUTH_REFRESH_COOKIE_NAME'' ''pushit_refresh'',
      cookie_path = ''/api/v1/auth/'',
      cookie_secure = env_bool d v ''AUTH_REFRESH_COOKIE_SECURE'' True,
      cors_origins = cors_origins_of d v,
      cors_headers = library_headers @ [''x-app-token'', ''sentry-trace'', ''baggage'', ''x-auth-mode''],
      csrf_trusted = env_list d v ''CSRF_TRUSTED_ORIGINS'' [],
      magic_link_minutes = env_number d v ''MAGIC_LINK_TTL_MINUTES'' 15,
      jwt_access = env_number d v ''JWT_ACCESS_MINUTES'' 15 * minute,
      jwt_refresh = env_number d v ''JWT_REFRESH_DAYS'' 365 * day,
      turnstile_site = env_str d v ''TURNSTILE_SITE_KEY'' [],
      turnstile_secret = env_str d v ''TURNSTILE_SECRET_KEY'' [],
      app_token_keys = parse_keys (env_str d v ''APP_TOKEN_ENCRYPTION_KEYS'' [])\<rparr>"

record exchange_settings =
  ex_graph_tenant :: string
  ex_graph_client :: string
  ex_graph_secret :: string
  ex_script_path :: string
  ex_app_id :: string
  ex_tenant :: string
  ex_cert_thumbprint :: string
  ex_cert_file_path :: string
  ex_cert_password :: string
  ex_timeout :: int

definition exchange_settings_of :: "deployment \<Rightarrow> variables \<Rightarrow> exchange_settings" where
  "exchange_settings_of d v =
     \<lparr>ex_graph_tenant = env_str d v ''GRAPH_TENANT_ID'' [],
      ex_graph_client = env_str d v ''GRAPH_CLIENT_ID'' [],
      ex_graph_secret = env_str d v ''GRAPH_CLIENT_SECRET'' [],
      ex_script_path = env_str d v ''EXCHANGE_PS_SCRIPT_PATH''
        (under (base_dir d) ''scripts/exchange/manage_alias.ps1''),
      ex_app_id = env_str d v ''EXCHANGE_APP_ID'' [],
      ex_tenant = env_str d v ''EXCHANGE_TENANT'' [],
      ex_cert_thumbprint = env_str d v ''EXCHANGE_CERT_THUMBPRINT'' [],
      ex_cert_file_path = env_str d v ''EXCHANGE_CERT_FILE_PATH'' [],
      ex_cert_password = env_str d v ''EXCHANGE_CERT_PASSWORD'' [],
      ex_timeout = env_number d v ''EXCHANGE_PS_TIMEOUT'' 60\<rparr>"

section \<open>The schedule of the beat\<close>

datatype beat_task = Dispatch_Scheduled | Retry_Pending | Poll_Mailbox | Requeue_Stuck | Flush_Tokens | Purge_Data

text \<open>\<open>crontab(minute="*")\<close> is every minute, \<open>crontab(hour=h, minute=m)\<close> that minute of every day.\<close>

datatype crontab = Every_Minute | Daily nat nat

definition beat_schedule :: "(beat_task \<times> crontab) list" where
  "beat_schedule =
     [(Dispatch_Scheduled, Every_Minute), (Retry_Pending, Every_Minute), (Poll_Mailbox, Every_Minute),
      (Requeue_Stuck, Every_Minute), (Flush_Tokens, Daily 3 30), (Purge_Data, Daily 3 45)]"

fun crontab_due :: "nat \<Rightarrow> crontab \<Rightarrow> bool" where
  "crontab_due now Every_Minute = True"
| "crontab_due now (Daily h m) = (now mod 1440 = 60 * h + m)"

text \<open>The tasks of a minute, counted from midnight in the zone of the settings.\<close>

definition beats_at :: "nat \<Rightarrow> beat_task list" where
  "beats_at now = map fst (filter (\<lambda>(t, c). crontab_due now c) beat_schedule)"

record worker_settings =
  cache_url :: "string option"
  cache_prefix :: string
  broker_url :: string
  result_backend :: string
  default_queue :: string
  max_tasks_per_child :: int
  max_memory_per_child :: int
  tasks_eager :: bool

definition worker_settings_of :: "deployment \<Rightarrow> variables \<Rightarrow> worker_settings" where
  "worker_settings_of d v =
     (let cache = env_str d v ''CACHE_URL'' [];
          redis = env_str d v ''REDIS_URL'' ''redis://127.0.0.1:6379/0''
      in \<lparr>cache_url = (if cache \<noteq> [] then Some cache else None),
          cache_prefix = (if cache \<noteq> [] then ''pushit'' else []),
          broker_url = env_str d v ''CELERY_BROKER_URL'' redis,
          result_backend = env_str d v ''CELERY_RESULT_BACKEND'' redis,
          default_queue = env_str d v ''CELERY_TASK_DEFAULT_QUEUE'' ''celery'',
          max_tasks_per_child = env_number d v ''CELERY_WORKER_MAX_TASKS_PER_CHILD'' 200,
          max_memory_per_child = env_number d v ''CELERY_WORKER_MAX_MEMORY_PER_CHILD'' 200000,
          tasks_eager = False\<rparr>)"

section \<open>The settings the components read\<close>

definition delivery_config :: "deployment \<Rightarrow> variables \<Rightarrow> config \<Rightarrow> config" where
  "delivery_config d v c = c\<lparr>
      public_media_base_url := env_str d v ''PUBLIC_MEDIA_BASE_URL'' ''https://pushit-api.foxugly.com'',
      frontend_base_url := env_str d v ''FRONTEND_BASE_URL'' ''https://pushit.foxugly.com'',
      push_delivery_mode := env_str d v ''PUSH_DELIVERY_MODE'' ''hybrid'',
      fcm_service_account_path := env_str d v ''FCM_SERVICE_ACCOUNT_PATH'' [],
      force_mock_push := env_bool d v ''PUSHIT_FORCE_MOCK_PUSH'' False,
      billing_base_url := env_str d v ''BILLING_BASE_URL'' [],
      billing_app_secret := env_str d v ''BILLING_APP_SECRET'' []\<rparr>"

definition retention_config :: "deployment \<Rightarrow> variables \<Rightarrow> config \<Rightarrow> config" where
  "retention_config d v c = c\<lparr>
      retention_notification_days := env_number d v ''RETENTION_NOTIFICATION_DAYS'' 365,
      retention_inbound_email_log_days := env_number d v ''RETENTION_INBOUND_EMAIL_LOG_DAYS'' 90,
      retention_invalid_device_days := env_number d v ''RETENTION_INVALID_DEVICE_DAYS'' 30,
      processing_stuck_minutes := env_number d v ''NOTIFICATION_PROCESSING_STUCK_MINUTES'' 15\<rparr>"

definition inbound_config :: "deployment \<Rightarrow> variables \<Rightarrow> config \<Rightarrow> config" where
  "inbound_config d v c = c\<lparr>
      inbound_email_domain := env_str d v ''INBOUND_EMAIL_DOMAIN'' ''foxugly.com'',
      inbound_email_alias_suffix := env_str d v ''INBOUND_EMAIL_ALIAS_SUFFIX'' ''.pushit'',
      max_processing_attempts := env_number d v ''INBOUND_EMAIL_MAX_PROCESSING_ATTEMPTS'' 5,
      auto_reply_interval_seconds := env_number d v ''INBOUND_EMAIL_AUTO_REPLY_INTERVAL_SECONDS'' 3600,
      poll_lock_ttl_seconds := env_number d v ''INBOUND_EMAIL_POLL_LOCK_TTL_SECONDS'' 300,
      require_dmarc := env_bool d v ''INBOUND_EMAIL_REQUIRE_DMARC'' False,
      dmarc_accept_bestguesspass := env_bool d v ''INBOUND_EMAIL_DMARC_ACCEPT_BESTGUESSPASS'' True,
      dmarc_allow_no_policy := env_bool d v ''INBOUND_EMAIL_DMARC_ALLOW_NO_POLICY'' False,
      dmarc_trust_internal := env_bool d v ''INBOUND_EMAIL_DMARC_TRUST_INTERNAL'' True,
      dmarc_notify_owner := env_bool d v ''INBOUND_EMAIL_DMARC_NOTIFY_OWNER'' True,
      graph_mailbox_user_id := env_str d v ''GRAPH_SENDER'' [],
      exchange_shared_mailbox := env_str d v ''EXCHANGE_SHARED_MAILBOX'' []\<rparr>"

definition config_of :: "deployment \<Rightarrow> variables \<Rightarrow> config" where
  "config_of d v = inbound_config d v (retention_config d v (delivery_config d v
     (default_config\<lparr>db_supports_row_locking := db_row_locking (database_settings_of d v)\<rparr>)))"

section \<open>\<open>base.py\<close>\<close>

record transport_settings =
  ssl_redirect :: bool
  session_cookie_secure :: bool
  csrf_cookie_secure :: bool
  proxy_ssl_header :: "string \<times> string"
  hsts_seconds :: int
  hsts_include_subdomains :: bool
  hsts_preload :: bool
  content_type_nosniff :: bool
  x_frame_options :: string
  referrer_policy :: string

text \<open>\<open>set_transport\<close> is \<open>None\<close> where the defaults of the framework stay.\<close>

record settings =
  set_secret_key :: string
  set_state :: string
  set_debug :: bool
  set_allowed_hosts :: "string list"
  set_installed_apps :: "string list"
  set_database :: database_settings
  set_accounts :: account_settings
  set_workers :: worker_settings
  set_exchange :: exchange_settings
  set_config :: config
  set_media_root :: string
  set_apk_path :: string
  set_apk_meta_path :: string
  set_billing_slug :: string
  set_metrics_token :: "string option"
  set_metrics_require_token :: bool
  set_sentry :: "sentry_settings option"
  set_password_hashers :: "string list option"
  set_transport :: "transport_settings option"

definition base_apps :: "string list" where
  "base_apps = [''django.contrib.admin'', ''django.contrib.auth'', ''django.contrib.contenttypes'',
     ''django.contrib.sessions'', ''django.contrib.messages'', ''django.contrib.staticfiles'', ''corsheaders'',
     ''rest_framework'', ''drf_spectacular'', ''rest_framework_simplejwt.token_blacklist'',
     ''accounts.apps.AccountsConfig'', ''applications.apps.ApplicationsConfig'', ''devices.apps.DevicesConfig'',
     ''notifications.apps.NotificationsConfig'', ''billing.apps.BillingConfig'', ''health.apps.HealthConfig'']"

definition base_middleware :: "string list" where
  "base_middleware = [''django.middleware.security.SecurityMiddleware'', ''corsheaders.middleware.CorsMiddleware'',
     ''django.contrib.sessions.middleware.SessionMiddleware'', ''django.middleware.common.CommonMiddleware'',
     ''config.middleware.RequestIdMiddleware'', ''config.middleware.MetricsMiddleware'',
     ''django.middleware.csrf.CsrfViewMiddleware'', ''django.contrib.auth.middleware.AuthenticationMiddleware'',
     ''django.contrib.messages.middleware.MessageMiddleware'', ''django.middleware.clickjacking.XFrameOptionsMiddleware'']"

text \<open>Requests in a minute by scope: the rates of the framework's throttles.\<close>

definition throttle_rates :: "(string \<times> nat) list" where
  "throttle_rates = [(''anon'', 30), (''user'', 120), (''login'', 10), (''register'', 5), (''password_reset'', 5),
     (''password_change'', 5), (''resend'', 3), (''magic_link'', 5), (''app_token'', 300)]"

text \<open>
  What raises while the module is executed, in the order of the file: a wildcard origin, a number that
  cannot be read, a lifetime that is not a \<open>timedelta\<close>, and, when Sentry starts, its rate.
\<close>

definition timedelta_ok :: "int \<Rightarrow> bool" where
  "timedelta_ok t \<longleftrightarrow> - 999999999 * day \<le> t \<and> t < 1000000000 * day"

definition readable :: "deployment \<Rightarrow> variables \<Rightarrow> string \<Rightarrow> start_error \<times> bool" where
  "readable d v name = (Value_Error name, env_int d v name 0 \<noteq> None)"

definition base_checks :: "deployment \<Rightarrow> variables \<Rightarrow> (start_error \<times> bool) list" where
  "base_checks d v =
     (Value_Error ''CORS_ALLOWED_ORIGINS'', ''*'' \<notin> set (cors_origins_of d v))
     # readable d v ''MAGIC_LINK_TTL_MINUTES''
     # (if db_row_locking (database_settings_of d v) then [] else [readable d v ''SQLITE_TIMEOUT''])
     @ map (readable d v) [''RETENTION_NOTIFICATION_DAYS'', ''RETENTION_INBOUND_EMAIL_LOG_DAYS'',
         ''RETENTION_INVALID_DEVICE_DAYS'', ''NOTIFICATION_PROCESSING_STUCK_MINUTES'',
         ''CELERY_WORKER_MAX_TASKS_PER_CHILD'', ''CELERY_WORKER_MAX_MEMORY_PER_CHILD'']
     @ [readable d v ''JWT_ACCESS_MINUTES'',
        (Overflow_Error ''JWT_ACCESS_MINUTES'', timedelta_ok (env_number d v ''JWT_ACCESS_MINUTES'' 15 * minute)),
        readable d v ''JWT_REFRESH_DAYS'',
        (Overflow_Error ''JWT_REFRESH_DAYS'', timedelta_ok (env_number d v ''JWT_REFRESH_DAYS'' 365 * day))]
     @ map (readable d v) [''INBOUND_EMAIL_MAX_PROCESSING_ATTEMPTS'', ''INBOUND_EMAIL_AUTO_REPLY_INTERVAL_SECONDS'',
         ''INBOUND_EMAIL_POLL_LOCK_TTL_SECONDS'', ''EXCHANGE_PS_TIMEOUT'']
     @ (case sentry_of d v of None \<Rightarrow> []
        | Some s \<Rightarrow> [(Value_Error ''SENTRY_TRACES_SAMPLE_RATE'',
                     read_var d v ''SENTRY_TRACES_SAMPLE_RATE'' = None \<or> cast_float_ok d (sentry_sample_rate s))])"

definition first_failure :: "(start_error \<times> bool) list \<Rightarrow> start_error option" where
  "first_failure cs = map_option fst (List.find (\<lambda>(failure, fine). \<not> fine) cs)"

definition base_settings :: "string list \<Rightarrow> deployment \<Rightarrow> variables \<Rightarrow> start_error + settings" where
  "base_settings library_headers d v =
     (case first_failure (base_checks d v) of
        Some failure \<Rightarrow> Inl failure
      | None \<Rightarrow> Inr
          (let apk = path_text (env_str d v ''ANDROID_APK_PATH'' ''/var/lib/pushit/apk/pushit.apk'')
           in \<lparr>set_secret_key = env_str d v ''SECRET_KEY'' ''dev-secret-key'',
               set_state = env_str d v ''STATE'' ''DEV'',
               set_debug = env_bool d v ''DEBUG'' False,
               set_allowed_hosts = env_list d v ''ALLOWED_HOSTS'' [''localhost'', ''127.0.0.1'', ''10.0.2.2''],
               set_installed_apps = base_apps,
               set_database = database_settings_of d v,
               set_accounts = account_settings_of library_headers d v,
               set_workers = worker_settings_of d v,
               set_exchange = exchange_settings_of d v,
               set_config = config_of d v,
               set_media_root = under (base_dir d) (env_str d v ''MEDIA_ROOT_DIR'' ''media''),
               set_apk_path = apk,
               set_apk_meta_path = path_text (env_str d v ''ANDROID_APK_META_PATH'' (with_name apk ''pushit.json'')),
               set_billing_slug = env_str d v ''BILLING_APP_SLUG'' ''pushit'',
               set_metrics_token = read_var d v ''METRICS_AUTH_TOKEN'',
               set_metrics_require_token = env_bool d v ''METRICS_REQUIRE_TOKEN'' False,
               set_sentry = sentry_of d v,
               set_password_hashers = None,
               set_transport = None\<rparr>))"

section \<open>\<open>prod.py\<close>, \<open>dev.py\<close>, \<open>test.py\<close>\<close>

definition prod_transport :: transport_settings where
  "prod_transport = \<lparr>ssl_redirect = True, session_cookie_secure = True, csrf_cookie_secure = True,
     proxy_ssl_header = (''HTTP_X_FORWARDED_PROTO'', ''https''), hsts_seconds = 31536000,
     hsts_include_subdomains = True, hsts_preload = True, content_type_nosniff = True,
     x_frame_options = ''DENY'', referrer_policy = ''same-origin''\<rparr>"

definition prod_settings :: "deployment \<Rightarrow> variables \<Rightarrow> settings \<Rightarrow> start_error + settings" where
  "prod_settings d v s =
     (let secret_key = strip (env_str d v ''SECRET_KEY'' []);
          hosts = env_list d v ''ALLOWED_HOSTS'' []
      in if secret_key = [] \<or> secret_key = ''dev-secret-key'' then Inl (Improperly_Configured ''SECRET_KEY'')
         else if hosts = [] then Inl (Improperly_Configured ''ALLOWED_HOSTS'')
         else Inr (s\<lparr>set_debug := False, set_state := ''PROD'', set_secret_key := secret_key,
                set_allowed_hosts := hosts, set_metrics_require_token := True,
                set_config := (set_config s)\<lparr>require_dmarc := env_bool d v ''INBOUND_EMAIL_REQUIRE_DMARC'' True\<rparr>,
                set_transport := Some prod_transport\<rparr>))"

definition eager :: "settings \<Rightarrow> settings" where
  "eager s = s\<lparr>set_workers := (set_workers s)\<lparr>tasks_eager := True\<rparr>\<rparr>"

definition dev_settings :: "deployment \<Rightarrow> variables \<Rightarrow> settings \<Rightarrow> settings" where
  "dev_settings d v s = eager (s\<lparr>set_debug := env_bool d v ''DEBUG'' False, set_state := ''DEV'',
     set_installed_apps := set_installed_apps s @ [''django_extensions'']\<rparr>)"

definition test_settings :: "settings \<Rightarrow> settings" where
  "test_settings s = eager (s\<lparr>set_debug := False, set_state := ''TEST'',
     set_password_hashers := Some [''django.contrib.auth.hashers.MD5PasswordHasher'']\<rparr>)"

text \<open>
  The module \<open>config.settings\<close> chooses by the environment the process is given; \<open>base.py\<close>, which it
  imports after that, loads \<open>.env\<close>.
\<close>

definition load_settings :: "string list \<Rightarrow> deployment \<Rightarrow> start_error + settings" where
  "load_settings library_headers d =
     (let v = read_env d (os_environ d) in
      case base_settings library_headers d v of
        Inl failure \<Rightarrow> Inl failure
      | Inr s \<Rightarrow>
         (case choose_settings (os_environ d) of
            Prod_Settings \<Rightarrow> prod_settings d v s
          | Test_Settings \<Rightarrow> Inr (test_settings s)
          | Dev_Settings \<Rightarrow> Inr (dev_settings d v s)))"

section \<open>What a start guarantees\<close>

lemma first_failure_None: "first_failure cs = None \<longleftrightarrow> (\<forall>c \<in> set cs. snd c)"
  by (induction cs) (auto simp: first_failure_def split: prod.splits)

lemma base_settings_Inr:
  assumes "base_settings hs d v = Inr s"
  shows "''*'' \<notin> set (cors_origins_of d v) \<and> set_accounts s = account_settings_of hs d v \<and>
    set_config s = config_of d v \<and> tasks_eager (set_workers s) = False \<and> set_sentry s = sentry_of d v \<and>
    set_metrics_token s = read_var d v ''METRICS_AUTH_TOKEN'' \<and> set_database s = database_settings_of d v"
proof -
  have "first_failure (base_checks d v) = None"
    using assms by (simp add: base_settings_def split: option.splits)
  then have "\<forall>c \<in> set (base_checks d v). snd c" by (simp only: first_failure_None)
  then have "''*'' \<notin> set (cors_origins_of d v)" unfolding base_checks_def by simp
  then show ?thesis
    using assms \<open>first_failure (base_checks d v) = None\<close>
    by (auto simp: base_settings_def Let_def worker_settings_of_def)
qed

lemma production_start:
  assumes "choose_settings (os_environ d) = Prod_Settings" "load_settings hs d = Inr s"
  defines "v \<equiv> read_env d (os_environ d)"
  shows "\<exists>b. base_settings hs d v = Inr b \<and> prod_settings d v b = Inr s"
  using assms by (auto simp: load_settings_def Let_def split: sum.splits)

lemma prod_settings_Inr:
  assumes "prod_settings d v b = Inr s"
  shows "set_debug s = False \<and> set_state s = ''PROD'' \<and> set_secret_key s \<notin> {[], ''dev-secret-key''} \<and>
    set_allowed_hosts s \<noteq> [] \<and> set_metrics_require_token s \<and> set_transport s = Some prod_transport \<and>
    set_workers s = set_workers b \<and> set_accounts s = set_accounts b \<and> set_metrics_token s = set_metrics_token b \<and>
    set_config s = (set_config b)\<lparr>require_dmarc := env_bool d v ''INBOUND_EMAIL_REQUIRE_DMARC'' True\<rparr>"
  using assms by (auto simp: prod_settings_def Let_def split: if_splits)

lemma unauthorised_mail_creates_nothing:
  assumes "\<And>a. \<not> authorised e (mw_db w) m a"
  shows "notifications (mw_db (fst (process_email e now m w))) = notifications (mw_db w)"
proof -
  obtain v r where p: "process_email e now m w = (v, r)" by (metis surj_pair)
  from p have "notifications (mw_db v) = notifications (mw_db w)"
  proof (cases rule: process_cases)
    case 1
    then show ?thesis by simp
  next
    case (2 reason)
    then show ?thesis using reject_sender_quiet[OF 2(2)] by (simp add: quiet_step_def core_def)
  next
    case 3
    then show ?thesis using reject_content_quiet[OF 3(1)] by (simp add: quiet_step_def core_def)
  next
    case (4 a)
    then show ?thesis using valid_mail[OF 4(1)] assms by blast
  qed
  then show ?thesis by (simp add: p)
qed

text \<open>Whether the provider of the mailbox vouches for the sender of a mail.\<close>

definition vouched :: "config \<Rightarrow> inbound_mail \<Rightarrow> bool" where
  "vouched cfg m \<longleftrightarrow> av_accepted (evaluate_sender_authentication cfg (strip (ge_authentication_results m))
     (after_last CHR ''@'' (lower (strip (ge_sender m)))) (strip (header m auth_as_header)))"


text \<open>A machine whose library reads variables as they are.\<close>

definition demo_deployment :: "(string \<times> string) list \<Rightarrow> (string \<times> string) list \<Rightarrow> deployment" where
  "demo_deployment given_vars dotenv =
     \<lparr>os_environ = map_of given_vars, read_env = (\<lambda>v. map_of dotenv ++ v), read_var = (\<lambda>v name. v name),
      cast_bool = (\<lambda>s. lower s \<in> {''true'', ''on'', ''ok'', ''y'', ''yes'', ''1''}), cast_list = split_on CHR '','',
      cast_int = (\<lambda>s. if s \<noteq> [] \<and> list_all (\<lambda>c. of_char c \<in> {48..57::nat}) s
        then Some (fold (\<lambda>c n. 10 * n + (of_char c - 48)) s 0) else None),
      cast_float_ok = (\<lambda>s. s \<noteq> []), base_dir = ''/srv/pushit''\<rparr>"

definition prod_deployment :: deployment where
  "prod_deployment = demo_deployment [(''STATE'', ''prod'')]
     [(''SECRET_KEY'', ''s3''), (''ALLOWED_HOSTS'', ''h.io''), (''METRICS_AUTH_TOKEN'', ''t'')]"


section \<open>Where the settings and Sentry part\<close>

text \<open>
  A label of production alone lets events out. Yet \<open>STATE=PROD\<close> in \<open>.env\<close> only gives the settings of
  development, which report; and \<open>DJANGO_ENV=prod\<close> alone gives those of production, which are silent.
\<close>

lemma sentry_labels_are_production:
  "sentry_of d v = Some x \<Longrightarrow> upper (strip (sentry_environment x)) \<in> {''PROD'', ''PRODUCTION''}"
  by (auto simp: sentry_of_def sentry_active_def split: if_splits)

lemma dotenv_production_reports_from_development:
  "case load_settings [] (demo_deployment [] [(''STATE'', ''PROD''), (''SENTRY_DSN'', ''dsn'')]) of
     Inr s \<Rightarrow> set_state s = ''DEV'' \<and> set_transport s = None \<and> \<not> set_metrics_require_token s \<and>
       (case set_sentry s of Some x \<Rightarrow> sentry_environment x = ''PROD'' | None \<Rightarrow> False)
   | Inl _ \<Rightarrow> False"
  by code_simp

lemma django_env_production_is_silent:
  "case load_settings [] (demo_deployment [(''DJANGO_ENV'', ''prod'')]
       [(''SECRET_KEY'', ''s3''), (''ALLOWED_HOSTS'', ''h.io''), (''SENTRY_DSN'', ''dsn'')]) of
     Inr s \<Rightarrow> set_state s = ''PROD'' \<and> set_sentry s = None
   | Inl _ \<Rightarrow> False"
  by code_simp

section \<open>Lists in one variable\<close>

lemma split_on_free: "c \<notin> set w \<Longrightarrow> split_on c w = [w]"
  by (induction w) auto

lemma split_on_join: "ws \<noteq> [] \<Longrightarrow> \<forall>w \<in> set ws. c \<notin> set w \<Longrightarrow> split_on c (join [c] ws) = ws"
proof (induction ws)
  case (Cons w ws)
  then show ?case
    by (cases "ws = []") (simp_all add: split_on_free join_Cons split_append)
qed simp

lemma parse_keys_join:
  assumes "\<forall>k \<in> set ks. k \<noteq> [] \<and> strip k = k \<and> CHR '','' \<notin> set k"
  shows "parse_keys (join '','' ks) = ks"
proof (cases "ks = []")
  case False
  then have "split_on CHR '','' (join '','' ks) = ks" using assms by (intro split_on_join) auto
  then show ?thesis using assms by (simp add: parse_keys_def map_idI)
qed (simp add: parse_keys_def)

end
