(* ===== verification/Migrations.thy ===== *)
theory Migrations
  imports Accounts Senders
begin

text \<open>
  The data migrations (\<open>accounts/migrations\<close> 0004 and 0008, \<open>applications/migrations\<close> 0003, 0006 and 0010): what
  they make of the rows they find. The other migrations only declare tables and columns.
\<close>

section \<open>Confirmed accounts and hashed links\<close>

definition confirm_existing_users :: "db \<Rightarrow> db" where
  "confirm_existing_users s = s\<lparr>users := map (\<lambda>u. u\<lparr>email_confirmed := True\<rparr>) (users s)\<rparr>"

text \<open>A sign-in link of the time when its token was kept in clear.\<close>

record plain_link =
  pl_id :: pk
  pl_user :: pk
  pl_token :: string
  pl_created_at :: instant
  pl_expires_at :: instant
  pl_used_at :: "instant option"

definition hash_link :: "(string \<Rightarrow> string) \<Rightarrow> plain_link \<Rightarrow> magic_link_token" where
  "hash_link hash m = \<lparr>ml_id = pl_id m, ml_user = pl_user m, ml_token_hash = hash (pl_token m),
     ml_created_at = pl_created_at m, ml_expires_at = pl_expires_at m, ml_used_at = pl_used_at m\<rparr>"

text \<open>The hashes are filled in, then the column becomes unique: the database refuses two equal hashes.\<close>

definition hash_links :: "(string \<Rightarrow> string) \<Rightarrow> plain_link list \<Rightarrow> magic_link_token list option" where
  "hash_links hash rows =
     (let hashed = map (hash_link hash) rows in if distinct (map ml_token_hash hashed) then Some hashed else None)"

text \<open>The way back empties the table.\<close>

definition unhash_links :: "magic_link_token list \<Rightarrow> plain_link list" where
  "unhash_links rows = []"

text \<open>The link a token in clear opens.\<close>

definition open_plain_link :: "instant \<Rightarrow> string \<Rightarrow> plain_link list \<Rightarrow> plain_link option" where
  "open_plain_link now raw rows =
     (case List.find (\<lambda>m. pl_token m = raw) rows of
        None \<Rightarrow> None | Some m \<Rightarrow> if pl_used_at m = None \<and> now < pl_expires_at m then Some m else None)"

section \<open>Suffixes of addresses\<close>

text \<open>
  Rows are key, alias and suffix. The suffix is what follows the last underscore of the alias, the whole
  alias without one; then the column becomes unique. A database that checks lengths refuses more than
  32 characters.
\<close>

definition backfill_suffix :: "bool \<Rightarrow> (pk \<times> string) list \<Rightarrow> (pk \<times> string \<times> string) list option" where
  "backfill_suffix checks_lengths rows =
     (let filled = map (\<lambda>(i, alias_text). (i, alias_text, after_last CHR ''_'' alias_text)) rows;
          suffixes = map (\<lambda>(i, a, x). x) filled
      in if checks_lengths \<and> list_ex (\<lambda>x. 32 < length x) suffixes then None
         else if \<not> distinct suffixes then None
         else Some filled)"

section \<open>Enrolment codes\<close>

definition migration_code :: "string \<Rightarrow> string" where
  "migration_code drawn = ''apk_'' @ take 12 (filter (\<lambda>c. c \<noteq> CHR ''-'' \<and> c \<noteq> CHR ''_'') drawn)"

text \<open>
  \<open>while code in deja_vus: code = _code()\<close>: nothing bounds the loop. \<open>draw n\<close> is the \<open>n\<close>-th text drawn;
  the loop answers with the code and the number of the next draw.
\<close>

partial_function (option) draw_fresh :: "(nat \<Rightarrow> string) \<Rightarrow> string list \<Rightarrow> nat \<Rightarrow> (string \<times> nat) option" where
  "draw_fresh draw seen n =
     (let code = migration_code (draw n)
      in if code \<in> set seen then draw_fresh draw seen (Suc n) else Some (code, Suc n))"

declare draw_fresh.simps [code]

fun assign_codes :: "(nat \<Rightarrow> string) \<Rightarrow> string list \<Rightarrow> nat \<Rightarrow> pk list \<Rightarrow> (pk \<times> string) list option" where
  "assign_codes draw seen n [] = Some []"
| "assign_codes draw seen n (i # rest) =
     do {
       (code, n') \<leftarrow> draw_fresh draw seen n;
       codes \<leftarrow> assign_codes draw (code # seen) n' rest;
       Some ((i, code) # codes)
     }"

definition filled_code :: "(pk \<times> string) list \<Rightarrow> pk \<times> string option \<Rightarrow> string option" where
  "filled_code codes r = (case map_of codes (fst r) of Some code \<Rightarrow> Some code | None \<Rightarrow> snd r)"

text \<open>Rows are key and code. \<open>None\<close>: the loop never ends.\<close>

definition assign_enrolment_codes :: "(nat \<Rightarrow> string) \<Rightarrow> (pk \<times> string option) list \<Rightarrow> (pk \<times> string option) list option" where
  "assign_enrolment_codes draw rows =
     (let to_fill = map fst (filter (\<lambda>(i, c). c = None) rows);
          seen = map (\<lambda>(i, c). the c) (filter (\<lambda>(i, c). c \<noteq> None) rows)
      in if to_fill = [] then Some rows
         else do {
           codes \<leftarrow> assign_codes draw seen 0 to_fill;
           Some (map (\<lambda>r. (fst r, filled_code codes r)) rows)
         })"

section \<open>Secrets of callbacks\<close>

fun fill_secrets :: "(nat \<Rightarrow> string) \<Rightarrow> nat \<Rightarrow> (pk \<times> string) list \<Rightarrow> (pk \<times> string) list" where
  "fill_secrets draw n [] = []"
| "fill_secrets draw n ((i, x) # rest) =
     (if x = [] then (i, ''whs_'' @ draw n) # fill_secrets draw (Suc n) rest
      else (i, x) # fill_secrets draw n rest)"

section \<open>What the migrations keep\<close>

text \<open>
  The migration that hashes the tokens of sign-in links changes no link in flight: where no two
  tokens have one hash, it succeeds, and every token opens afterwards, through the lookup of the
  program, exactly the link it opened before.
\<close>

theorem hashed_links_still_open:
  assumes "inj_on (sha256 (acc_secrets x)) (insert raw (pl_token ` set rows))" and "distinct (map pl_token rows)"
  shows "\<exists>hashed. hash_links (sha256 (acc_secrets x)) rows = Some hashed \<and>
    find_magic_link x now raw (s\<lparr>magic_links := hashed\<rparr>) =
      map_option (hash_link (sha256 (acc_secrets x))) (open_plain_link now raw rows)"
proof -
  let ?h = "sha256 (acc_secrets x)"
  have inj: "inj_on ?h (set (map pl_token rows))" using assms(1) by (rule inj_on_subset) auto
  have "map ml_token_hash (map (hash_link ?h) rows) = map ?h (map pl_token rows)" by (simp add: hash_link_def)
  moreover have "distinct (map ?h (map pl_token rows))"
    using assms(2) inj by (simp add: distinct_map del: map_map)
  ultimately have ok: "hash_links ?h rows = Some (map (hash_link ?h) rows)"
    by (simp add: hash_links_def Let_def del: map_map)
  have same: "(ml_token_hash (hash_link ?h m) = ?h raw) = (pl_token m = raw)" if "m \<in> set rows" for m
    using inj_on_eq_iff[OF assms(1), of "pl_token m" raw] that by (simp add: hash_link_def)
  have "List.find (\<lambda>m. ml_token_hash m = ?h raw) (map (hash_link ?h) rows) =
      map_option (hash_link ?h) (List.find (\<lambda>m. pl_token m = raw) rows)"
    using same by (induction rows) auto
  then show ?thesis
    by (intro exI[of _ "map (hash_link ?h) rows"])
      (simp add: ok find_magic_link_def open_plain_link_def ml_is_valid_def hash_link_def split: option.split)
qed

lemma draw_fresh_ends:
  assumes "migration_code (draw m) \<notin> set seen" "n \<le> m"
  shows "\<exists>code n'. draw_fresh draw seen n = Some (code, n') \<and> code \<notin> set seen \<and> n < n'"
  using assms(2)
proof (induction rule: inc_induct)
  case base
  then show ?case using assms(1) by (subst draw_fresh.simps) (simp add: Let_def)
next
  case (step k)
  then obtain code n' where r: "draw_fresh draw seen (Suc k) = Some (code, n')" "code \<notin> set seen" "Suc k < n'" by blast
  show ?case
    by (cases "migration_code (draw k) \<in> set seen"; subst draw_fresh.simps) (use r in \<open>auto simp: Let_def\<close>)
qed

lemma assign_codes_ends:
  assumes "\<And>known n. length known < length seen + length ks \<Longrightarrow> \<exists>m \<ge> n. migration_code (draw m) \<notin> set known"
  shows "\<exists>codes. assign_codes draw seen n ks = Some codes \<and> map fst codes = ks \<and> distinct (map snd codes) \<and>
    set (map snd codes) \<inter> set seen = {}"
  using assms
proof (induction ks arbitrary: seen n)
  case (Cons k ks)
  have "length seen < length seen + length (k # ks)" by simp
  from Cons.prems[OF this] obtain m where m: "n \<le> m" "migration_code (draw m) \<notin> set seen" by blast
  obtain code n' where c: "draw_fresh draw seen n = Some (code, n')" "code \<notin> set seen"
    using draw_fresh_ends[of draw m seen n] m by blast
  have "\<exists>codes. assign_codes draw (code # seen) n' ks = Some codes \<and> map fst codes = ks \<and> distinct (map snd codes) \<and>
    set (map snd codes) \<inter> set (code # seen) = {}"
    by (rule Cons.IH) (use Cons.prems in simp)
  then obtain codes where r: "assign_codes draw (code # seen) n' ks = Some codes" "map fst codes = ks"
    "distinct (map snd codes)" "set (map snd codes) \<inter> set (code # seen) = {}" by blast
  then show ?case using c by (intro exI[of _ "(k, code) # codes"]) auto
qed simp


lemma map_of_injective:
  assumes "distinct (map snd codes)" "map_of codes i = Some c" "map_of codes j = Some c"
  shows "i = j"
  using assms by (induction codes) (auto split: if_splits dest!: map_of_SomeD simp: image_iff)

text \<open>Codes for the rows without one, none of which is taken: what the rows are then.\<close>

lemma filled_rows:
  assumes keys: "distinct (map fst rows)" and codes: "map fst codes = map fst (filter (\<lambda>(i, c). c = None) rows)"
  shows filled_kept: "(i, Some c) \<in> set rows \<Longrightarrow> filled_code codes (i, Some c) = Some c"
    and filled_new: "(i, None) \<in> set rows \<Longrightarrow> \<exists>c. map_of codes i = Some c \<and> filled_code codes (i, None) = Some c \<and> c \<in> set (map snd codes)"
proof -
  have inj: "inj_on fst (set rows)" using keys by (simp add: distinct_map)
  have dom: "map_of codes i = None \<longleftrightarrow> i \<notin> fst ` set (filter (\<lambda>(i, c). c = None) rows)" for i
    using arg_cong[OF codes, of set] by (simp add: map_of_eq_None_iff)
  show "filled_code codes (i, Some c) = Some c" if "(i, Some c) \<in> set rows"
  proof -
    have "(i, None) \<notin> set rows" using inj_onD[OF inj, of "(i, None)" "(i, Some c)"] that by auto
    then have "map_of codes i = None" unfolding dom by auto
    then show ?thesis by (simp add: filled_code_def)
  qed
  show "\<exists>c. map_of codes i = Some c \<and> filled_code codes (i, None) = Some c \<and> c \<in> set (map snd codes)" if "(i, None) \<in> set rows"
  proof -
    have "map_of codes i \<noteq> None" unfolding dom using that by force
    then obtain c where "map_of codes i = Some c" by blast
    then show ?thesis by (auto simp: filled_code_def dest!: map_of_SomeD intro: image_eqI[of _ snd "(i, c)"])
  qed
qed

lemma filled_apart:
  assumes keys: "distinct (map fst rows)" and codes: "map fst codes = map fst (filter (\<lambda>(i, c). c = None) rows)"
    and fresh: "distinct (map snd codes)" "\<And>i c. (i, Some c) \<in> set rows \<Longrightarrow> c \<notin> set (map snd codes)"
    and old: "distinct (map snd (filter (\<lambda>(i, c). c \<noteq> None) rows))"
  shows "inj_on (filled_code codes) (set rows)"
proof (rule inj_onI)
  fix r q assume r: "r \<in> set rows" and q: "q \<in> set rows" and eq: "filled_code codes r = filled_code codes q"
  obtain i c j b where rq: "r = (i, c)" "q = (j, b)" by (metis surj_pair)
  note kept = filled_kept[OF keys codes] and new = filled_new[OF keys codes]
  show "r = q"
  proof (cases c; cases b)
    assume n: "c = None" "b = None"
    obtain x y where xy: "map_of codes i = Some x" "filled_code codes r = Some x" "map_of codes j = Some y" "filled_code codes q = Some y"
      using new[of i] new[of j] r q n unfolding rq by blast
    then have "map_of codes j = Some x" using eq by simp
    then show ?thesis using map_of_injective[OF fresh(1) xy(1)] n rq by simp
  next
    fix y assume n: "c = None" "b = Some y"
    obtain x where "filled_code codes r = Some x" "x \<in> set (map snd codes)" using new[of i] r n unfolding rq by blast
    then show ?thesis using kept[of j y] fresh(2)[of j y] q n eq unfolding rq by simp
  next
    fix y assume n: "c = Some y" "b = None"
    obtain x where "filled_code codes q = Some x" "x \<in> set (map snd codes)" using new[of j] q n unfolding rq by blast
    then show ?thesis using kept[of i y] fresh(2)[of i y] r n eq unfolding rq by simp
  next
    fix y z assume n: "c = Some y" "b = Some z"
    then have "snd r = snd q" using kept[of i y] kept[of j z] r q eq unfolding rq by simp
    moreover have "inj_on snd (set (filter (\<lambda>(i, c). c \<noteq> None) rows))" using old by (simp add: distinct_map)
    ultimately show ?thesis using inj_onD[of snd _ r q] r q n unfolding rq by auto
  qed
qed

lemma assignment:
  assumes fresh: "\<And>known n. length known < length rows \<Longrightarrow> \<exists>m \<ge> n. migration_code (draw m) \<notin> set known"
  obtains codes where "map fst codes = map fst (filter (\<lambda>(i, c). c = None) rows)" "distinct (map snd codes)"
    "\<And>i c. (i, Some c) \<in> set rows \<Longrightarrow> c \<notin> set (map snd codes)"
    "assign_enrolment_codes draw rows = Some (map (\<lambda>r. (fst r, filled_code codes r)) rows)"
proof -
  define to_fill where "to_fill = map fst (filter (\<lambda>(i, c). c = None) rows)"
  define seen where "seen = map (\<lambda>(i, c). the c) (filter (\<lambda>(i, c). c \<noteq> None) rows)"
  have "length seen + length to_fill = length rows"
    unfolding seen_def to_fill_def by (induction rows) auto
  then obtain codes where codes: "assign_codes draw seen 0 to_fill = Some codes" "map fst codes = to_fill"
    "distinct (map snd codes)" "set (map snd codes) \<inter> set seen = {}"
    using assign_codes_ends[of seen to_fill draw 0] fresh by auto
  have unused: "c \<notin> set (map snd codes)" if "(i, Some c) \<in> set rows" for i c
  proof -
    have "c \<in> set seen" using that by (force simp: seen_def)
    then show ?thesis using codes(4) by blast
  qed
  have "assign_enrolment_codes draw rows =
      (if to_fill = [] then Some rows
       else do { codes \<leftarrow> assign_codes draw seen 0 to_fill; Some (map (\<lambda>r. (fst r, filled_code codes r)) rows) })"
    unfolding assign_enrolment_codes_def Let_def to_fill_def[symmetric] seen_def[symmetric] ..
  moreover have "map (\<lambda>r. (fst r, filled_code [] r)) rows = rows" by (simp add: filled_code_def)
  ultimately have "assign_enrolment_codes draw rows = Some (map (\<lambda>r. (fst r, filled_code codes r)) rows)"
    using codes(1,2) by auto
  then show thesis using that codes(2,3) unused unfolding to_fill_def by blast
qed

text \<open>
  C38. The migration that gives every application an enrolment code ends, although its loop draws until
  it meets a new code: it is enough that, while fewer codes are taken than there are applications, an
  unused one is drawn sooner or later. Then every application has a code, no two have the same, and
  those that had one keep it.
\<close>

theorem every_application_gets_a_code:
  assumes "distinct (map fst rows)" and "distinct (map snd (filter (\<lambda>(i, c). c \<noteq> None) rows))"
    and fresh: "\<And>known n. length known < length rows \<Longrightarrow> \<exists>m \<ge> n. migration_code (draw m) \<notin> set known"
  shows "\<exists>filled. assign_enrolment_codes draw rows = Some filled \<and> map fst filled = map fst rows \<and>
    distinct (map snd filled) \<and> None \<notin> snd ` set filled \<and> (\<forall>i c. (i, Some c) \<in> set rows \<longrightarrow> (i, Some c) \<in> set filled)"
proof -
  obtain codes where c: "map fst codes = map fst (filter (\<lambda>(i, c). c = None) rows)" "distinct (map snd codes)"
    "\<And>i c. (i, Some c) \<in> set rows \<Longrightarrow> c \<notin> set (map snd codes)"
    "assign_enrolment_codes draw rows = Some (map (\<lambda>r. (fst r, filled_code codes r)) rows)"
    using assignment[of rows draw] fresh by blast
  note kept = filled_kept[OF assms(1) c(1)] and new = filled_new[OF assms(1) c(1)]
  have "distinct (map snd (map (\<lambda>r. (fst r, filled_code codes r)) rows))"
    using assms(1) filled_apart[OF assms(1) c(1-3) assms(2)] by (simp add: distinct_map comp_def)
  moreover have "filled_code codes r \<noteq> None" if "r \<in> set rows" for r
    using kept[of "fst r" "the (snd r)"] new[of "fst r"] that by (cases r; cases "snd r") auto
  moreover have "\<forall>i c. (i, Some c) \<in> set rows \<longrightarrow> (i, Some c) \<in> set (map (\<lambda>r. (fst r, filled_code codes r)) rows)"
    using kept by force
  ultimately show ?thesis using c(4) by (intro exI[of _ "map (\<lambda>r. (fst r, filled_code codes r)) rows"]) force
qed

theorem every_application_gets_a_code_witness:
  "\<exists>filled. assign_enrolment_codes (\<lambda>n. ''-'' @ [''abc'' ! (n mod 3)]) [(1, None), (2, Some ''apk_b''), (3, None)] = Some filled \<and>
     distinct (map snd filled) \<and> (2, Some ''apk_b'') \<in> set filled"
proof -
  let ?draw = "\<lambda>n. ''-'' @ [''abc'' ! (n mod 3)] :: string"
  let ?rows = "[(1, None), (2, Some ''apk_b''), (3, None)] :: (pk \<times> string option) list"
  have code: "migration_code (?draw m) = ''apk_'' @ [''abc'' ! (m mod 3)]" for m :: nat
  proof -
    consider "m mod 3 = 0" | "m mod 3 = 1" | "m mod 3 = 2" by linarith
    then show ?thesis by cases (simp_all add: migration_code_def)
  qed
  have "\<exists>m \<ge> n. migration_code (?draw m) \<notin> set known" if "length known < length ?rows" for known and n :: nat
  proof (rule ccontr)
    assume none: "\<not> (\<exists>m \<ge> n. migration_code (?draw m) \<notin> set known)"
    have a: "''apk_'' @ [''abc'' ! (k mod 3)] \<in> set known" for k
    proof -
      have "n \<le> 3 * n + k" by simp
      then have "migration_code (?draw (3 * n + k)) \<in> set known" using none by blast
      then show ?thesis unfolding code by simp
    qed
    then have "{''apk_a'', ''apk_b'', ''apk_c''} \<subseteq> set known" using a[of 0] a[of 1] a[of 2] by simp
    then have "card {''apk_a'', ''apk_b'', ''apk_c''} \<le> card (set known)" by (intro card_mono) auto
    also have "\<dots> \<le> length known" by (rule card_length)
    finally show False using that by simp
  qed
  from every_application_gets_a_code[of ?rows ?draw, OF _ _ this] show ?thesis by auto
qed


theorem hashed_links_example:
  "\<exists>hashed. hash_links (sha256 demo_secrets) [\<lparr>pl_id = 1, pl_user = 1, pl_token = ''t'', pl_created_at = 0, pl_expires_at = 9, pl_used_at = None\<rparr>] = Some hashed \<and>
     find_magic_link (demo_account_env\<lparr>acc_secrets := demo_secrets\<rparr>) 5 ''t'' (empty_db\<lparr>magic_links := hashed\<rparr>) \<noteq> None"
proof -
  let ?x = "demo_account_env\<lparr>acc_secrets := demo_secrets\<rparr>" and ?m = "\<lparr>pl_id = 1, pl_user = 1, pl_token = ''t'', pl_created_at = 0, pl_expires_at = 9, pl_used_at = None\<rparr>"
  have "inj_on (sha256 (acc_secrets ?x)) (insert ''t'' (pl_token ` set [?m]))" "distinct (map pl_token [?m])"
    by (simp_all add: inj_on_def)
  from hashed_links_still_open[OF this, of 5 empty_db] show ?thesis by (auto simp: open_plain_link_def)
qed

lemma backfilled_suffix:
  "backfill_suffix c rows = Some filled \<Longrightarrow> map fst filled = map fst rows \<and> distinct (map (\<lambda>(i, a, x). x) filled)"
  by (auto simp: backfill_suffix_def Let_def split: if_splits)

lemma filled_secrets:
  "map fst (fill_secrets draw n rows) = map fst rows" "[] \<notin> snd ` set (fill_secrets draw n rows)"
  "(i, x) \<in> set rows \<Longrightarrow> x \<noteq> [] \<Longrightarrow> (i, x) \<in> set (fill_secrets draw n rows)"
  by (induction draw n rows rule: fill_secrets.induct) auto

end
