(* ===== verification/Routes.thy ===== *)
theory Routes
  imports Operations Accounts Tokens Senders
begin

text \<open>
  The routes of the API (\<open>config/urls.py\<close> and the \<open>api_urls.py\<close> of the parts), what each view asks of its caller
  (methods, authentication, permission, throttles), and the way of a request to its view.
\<close>

section \<open>Routes\<close>

text \<open>
  A route of a \<open>urls.py\<close> is its pattern and the class of its view. A pattern and a path are compared part
  by part between slashes: \<open><int:...>\<close> takes one or more digits, a word takes itself.
\<close>

type_synonym route = "string \<times> string"

definition is_int_part :: "string \<Rightarrow> bool" where
  "is_int_part p = starts_with p ''<int:''"

definition digits :: "string \<Rightarrow> bool" where
  "digits s \<longleftrightarrow> s \<noteq> [] \<and> list_all (\<lambda>c. 48 \<le> (of_char c :: nat) \<and> (of_char c :: nat) \<le> 57) s"

definition read_digits :: "string \<Rightarrow> nat" where
  "read_digits s = fold (\<lambda>c n. 10 * n + (of_char c - 48)) s 0"

fun match_parts :: "string list \<Rightarrow> string list \<Rightarrow> nat list option" where
  "match_parts [] [] = Some []"
| "match_parts (p # ps) (s # ss) =
     (if is_int_part p then (if digits s then map_option (\<lambda>ns. read_digits s # ns) (match_parts ps ss) else None)
      else if p = s then match_parts ps ss else None)"
| "match_parts _ _ = None"

definition match_route :: "string \<Rightarrow> string \<Rightarrow> nat list option" where
  "match_route pattern path = match_parts (split_on CHR ''/'' pattern) (split_on CHR ''/'' path)"

text \<open>The first route that matches.\<close>

fun resolve_in :: "route list \<Rightarrow> string \<Rightarrow> (string \<times> nat list) option" where
  "resolve_in [] path = None"
| "resolve_in ((pattern, view) # rest) path =
     (case match_route pattern path of Some args \<Rightarrow> Some (view, args) | None \<Rightarrow> resolve_in rest path)"

definition health_urls :: "route list" where
  "health_urls = [('''', ''HealthReadyApiView''), (''live/'', ''HealthLiveApiView''), (''ready/'', ''HealthReadyApiView''),
     (''metrics/'', ''MetricsApiView'')]"

definition auth_urls :: "route list" where
  "auth_urls = [(''register/'', ''RegisterApiView''), (''email/confirm/'', ''ConfirmEmailApiView''),
     (''email/resend/'', ''ResendConfirmationApiView''), (''login/'', ''LoginApiView''), (''refresh/'', ''CustomTokenRefreshView''),
     (''logout/'', ''LogoutApiView''), (''me/'', ''MeApiView''), (''password/change/'', ''PasswordChangeApiView''),
     (''forgot-password/'', ''ForgotPasswordApiView''), (''reset-password/'', ''ResetPasswordConfirmApiView''),
     (''magic-link/'', ''MagicLinkRequestApiView''), (''magic-link/verify/'', ''MagicLinkVerifyApiView'')]"

definition app_urls :: "route list" where
  "app_urls = [('''', ''ApplicationListCreateApiView''), (''<int:app_id>/'', ''ApplicationDetailApiView''),
     (''<int:app_id>/regenerate-token/'', ''ApplicationRegenerateTokenApiView''),
     (''<int:app_id>/regenerate-email/'', ''ApplicationRegenerateEmailApiView''),
     (''<int:app_id>/alias-status/'', ''ApplicationAliasStatusApiView''),
     (''<int:app_id>/activate/'', ''ApplicationActivateApiView''), (''<int:app_id>/deactivate/'', ''ApplicationDeactivateApiView''),
     (''<int:app_id>/revoke-token/'', ''ApplicationRevokeTokenApiView''),
     (''<int:app_id>/rotate-enrolment-code/'', ''ApplicationRotateEnrolmentCodeApiView''),
     (''<int:app_id>/qrcode/'', ''ApplicationQrCodeApiView''), (''<int:app_id>/logo/'', ''ApplicationLogoApiView''),
     (''<int:app_id>/devices/<int:device_id>/'', ''ApplicationDeviceEvictApiView''),
     (''<int:app_id>/send-tokens/'', ''SendTokenListCreateApiView''),
     (''<int:app_id>/send-tokens/<int:token_id>/'', ''SendTokenRevokeApiView''),
     (''<int:app_id>/send-tokens/<int:token_id>/reveal/'', ''SendTokenRevealApiView''),
     (''<int:app_id>/webhook-secret/reveal/'', ''WebhookSecretRevealApiView''),
     (''<int:app_id>/webhook-secret/rotate/'', ''WebhookSecretRotateApiView''),
     (''<int:app_id>/quiet-periods/'', ''ApplicationQuietPeriodListCreateApiView''),
     (''<int:app_id>/quiet-periods/<int:quiet_period_id>/'', ''ApplicationQuietPeriodDetailApiView''),
     (''<int:app_id>/inbound-email-logs/'', ''ApplicationInboundEmailLogListApiView''),
     (''<int:app_id>/templates/'', ''NotificationTemplateListCreateApiView''),
     (''<int:app_id>/templates/<int:template_id>/'', ''NotificationTemplateDetailApiView'')]"

definition device_urls :: "route list" where
  "device_urls = [('''', ''DeviceListApiView''), (''<int:pk>/'', ''DeviceDetailApiView''),
     (''<int:device_id>/notifications/'', ''DeviceNotificationsApiView''),
     (''<int:device_id>/quiet-periods/'', ''DeviceQuietPeriodListCreateApiView''),
     (''<int:device_id>/quiet-periods/<int:quiet_period_id>/'', ''DeviceQuietPeriodDetailApiView''),
     (''android-app/'', ''AndroidAppDownloadApiView''), (''android-app/version/'', ''AndroidAppVersionApiView''),
     (''identify/'', ''DeviceIdentifyApiView''), (''link/'', ''DeviceLinkWithAppTokenApiView''),
     (''unlink/'', ''DeviceUnlinkWithAppTokenApiView''), (''unlink-app/'', ''DeviceUnlinkByApplicationApiView'')]"

definition notification_urls :: "route list" where
  "notification_urls = [('''', ''NotificationListCreateApiView''), (''send/'', ''NotificationSendNowApiView''),
     (''future/'', ''NotificationFutureListApiView''), (''device/'', ''NotificationsForDeviceApiView''),
     (''future/<int:pk>/'', ''NotificationFutureDetailApiView''), (''<int:pk>/'', ''NotificationDetailApiView''),
     (''<int:pk>/opened/'', ''NotificationOpenedReceiptApiView''), (''<int:notification_id>/send/'', ''NotificationSendApiView''),
     (''bulk-send/'', ''NotificationBulkSendApiView''), (''app/'', ''NotificationListWithAppTokenApiView''),
     (''stats/'', ''NotificationStatsApiView''), (''app/create/'', ''NotificationCreateWithAppTokenApiView''),
     (''app/send/'', ''NotificationSendWithAppTokenApiView''), (''app/bulk-send/'', ''NotificationBulkSendWithAppTokenApiView'')]"

definition billing_urls :: "route list" where
  "billing_urls = [(''subscription/'', ''SubscriptionView''), (''plans/'', ''PlansView''), (''history/'', ''BillingHistoryView''),
     (''checkout/'', ''CheckoutView''), (''portal/'', ''PortalView''), (''quantity/preview/'', ''QuantityPreviewView''),
     (''quantity/'', ''QuantityView''), (''entitlement/'', ''EntitlementView'')]"

definition staff_urls :: "route list" where
  "staff_urls = [(''users/'', ''StaffUserListView''), (''users/<int:pk>/'', ''StaffUserDetailView'')]"

definition own_urls :: "route list" where
  "own_urls = [(''api/v1/admin/status/'', ''AdminStatusApiView''), (''api/schema/'', ''SpectacularAPIView''),
     (''api/docs/'', ''SpectacularSwaggerView''), (''api/redoc/'', ''SpectacularRedocView'')]"

text \<open>
  \<open>config/urls.py\<close>: the included routes and those of its own. The administration site below \<open>admin/\<close> is the
  framework's; the three views of the schema are those of a library, behind \<open>IsAuthenticated\<close>.
\<close>

definition included_urls :: "(string \<times> route list) list" where
  "included_urls = [(''health/'', health_urls), (''api/v1/auth/'', auth_urls), (''api/v1/apps/'', app_urls),
     (''api/v1/devices/'', device_urls), (''api/v1/notifications/'', notification_urls),
     (''api/v1/billing/'', billing_urls), (''api/v1/staff/'', staff_urls),
     ('''', own_urls)]"

definition routes :: "route list" where
  "routes = concat (map (\<lambda>(prefix, conf). map (\<lambda>(pattern, view). (prefix @ pattern, view)) conf) included_urls)"

definition resolve :: "string \<Rightarrow> (string \<times> nat list) option" where
  "resolve path = (if starts_with path ''admin/'' then Some (''admin.site'', []) else resolve_in routes path)"

section \<open>No route hides another\<close>

text \<open>Two patterns that share a path.\<close>

fun compatible :: "string list \<Rightarrow> string list \<Rightarrow> bool" where
  "compatible [] [] = True"
| "compatible (p # ps) (q # qs) =
     (if (if is_int_part p then is_int_part q \<or> digits q else if is_int_part q then digits p else p = q)
      then compatible ps qs else False)"
| "compatible _ _ = False"

lemma shared_path_compatible:
  "match_parts ps ss \<noteq> None \<Longrightarrow> match_parts qs ss \<noteq> None \<Longrightarrow> compatible ps qs"
proof (induction ps ss arbitrary: qs rule: match_parts.induct)
  case (2 p ps s ss)
  then show ?case by (cases qs) (auto split: if_splits)
qed (auto elim: match_parts.elims compatible.elims)


fun all_apart :: "string list list \<Rightarrow> bool" where
  "all_apart [] = True"
| "all_apart (ps # rest) =
     (list_all (\<lambda>qs. if length ps = length qs then \<not> compatible ps qs else True) rest \<and> all_apart rest)"

lemma compatible_length: "compatible ps qs \<Longrightarrow> length ps = length qs"
  by (induction ps qs rule: compatible.induct) (auto split: if_splits)

lemma resolve_apart:
  "all_apart (map (\<lambda>r. split_on CHR ''/'' (fst r)) rs) \<Longrightarrow> (pattern, view) \<in> set rs \<Longrightarrow>
   match_route pattern path = Some args \<Longrightarrow> resolve_in rs path = Some (view, args)"
proof (induction rs)
  case (Cons r rs)
  obtain q w where r: "r = (q, w)" by (metis surj_pair)
  show ?case
  proof (cases "(pattern, view) = r")
    case True
    then show ?thesis using Cons.prems by (simp add: r)
  next
    case False
    then have m: "(pattern, view) \<in> set rs" using Cons.prems by simp
    then have "\<not> compatible (split_on CHR ''/'' q) (split_on CHR ''/'' pattern)"
      using Cons.prems(1) compatible_length by (fastforce simp: r list_all_iff split: if_splits)
    then have "match_route q path = None"
      using shared_path_compatible Cons.prems(3) unfolding match_route_def by (metis option.distinct(1))
    then show ?thesis using Cons m by (simp add: r)
  qed
qed simp

lemma routes_all_apart: "all_apart (map (\<lambda>r. split_on CHR ''/'' (fst r)) routes)"
  by code_simp

section \<open>What each view asks of its caller\<close>

datatype authenticator = Jwt_Header | App_Token_Header | No_Authentication

datatype permission = Allow_Any | Is_Authenticated | Authenticated_Or_Cookie_Mode | Has_App_Token | Is_Admin_User | Is_Super_User

text \<open>\<open>ep_scopes\<close> are the throttles of the view: its own, or those every view has by default.\<close>

record endpoint =
  ep_methods :: "string list"
  ep_authenticator :: authenticator
  ep_permission :: permission
  ep_scopes :: "string list"

definition default_scopes :: "string list" where
  "default_scopes = [''anon'', ''user'']"

definition signed_in_endpoint :: "string list \<Rightarrow> endpoint" where
  "signed_in_endpoint ms = \<lparr>ep_methods = ms, ep_authenticator = Jwt_Header, ep_permission = Is_Authenticated, ep_scopes = default_scopes\<rparr>"

definition open_endpoint :: "string list \<Rightarrow> string list \<Rightarrow> endpoint" where
  "open_endpoint ms scopes = \<lparr>ep_methods = ms, ep_authenticator = No_Authentication, ep_permission = Allow_Any, ep_scopes = scopes\<rparr>"

definition app_endpoint :: "string list \<Rightarrow> endpoint" where
  "app_endpoint ms = \<lparr>ep_methods = ms, ep_authenticator = App_Token_Header, ep_permission = Has_App_Token, ep_scopes = [''app_token'']\<rparr>"

definition health_endpoints :: "(string \<times> endpoint) list" where
  "health_endpoints =
     [(''HealthLiveApiView'', open_endpoint [''GET''] default_scopes), (''HealthReadyApiView'', open_endpoint [''GET''] default_scopes),
      (''MetricsApiView'', open_endpoint [''GET''] default_scopes),
      (''AdminStatusApiView'', (signed_in_endpoint [''GET''])\<lparr>ep_permission := Is_Admin_User\<rparr>)]"

text \<open>\<open>CustomTokenRefreshView\<close> extends the view of the token library, which is open and authenticates nobody.\<close>

definition account_endpoints :: "(string \<times> endpoint) list" where
  "account_endpoints =
     [(''RegisterApiView'', open_endpoint [''POST''] [''register'']), (''ConfirmEmailApiView'', open_endpoint [''POST''] default_scopes),
      (''ResendConfirmationApiView'', open_endpoint [''POST''] [''resend'']),
      (''ForgotPasswordApiView'', open_endpoint [''POST''] [''password_reset'']),
      (''ResetPasswordConfirmApiView'', open_endpoint [''POST''] [''password_reset'']),
      (''MagicLinkRequestApiView'', open_endpoint [''POST''] [''magic_link'']),
      (''MagicLinkVerifyApiView'', open_endpoint [''POST''] [''login'']), (''LoginApiView'', open_endpoint [''POST''] [''login'']),
      (''LogoutApiView'', (signed_in_endpoint [''POST''])\<lparr>ep_permission := Authenticated_Or_Cookie_Mode\<rparr>),
      (''MeApiView'', signed_in_endpoint [''GET'', ''PATCH'', ''DELETE'']),
      (''PasswordChangeApiView'', (signed_in_endpoint [''POST''])\<lparr>ep_scopes := [''password_change'']\<rparr>),
      (''CustomTokenRefreshView'', open_endpoint [''POST''] default_scopes),
      (''StaffUserListView'', (signed_in_endpoint [''GET''])\<lparr>ep_permission := Is_Super_User\<rparr>),
      (''StaffUserDetailView'', (signed_in_endpoint [''PATCH''])\<lparr>ep_permission := Is_Super_User\<rparr>)]"

definition application_endpoints :: "(string \<times> endpoint) list" where
  "application_endpoints = map (\<lambda>(v, ms). (v, signed_in_endpoint ms))
     [(''ApplicationListCreateApiView'', [''GET'', ''POST'']), (''ApplicationDetailApiView'', [''GET'', ''PATCH'', ''DELETE'']),
      (''ApplicationRegenerateTokenApiView'', [''POST'']), (''ApplicationRegenerateEmailApiView'', [''POST'']),
      (''ApplicationAliasStatusApiView'', [''GET'']), (''ApplicationActivateApiView'', [''POST'']),
      (''ApplicationDeactivateApiView'', [''POST'']), (''ApplicationRevokeTokenApiView'', [''POST'']),
      (''ApplicationRotateEnrolmentCodeApiView'', [''POST'']), (''ApplicationQrCodeApiView'', [''GET'', ''POST'']),
      (''ApplicationLogoApiView'', [''POST'', ''DELETE'']), (''ApplicationDeviceEvictApiView'', [''DELETE'']),
      (''ApplicationQuietPeriodListCreateApiView'', [''GET'', ''POST'']),
      (''ApplicationQuietPeriodDetailApiView'', [''GET'', ''PATCH'', ''DELETE'']),
      (''SendTokenListCreateApiView'', [''GET'', ''POST'']), (''SendTokenRevokeApiView'', [''DELETE'']),
      (''SendTokenRevealApiView'', [''POST'']), (''WebhookSecretRevealApiView'', [''POST'']), (''WebhookSecretRotateApiView'', [''POST''])]"

definition device_endpoints :: "(string \<times> endpoint) list" where
  "device_endpoints = map (\<lambda>(v, ms). (v, signed_in_endpoint ms))
     [(''DeviceListApiView'', [''GET'']), (''DeviceDetailApiView'', [''GET'', ''PUT'', ''PATCH'', ''DELETE'']),
      (''DeviceNotificationsApiView'', [''GET'']), (''DeviceQuietPeriodListCreateApiView'', [''GET'', ''POST'']),
      (''DeviceQuietPeriodDetailApiView'', [''GET'', ''PATCH'', ''DELETE'']),
      (''AndroidAppDownloadApiView'', [''GET'']), (''AndroidAppVersionApiView'', [''GET'']), (''DeviceIdentifyApiView'', [''POST'']),
      (''DeviceLinkWithAppTokenApiView'', [''POST'']), (''DeviceUnlinkWithAppTokenApiView'', [''POST'']),
      (''DeviceUnlinkByApplicationApiView'', [''POST''])]"

definition notification_endpoints :: "(string \<times> endpoint) list" where
  "notification_endpoints = map (\<lambda>(v, ms). (v, signed_in_endpoint ms))
     [(''NotificationListCreateApiView'', [''GET'', ''POST'']), (''NotificationDetailApiView'', [''GET'', ''DELETE'']),
      (''NotificationFutureListApiView'', [''GET'']), (''NotificationFutureDetailApiView'', [''GET'', ''PATCH'', ''DELETE'']),
      (''NotificationsForDeviceApiView'', [''GET'']), (''NotificationOpenedReceiptApiView'', [''POST'']),
      (''NotificationSendApiView'', [''POST'']), (''NotificationSendNowApiView'', [''POST'']),
      (''NotificationBulkSendApiView'', [''POST'']), (''NotificationStatsApiView'', [''GET'']),
      (''ApplicationInboundEmailLogListApiView'', [''GET'']), (''NotificationTemplateListCreateApiView'', [''GET'', ''POST'']),
      (''NotificationTemplateDetailApiView'', [''GET'', ''PATCH'', ''DELETE''])]"

definition app_token_endpoints :: "(string \<times> endpoint) list" where
  "app_token_endpoints =
     [(''NotificationListWithAppTokenApiView'', app_endpoint [''GET'']), (''NotificationCreateWithAppTokenApiView'', app_endpoint [''POST'']),
      (''NotificationSendWithAppTokenApiView'', app_endpoint [''POST'']),
      (''NotificationBulkSendWithAppTokenApiView'', app_endpoint [''POST''])]"

definition billing_endpoints :: "(string \<times> endpoint) list" where
  "billing_endpoints =
     [(''SubscriptionView'', signed_in_endpoint [''GET'']), (''PlansView'', signed_in_endpoint [''GET'']),
      (''CheckoutView'', signed_in_endpoint [''POST'']), (''PortalView'', signed_in_endpoint [''POST'']),
      (''QuantityPreviewView'', signed_in_endpoint [''POST'']), (''QuantityView'', signed_in_endpoint [''POST'']),
      (''BillingHistoryView'', signed_in_endpoint [''GET'']), (''EntitlementView'', open_endpoint [''POST''] default_scopes)]"

definition schema_endpoints :: "(string \<times> endpoint) list" where
  "schema_endpoints = [(''SpectacularAPIView'', signed_in_endpoint [''GET'']), (''SpectacularSwaggerView'', signed_in_endpoint [''GET'']),
     (''SpectacularRedocView'', signed_in_endpoint [''GET''])]"

definition endpoints :: "(string \<times> endpoint) list" where
  "endpoints = health_endpoints @ account_endpoints @ application_endpoints @ device_endpoints @ notification_endpoints @
     app_token_endpoints @ billing_endpoints @ schema_endpoints"

section \<open>From a request to its view\<close>

text \<open>
  \<open>Bad_Bearer\<close> is a header the token library refuses (expired, forged, of a deleted or inactive user), with
  its code. A caller is nobody, a user, or an application. \<open>HEAD\<close> and \<open>OPTIONS\<close>, which the framework answers
  by itself, are left out.
\<close>

datatype bearer = No_Bearer | Bad_Bearer string | Bearer_Of user

datatype caller = Nobody | Signed_In user | As_Application application

record api_call =
  call_method :: string
  call_path :: string
  call_bearer :: bearer
  call_app_token :: "string option"
  call_http :: http_request

text \<open>\<open>perform_authentication\<close>: an authenticator answers nobody, a caller, or an exception.\<close>

definition authenticate_call :: "secrets \<Rightarrow> instant \<Rightarrow> authenticator \<Rightarrow> api_call \<Rightarrow> db \<Rightarrow> db \<times> (nat \<times> string + caller)" where
  "authenticate_call x now how c s =
     (case how of
        No_Authentication \<Rightarrow> (s, Inr Nobody)
      | Jwt_Header \<Rightarrow> (s, case call_bearer c of No_Bearer \<Rightarrow> Inr Nobody | Bad_Bearer code \<Rightarrow> Inl (401, code) | Bearer_Of u \<Rightarrow> Inr (Signed_In u))
      | App_Token_Header \<Rightarrow>
          (case app_token_authenticate x now (call_app_token c) s of
             (s1, Reply k (p, a)) \<Rightarrow> (s1, Inr (As_Application a))
           | (s1, Refuse k code) \<Rightarrow> (s1, Inl (k, code))
           | (s1, Invalid es) \<Rightarrow> (s1, Inl (400, ''invalid''))))"

fun has_permission :: "permission \<Rightarrow> http_request \<Rightarrow> caller \<Rightarrow> bool" where
  "has_permission Allow_Any r who = True"
| "has_permission Is_Authenticated r who = (case who of Signed_In u \<Rightarrow> True | _ \<Rightarrow> False)"
| "has_permission Authenticated_Or_Cookie_Mode r who = (wants_cookie r \<or> (case who of Signed_In u \<Rightarrow> True | _ \<Rightarrow> False))"
| "has_permission Has_App_Token r who = (case who of As_Application a \<Rightarrow> True | _ \<Rightarrow> False)"
| "has_permission Is_Admin_User r who = (case who of Signed_In u \<Rightarrow> user_is_staff u | _ \<Rightarrow> False)"
| "has_permission Is_Super_User r who = (case who of Signed_In u \<Rightarrow> user_is_superuser u | _ \<Rightarrow> False)"

datatype dispatched = Handled string "nat list" caller | Turned_Away nat string | To_Site

text \<open>
  The order of the framework: the route, the authentication, the permission, the throttles, then the
  method. \<open>exhausted\<close> tells which scopes have no request left for the caller.
\<close>

definition dispatch :: "secrets \<Rightarrow> instant \<Rightarrow> (string \<Rightarrow> bool) \<Rightarrow> api_call \<Rightarrow> db \<Rightarrow> db \<times> dispatched" where
  "dispatch x now exhausted c s =
     (case resolve (call_path c) of
        None \<Rightarrow> (s, Turned_Away 404 ''not_found'')
      | Some (view, args) \<Rightarrow>
          (case map_of endpoints view of
             None \<Rightarrow> (s, To_Site)
           | Some ep \<Rightarrow>
               (case authenticate_call x now (ep_authenticator ep) c s of
                  (s1, Inl (k, code)) \<Rightarrow> (s1, Turned_Away k code)
                | (s1, Inr who) \<Rightarrow>
                    (s1, if \<not> has_permission (ep_permission ep) (call_http c) who
                         then (if who = Nobody then Turned_Away 401 ''not_authenticated'' else Turned_Away 403 ''permission_denied'')
                         else if list_ex exhausted (ep_scopes ep) then Turned_Away 429 ''throttled''
                         else if call_method c \<notin> set (ep_methods ep) then Turned_Away 405 ''method_not_allowed''
                         else Handled view args who))))"

section \<open>Who reaches what\<close>

text \<open>The views that answer to anybody; those of the staff; those of applications.\<close>

definition open_views :: "string list" where
  "open_views = [''HealthLiveApiView'', ''HealthReadyApiView'', ''MetricsApiView'', ''RegisterApiView'', ''ConfirmEmailApiView'',
     ''ResendConfirmationApiView'', ''ForgotPasswordApiView'', ''ResetPasswordConfirmApiView'', ''MagicLinkRequestApiView'',
     ''MagicLinkVerifyApiView'', ''LoginApiView'', ''CustomTokenRefreshView'', ''EntitlementView'']"

definition app_token_views :: "string list" where
  "app_token_views = [''NotificationListWithAppTokenApiView'', ''NotificationCreateWithAppTokenApiView'',
     ''NotificationSendWithAppTokenApiView'', ''NotificationBulkSendWithAppTokenApiView'']"

definition guarded_as :: "string \<times> endpoint \<Rightarrow> bool" where
  "guarded_as e = (case e of (v, ep) \<Rightarrow>
     (ep_permission ep = Allow_Any \<longrightarrow> v \<in> set open_views) \<and>
     (ep_permission ep = Authenticated_Or_Cookie_Mode \<longrightarrow> v = ''LogoutApiView'') \<and>
     (ep_permission ep = Has_App_Token \<longleftrightarrow> v \<in> set app_token_views) \<and>
     (ep_authenticator ep = App_Token_Header \<longrightarrow> ep_permission ep = Has_App_Token) \<and>
     (v = ''AdminStatusApiView'' \<longrightarrow> ep_permission ep = Is_Admin_User) \<and>
     (v \<in> {''StaffUserListView'', ''StaffUserDetailView''} \<longrightarrow> ep_permission ep = Is_Super_User))"

lemma endpoints_guarded: "list_all guarded_as endpoints"
  by code_simp

lemma grouped_views:
  "snd ` set health_urls \<subseteq> fst ` set health_endpoints" "snd ` set auth_urls \<subseteq> fst ` set account_endpoints"
  "snd ` set device_urls \<subseteq> fst ` set device_endpoints"
  "snd ` set app_urls \<subseteq> fst ` set application_endpoints \<union> fst ` set notification_endpoints"
  "snd ` set notification_urls \<subseteq> fst ` set notification_endpoints \<union> fst ` set app_token_endpoints"
  "snd ` set billing_urls \<subseteq> fst ` set billing_endpoints" "snd ` set staff_urls \<subseteq> fst ` set account_endpoints"
  "snd ` set own_urls \<subseteq> fst ` set health_endpoints \<union> fst ` set schema_endpoints"
  by (simp_all add: health_urls_def health_endpoints_def auth_urls_def account_endpoints_def device_urls_def device_endpoints_def
      app_urls_def application_endpoints_def notification_endpoints_def notification_urls_def app_token_endpoints_def
      billing_urls_def billing_endpoints_def staff_urls_def own_urls_def schema_endpoints_def)

text \<open>Every route leads to a view whose guard is known.\<close>

lemma routes_have_endpoints: "snd ` set routes \<subseteq> fst ` set endpoints"
proof -
  have all: "fst ` set endpoints = fst ` set health_endpoints \<union> fst ` set account_endpoints \<union> fst ` set application_endpoints \<union>
      fst ` set device_endpoints \<union> fst ` set notification_endpoints \<union> fst ` set app_token_endpoints \<union>
      fst ` set billing_endpoints \<union> fst ` set schema_endpoints"
    by (simp add: endpoints_def image_Un Un_assoc)
  have "snd ` set conf \<subseteq> fst ` set endpoints" if "(p, conf) \<in> set included_urls" for p conf
  proof -
    have "conf \<in> snd ` set included_urls" by (rule image_eqI[OF _ that]) simp
    then have "conf \<in> {health_urls, auth_urls, app_urls, device_urls, notification_urls, billing_urls, staff_urls, own_urls}"
      unfolding included_urls_def list.set image_insert image_empty snd_conv .
    then show ?thesis
      unfolding all insert_iff empty_iff by (elim disjE FalseE; hypsubst) (rule subset_trans[OF grouped_views(1)] subset_trans[OF grouped_views(2)]
        subset_trans[OF grouped_views(3)] subset_trans[OF grouped_views(4)] subset_trans[OF grouped_views(5)]
        subset_trans[OF grouped_views(6)] subset_trans[OF grouped_views(7)] subset_trans[OF grouped_views(8)], blast)+
  qed
  moreover have "\<exists>p conf. (p, conf) \<in> set included_urls \<and> snd r \<in> snd ` set conf" if "r \<in> set routes" for r
    using that unfolding routes_def by force
  ultimately show ?thesis by blast
qed

lemma every_endpoint_is_throttled:
  "list_all (\<lambda>e. ep_scopes (snd e) \<noteq> [] \<and> list_all (\<lambda>k. k \<in> {''anon'', ''user'', ''login'', ''register'', ''password_reset'',
     ''password_change'', ''resend'', ''magic_link'', ''app_token''}) (ep_scopes (snd e))) endpoints"
  by code_simp

lemma resolve_in_route: "resolve_in rs path = Some (view, args) \<Longrightarrow> \<exists>p. (p, view) \<in> set rs \<and> match_route p path = Some args"
  by (induction rs) (auto split: option.splits)

lemma application_authenticated:
  assumes "authenticate_call x now how c s = (s', Inr (As_Application a))"
  shows "how = App_Token_Header \<and> a \<in> set (applications s) \<and> app_is_active a \<and>
    (\<exists>raw t. call_app_token c = Some raw \<and> t \<in> set (send_tokens s) \<and> token_hash t = sha256 x raw \<and>
       tok_application t = app_id a \<and> tok_revoked_at t = None)"
proof -
  have how: "how = App_Token_Header"
    using assms by (auto simp: authenticate_call_def split: authenticator.splits bearer.splits)
  then have g: "snd (get_application_for_raw_app_token x now (call_app_token c) s) = Granted a"
    using assms by (auto simp: authenticate_call_def app_token_authenticate_def split: prod.splits response.splits auth.splits)
  obtain raw where raw: "call_app_token c = Some raw"
    using g by (cases "call_app_token c") (auto simp: get_application_for_raw_app_token_def)
  obtain t where t: "List.find (\<lambda>t. token_hash t = sha256 x raw) (send_tokens s) = Some t" "tok_revoked_at t = None"
    "get_application s (tok_application t) = Some a" "app_is_active a"
    using g unfolding raw send_granted by blast
  have "t \<in> set (send_tokens s)" "token_hash t = sha256 x raw" using find_SomeD[OF t(1)] by simp_all
  moreover have "a \<in> set (applications s)" "app_id a = tok_application t"
    using t(3) unfolding get_application_def by (auto dest: find_SomeD)
  ultimately show ?thesis using how raw t(2,4) by metis
qed

lemma dispatch_handled:
  assumes "dispatch x now exhausted c s = (s', Handled view args who)"
  obtains ep where "resolve (call_path c) = Some (view, args)" "map_of endpoints view = Some ep"
    "authenticate_call x now (ep_authenticator ep) c s = (s', Inr who)" "has_permission (ep_permission ep) (call_http c) who"
    "\<not> list_ex exhausted (ep_scopes ep)" "call_method c \<in> set (ep_methods ep)"
  using assms by (auto simp: dispatch_def split: option.splits prod.splits sum.splits if_splits)

text \<open>
  C13. The doors of the API. Whatever path, method and headers a request has, when it reaches a view:
  nobody reaches only the thirteen open views, and the end of a session in cookie mode; a user was named
  by a valid bearer token, and reaches the status page only as staff and the console of accounts only as
  superuser; an application reaches the four views made for it only, and only with a send token that is
  stored, belongs to it and is not revoked, while it is active.
\<close>

theorem api_is_guarded:
  assumes "dispatch x now exhausted c s = (s', Handled view args who)"
  shows "case who of
      Nobody \<Rightarrow> view \<in> set open_views \<or> (view = ''LogoutApiView'' \<and> wants_cookie (call_http c))
    | Signed_In u \<Rightarrow> call_bearer c = Bearer_Of u \<and> (view = ''AdminStatusApiView'' \<longrightarrow> user_is_staff u) \<and>
        (view \<in> {''StaffUserListView'', ''StaffUserDetailView''} \<longrightarrow> user_is_superuser u) \<and> view \<notin> set app_token_views
    | As_Application a \<Rightarrow> view \<in> set app_token_views \<and> a \<in> set (applications s) \<and> app_is_active a \<and>
        (\<exists>raw t. call_app_token c = Some raw \<and> t \<in> set (send_tokens s) \<and> token_hash t = sha256 x raw \<and>
           tok_application t = app_id a \<and> tok_revoked_at t = None)"
proof -
  obtain ep where ep: "map_of endpoints view = Some ep" "authenticate_call x now (ep_authenticator ep) c s = (s', Inr who)"
    "has_permission (ep_permission ep) (call_http c) who"
    using assms by (rule dispatch_handled)
  have g: "guarded_as (view, ep)"
    using endpoints_guarded map_of_SomeD[OF ep(1)] unfolding list_all_iff by blast
  show ?thesis
  proof (cases who)
    case Nobody
    then show ?thesis using ep(3) g by (cases "ep_permission ep") (auto simp: guarded_as_def)
  next
    case (Signed_In u)
    have "call_bearer c = Bearer_Of u"
      using ep(2) unfolding Signed_In
      by (auto simp: authenticate_call_def split: authenticator.splits bearer.splits prod.splits response.splits)
    then show ?thesis using ep(3) g unfolding Signed_In by (cases "ep_permission ep") (auto simp: guarded_as_def)
  next
    case (As_Application a)
    have "view \<in> set app_token_views" using ep(3) g unfolding As_Application by (cases "ep_permission ep") (auto simp: guarded_as_def application_authenticated[OF ep(2)[unfolded As_Application]])
    then show ?thesis using application_authenticated[OF ep(2)[unfolded As_Application]] As_Application by simp
  qed
qed

lemma first_parts: "list_all (\<lambda>r. hd (split_on CHR ''/'' (fst r)) \<in> {''api'', ''health''}) routes"
  by code_simp

lemma site_paths_match_nothing:
  assumes "(pattern, view) \<in> set routes" "match_route pattern path \<noteq> None"
  shows "\<not> starts_with path ''admin/''"
proof
  assume "starts_with path ''admin/''"
  then obtain t where "path = ''admin'' @ CHR ''/'' # t" by (auto simp: starts_with_iff)
  then have "split_on CHR ''/'' path = split_on CHR ''/'' ''admin'' @ split_on CHR ''/'' t" by (simp only: split_append)
  moreover have "split_on CHR ''/'' ''admin'' = [''admin'']" by simp
  ultimately have path: "split_on CHR ''/'' path = ''admin'' # split_on CHR ''/'' t" by simp
  obtain p ps where pattern: "split_on CHR ''/'' pattern = p # ps" by (cases "split_on CHR ''/'' pattern") simp_all
  have "p \<in> {''api'', ''health''}"
    using first_parts assms(1) pattern unfolding list_all_iff by force
  then show False using assms(2) unfolding match_route_def path pattern by (auto simp: is_int_part_def starts_with_def)
qed

text \<open>
  No route hides another: a path that matches the pattern of a route is given to the view of that
  route, with the numbers it has in the places of the pattern, wherever the route stands in the lists.
\<close>

theorem no_route_hides_another:
  assumes "(pattern, view) \<in> set routes" and "match_route pattern path = Some args"
  shows "resolve path = Some (view, args)"
  using resolve_apart[OF routes_all_apart assms] site_paths_match_nothing[OF assms(1)] assms(2)
  by (simp add: resolve_def)

definition demo_call :: "string \<Rightarrow> string \<Rightarrow> bearer \<Rightarrow> api_call" where
  "demo_call meth path b = \<lparr>call_method = meth, call_path = path, call_bearer = b, call_app_token = None, call_http = demo_http\<rparr>"

lemma health_route: "(''health/'', ''HealthReadyApiView'') \<in> set routes"
  by (simp add: routes_def included_urls_def health_urls_def)

lemma logout_route: "(''api/v1/auth/logout/'', ''LogoutApiView'') \<in> set routes"
  by (simp add: routes_def included_urls_def auth_urls_def)

theorem health_is_resolved: "resolve ''health/'' = Some (''HealthReadyApiView'', [])"
  by (rule no_route_hides_another[OF health_route]) code_simp

lemma endpoint_lookups:
  "map_of endpoints ''HealthReadyApiView'' = Some (open_endpoint [''GET''] default_scopes)"
  "map_of endpoints ''LogoutApiView'' = Some ((signed_in_endpoint [''POST''])\<lparr>ep_permission := Authenticated_Or_Cookie_Mode\<rparr>)"
  by (simp_all add: endpoints_def health_endpoints_def account_endpoints_def)

theorem api_is_guarded_witness:
  "snd (dispatch demo_secrets 0 (\<lambda>_. False) (demo_call ''GET'' ''health/'' No_Bearer) empty_db) = Handled ''HealthReadyApiView'' [] Nobody \<and>
   ''HealthReadyApiView'' \<in> set open_views"
proof -
  have m: "match_route ''health/'' ''health/'' = Some []" by code_simp
  have "resolve ''health/'' = Some (''HealthReadyApiView'', [])"
    using resolve_apart[OF routes_all_apart health_route m] by (simp add: resolve_def starts_with_def)
  then have d: "dispatch demo_secrets 0 (\<lambda>_. False) (demo_call ''GET'' ''health/'' No_Bearer) empty_db =
      (empty_db, Handled ''HealthReadyApiView'' [] Nobody)"
    by (simp add: dispatch_def demo_call_def endpoint_lookups open_endpoint_def authenticate_call_def default_scopes_def)
  from api_is_guarded[OF d] have "''HealthReadyApiView'' \<in> set open_views" by simp
  then show ?thesis using d by simp
qed

text \<open>
  A browser signs out in cookie mode without a bearer token. One that still sends the token that has
  expired is turned away before the view, and its session stays.
\<close>

lemma expired_bearer_cannot_sign_out:
  assumes "call_path c = ''api/v1/auth/logout/''" "call_method c = ''POST''" "wants_cookie (call_http c)" "\<And>k. \<not> exhausted k"
  shows "call_bearer c = No_Bearer \<Longrightarrow> snd (dispatch x now exhausted c s) = Handled ''LogoutApiView'' [] Nobody"
    and "call_bearer c = Bad_Bearer code \<Longrightarrow> snd (dispatch x now exhausted c s) = Turned_Away 401 code"
proof -
  have m: "match_route ''api/v1/auth/logout/'' ''api/v1/auth/logout/'' = Some []" by code_simp
  have "resolve ''api/v1/auth/logout/'' = Some (''LogoutApiView'', [])"
    using resolve_apart[OF routes_all_apart logout_route m] by (simp add: resolve_def starts_with_def)
  note facts = this endpoint_lookups(2) assms
  show "call_bearer c = No_Bearer \<Longrightarrow> snd (dispatch x now exhausted c s) = Handled ''LogoutApiView'' [] Nobody"
    by (simp add: dispatch_def facts signed_in_endpoint_def authenticate_call_def default_scopes_def)
  show "call_bearer c = Bad_Bearer code \<Longrightarrow> snd (dispatch x now exhausted c s) = Turned_Away 401 code"
    by (simp add: dispatch_def facts signed_in_endpoint_def authenticate_call_def)
qed

end
