(* ===== verification/Spec2Isabelle.thy ===== *)
theory Spec2Isabelle
  imports Subscriptions Upkeep Startup Migrations Routes
begin

text \<open>
  A model of the PushIT server: an HTTP service through which applications notify the devices of their
  users. Applications send with a token or by mail to an address of their own; devices enrol with the
  code of an application; workers push the notifications through FCM, at once, at a date, or after the
  quiet periods of the application and of the device.

  \<^bold>\<open>The parts and how they interact.\<close> Every part works on one database, the record \<open>db\<close> of \<open>Store\<close>: a list
  of rows per table, the tasks submitted to the broker and the mails sent. An operation of the program
  is a function that takes the database (and what else it changes) and returns it with an answer; a
  request is answered with \<open>'a response\<close>: a value, a code, or the messages of the refused fields. Tasks
  that other processes run are values in \<open>broker\<close>. What the program draws at random, the clock, and every
  service outside are arguments, collected in a record of the part that uses them.

  \<^item> \<open>Prelude\<close>: Python strings, sequences, dates as integers (microseconds), answers and field errors;
    the locales \<open>loop_invariant\<close> and \<open>loop_monotone\<close> of loops over lists.
  \<^item> \<open>Store\<close>: the rows (\<open>*/models.py\<close>), the configuration, the locale \<open>table\<close> of the conditional updates by
    key, interpreted for every table, and the consistency of references.
  \<^item> \<open>Scheduling\<close> (\<open>notifications/scheduling.py\<close>): the end of a quiet period, the effective date. Local
    times are read with the rules of \<open>zoneinfo\<close> for a zone given as a function.
  \<^item> \<open>Billing\<close> (\<open>billing/\<close>): the gate and the quotas, the signed requests to the central service, the
    entitlements it pushes. \<open>Push\<close> (\<open>notifications/push.py\<close>), \<open>Webhooks\<close> (\<open>applications/url_safety.py\<close>,
    \<open>notifications/webhooks.py\<close>): the provider, and the callbacks with their guard against inner addresses.
  \<^item> \<open>Sending\<close> (\<open>notifications/services.py\<close>): a run of a worker, delivery by delivery; its retries and its
    final status. \<open>Queueing\<close>: the submission of a run by a view, with its compensation when the broker fails.
    \<open>Tasks\<close> (\<open>notifications/tasks.py\<close>, \<open>retention.py\<close>): dispatcher, watchdog, retries, purge, and the system of
    workers as a step relation.
  \<^item> \<open>Fleet\<close>: a run cut into the steps between which other processes act, and the contract each step keeps.
    \<open>History\<close>: every endpoint and beat task as a step beside the workers (\<open>fleet_step\<close>), and what holds of every
    history. \<open>Subscriptions\<close>: the device endpoints against an abstract set of subscriptions.
  \<^item> \<open>Creation\<close> (\<open>notifications/creation.py\<close>, \<open>serializers.py\<close>, \<open>api_views_templates.py\<close>): idempotent creation on
    both database backends, templates. \<open>Reading\<close> (\<open>notifications/api_views*.py\<close>): inboxes, details, lists.
  \<^item> \<open>Tokens\<close> (\<open>applications/authentication.py\<close>, \<open>crypto.py\<close>, \<open>models_send_token.py\<close>): credentials of
    applications. \<open>Devices\<close> (\<open>devices/\<close>): identification, takeover, rotation and links of devices. \<open>Periods\<close>:
    the edition of quiet periods.
  \<^item> \<open>Senders\<close> (\<open>applications/inbound_sender_policy.py\<close>, \<open>inbound_alias.py\<close>), \<open>Inbound\<close>
    (\<open>notifications/inbound_*.py\<close>), \<open>Mailbox\<close> (\<open>applications/graph_mail.py\<close>): who may send by mail, what becomes of
    a mail, the poll, and the reading of messages.
  \<^item> \<open>Exchange\<close> (\<open>exchange/\<close>) and \<open>Lifecycle\<close> (\<open>applications/models.py\<close>, \<open>api_views.py\<close>, \<open>serializers.py\<close>): the
    aliases of the mailbox; creation, addresses, tokens, logos and deletion of applications.
  \<^item> \<open>Accounts\<close> (\<open>accounts/\<close>): registration, login, links, passwords, the refresh cookie, erasure, the staff
    console. \<open>Operations\<close> (\<open>config/\<close>, \<open>health/\<close>, \<open>applications/management\<close>): errors, probes, metrics, commands.
  \<^item> \<open>Upkeep\<close>: the flush of expired tokens, users made by hand, the lines of the log, the requests to the
    billing service and to Graph, the environment of PowerShell. \<open>Startup\<close> (\<open>config/settings/\<close>): the settings
    a process starts with, or why it does not. \<open>Migrations\<close> (\<open>*/migrations/\<close>): what the data migrations do.
  \<^item> \<open>Routes\<close> (\<open>config/urls.py\<close>, \<open>*/api_urls.py\<close>): the routes, what each view asks of its caller, and the way of a
    request to its view.

  \<^bold>\<open>What the lemmas show.\<close> Safety of sending: what is pushed was allowed, one worker at a time holds a
  notification, the watchdog and the dispatcher take exactly the due rows. In every history of requests,
  beat tasks and interleaved workers, in which no run outlives the watchdog and no edit lands on a
  notification in work, a device is pushed at most once; two lemmas of \<open>History\<close> show what happens otherwise.
  Creation happens once for a key, on both backends alike. Access: no door of the API is open but those
  meant to be, tokens of one kind never serve for the
  other, revocation is immediate, devices that change hands lose their links, a stranger learns neither
  recipients nor accounts, refresh tokens stay out of scripts, sessions end with the password. State:
  applications stay apart (an invariant of a step relation over all the requests of all users), tables stay
  consistent through deletions, erasure and purge, quiet periods stay well formed. Mail: only authorised
  mail creates notifications, replies are bounded, no alias is missed, the policy refines its rules. Operation: production
  starts with its guards or not at all, the daily flush reopens nothing, every application gets a code of its
  own. Text: the conversion of HTML equals the visible text; quiet periods and sender lists are stable under reading
  and writing. The theorems that end in a failure show what the program does wrong: a delivery retried for
  ever, a mail that blocks the mailbox, an entitlement, a token or a message lost, a user locked out.

  \<^bold>\<open>Bounds and fuel.\<close> No definition runs out of fuel. Loops the code bounds are recursive over the bound:
  twelve draws of an address (\<open>max_alias_attempts\<close>; \<open>Lifecycle\<close> shows that it ends with the first acceptable
  one or an error), thirty-two shifts of a date (\<open>Scheduling\<close>: with at most that many one-time periods the
  result is exact), three attempts of a delivery, four requests of a callback. One loop has no bound, the
  drawing of codes of a migration: it is a partial function, and \<open>Migrations\<close> shows when it ends. All other
  loops run over a list that is there when they start. Integers are Python's; lengths and counts are natural
  numbers.

  \<^bold>\<open>Abstractions.\<close> Keys of all tables are drawn from one sequence. Characters are those of HOL; the upper
  and lower case of characters beyond ASCII is left as it is. A request is a step: interleavings are modelled
  where the code guards against them (workers, queueing, the poll lock, sign-in links), as explicit steps,
  and a run of a worker in the steps of \<open>Fleet\<close>.

  \<^bold>\<open>Not modelled.\<close> The counters of the throttles, which belong to the framework; a failure of the database or
  of a process between two writes of one step, except between the steps of a run; the descriptions of the API
  for its schema; the administration site; the settings only the framework reads; the libraries
  behind Graph, FCM, the central billing service, Turnstile and PowerShell, the cryptographic functions, the
  decoders of images and QR codes, the HTML tokenizer and the address parser, which are parameters; the
  migrations that only declare tables, deployment files and the scripts that drive a server from outside.
\<close>

end
